(* ===== verification/C_Base.thy ===== *)
theory C_Base
  imports Main "HOL-Library.Word"
begin

text \<open>
  The prelude: the part of C and of its standard library that the Radmind sources use.
  C strings are HOL strings without their terminating NUL; the end of the list is the
  terminator, and a read past it is undefined behaviour, kept as a value of \<open>outcome\<close>.
  Plain \<open>char\<close> is signed (the usual ABI of the platforms the sources are built for), the
  locale is the C locale, \<open>int\<close> has 32 and \<open>long\<close>, \<open>time_t\<close> and \<open>off_t\<close> have 64 bits.
\<close>

section \<open>Outcomes of C code\<close>

text \<open>
  A piece of code returns a value, ends the process with \<open>exit( n )\<close>, or runs into
  undefined behaviour (a read or write outside an object, the use of a freed object).
\<close>

datatype 'a outcome = Ret 'a | Exit int | UB

fun obind :: "'a outcome \<Rightarrow> ('a \<Rightarrow> 'b outcome) \<Rightarrow> 'b outcome" where
  "obind (Ret x) f = f x"
| "obind (Exit n) f = Exit n"
| "obind UB f = UB"

named_theorems outcome_simps
named_theorems c_defs

lemma obind_Ret_iff [outcome_simps]:
  "obind m f = Ret y \<longleftrightarrow> (\<exists>x. m = Ret x \<and> f x = Ret y)"
  by (cases m) auto

lemma obind_UB_iff [outcome_simps]:
  "obind m f = UB \<longleftrightarrow> m = UB \<or> (\<exists>x. m = Ret x \<and> f x = UB)"
  by (cases m) auto

lemma obind_Exit_iff [outcome_simps]:
  "obind m f = Exit n \<longleftrightarrow> m = Exit n \<or> (\<exists>x. m = Ret x \<and> f x = Exit n)"
  by (cases m) auto

lemma obind_assoc: "obind (obind m f) g = obind m (\<lambda>x. obind (f x) g)"
  by (cases m) auto

lemma obind_cong [fundef_cong]:
  "m = m' \<Longrightarrow> (\<And>x. m' = Ret x \<Longrightarrow> f x = f' x) \<Longrightarrow> obind m f = obind m' f'"
  by (cases m') auto

text \<open>
  Whatever a piece of code returns has the property \<open>P\<close>: the rules follow the shape of the
  code, so that a proof about a long handler visits each of its branches once.
\<close>

definition all_ret :: "('a \<Rightarrow> bool) \<Rightarrow> 'a outcome \<Rightarrow> bool" where
  "all_ret P m \<longleftrightarrow> (\<forall>x. m = Ret x \<longrightarrow> P x)"

named_theorems all_ret_rules

lemma all_retD: "all_ret P m \<Longrightarrow> m = Ret x \<Longrightarrow> P x"
  by (simp add: all_ret_def)

lemma all_ret_end [simp, all_ret_rules]:
  "all_ret P (Exit n)" "all_ret P UB"
  by (simp_all add: all_ret_def)

lemma all_ret_Ret [simp]: "all_ret P (Ret x) \<longleftrightarrow> P x"
  by (simp add: all_ret_def)

lemma all_ret_bind [all_ret_rules]:
  "(\<And>x. m = Ret x \<Longrightarrow> all_ret P (f x)) \<Longrightarrow> all_ret P (obind m f)"
  by (auto simp: all_ret_def obind_Ret_iff)

lemma all_ret_if [all_ret_rules]:
  "(b \<Longrightarrow> all_ret P x) \<Longrightarrow> (\<not> b \<Longrightarrow> all_ret P y) \<Longrightarrow> all_ret P (if b then x else y)"
  by simp

lemma all_ret_option [all_ret_rules]:
  "(v = None \<Longrightarrow> all_ret P x) \<Longrightarrow> (\<And>a. v = Some a \<Longrightarrow> all_ret P (f a)) \<Longrightarrow>
     all_ret P (case v of None \<Rightarrow> x | Some a \<Rightarrow> f a)"
  by (cases v) simp_all

lemma all_ret_prod [all_ret_rules]:
  "(\<And>a b. p = (a, b) \<Longrightarrow> all_ret P (f a b)) \<Longrightarrow> all_ret P (case p of (a, b) \<Rightarrow> f a b)"
  by (cases p) simp

section \<open>Limits and characters\<close>

definition MAXPATHLEN :: nat where
  "MAXPATHLEN = 4096"

abbreviation NUL :: char where "NUL \<equiv> CHR 0x00"
abbreviation TAB :: char where "TAB \<equiv> CHR 0x09"
abbreviation NL :: char where "NL \<equiv> CHR 0x0A"
abbreviation CR :: char where "CR \<equiv> CHR 0x0D"
abbreviation SP :: char where "SP \<equiv> CHR 0x20"
abbreviation BSL :: char where "BSL \<equiv> CHR 0x5C"
abbreviation SLASH :: char where "SLASH \<equiv> CHR 0x2F"

text \<open>A C string: what a buffer holds up to its first NUL.\<close>

definition c_string :: "string \<Rightarrow> bool" where
  "c_string s \<longleftrightarrow> NUL \<notin> set s"

definition cstr :: "string \<Rightarrow> string" where
  "cstr b = takeWhile (\<lambda>c. c \<noteq> NUL) b"

lemma cstr_append_NUL: "c_string s \<Longrightarrow> cstr (s @ NUL # t) = s"
  by (auto simp: cstr_def c_string_def takeWhile_tail)

lemma cstr_id: "c_string s \<Longrightarrow> cstr s = s"
  by (auto simp: cstr_def c_string_def takeWhile_eq_all_conv)

lemma c_string_cstr [simp, intro]: "c_string (cstr b)"
  by (auto simp: cstr_def c_string_def dest: set_takeWhileD)

lemma c_string_simps [simp]:
  "c_string []" "c_string (c # s) \<longleftrightarrow> c \<noteq> NUL \<and> c_string s"
  "c_string (s @ t) \<longleftrightarrow> c_string s \<and> c_string t"
  by (auto simp: c_string_def)

definition uchar :: "char \<Rightarrow> int" where
  "uchar c = of_char c"

definition schar :: "char \<Rightarrow> int" where
  "schar c = (let n = of_char c in if n < 128 then n else n - 256)"

definition c_isdigit :: "char \<Rightarrow> bool" where
  "c_isdigit c \<longleftrightarrow> (let n = (of_char c :: nat) in 48 \<le> n \<and> n \<le> 57)"

definition c_isspace :: "char \<Rightarrow> bool" where
  "c_isspace c \<longleftrightarrow> (let n = (of_char c :: nat) in n = 32 \<or> (9 \<le> n \<and> n \<le> 13))"

definition c_tolower :: "char \<Rightarrow> char" where
  "c_tolower c = (let n = (of_char c :: nat) in if 65 \<le> n \<and> n \<le> 90 then char_of (n + 32) else c)"

lemma uchar_inj [simp]: "uchar c = uchar d \<longleftrightarrow> c = d"
  by (simp add: uchar_def)

lemma uchar_range: "0 \<le> uchar c" "uchar c < 256"
proof -
  have "(of_char c :: nat) \<in> range of_char" by simp
  then have "(of_char c :: nat) < 256" by (simp only: range_nat_of_char) simp
  moreover have "uchar c = int (of_char c)"
    by (simp add: uchar_def of_nat_of_char)
  ultimately show "0 \<le> uchar c" and "uchar c < 256" by simp_all
qed

lemma uchar_NUL [simp]: "uchar NUL = 0"
  by (simp add: uchar_def)

lemma uchar_eq_0 [simp]: "uchar c = 0 \<longleftrightarrow> c = NUL"
  using uchar_inj [of c NUL] by simp

lemma of_char_c_tolower:
  "(of_char (c_tolower c) :: nat) =
     (if 65 \<le> (of_char c :: nat) \<and> (of_char c :: nat) \<le> 90 then of_char c + 32 else of_char c)"
  by (simp add: c_tolower_def Let_def of_char_of take_bit_eq_mod)

lemma c_tolower_eq_code:
  assumes "(of_char d :: nat) < 65"
  shows "c_tolower c = d \<longleftrightarrow> c = d"
proof
  assume "c_tolower c = d"
  with assms have "(of_char c :: nat) = of_char d"
    using of_char_c_tolower [of c] by (simp split: if_split_asm)
  then show "c = d" by (simp only: of_char_eq_iff)
qed (use assms in \<open>simp add: c_tolower_def\<close>)

lemma c_tolower_eq_NUL [simp]: "c_tolower c = NUL \<longleftrightarrow> c = NUL"
  by (rule c_tolower_eq_code) simp

lemma c_tolower_eq_SLASH [simp]: "c_tolower c = SLASH \<longleftrightarrow> c = SLASH"
  by (rule c_tolower_eq_code) simp

lemma c_tolower_NUL [simp]: "c_tolower NUL = NUL"
  by simp

section \<open>String functions\<close>

text \<open>
  \<open>strcmp\<close> and its kin return a negative, zero or positive \<open>int\<close>; every caller reads only
  the sign, and the model returns the difference of the first differing characters.
\<close>

fun strcmp :: "string \<Rightarrow> string \<Rightarrow> int" where
  "strcmp [] [] = 0"
| "strcmp [] (b # bs) = - uchar b"
| "strcmp (a # as) [] = uchar a"
| "strcmp (a # as) (b # bs) = (if a = b then strcmp as bs else uchar a - uchar b)"

fun strcasecmp :: "string \<Rightarrow> string \<Rightarrow> int" where
  "strcasecmp [] [] = 0"
| "strcasecmp [] (b # bs) = - uchar (c_tolower b)"
| "strcasecmp (a # as) [] = uchar (c_tolower a)"
| "strcasecmp (a # as) (b # bs) =
     (if c_tolower a = c_tolower b then strcasecmp as bs
      else uchar (c_tolower a) - uchar (c_tolower b))"

definition strncmp :: "string \<Rightarrow> string \<Rightarrow> nat \<Rightarrow> int" where
  "strncmp s t n = strcmp (take n s) (take n t)"

definition strncasecmp :: "string \<Rightarrow> string \<Rightarrow> nat \<Rightarrow> int" where
  "strncasecmp s t n = strcasecmp (take n s) (take n t)"

lemma strcmp_0: "c_string s \<Longrightarrow> c_string t \<Longrightarrow> strcmp s t = 0 \<longleftrightarrow> s = t"
  by (induction s t rule: strcmp.induct) auto

lemma strcmp_refl [simp]: "strcmp s s = 0"
  by (induction s) auto

text \<open>\<open>strstr( s, t ) != NULL\<close>.\<close>

fun strstr :: "string \<Rightarrow> string \<Rightarrow> bool" where
  "strstr [] t = (t = [])"
| "strstr (c # s) t = (take (length t) (c # s) = t \<or> strstr s t)"

lemma strstr_iff: "strstr s t \<longleftrightarrow> (\<exists>u v. s = u @ t @ v)"
proof (induction s)
  case Nil
  then show ?case by simp
next
  case (Cons c s)
  have "take (length t) (c # s) = t \<longleftrightarrow> (\<exists>v. c # s = t @ v)"
    by (metis append_eq_conv_conj append_take_drop_id)
  with Cons show ?case
    by (auto simp: Cons_eq_append_conv)
qed

text \<open>
  \<open>strrchr( s, c )\<close>: \<open>Some ( pre, post )\<close> when the last \<open>c\<close> of \<open>s\<close> stands between
  \<open>pre\<close> and \<open>post\<close>.
\<close>

fun strrchr :: "string \<Rightarrow> char \<Rightarrow> (string \<times> string) option" where
  "strrchr [] c = None"
| "strrchr (x # s) c =
     (case strrchr s c of
        Some (u, v) \<Rightarrow> Some (x # u, v)
      | None \<Rightarrow> if x = c then Some ([], s) else None)"

lemma strrchr_None_iff [simp]: "strrchr s c = None \<longleftrightarrow> c \<notin> set s"
  by (induction s) (auto split: option.splits)

lemma strrchr_SomeD: "strrchr s c = Some (u, v) \<Longrightarrow> s = u @ c # v \<and> c \<notin> set v"
  by (induction s arbitrary: u) (auto split: option.splits if_splits)

text \<open>
  \<open>snprintf( buf, n, ... ) >= n\<close> is the only use of the result: \<open>None\<close> stands for it.
\<close>

definition snprintf :: "nat \<Rightarrow> string \<Rightarrow> string option" where
  "snprintf n s = (if n \<le> length s then None else Some s)"

lemma snprintf_Some_iff [simp]: "snprintf n s = Some t \<longleftrightarrow> t = s \<and> length s < n"
  by (auto simp: snprintf_def)

lemma snprintf_None_iff [simp]: "snprintf n s = None \<longleftrightarrow> n \<le> length s"
  by (simp add: snprintf_def)

text \<open>
  \<open>fgets( line, n, f )\<close> on the unread rest of a text file: up to and with the next
  newline, at most \<open>n - 1\<close> characters; \<open>None\<close> at the end of the file.
\<close>

definition fgets :: "nat \<Rightarrow> string \<Rightarrow> (string \<times> string) option" where
  "fgets n s =
     (if s = [] then None
      else let k = min (n - 1) (Suc (length (takeWhile (\<lambda>c. c \<noteq> NL) s)))
           in Some (take k s, drop k s))"

lemma fgets_shrinks: "fgets n s = Some (l, r) \<Longrightarrow> 1 < n \<Longrightarrow> length r < length s"
  by (auto simp: fgets_def Let_def split: if_splits)

lemma fgets_append: "fgets n s = Some (l, r) \<Longrightarrow> s = l @ r"
  by (auto simp: fgets_def Let_def split: if_splits)

lemma fgets_line:
  assumes "NL \<notin> set l" and "Suc (length l) < n"
  shows "fgets n (l @ NL # r) = Some (l @ [NL], r)"
proof -
  have "takeWhile (\<lambda>c. c \<noteq> NL) (l @ NL # r) = l"
    using assms(1) by (auto simp: takeWhile_tail)
  moreover have "min (n - 1) (Suc (length l)) = Suc (length l)"
    using assms(2) by (intro min_absorb2) simp
  ultimately show ?thesis by (simp add: fgets_def Let_def)
qed

end
