(* ===== verification/Escape.thy ===== *)
theory Escape
  imports C_Base
begin

text \<open>
  \<open>code.c\<close>: the escaping of blanks and backslashes in paths. \<open>encode\<close> and \<open>decode\<close>
  write into static buffers of \<open>2 * MAXPATHLEN\<close> and \<open>MAXPATHLEN\<close> characters; what
  \<open>decode\<close> leaves in its buffer is an argument and a result of the model, since an
  unknown escape keeps the character a previous call wrote at that place.
\<close>

section \<open>Encoding\<close>

definition encode_char :: "bool \<Rightarrow> char \<Rightarrow> string" where
  "encode_char shell_spaces c =
     (if c = SP then [BSL, if shell_spaces then SP else CHR ''b'']
      else if c = TAB then [BSL, CHR ''t'']
      else if c = NL then [BSL, CHR ''n'']
      else if c = CR then [BSL, CHR ''r'']
      else if c = BSL then [BSL, BSL]
      else [c])"

fun encode_text :: "bool \<Rightarrow> string \<Rightarrow> string" where
  "encode_text sh [] = []"
| "encode_text sh (c # s) = encode_char sh c @ encode_text sh s"

text \<open>
  The length check is on the input; the terminating NUL does not fit when the result has
  \<open>2 * MAXPATHLEN\<close> characters.
\<close>

definition encode_internal :: "string \<Rightarrow> bool \<Rightarrow> string option outcome" where
  "encode_internal line shell_spaces =
     (if MAXPATHLEN < length line then Ret None
      else let t = encode_text shell_spaces line
           in if 2 * MAXPATHLEN \<le> length t then UB else Ret (Some t))"

definition encode :: "string \<Rightarrow> string option outcome" where
  "encode line = encode_internal line False"

definition encode_space :: "string \<Rightarrow> string option outcome" where
  "encode_space line = encode_internal line True"

section \<open>Decoding\<close>

text \<open>The inner \<open>switch\<close>: an unknown escape leaves the old character of the buffer.\<close>

definition unescape :: "char \<Rightarrow> char \<Rightarrow> char" where
  "unescape e old =
     (if e = CHR ''n'' then NL
      else if e = CHR ''t'' then TAB
      else if e = CHR ''b'' \<or> e = SP then SP
      else if e = CHR ''r'' then CR
      else if e = BSL then BSL
      else old)"

text \<open>
  The loop over \<open>line\<close> and over the buffer from \<open>temp\<close> on: \<open>Ret (b, True)\<close> is the new
  content of the buffer after the closing \<open>*temp = 0\<close>, \<open>Ret (b, False)\<close> is the return of
  NULL at \<open>temp >= end\<close>. With the buffer full and the line at its end the closing NUL is
  written past the buffer; after a backslash that ends the line the loop reads on past the
  terminator. Both are undefined.
\<close>

fun decode_loop :: "string \<Rightarrow> string \<Rightarrow> (string \<times> bool) outcome" where
  "decode_loop [] [] = UB"
| "decode_loop [] (d # buf) = Ret (NUL # buf, True)"
| "decode_loop (c # line) [] = Ret ([], False)"
| "decode_loop (c # line) (d # buf) =
     (if c = BSL
      then (case line of
              [] \<Rightarrow> UB
            | e # line' \<Rightarrow>
                obind (decode_loop line' buf) (\<lambda>(b, ok). Ret (unescape e d # b, ok)))
      else obind (decode_loop line buf) (\<lambda>(b, ok). Ret (c # b, ok)))"

definition decode :: "string \<Rightarrow> string \<Rightarrow> (string option \<times> string) outcome" where
  "decode line buf =
     (if 2 * MAXPATHLEN < length line then Ret (None, buf)
      else obind (decode_loop line buf)
             (\<lambda>(b, ok). Ret (if ok then Some (cstr b) else None, b)))"

text \<open>The buffer at program start: static storage is zero.\<close>

definition decode_buf0 :: string where
  "decode_buf0 = replicate MAXPATHLEN NUL"

lemma length_decode_buf0 [simp]: "length decode_buf0 = MAXPATHLEN"
  by (simp add: decode_buf0_def)

section \<open>Well-formed escapes\<close>

definition known_escape :: "char \<Rightarrow> bool" where
  "known_escape e \<longleftrightarrow> e \<in> {CHR ''n'', CHR ''t'', CHR ''b'', SP, CHR ''r'', BSL}"

fun well_escaped :: "string \<Rightarrow> bool" where
  "well_escaped [] = True"
| "well_escaped (c # s) =
     (if c = BSL then (case s of [] \<Rightarrow> False | e # s' \<Rightarrow> known_escape e \<and> well_escaped s')
      else well_escaped s)"

text \<open>What a well-formed text stands for, without a buffer.\<close>

fun unescaped :: "string \<Rightarrow> string" where
  "unescaped [] = []"
| "unescaped (c # s) =
     (if c = BSL then (case s of [] \<Rightarrow> [] | e # s' \<Rightarrow> unescape e NUL # unescaped s')
      else c # unescaped s)"

lemma unescape_known: "known_escape e \<Longrightarrow> unescape e d = unescape e d'"
  by (auto simp: known_escape_def unescape_def)

lemma unescape_known_not_NUL: "known_escape e \<Longrightarrow> unescape e d \<noteq> NUL"
  by (auto simp: known_escape_def unescape_def)

lemma well_escaped_induct [consumes 1, case_names Nil Esc Plain]:
  assumes "well_escaped s" and "P []"
    and esc: "\<And>e s. known_escape e \<Longrightarrow> well_escaped s \<Longrightarrow> P s \<Longrightarrow> P (BSL # e # s)"
    and plain: "\<And>c s. c \<noteq> BSL \<Longrightarrow> well_escaped s \<Longrightarrow> P s \<Longrightarrow> P (c # s)"
  shows "P s"
  using assms(1)
proof (induction s rule: unescaped.induct)
  case 1
  show ?case by (rule assms(2))
next
  case (2 c s)
  show ?case
  proof (cases "c = BSL")
    case True
    with "2.prems" obtain e s' where s: "s = e # s'" "known_escape e" "well_escaped s'"
      by (cases s) simp_all
    with True "2.IH"(1) [OF True s(1) s(3)] show ?thesis by (simp add: esc)
  next
    case False
    with "2.prems" "2.IH"(2) show ?thesis by (simp add: plain)
  qed
qed

lemma decode_loop_well_escaped:
  "well_escaped s \<Longrightarrow> length (unescaped s) < length buf \<Longrightarrow>
     decode_loop s buf = Ret (unescaped s @ NUL # drop (Suc (length (unescaped s))) buf, True)"
proof (induction s arbitrary: buf rule: well_escaped_induct)
  case Nil
  then show ?case by (cases buf) simp_all
next
  case (Esc e s)
  then obtain d buf' where "buf = d # buf'" by (cases buf) simp_all
  with Esc unescape_known [OF Esc.hyps(1), of d NUL] show ?case by simp
next
  case (Plain c s)
  then obtain d buf' where "buf = d # buf'" by (cases buf) simp_all
  with Plain show ?case by simp
qed

lemma length_well_escaped: "well_escaped s \<Longrightarrow> length s \<le> 2 * length (unescaped s)"
  by (induction s rule: well_escaped_induct) simp_all

lemma c_string_unescaped: "well_escaped s \<Longrightarrow> c_string s \<Longrightarrow> c_string (unescaped s)"
  by (induction s rule: well_escaped_induct) (simp_all add: unescape_known_not_NUL)

lemma length_unescaped: "length (unescaped s) \<le> length s"
  by (induction s rule: unescaped.induct) (auto split: list.splits)

text \<open>
  On well-formed input that fits, the answer does not depend on what the buffer held.
\<close>

lemma decode_well_escaped:
  assumes "well_escaped s" "c_string s" "length (unescaped s) < length buf"
    and "length s \<le> 2 * MAXPATHLEN"
  shows "\<exists>buf'. decode s buf = Ret (Some (unescaped s), buf') \<and> length buf' = length buf"
  using assms
  by (auto simp: decode_def decode_loop_well_escaped cstr_append_NUL c_string_unescaped)

lemma decode_loop_length: "decode_loop s buf = Ret (b, ok) \<Longrightarrow> length b = length buf"
  by (induction s buf arbitrary: b ok rule: decode_loop.induct)
    (auto simp: obind_Ret_iff split: if_splits list.splits)

lemma decode_length: "decode s buf = Ret (r, buf') \<Longrightarrow> length buf' = length buf"
  by (auto simp: decode_def obind_Ret_iff split: if_splits dest: decode_loop_length)

lemma decode_c_string: "decode s buf = Ret (Some t, buf') \<Longrightarrow> c_string t"
  by (auto simp: decode_def obind_Ret_iff split: if_splits)

lemma decode_Some_short:
  assumes "decode s buf = Ret (Some t, buf')"
  shows "length t < length buf"
proof -
  from assms obtain b where b: "decode_loop s buf = Ret (b, True)" and t: "t = cstr b"
    by (auto simp: decode_def obind_Ret_iff split: if_splits)
  from b have "NUL \<in> set b"
    by (induction s buf arbitrary: b rule: decode_loop.induct)
      (auto simp: obind_Ret_iff split: if_splits list.splits)
  then have "length (cstr b) < length b"
    by (induction b) (auto simp: cstr_def)
  with decode_loop_length [OF b] t show ?thesis by simp
qed

section \<open>Encoding gives well-formed text without separators\<close>

lemma well_escaped_encode_text: "well_escaped (encode_text sh s)"
  by (induction s) (auto simp: encode_char_def known_escape_def)

lemma unescaped_encode_text: "unescaped (encode_text sh s) = s"
  by (induction s) (auto simp: encode_char_def unescape_def)

lemma c_string_encode_text: "c_string s \<Longrightarrow> c_string (encode_text sh s)"
  by (induction s) (auto simp: encode_char_def)

lemma length_encode_text: "length (encode_text sh s) \<le> 2 * length s"
  by (induction s) (auto simp: encode_char_def)

lemma encode_text_Nil_iff [simp]: "encode_text sh s = [] \<longleftrightarrow> s = []"
  by (cases s) (auto simp: encode_char_def)

lemma encode_internal_short:
  "length line < MAXPATHLEN \<Longrightarrow> encode_internal line sh = Ret (Some (encode_text sh line))"
  using length_encode_text [of sh line]
  by (simp add: encode_internal_def Let_def)

section \<open>The codec interface\<close>

text \<open>
  What the programs rely on: a name that fits in a path buffer comes back from the
  encoding, whatever the decoder's static buffer holds. Everything that writes names to a
  transcript or to the server and everything that reads them uses only this.
\<close>

locale codec =
  fixes enc :: "string \<Rightarrow> string option outcome"
  assumes enc_total: "c_string s \<Longrightarrow> length s < MAXPATHLEN \<Longrightarrow>
      \<exists>e. enc s = Ret (Some e) \<and> c_string e \<and> well_escaped e \<and> unescaped e = s"
begin

lemma dec_enc:
  assumes "c_string s" "length s < MAXPATHLEN" "length buf = MAXPATHLEN" "enc s = Ret (Some e)"
  shows "\<exists>buf'. decode e buf = Ret (Some s, buf') \<and> length buf' = MAXPATHLEN"
proof -
  obtain e' where "enc s = Ret (Some e')" "c_string e'" "well_escaped e'" "unescaped e' = s"
    using enc_total [OF assms(1,2)] by blast
  with assms(4) have e: "c_string e" "well_escaped e" "unescaped e = s" by simp_all
  have "length e \<le> 2 * length (unescaped e)"
    by (rule length_well_escaped) (rule e(2))
  with e assms(2) have "length e \<le> 2 * MAXPATHLEN" by simp
  with decode_well_escaped [OF e(2,1), of buf] e(3) assms(2,3) show ?thesis by simp
qed

lemma enc_inj:
  assumes "c_string s" "length s < MAXPATHLEN" "c_string t" "length t < MAXPATHLEN" "enc s = enc t"
  shows "s = t"
  using enc_total [OF assms(1,2)] enc_total [OF assms(3,4)] assms(5) by auto

end

interpretation plain_codec: codec encode
proof
  fix s :: string
  assume "c_string s" "length s < MAXPATHLEN"
  then show "\<exists>e. encode s = Ret (Some e) \<and> c_string e \<and> well_escaped e \<and> unescaped e = s"
    by (simp add: encode_def encode_internal_short c_string_encode_text
        well_escaped_encode_text unescaped_encode_text)
qed

interpretation shell_codec: codec encode_space
proof
  fix s :: string
  assume "c_string s" "length s < MAXPATHLEN"
  then show "\<exists>e. encode_space s = Ret (Some e) \<and> c_string e \<and> well_escaped e \<and> unescaped e = s"
    by (simp add: encode_space_def encode_internal_short c_string_encode_text
        well_escaped_encode_text unescaped_encode_text)
qed

end
