(* ===== verification/C_Num.thy ===== *)
theory C_Num
  imports C_Base
begin

text \<open>
  Numbers as text: the conversions of \<open>printf\<close> the sources use (\<open>%d\<close>, \<open>%o\<close>, field
  widths and precision) and \<open>strtol\<close>, \<open>atoi\<close> and their 64-bit kin, with the lemmas that
  reading back what was printed gives the number.
\<close>

section \<open>Printing\<close>

definition digit_char :: "nat \<Rightarrow> char" where
  "digit_char d = char_of (48 + d)"

function digits :: "nat \<Rightarrow> nat \<Rightarrow> string" where
  "digits b n = (if n < b \<or> b < 2 then [digit_char n] else digits b (n div b) @ [digit_char (n mod b)])"
  by pat_completeness auto
termination
  by (relation "measure snd") (auto simp: div_less_dividend)

declare digits.simps [simp del]

definition print_int :: "int \<Rightarrow> string" where
  "print_int i = (if i < 0 then CHR ''-'' # digits 10 (nat (- i)) else digits 10 (nat i))"

definition print_oct :: "nat \<Rightarrow> string" where
  "print_oct n = digits 8 n"

text \<open>\<open>%5d\<close>, \<open>%-37s\<close>, \<open>%.4lo\<close>.\<close>

definition pad_left :: "nat \<Rightarrow> string \<Rightarrow> string" where
  "pad_left w s = replicate (w - length s) SP @ s"

definition pad_right :: "nat \<Rightarrow> string \<Rightarrow> string" where
  "pad_right w s = s @ replicate (w - length s) SP"

definition zero_pad :: "nat \<Rightarrow> string \<Rightarrow> string" where
  "zero_pad w s = replicate (w - length s) (CHR ''0'') @ s"

section \<open>Reading\<close>

definition digit_val :: "char \<Rightarrow> nat" where
  "digit_val c = of_char c - 48"

definition is_digit_base :: "nat \<Rightarrow> char \<Rightarrow> bool" where
  "is_digit_base b c \<longleftrightarrow> c_isdigit c \<and> digit_val c < b"

text \<open>The bases in use are 8 and 10, so letters are never digits.\<close>

fun digits_val :: "nat \<Rightarrow> nat \<Rightarrow> string \<Rightarrow> nat" where
  "digits_val b acc [] = acc"
| "digits_val b acc (c # s) =
     (if is_digit_base b c then digits_val b (acc * b + digit_val c) s else acc)"

definition strtol_raw :: "nat \<Rightarrow> string \<Rightarrow> int" where
  "strtol_raw b s =
     (case dropWhile c_isspace s of
        [] \<Rightarrow> 0
      | c # t \<Rightarrow>
          if c = CHR ''-'' then - int (digits_val b 0 t)
          else if c = CHR ''+'' then int (digits_val b 0 t)
          else int (digits_val b 0 (c # t)))"

text \<open>\<open>strtol\<close> and \<open>strtoll\<close> saturate at the ends of a 64-bit range.\<close>

definition strtol :: "nat \<Rightarrow> string \<Rightarrow> int" where
  "strtol b s = max (- (2 ^ 63)) (min (2 ^ 63 - 1) (strtol_raw b s))"

text \<open>\<open>atoi\<close> is \<open>(int) strtol( s, NULL, 10 )\<close>, the low 32 bits of it.\<close>

definition atoi :: "string \<Rightarrow> 32 word" where
  "atoi s = word_of_int (strtol 10 s)"

section \<open>Reading back what was printed\<close>

lemma of_char_digit_char: "d < 10 \<Longrightarrow> (of_char (digit_char d) :: nat) = 48 + d"
  by (simp add: digit_char_def of_char_of take_bit_eq_mod)

lemma digit_char_simps [simp]:
  assumes "d < 10"
  shows "c_isdigit (digit_char d)" "digit_val (digit_char d) = d"
    "\<not> c_isspace (digit_char d)" "digit_char d \<noteq> CHR ''-''" "digit_char d \<noteq> CHR ''+''"
proof -
  note v = of_char_digit_char [OF assms]
  show "c_isdigit (digit_char d)" "digit_val (digit_char d) = d" "\<not> c_isspace (digit_char d)"
    using v assms by (simp_all add: c_isdigit_def digit_val_def c_isspace_def)
  show "digit_char d \<noteq> CHR ''-''" "digit_char d \<noteq> CHR ''+''"
    using v by auto
qed

lemma digits_nonempty [simp]: "digits b n \<noteq> []"
  by (subst digits.simps) simp

lemma digits_all:
  "2 \<le> b \<Longrightarrow> b \<le> 10 \<Longrightarrow> c \<in> set (digits b n) \<Longrightarrow> \<exists>d < b. c = digit_char d"
proof (induction b n rule: digits.induct)
  case (1 b n)
  show ?case
  proof (cases "n < b")
    case True
    with "1.prems" show ?thesis by (subst (asm) digits.simps) auto
  next
    case False
    with "1.prems" have "c \<in> set (digits b (n div b)) \<or> c = digit_char (n mod b)"
      by (subst (asm) digits.simps) auto
    with False "1.prems" "1.IH" show ?thesis by (auto intro: exI [of _ "n mod b"])
  qed
qed

lemma digits_val_append:
  "\<forall>c \<in> set s. is_digit_base b c \<Longrightarrow> digits_val b acc (s @ t) = digits_val b (digits_val b acc s) t"
  by (induction s arbitrary: acc) auto

lemma digits_base:
  "2 \<le> b \<Longrightarrow> b \<le> 10 \<Longrightarrow> \<forall>c \<in> set (digits b n). is_digit_base b c"
  by (auto dest!: digits_all simp: is_digit_base_def)

lemma digits_val_digits:
  "2 \<le> b \<Longrightarrow> b \<le> 10 \<Longrightarrow> digits_val b 0 (digits b n) = n"
proof (induction b n rule: digits.induct)
  case (1 b n)
  show ?case
  proof (cases "n < b")
    case True
    with "1.prems" show ?thesis by (subst digits.simps) (simp add: is_digit_base_def)
  next
    case False
    with "1.prems" have "digits b n = digits b (n div b) @ [digit_char (n mod b)]"
      by (subst digits.simps) simp
    moreover have "n mod b < b" "n mod b < 10"
      using "1.prems" mod_less_divisor [of b n] by linarith+
    ultimately show ?thesis
      using False "1.prems" "1.IH" digits_base [of b "n div b"]
      by (simp add: digits_val_append is_digit_base_def)
  qed
qed

lemma digits_val_zeros:
  "0 < b \<Longrightarrow> digits_val b 0 (replicate k (CHR ''0'') @ s) = digits_val b 0 s"
  by (induction k) (simp_all add: is_digit_base_def c_isdigit_def digit_val_def)

text \<open>A printed number followed by nothing or by a space reads back.\<close>

lemma digits_hd:
  assumes "2 \<le> b" "b \<le> 10"
  obtains d t where "d < b" "digits b n = digit_char d # t"
proof -
  obtain c t where "digits b n = c # t" by (cases "digits b n") auto
  with digits_all [OF assms, of c n] that show ?thesis by auto
qed

lemma strtol_raw_digits:
  assumes "2 \<le> b" "b \<le> 10"
  shows "strtol_raw b (digits b n) = int n"
proof -
  obtain d t where d: "d < b" "digits b n = digit_char d # t"
    using digits_hd [OF assms] by metis
  with assms have "d < 10" by simp
  with d show ?thesis
    using digits_val_digits [OF assms, of n] by (simp add: strtol_raw_def)
qed

lemma strtol_raw_print_int: "strtol_raw 10 (print_int i) = i"
proof (cases "i < 0")
  case True
  then show ?thesis
    by (simp add: print_int_def strtol_raw_def c_isspace_def digits_val_digits)
next
  case False
  then show ?thesis by (simp add: print_int_def strtol_raw_digits)
qed

lemma strtol_print_int:
  "- (2 ^ 63) \<le> i \<Longrightarrow> i < 2 ^ 63 \<Longrightarrow> strtol 10 (print_int i) = i"
  by (simp add: strtol_def strtol_raw_print_int)

lemma strtol_raw_zero_pad_oct: "strtol_raw 8 (zero_pad w (print_oct n)) = int n"
proof (cases "w - length (digits 8 n)")
  case 0
  then show ?thesis by (simp add: zero_pad_def print_oct_def strtol_raw_digits)
next
  case (Suc k)
  have "digits_val 8 0 (replicate (Suc k) (CHR ''0'') @ digits 8 n) = n"
    by (simp add: digits_val_zeros digits_val_digits del: replicate_Suc)
  with Suc show ?thesis
    by (simp add: zero_pad_def print_oct_def strtol_raw_def c_isspace_def)
qed

lemma strtol_zero_pad_oct: "n < 2 ^ 63 \<Longrightarrow> strtol 8 (zero_pad w (print_oct n)) = int n"
  by (simp add: strtol_def strtol_raw_zero_pad_oct min_def max_def)

lemma atoi_print_sint: "atoi (print_int (sint (w :: 32 word))) = w"
proof -
  have "- (2 ^ 31) \<le> sint w" "sint w < 2 ^ 31"
    using sint_ge [of w] sint_lt [of w] by simp_all
  then show ?thesis by (simp add: atoi_def strtol_print_int)
qed

text \<open>Numbers followed by other text.\<close>

lemma is_digit_10 [simp]: "is_digit_base 10 c \<longleftrightarrow> c_isdigit c"
  by (auto simp: is_digit_base_def c_isdigit_def digit_val_def Let_def)

lemma digits_val_takeWhile:
  "digits_val 10 acc s = digits_val 10 acc (takeWhile c_isdigit s)"
  by (induction s arbitrary: acc) simp_all

lemma c_isdigit_not:
  "c_isdigit c \<Longrightarrow> \<not> c_isspace c \<and> c \<noteq> CHR ''-'' \<and> c \<noteq> CHR ''+''"
  by (auto simp: c_isdigit_def c_isspace_def Let_def)

lemma strtol_raw_digit_start:
  "s \<noteq> [] \<Longrightarrow> c_isdigit (hd s) \<Longrightarrow> strtol_raw 10 s = int (digits_val 10 0 s)"
  by (cases s) (auto simp: strtol_raw_def dest: c_isdigit_not)

lemma sint_atoi_digit_start:
  assumes "s \<noteq> []" "c_isdigit (hd s)" "digits_val 10 0 s < 2 ^ 31"
  shows "sint (atoi s) = int (digits_val 10 0 s)"
proof -
  have "strtol 10 s = int (digits_val 10 0 s)"
    using assms by (simp add: strtol_def strtol_raw_digit_start)
  then show ?thesis
    using assms(3) by (simp add: atoi_def signed_of_nat signed_take_bit_int_eq_self)
qed

lemma digits_isdigit: "\<forall>c \<in> set (digits 10 n). c_isdigit c"
  using digits_base [of 10 n] by simp

lemma digits_takeWhile:
  "t = [] \<or> \<not> c_isdigit (hd t) \<Longrightarrow>
     takeWhile c_isdigit (digits 10 n @ t) = digits 10 n \<and> dropWhile c_isdigit (digits 10 n @ t) = t"
  using digits_isdigit [of n]
  by (cases t) (auto simp: takeWhile_append dropWhile_append dropWhile_eq_Nil_conv)

lemma digits_val_digits_append:
  "t = [] \<or> \<not> c_isdigit (hd t) \<Longrightarrow> digits_val 10 0 (digits 10 n @ t) = n"
  by (subst digits_val_takeWhile) (simp add: digits_takeWhile digits_val_digits)

lemma sint_atoi_digits:
  assumes "t = [] \<or> \<not> c_isdigit (hd t)" "n < 2 ^ 31"
  shows "sint (atoi (digits 10 n @ t)) = int n"
proof -
  have "hd (digits 10 n @ t) \<in> set (digits 10 n)" by (cases "digits 10 n") auto
  then have "c_isdigit (hd (digits 10 n @ t))" using digits_isdigit by blast
  with assms show ?thesis
    by (simp add: sint_atoi_digit_start digits_val_digits_append)
qed

text \<open>No printed number holds a blank, a NUL or a backslash.\<close>

definition plain_char :: "char \<Rightarrow> bool" where
  "plain_char c \<longleftrightarrow> c \<notin> {NUL, TAB, NL, SP, BSL}"

lemma plain_digit [simp]: "d < 10 \<Longrightarrow> plain_char (digit_char d)"
  using of_char_digit_char [of d] by (auto simp: plain_char_def)

lemma plain_digits: "2 \<le> b \<Longrightarrow> b \<le> 10 \<Longrightarrow> list_all plain_char (digits b n)"
  by (auto simp: list_all_iff dest!: digits_all)

lemma plain_print_int: "list_all plain_char (print_int i)"
  using plain_digits [of 10] by (simp add: print_int_def) (simp add: plain_char_def)

lemma print_int_nonempty [simp]: "print_int i \<noteq> []"
  by (simp add: print_int_def)

lemma plain_zero_pad_oct: "list_all plain_char (zero_pad w (print_oct n))"
proof -
  have "list_all plain_char (replicate k (CHR ''0''))" for k
    by (induction k) (simp_all add: plain_char_def)
  then show ?thesis by (simp add: zero_pad_def print_oct_def plain_digits)
qed

lemma zero_pad_oct_nonempty [simp]: "zero_pad w (print_oct n) \<noteq> []"
  by (simp add: zero_pad_def print_oct_def)

end
