(* ===== verification/Argv.thy ===== *)
theory Argv
  imports Escape C_Num
begin

text \<open>
  \<open>argcargv.c\<close>: the in-place splitting of a line into words, used for transcripts,
  command files, configuration files and the lines of the network protocol. The scan keeps
  the array of word pointers as offsets into the line and its capacity \<open>acv_argc\<close>, so that
  a store outside the array would be visible as undefined behaviour.
\<close>

definition ACV_ARGC :: nat where
  "ACV_ARGC = 10"

text \<open>The inner loop at a blank: the run of backslashes just before it.\<close>

definition slashes :: "string \<Rightarrow> nat" where
  "slashes pre = length (takeWhile (\<lambda>c. c = BSL) pre)"

lemma slashes_simps [simp]:
  "slashes [] = 0" "slashes (BSL # pre) = Suc (slashes pre)" "c \<noteq> BSL \<Longrightarrow> slashes (c # pre) = 0"
  by (simp_all add: slashes_def)

text \<open>
  The arguments of the scan: capacity and fill of the pointer array, whether it is inside a
  word, what lies before the current character (nearest first) and what is still to be read.
  The results: the rest of the line with the NULs written into it, the offsets of the words,
  and the capacity at the end. The final store is \<open>acv_argv[ ac ] = NULL\<close>.
\<close>

fun acav_scan ::
  "nat \<Rightarrow> nat \<Rightarrow> bool \<Rightarrow> string \<Rightarrow> string \<Rightarrow> (string \<times> nat list \<times> nat) outcome" where
  "acav_scan argc ac in_word pre [] = (if ac < argc then Ret ([], [], argc) else UB)"
| "acav_scan argc ac in_word pre (c # line) =
     (if c = TAB \<or> c = NL \<or> c = SP \<and> even (slashes pre)
      then (let c' = (if in_word then NUL else c)
            in obind (acav_scan argc ac False (c' # pre) line)
                 (\<lambda>(b, offs, k). Ret (c' # b, offs, k)))
      else if in_word
      then obind (acav_scan argc ac True (c # pre) line) (\<lambda>(b, offs, k). Ret (c # b, offs, k))
      else if ac < argc
      then obind (acav_scan (if argc \<le> Suc ac then argc + ACV_ARGC else argc) (Suc ac) True
                    (c # pre) line)
             (\<lambda>(b, offs, k). Ret (c # b, length pre # offs, k))
      else UB)"

definition token_at :: "string \<Rightarrow> nat \<Rightarrow> string" where
  "token_at b k = cstr (drop k b)"

text \<open>The result: the new capacity, the line as it is left behind, and \<open>argv\<close>.\<close>

definition acav_parse :: "nat \<Rightarrow> string \<Rightarrow> (nat \<times> string \<times> string list) outcome" where
  "acav_parse argc line =
     obind (acav_scan argc 0 False [] line)
       (\<lambda>(b, offs, k). Ret (k, b, map (token_at b) offs))"

section \<open>The scan never stores outside its array\<close>

lemma acav_scan_defined:
  "ac < argc \<Longrightarrow> \<exists>b offs k. acav_scan argc ac w pre line = Ret (b, offs, k) \<and>
     length b = length line \<and> ac + length offs < k \<and> argc \<le> k"
proof (induction argc ac w pre line rule: acav_scan.induct)
  case (1 argc ac w pre)
  then show ?case by simp
next
  case (2 argc ac w pre c line)
  consider (sep) "c = TAB \<or> c = NL \<or> c = SP \<and> even (slashes pre)"
    | (word) "\<not> (c = TAB \<or> c = NL \<or> c = SP \<and> even (slashes pre))" "w"
    | (start) "\<not> (c = TAB \<or> c = NL \<or> c = SP \<and> even (slashes pre))" "\<not> w"
    by blast
  then show ?case
  proof cases
    case sep
    with "2.IH"(1) [OF sep refl "2.prems"] show ?thesis by (fastforce simp: Let_def)
  next
    case word
    with "2.IH"(2) [OF word "2.prems"] show ?thesis by fastforce
  next
    case start
    have "Suc ac < (if argc \<le> Suc ac then argc + ACV_ARGC else argc)"
      using "2.prems" by (simp add: ACV_ARGC_def)
    from "2.IH"(3) [OF start "2.prems" this] start "2.prems" show ?thesis
      by (fastforce split: if_splits)
  qed
qed

lemma acav_parse_defined:
  assumes "0 < argc"
  shows "\<exists>k b av. acav_parse argc line = Ret (k, b, av) \<and> length av < k \<and> argc \<le> k \<and>
    length b = length line"
  using acav_scan_defined [OF assms, of False "[]" line] by (auto simp: acav_parse_def)

section \<open>Words\<close>

text \<open>A word as the programs write it: an escape keeps its blank inside the word.\<close>

fun arg_ok :: "string \<Rightarrow> bool" where
  "arg_ok [] = True"
| "arg_ok (c # s) =
     (if c = BSL then (case s of [] \<Rightarrow> False | e # s' \<Rightarrow> e \<notin> {TAB, NL, NUL} \<and> arg_ok s')
      else c \<notin> {SP, TAB, NL, NUL} \<and> arg_ok s)"

lemma arg_ok_induct [consumes 1, case_names Nil Esc Plain]:
  assumes "arg_ok s" and "P []"
    and esc: "\<And>e s. e \<notin> {TAB, NL, NUL} \<Longrightarrow> arg_ok s \<Longrightarrow> P s \<Longrightarrow> P (BSL # e # s)"
    and plain: "\<And>c s. c \<notin> {SP, TAB, NL, NUL, BSL} \<Longrightarrow> arg_ok s \<Longrightarrow> P s \<Longrightarrow> P (c # s)"
  shows "P s"
  using assms(1)
proof (induction s rule: unescaped.induct)
  case 1
  show ?case by (rule assms(2))
next
  case (2 c s)
  show ?case
  proof (cases "c = BSL")
    case True
    with "2.prems" obtain e s' where s: "s = e # s'" "e \<notin> {TAB, NL, NUL}" "arg_ok s'"
      by (cases s) simp_all
    with True "2.IH"(1) [OF True s(1) s(3)] show ?thesis by (simp add: esc)
  next
    case False
    with "2.prems" "2.IH"(2) show ?thesis by (simp add: plain)
  qed
qed

lemma arg_ok_plain: "list_all plain_char s \<Longrightarrow> arg_ok s"
  by (induction s) (simp_all add: plain_char_def)

lemma arg_ok_c_string: "arg_ok s \<Longrightarrow> c_string s"
  by (induction s rule: arg_ok_induct) simp_all

lemma arg_ok_append: "arg_ok s \<Longrightarrow> arg_ok t \<Longrightarrow> arg_ok (s @ t)"
  by (induction s rule: arg_ok_induct) simp_all

lemma arg_ok_encode_text: "c_string s \<Longrightarrow> arg_ok (encode_text sh s)"
  by (induction s) (auto simp: encode_char_def)

section \<open>Scanning laid-out words\<close>

definition blank :: "string \<Rightarrow> bool" where
  "blank w \<longleftrightarrow> set w \<subseteq> {SP, TAB, NL}"

lemma blank_simps [simp]:
  "blank []" "blank (c # w) \<longleftrightarrow> c \<in> {SP, TAB, NL} \<and> blank w"
  "blank (v @ w) \<longleftrightarrow> blank v \<and> blank w"
  by (auto simp: blank_def)

lemma blank_replicate [simp]: "blank (replicate k SP)"
  by (induction k) simp_all

lemma scan_word:
  "arg_ok a \<Longrightarrow> even (slashes pre) \<Longrightarrow>
     even (slashes (rev a @ pre)) \<and>
     acav_scan argc ac True pre (a @ line) =
       obind (acav_scan argc ac True (rev a @ pre) line) (\<lambda>(b, offs, k). Ret (a @ b, offs, k))"
proof (induction a arbitrary: pre rule: arg_ok_induct)
  case Nil
  then show ?case by (cases "acav_scan argc ac True pre line") auto
next
  case (Esc e a)
  have ev: "even (slashes (e # BSL # pre))"
    using Esc.prems by (cases "e = BSL") simp_all
  show ?case
    using Esc.IH [OF ev] Esc.hyps(1) Esc.prems
    by (simp add: obind_assoc split_def)
next
  case (Plain c a)
  then show ?case
    using Plain.IH [of "c # pre"] by (simp add: obind_assoc split_def)
qed

lemma scan_blank_out:
  "blank w \<Longrightarrow> even (slashes pre) \<Longrightarrow>
     even (slashes (rev w @ pre)) \<and>
     acav_scan argc ac False pre (w @ line) =
       obind (acav_scan argc ac False (rev w @ pre) line) (\<lambda>(b, offs, k). Ret (w @ b, offs, k))"
proof (induction w arbitrary: pre)
  case Nil
  then show ?case by (cases "acav_scan argc ac False pre line") auto
next
  case (Cons c w)
  then have "c \<noteq> BSL" by auto
  with Cons show ?case
    using Cons.IH [of "c # pre"] by (auto simp: obind_assoc split_def)
qed

text \<open>The first blank after a word becomes a NUL.\<close>

definition cut :: "bool \<Rightarrow> string \<Rightarrow> string" where
  "cut in_word w = (if in_word then NUL # tl w else w)"

lemma scan_blank:
  assumes "blank w" "even (slashes pre)" "in_word \<Longrightarrow> w \<noteq> []"
  shows "even (slashes (rev (cut in_word w) @ pre)) \<and>
     acav_scan argc ac in_word pre (w @ line) =
       obind (acav_scan argc ac False (rev (cut in_word w) @ pre) line)
         (\<lambda>(b, offs, k). Ret (cut in_word w @ b, offs, k))"
proof (cases in_word)
  case False
  with scan_blank_out [OF assms(1,2), where argc = argc and ac = ac and line = line] show ?thesis by (simp add: cut_def)
next
  case True
  with assms obtain c w' where w: "w = c # w'" "c \<in> {SP, TAB, NL}" "blank w'"
    by (cases w) auto
  with True assms(2) scan_blank_out [where w = w' and pre = "NUL # pre" and argc = argc and ac = ac
      and line = line] show ?thesis
    by (auto simp: cut_def obind_assoc split_def Let_def)
qed

text \<open>A line as blanks and words in turn, and blanks at its end.\<close>

definition layout :: "(string \<times> string) list \<Rightarrow> string \<Rightarrow> string" where
  "layout ws trail = concat (map (\<lambda>(w, a). w @ a) ws) @ trail"

definition layout_ok :: "bool \<Rightarrow> (string \<times> string) list \<Rightarrow> string \<Rightarrow> bool" where
  "layout_ok in_word ws trail \<longleftrightarrow>
     (\<forall>(w, a) \<in> set ws. blank w \<and> arg_ok a \<and> a \<noteq> []) \<and> blank trail \<and>
     (\<forall>(w, a) \<in> set (if in_word then ws else tl ws). w \<noteq> [])"

lemma layout_ok_Cons:
  "layout_ok in_word ((w, a) # ws) trail \<longleftrightarrow>
     blank w \<and> arg_ok a \<and> a \<noteq> [] \<and> (in_word \<longrightarrow> w \<noteq> []) \<and> layout_ok True ws trail"
  by (auto simp: layout_ok_def)

lemma layout_Cons: "layout ((w, a) # ws) trail = w @ a @ layout ws trail"
  by (simp add: layout_def)

lemma scan_layout:
  assumes "layout_ok in_word ws trail" "ac < argc" "even (slashes pre)"
  shows "\<exists>b offs k. acav_scan argc ac in_word pre (layout ws trail) = Ret (b, offs, k) \<and>
    map (token_at (rev pre @ b)) offs = map snd ws \<and> (in_word \<longrightarrow> b = [] \<or> hd b = NUL)"
  using assms
proof (induction ws arbitrary: in_word ac argc pre)
  case Nil
  then have t: "blank trail" by (simp add: layout_ok_def)
  show ?case
  proof (cases "trail = []")
    case True
    with Nil.prems show ?thesis by (simp add: layout_def)
  next
    case False
    with scan_blank [OF t Nil.prems(3), where in_word = in_word and argc = argc and ac = ac and line = "[]"] Nil.prems(2) show ?thesis
      by (simp add: layout_def cut_def)
  qed
next
  case (Cons wa ws)
  obtain w a where wa: "wa = (w, a)" by (cases wa)
  from Cons.prems(1) have ok: "blank w" "arg_ok a" "a \<noteq> []" "in_word \<Longrightarrow> w \<noteq> []"
    "layout_ok True ws trail"
    by (auto simp: wa layout_ok_Cons)
  let ?pre = "rev (cut in_word w) @ pre"
  let ?k = "if argc \<le> Suc ac then argc + ACV_ARGC else argc"
  from scan_blank [OF ok(1) Cons.prems(3) ok(4),
      where argc = argc and ac = ac and line = "a @ layout ws trail"]
  have ev: "even (slashes ?pre)" and
    s1: "acav_scan argc ac in_word pre (layout (wa # ws) trail) =
      obind (acav_scan argc ac False ?pre (a @ layout ws trail))
        (\<lambda>(b, offs, k). Ret (cut in_word w @ b, offs, k))"
    by (simp_all add: wa layout_Cons)
  have s2: "acav_scan argc ac False ?pre (a @ layout ws trail) =
      obind (acav_scan ?k (Suc ac) True ?pre (a @ layout ws trail))
        (\<lambda>(b, offs, k). Ret (b, length ?pre # offs, k))"
    using ok(2,3) ev Cons.prems(2)
    by (cases a) (auto simp: obind_assoc split_def split: if_splits)
  from scan_word [OF ok(2) ev, where argc = ?k and ac = "Suc ac"
      and line = "layout ws trail"]
  have ev2: "even (slashes (rev a @ ?pre))" and
    s3: "acav_scan ?k (Suc ac) True ?pre (a @ layout ws trail) =
      obind (acav_scan ?k (Suc ac) True (rev a @ ?pre) (layout ws trail))
        (\<lambda>(b, offs, k). Ret (a @ b, offs, k))"
    by blast+
  have "Suc ac < ?k" using Cons.prems(2) by (simp add: ACV_ARGC_def)
  from Cons.IH [OF ok(5) this ev2] obtain b offs k where
    b: "acav_scan ?k (Suc ac) True (rev a @ ?pre) (layout ws trail) = Ret (b, offs, k)"
      "map (token_at (rev (rev a @ ?pre) @ b)) offs = map snd ws" "b = [] \<or> hd b = NUL"
    by blast
  have "cstr (a @ b) = a"
    using b(3) arg_ok_c_string [OF ok(2)] by (cases b) (auto simp: cstr_append_NUL cstr_id)
  then have "token_at (rev pre @ cut in_word w @ a @ b) (length ?pre) = a"
    by (simp add: token_at_def)
  with b s1 s2 s3 show ?case by (auto simp: wa cut_def)
qed

lemma acav_parse_layout:
  assumes "layout_ok False ws trail" "0 < argc"
  shows "\<exists>k b. acav_parse argc (layout ws trail) = Ret (k, b, map snd ws) \<and> 0 < k"
proof -
  from scan_layout [OF assms(1), of 0 argc "[]"] assms(2) obtain b offs k where
    "acav_scan argc 0 False [] (layout ws trail) = Ret (b, offs, k)"
    "map (token_at b) offs = map snd ws" by auto
  moreover have "0 < k"
    using acav_parse_defined [OF assms(2), of "layout ws trail"] calculation(1)
    by (auto simp: acav_parse_def)
  ultimately show ?thesis by (auto simp: acav_parse_def)
qed

text \<open>The macro \<open>argcargv\<close> uses the one vector of the process.\<close>

definition argcargv :: "string \<Rightarrow> string list outcome" where
  "argcargv line = obind (acav_parse ACV_ARGC line) (\<lambda>(k, b, av). Ret av)"

lemma argcargv_layout: "layout_ok False ws trail \<Longrightarrow> argcargv (layout ws trail) = Ret (map snd ws)"
  using acav_parse_layout [of ws trail ACV_ARGC] by (auto simp: argcargv_def ACV_ARGC_def)

lemma argcargv_defined: "\<exists>av. argcargv line = Ret av"
  using acav_parse_defined [of ACV_ARGC line] by (auto simp: argcargv_def ACV_ARGC_def)

lemma argcargv_words: "argcargv line = Ret av \<Longrightarrow> w \<in> set av \<Longrightarrow> c_string w"
  by (auto simp: argcargv_def acav_parse_def token_at_def obind_Ret_iff)

end
