(* ===== verification/Wildcard.thy ===== *)
theory Wildcard
  imports C_Num
begin

text \<open>
  \<open>wildcard.c\<close>: the matcher behind exclude patterns and the server's configuration file.
  The pattern is a list; the subject is \<open>Some s\<close>, or \<open>None\<close> once the pointer has moved
  past the terminator, from where every read is undefined. The pattern gets shorter at each
  turn of the outer loop, which is the termination argument.
\<close>

definition rd :: "string option \<Rightarrow> char outcome" where
  "rd p = (case p of None \<Rightarrow> UB | Some [] \<Rightarrow> Ret NUL | Some (c # s) \<Rightarrow> Ret c)"

definition adv :: "string option \<Rightarrow> string option" where
  "adv p = (case p of None \<Rightarrow> None | Some [] \<Rightarrow> None | Some (c # s) \<Rightarrow> Some s)"

definition same_char :: "bool \<Rightarrow> char \<Rightarrow> char \<Rightarrow> bool" where
  "same_char sensitive a b = (if sensitive then a = b else c_tolower a = c_tolower b)"

text \<open>
  The first loop of the case \<open>'['\<close>: it goes on while the characters of the set are equal to
  the subject's and stops at the first that is not, or at the bracket; it runs past the end
  of the pattern when the subject is at its terminator too.
\<close>

fun set_scan :: "bool \<Rightarrow> char \<Rightarrow> string \<Rightarrow> string outcome" where
  "set_scan sens c [] = (if same_char sens NUL c then UB else Ret [])"
| "set_scan sens c (x # xs) =
     (if x = CHR '']'' then Ret (x # xs)
      else if same_char sens x c then set_scan sens c xs
      else Ret (x # xs))"

text \<open>The case \<open>'['\<close>: \<open>Some\<close> of the pattern after the set, or \<open>None\<close> for the return of 0.\<close>

definition match_set :: "bool \<Rightarrow> string \<Rightarrow> string option \<Rightarrow> string option outcome" where
  "match_set sens ws p =
     obind (if ws \<noteq> [] \<and> hd ws = CHR '']'' then Ret ws
            else obind (rd p) (\<lambda>c. set_scan sens c ws))
       (\<lambda>r. if r \<noteq> [] \<and> hd r = CHR '']'' then Ret None
            else (case dropWhile (\<lambda>x. x \<noteq> CHR '']'') r of
                    [] \<Rightarrow> Ret None
                  | _ # ws' \<Rightarrow> Ret (Some ws')))"

text \<open>
  The case \<open>'<'\<close>: \<open>Some\<close> of the pattern after the range and the subject after its digits.
\<close>

definition match_range :: "string \<Rightarrow> string \<Rightarrow> (string \<times> string) option" where
  "match_range ws s =
     (let digit = (\<lambda>t. t \<noteq> [] \<and> c_isdigit (hd t));
          i = sint (atoi s); s' = dropWhile c_isdigit s;
          mn = sint (atoi ws); ws1 = dropWhile c_isdigit ws;
          mx = sint (atoi (tl ws1)); ws2 = dropWhile c_isdigit (tl ws1)
      in if \<not> digit s then None
         else if \<not> digit ws then None
         else if ws1 = [] \<or> hd ws1 \<noteq> CHR ''-'' then None
         else if \<not> digit (tl ws1) then None
         else if ws2 = [] \<or> hd ws2 \<noteq> CHR ''>'' then None
         else if i < mn \<or> mx < i then None
         else Some (tl ws2, s'))"

text \<open>The case \<open>'{'\<close>: the text between the braces and what follows them.\<close>

definition brace_end :: "string \<Rightarrow> (string \<times> string) option" where
  "brace_end ws =
     (case dropWhile (\<lambda>c. c \<noteq> CHR ''}'' \<and> c \<noteq> CHR ''{'') ws of
        [] \<Rightarrow> None
      | c # rest \<Rightarrow>
          if c = CHR ''{'' then None
          else Some (takeWhile (\<lambda>c. c \<noteq> CHR ''}'' \<and> c \<noteq> CHR ''{'') ws, rest))"

fun commas :: "string \<Rightarrow> string list" where
  "commas [] = [[]]"
| "commas (c # s) =
     (if c = CHR '','' then [] # commas s
      else (case commas s of [] \<Rightarrow> [[c]] | a # as \<Rightarrow> (c # a) # as))"

text \<open>
  One alternative against the subject, character by character: \<open>Ret (Some p)\<close> is the
  subject after it.
\<close>

fun match_alt :: "bool \<Rightarrow> string \<Rightarrow> string option \<Rightarrow> string option option outcome" where
  "match_alt sens [] p = Ret (Some p)"
| "match_alt sens (x # xs) p =
     obind (rd p) (\<lambda>c. if same_char sens x c then match_alt sens xs (adv p) else Ret None)"

lemma match_set_length:
  "match_set sens ws p = Ret (Some ws') \<Longrightarrow> length ws' < length ws"
proof -
  assume a: "match_set sens ws p = Ret (Some ws')"
  have le: "length r \<le> length ws" if "set_scan sens c ws = Ret r" for c r
    using that by (induction ws) (auto split: if_splits)
  from a obtain r where
    r1: "(if ws \<noteq> [] \<and> hd ws = CHR '']'' then Ret ws
          else obind (rd p) (\<lambda>c. set_scan sens c ws)) = Ret r" and
    r2: "(if r \<noteq> [] \<and> hd r = CHR '']'' then Ret None
          else (case dropWhile (\<lambda>x. x \<noteq> CHR '']'') r of
                  [] \<Rightarrow> Ret None | _ # ws' \<Rightarrow> Ret (Some ws'))) = Ret (Some ws')"
    unfolding match_set_def obind_Ret_iff by blast
  from r2 obtain x where x: "dropWhile (\<lambda>x. x \<noteq> CHR '']'') r = x # ws'"
    by (simp split: if_split_asm list.split_asm)
  from r1 have "r = ws \<or> (\<exists>c. set_scan sens c ws = Ret r)"
    by (cases "rd p") (simp_all split: if_splits, blast)
  then have "length r \<le> length ws" using le by blast
  with x length_dropWhile_le [of "\<lambda>x. x \<noteq> CHR '']''" r] show ?thesis by simp
qed

lemma match_range_length:
  "match_range ws s = Some (ws', s') \<Longrightarrow> length ws' < length ws"
proof -
  assume a: "match_range ws s = Some (ws', s')"
  let ?ws1 = "dropWhile c_isdigit ws"
  let ?ws2 = "dropWhile c_isdigit (tl ?ws1)"
  from a have "?ws1 \<noteq> []" "ws' = tl ?ws2"
    by (auto simp: match_range_def Let_def split: if_splits)
  moreover have "length ?ws1 \<le> length ws" "length ?ws2 \<le> length (tl ?ws1)"
    by (rule length_dropWhile_le)+
  ultimately show ?thesis by (cases ?ws1) auto
qed

lemma brace_end_length: "brace_end ws = Some (body, rest) \<Longrightarrow> length rest < length ws"
  using length_dropWhile_le [of "\<lambda>c. c \<noteq> CHR ''}'' \<and> c \<noteq> CHR ''{''" ws]
  by (auto simp: brace_end_def split: list.splits if_splits)

text \<open>
  The matcher. \<open>wild_star\<close> is the loop over the rests of the subject that are not empty,
  \<open>wild_alts\<close> the loop over the alternatives.
\<close>

function wildcard :: "string \<Rightarrow> string option \<Rightarrow> bool \<Rightarrow> bool outcome"
  and wild_star :: "string \<Rightarrow> string \<Rightarrow> bool \<Rightarrow> bool outcome"
  and wild_alts :: "string list \<Rightarrow> string \<Rightarrow> string option \<Rightarrow> bool \<Rightarrow> bool outcome" where
  "wildcard [] p sens =
     obind (rd p) (\<lambda>c. Ret (same_char sens NUL c))"
| "wildcard (w # wild) p sens =
     (if w = CHR ''*''
      then (if wild = [] then Ret True
            else (case p of None \<Rightarrow> UB | Some s \<Rightarrow> wild_star wild s sens))
      else if w = CHR ''<''
      then (case p of
              None \<Rightarrow> UB
            | Some s \<Rightarrow>
                (case match_range wild s of
                   None \<Rightarrow> Ret False
                 | Some (wild', s') \<Rightarrow> wildcard wild' (Some s') sens))
      else if w = CHR ''?'' then wildcard wild (adv p) sens
      else if w = CHR ''[''
      then (case match_set sens wild p of
              Ret None \<Rightarrow> Ret False
            | Ret (Some wild') \<Rightarrow> wildcard wild' (adv p) sens
            | Exit n \<Rightarrow> Exit n
            | UB \<Rightarrow> UB)
      else if w = CHR ''{''
      then (case brace_end wild of
              None \<Rightarrow> Ret False
            | Some (body, rest) \<Rightarrow> wild_alts (commas body) rest p sens)
      else if w = BSL
      then (case wild of
              [] \<Rightarrow> obind (rd p) (\<lambda>c. Ret (same_char sens NUL c))
            | x # wild' \<Rightarrow>
                obind (rd p) (\<lambda>c. if same_char sens x c then wildcard wild' (adv p) sens
                                 else Ret False))
      else obind (rd p) (\<lambda>c. if same_char sens w c then wildcard wild (adv p) sens
                            else Ret False))"
| "wild_star wild [] sens = Ret False"
| "wild_star wild (c # s) sens =
     obind (wildcard wild (Some (c # s)) sens)
       (\<lambda>r. if r then Ret True else wild_star wild s sens)"
| "wild_alts [] rest p sens = Ret False"
| "wild_alts (a # as) rest p sens =
     obind (match_alt sens a p)
       (\<lambda>r. case r of
              None \<Rightarrow> wild_alts as rest p sens
            | Some p' \<Rightarrow>
                obind (wildcard rest p' sens)
                  (\<lambda>m. if m then Ret True else wild_alts as rest p sens))"
  by pat_completeness auto
termination
  by (relation "measures
      [\<lambda>x. case x of Inl (w, _, _) \<Rightarrow> 2 * length w
          | Inr (Inl (w, _, _)) \<Rightarrow> Suc (2 * length w)
          | Inr (Inr (_, w, _, _)) \<Rightarrow> Suc (2 * length w),
       \<lambda>x. case x of Inl _ \<Rightarrow> 0
          | Inr (Inl (_, s, _)) \<Rightarrow> length s
          | Inr (Inr (as, _, _, _)) \<Rightarrow> length as]")
    (auto dest: match_range_length match_set_length brace_end_length)

declare wildcard.simps [simp del] wild_star.simps [simp del] wild_alts.simps [simp del]

lemmas wildcard_eqs = wildcard.simps wild_star.simps wild_alts.simps

section \<open>When the matcher stays inside its strings\<close>

text \<open>
  A pattern without \<open>?\<close> and \<open>[\<close> never moves the subject past its terminator.
\<close>

definition no_skip :: "string \<Rightarrow> bool" where
  "no_skip w \<longleftrightarrow> NUL \<notin> set w \<and> CHR ''?'' \<notin> set w \<and> CHR ''['' \<notin> set w"

lemma same_char_NUL [simp]: "same_char sens w NUL \<longleftrightarrow> w = NUL" "same_char sens NUL c \<longleftrightarrow> c = NUL"
  by (simp_all add: same_char_def) (metis c_tolower_eq_NUL)

lemma match_alt_Some:
  "NUL \<notin> set a \<Longrightarrow> match_alt sens a (Some s) =
     (if length a \<le> length s \<and> list_all2 (same_char sens) a (take (length a) s)
      then Ret (Some (Some (drop (length a) s))) else Ret None)"
proof (induction a arbitrary: s)
  case Nil
  then show ?case by simp
next
  case (Cons x a)
  then show ?case by (cases s) (auto simp: rd_def adv_def)
qed

lemma set_commas: "a \<in> set (commas s) \<Longrightarrow> set a \<subseteq> set s"
  by (induction s arbitrary: a) (fastforce split: if_splits list.splits)+

lemma set_brace_end:
  assumes "brace_end ws = Some (body, rest)"
  shows "set body \<subseteq> set ws \<and> set rest \<subseteq> set ws"
proof -
  let ?P = "\<lambda>c. c \<noteq> CHR ''}'' \<and> c \<noteq> CHR ''{''"
  from assms obtain c where "body = takeWhile ?P ws" "dropWhile ?P ws = c # rest"
    by (simp add: brace_end_def split: list.split_asm if_split_asm)
  moreover have "set (takeWhile ?P ws) \<subseteq> set ws" "set (dropWhile ?P ws) \<subseteq> set ws"
    by (auto dest: set_takeWhileD set_dropWhileD)
  ultimately show ?thesis by auto
qed

lemma match_range_set: "match_range ws s = Some (ws', s') \<Longrightarrow> set ws' \<subseteq> set ws"
  by (auto simp: match_range_def Let_def split: if_splits
      dest!: list.set_sel(2) set_dropWhileD)
    (metis list.sel(2) list.set_sel(2) set_dropWhileD)+

lemma wildcard_defined:
  "no_skip w \<Longrightarrow> p \<noteq> None \<Longrightarrow> \<exists>b. wildcard w p sens = Ret b"
  "no_skip w \<Longrightarrow> \<exists>b. wild_star w s' sens = Ret b"
  "no_skip w \<Longrightarrow> (\<forall>a \<in> set as. NUL \<notin> set a) \<Longrightarrow> p' \<noteq> None \<Longrightarrow> \<exists>b. wild_alts as w p' sens = Ret b"
proof (induction w p sens and w s' sens and as w p' sens
    rule: wildcard_wild_star_wild_alts.induct)
  case (1 p sens)
  then show ?case by (auto simp: wildcard_eqs rd_def split: list.split)
next
  case (2 w wild p sens)
  obtain s where p: "p = Some s" using "2.prems" by blast
  have nw: "no_skip wild" "w \<noteq> NUL" "w \<noteq> CHR ''?''" "w \<noteq> CHR ''[''"
    using "2.prems" by (auto simp: no_skip_def)
  consider (star) "w = CHR ''*''" | (range) "w = CHR ''<''" | (brace) "w = CHR ''{''"
    | (esc) "w = BSL" | (lit) "w \<notin> {CHR ''*'', CHR ''<'', CHR ''{'', BSL, CHR ''?'', CHR ''[''}"
    using nw by blast
  then show ?case
  proof cases
    case star
    then show ?thesis
      using "2.IH"(1) "2.prems" nw by (cases "wild = []") (auto simp: wildcard_eqs(2) p)
  next
    case range
    show ?thesis
    proof (cases "match_range wild s")
      case None
      with range "2.prems" show ?thesis by (auto simp: wildcard_eqs(2) p)
    next
      case (Some r)
      then obtain wild' s' where r: "match_range wild s = Some (wild', s')" by (cases r) auto
      from match_range_set [OF this] nw have "no_skip wild'" by (auto simp: no_skip_def)
      with range r "2.IH"(2) "2.prems" show ?thesis by (auto simp: wildcard_eqs(2) p)
    qed
  next
    case brace
    show ?thesis
    proof (cases "brace_end wild")
      case None
      with brace "2.prems" show ?thesis by (auto simp: wildcard_eqs(2) p)
    next
      case (Some r)
      then obtain body rest where r: "brace_end wild = Some (body, rest)" by (cases r) auto
      from set_brace_end [OF this] nw have "no_skip rest" "NUL \<notin> set body"
        by (auto simp: no_skip_def)
      moreover from this(2) have "\<forall>a \<in> set (commas body). NUL \<notin> set a"
        by (auto dest: set_commas)
      ultimately show ?thesis
        using brace r "2.IH"(5) "2.prems" by (auto simp: wildcard_eqs(2) p)
    qed
  next
    case esc
    show ?thesis
    proof (cases wild)
      case Nil
      with esc "2.prems" show ?thesis by (cases s) (auto simp: wildcard_eqs(2) p rd_def)
    next
      case (Cons x wild')
      then have "no_skip wild'" "x \<noteq> NUL" using nw by (auto simp: no_skip_def)
      with Cons esc "2.IH"(6) "2.prems" show ?thesis
        by (cases s) (auto simp: wildcard_eqs(2) p rd_def adv_def)
    qed
  next
    case lit
    with nw "2.IH"(7) "2.prems" show ?thesis
      by (cases s) (auto simp: wildcard_eqs(2) p rd_def adv_def)
  qed
next
  case (3 wild sens)
  then show ?case by (auto simp: wildcard_eqs)
next
  case (4 wild c s sens)
  from "4.IH"(1) [OF "4.prems"] obtain r where r: "wildcard wild (Some (c # s)) sens = Ret r"
    by blast
  show ?case
  proof (cases r)
    case True
    with r show ?thesis by (auto simp: wildcard_eqs(4))
  next
    case False
    from "4.IH"(2) [OF r False "4.prems"] r False show ?thesis by (simp add: wildcard_eqs(4))
  qed
next
  case (5 rest p sens)
  then show ?case by (auto simp: wildcard_eqs)
next
  case (6 a as rest p sens)
  then obtain s where a: "NUL \<notin> set a" "p = Some s" by auto
  show ?case
  proof (cases "match_alt sens a p")
    case (Ret r)
    with a "6.prems" consider "r = None" | t where "r = Some (Some t)"
      by (auto simp: match_alt_Some split: if_splits)
    then show ?thesis
    proof cases
      case 1
      with Ret "6.IH"(1) "6.prems" show ?thesis by (auto simp: wildcard_eqs(6))
    next
      case 2
      with Ret "6.IH"(2) "6.prems"(1) obtain b where "wildcard rest (Some t) sens = Ret b" by blast
      with 2 Ret "6.IH"(3) "6.prems" show ?thesis by (cases b) (auto simp: wildcard_eqs(6))
    qed
  qed (use a "6.prems" in \<open>auto simp: match_alt_Some split: if_splits\<close>)
qed

section \<open>What a pattern means\<close>

text \<open>
  The specification: a pattern as a list of items, and the strings it stands for. A star
  stands for any string, a range for a run of digits whose number is in the range, braces for
  one of their alternatives.
\<close>

datatype glob_item = GLit char | GStar | GRange nat nat | GAlt "string list"

fun glob :: "bool \<Rightarrow> glob_item list \<Rightarrow> string \<Rightarrow> bool" where
  "glob sens [] s \<longleftrightarrow> s = []"
| "glob sens (GLit c # g) s \<longleftrightarrow>
     (case s of [] \<Rightarrow> False | d # t \<Rightarrow> same_char sens c d \<and> glob sens g t)"
| "glob sens (GStar # g) s \<longleftrightarrow> (\<exists>k \<le> length s. glob sens g (drop k s))"
| "glob sens (GRange a b # g) s \<longleftrightarrow>
     s \<noteq> [] \<and> c_isdigit (hd s) \<and> a \<le> digits_val 10 0 s \<and> digits_val 10 0 s \<le> b \<and>
     glob sens g (dropWhile c_isdigit s)"
| "glob sens (GAlt as # g) s \<longleftrightarrow>
     (\<exists>a \<in> set as. length a \<le> length s \<and> list_all2 (same_char sens) a (take (length a) s) \<and>
        glob sens g (drop (length a) s))"

definition special_char :: "char \<Rightarrow> bool" where
  "special_char c \<longleftrightarrow> c \<in> {CHR ''*'', CHR ''<'', CHR ''?'', CHR ''['', CHR ''{'', BSL}"

fun join_comma :: "string list \<Rightarrow> string" where
  "join_comma [] = []"
| "join_comma [a] = a"
| "join_comma (a # as) = a @ CHR '','' # join_comma as"

fun render :: "glob_item list \<Rightarrow> string" where
  "render [] = []"
| "render (GLit c # g) = (if special_char c then [BSL, c] else [c]) @ render g"
| "render (GStar # g) = CHR ''*'' # render g"
| "render (GRange a b # g) = CHR ''<'' # digits 10 a @ CHR ''-'' # digits 10 b @ CHR ''>'' # render g"
| "render (GAlt as # g) = CHR ''{'' # join_comma as @ CHR ''}'' # render g"

fun item_ok :: "glob_item \<Rightarrow> bool" where
  "item_ok (GLit c) \<longleftrightarrow> c \<noteq> NUL"
| "item_ok GStar \<longleftrightarrow> True"
| "item_ok (GRange a b) \<longleftrightarrow> a < 2 ^ 31 \<and> b < 2 ^ 31"
| "item_ok (GAlt as) \<longleftrightarrow>
     as \<noteq> [] \<and> (\<forall>a \<in> set as. set a \<inter> {CHR '','', CHR ''{'', CHR ''}'', NUL} = {})"

text \<open>
  The loop of a star stops before the empty rest, so what follows a star must not match
  the empty string, unless the star ends the pattern.
\<close>

fun stars_ok :: "bool \<Rightarrow> glob_item list \<Rightarrow> bool" where
  "stars_ok sens [] \<longleftrightarrow> True"
| "stars_ok sens (GStar # g) \<longleftrightarrow> (g = [] \<or> \<not> glob sens g []) \<and> stars_ok sens g"
| "stars_ok sens (_ # g) \<longleftrightarrow> stars_ok sens g"

text \<open>A subject without NULs, whose numbers fit an \<open>int\<close>.\<close>

fun subject_ok :: "string \<Rightarrow> bool" where
  "subject_ok [] \<longleftrightarrow> True"
| "subject_ok (c # s) \<longleftrightarrow> c \<noteq> NUL \<and> digits_val 10 0 (c # s) < 2 ^ 31 \<and> subject_ok s"

lemma subject_ok_drop: "subject_ok s \<Longrightarrow> subject_ok (drop n s)"
proof (induction s arbitrary: n)
  case (Cons c s)
  then show ?case by (cases n) simp_all
qed simp

lemma subject_ok_dropWhile: "subject_ok s \<Longrightarrow> subject_ok (dropWhile P s)"
  by (metis dropWhile_eq_drop subject_ok_drop)

lemma subject_ok_0: "subject_ok s \<Longrightarrow> digits_val 10 0 s < 2 ^ 31"
  by (cases s) simp_all

lemma commas_no_comma: "CHR '','' \<notin> set a \<Longrightarrow> commas a = [a]"
  by (induction a) auto

lemma commas_append: "CHR '','' \<notin> set a \<Longrightarrow> commas (a @ CHR '','' # s) = a # commas s"
  by (induction a) auto

lemma commas_join:
  "as \<noteq> [] \<Longrightarrow> \<forall>a \<in> set as. CHR '','' \<notin> set a \<Longrightarrow> commas (join_comma as) = as"
  by (induction as rule: join_comma.induct) (auto simp: commas_no_comma commas_append)

lemma set_join_comma: "set (join_comma as) \<subseteq> insert (CHR '','') (\<Union>a \<in> set as. set a)"
  by (induction as rule: join_comma.induct) auto

lemma brace_end_join:
  assumes "\<forall>a \<in> set as. set a \<inter> {CHR '','', CHR ''{'', CHR ''}'', NUL} = {}"
  shows "brace_end (join_comma as @ CHR ''}'' # w) = Some (join_comma as, w)"
proof -
  let ?P = "\<lambda>c. c \<noteq> CHR ''}'' \<and> c \<noteq> CHR ''{''"
  have "\<forall>c \<in> set (join_comma as). ?P c"
    using set_join_comma [of as] assms by blast
  then have "takeWhile ?P (join_comma as @ CHR ''}'' # w) = join_comma as"
    "dropWhile ?P (join_comma as @ CHR ''}'' # w) = CHR ''}'' # w"
    by (simp_all add: takeWhile_append dropWhile_append)
  then show ?thesis by (simp add: brace_end_def)
qed

lemma match_range_digits:
  assumes "a < 2 ^ 31" "b < 2 ^ 31" "subject_ok s"
  shows "match_range (digits 10 a @ CHR ''-'' # digits 10 b @ CHR ''>'' # w) s =
    (if s \<noteq> [] \<and> c_isdigit (hd s) \<and> a \<le> digits_val 10 0 s \<and> digits_val 10 0 s \<le> b
     then Some (w, dropWhile c_isdigit s) else None)"
proof -
  have nd: "\<not> c_isdigit (CHR ''-'')" "\<not> c_isdigit (CHR ''>'')"
    by (simp_all add: c_isdigit_def)
  have hd: "digits 10 n @ t \<noteq> []" "c_isdigit (hd (digits 10 n @ t))" for n t
    using digits_isdigit [of n] by (cases "digits 10 n"; simp)+
  have "sint (atoi s) = int (digits_val 10 0 s)" if "s \<noteq> []" "c_isdigit (hd s)"
    using sint_atoi_digit_start [OF that subject_ok_0 [OF assms(3)]] .
  then show ?thesis
    using hd sint_atoi_digits [OF _ assms(1), of "CHR ''-'' # digits 10 b @ CHR ''>'' # w"]
      sint_atoi_digits [OF _ assms(2), of "CHR ''>'' # w"]
      digits_takeWhile [of "CHR ''-'' # digits 10 b @ CHR ''>'' # w" a]
      digits_takeWhile [of "CHR ''>'' # w" b] nd
    by (auto simp: match_range_def Let_def)
qed

lemma wild_star_glob:
  assumes "\<And>s. subject_ok s \<Longrightarrow> wildcard w (Some s) sens = Ret (glob sens g s)"
    and "subject_ok s"
  shows "wild_star w s sens = Ret (\<exists>k < length s. glob sens g (drop k s))"
  using assms(2)
proof (induction s)
  case Nil
  then show ?case by (simp add: wildcard_eqs)
next
  case (Cons c s)
  have "(\<exists>k < length (c # s). glob sens g (drop k (c # s))) \<longleftrightarrow>
      glob sens g (c # s) \<or> (\<exists>k < length s. glob sens g (drop k s))"
    by (auto simp: less_Suc_eq_0_disj)
  moreover have "wildcard w (Some (c # s)) sens = Ret (glob sens g (c # s))"
    by (rule assms(1)) (rule Cons.prems)
  moreover have "wild_star w s sens = Ret (\<exists>k < length s. glob sens g (drop k s))"
    using Cons by simp
  ultimately show ?case by (simp add: wildcard_eqs(4))
qed

lemma wild_alts_glob:
  assumes "\<And>s. subject_ok s \<Longrightarrow> wildcard w (Some s) sens = Ret (glob sens g s)"
    and "subject_ok s" and "\<forall>a \<in> set as. NUL \<notin> set a"
  shows "wild_alts as w (Some s) sens = Ret (glob sens (GAlt as # g) s)"
  using assms(3)
proof (induction as)
  case Nil
  then show ?case by (simp add: wildcard_eqs)
next
  case (Cons a as)
  then have IH: "wild_alts as w (Some s) sens = Ret (glob sens (GAlt as # g) s)"
    and a: "NUL \<notin> set a" by simp_all
  have "wildcard w (Some (drop (length a) s)) sens = Ret (glob sens g (drop (length a) s))"
    by (rule assms(1)) (rule subject_ok_drop [OF assms(2)])
  with IH a show ?case by (auto simp: wildcard_eqs(6) match_alt_Some)
qed

lemma wildcard_glob:
  "list_all item_ok g \<Longrightarrow> stars_ok sens g \<Longrightarrow> subject_ok s \<Longrightarrow>
     wildcard (render g) (Some s) sens = Ret (glob sens g s)"
proof (induction g arbitrary: s)
  case Nil
  then show ?case by (cases s) (simp_all add: wildcard_eqs rd_def)
next
  case (Cons i g)
  then have g: "list_all item_ok g" "stars_ok sens g" by (cases i; simp)+
  note IH = Cons.IH [OF g]
  show ?case
  proof (cases i)
    case (GLit c)
    with Cons.prems have "c \<noteq> NUL" by simp
    with GLit IH Cons.prems(3) show ?thesis
      by (cases s) (auto simp: wildcard_eqs(2) rd_def adv_def special_char_def)
  next
    case GStar
    have e: "(\<exists>k \<le> length s. glob sens g (drop k s)) \<longleftrightarrow>
        (\<exists>k < length s. glob sens g (drop k s)) \<or> glob sens g []"
      by (auto simp: le_less)
    show ?thesis
    proof (cases "g = []")
      case True
      with GStar e show ?thesis by (simp add: wildcard_eqs(2))
    next
      case False
      then have "render g \<noteq> []" by (cases g rule: render.cases) auto
      with False GStar e Cons.prems wild_star_glob [OF IH Cons.prems(3)] show ?thesis
        by (simp add: wildcard_eqs(2))
    qed
  next
    case (GRange a b)
    with Cons.prems IH [OF subject_ok_dropWhile [OF Cons.prems(3)]] show ?thesis
      by (auto simp: wildcard_eqs(2) match_range_digits)
  next
    case (GAlt as)
    with Cons.prems have as: "as \<noteq> []"
      "\<forall>a \<in> set as. set a \<inter> {CHR '','', CHR ''{'', CHR ''}'', NUL} = {}" by simp_all
    then have "commas (join_comma as) = as" by (intro commas_join) auto
    moreover have "\<forall>a \<in> set as. NUL \<notin> set a" using as by auto
    ultimately show ?thesis
      using GAlt brace_end_join [OF as(2)] wild_alts_glob [OF IH Cons.prems(3)]
      by (simp add: wildcard_eqs(2))
  qed
qed

section \<open>Bracket sets\<close>

text \<open>
  The loop of the case \<open>'['\<close> leaves the set at its first character that differs from the
  subject's and then takes the set as matched.
\<close>

lemma set_scan_eq:
  "CHR '']'' \<notin> set cs \<Longrightarrow> set_scan True d (cs @ CHR '']'' # w) =
     Ret (dropWhile (\<lambda>x. x = d) cs @ CHR '']'' # w)"
  by (induction cs) (auto simp: same_char_def)

lemma dropWhile_bracket:
  assumes "CHR '']'' \<notin> set cs"
  shows "dropWhile (\<lambda>x. x \<noteq> CHR '']'') (dropWhile (\<lambda>x. x = d) cs @ CHR '']'' # w) = CHR '']'' # w"
proof -
  have "\<forall>x \<in> set (dropWhile (\<lambda>x. x = d) cs). x \<noteq> CHR '']''"
    using assms by (metis set_dropWhileD)
  then show ?thesis by (simp add: dropWhile_append2)
qed

lemma match_set_start:
  assumes "CHR '']'' \<notin> set cs"
  shows "match_set True (cs @ CHR '']'' # w) (Some (d # s)) =
    (let r = dropWhile (\<lambda>x. x = d) cs
     in if r = [] then Ret None else Ret (Some w))"
proof -
  let ?r = "dropWhile (\<lambda>x. x = d) cs @ CHR '']'' # w"
  have scan: "(if cs @ CHR '']'' # w \<noteq> [] \<and> hd (cs @ CHR '']'' # w) = CHR '']''
       then Ret (cs @ CHR '']'' # w)
       else obind (rd (Some (d # s))) (\<lambda>c. set_scan True c (cs @ CHR '']'' # w))) = Ret ?r"
    using assms set_scan_eq [OF assms, of d w]
    by (cases cs) (auto simp: rd_def simp del: set_scan.simps)
  show ?thesis
  proof (cases "dropWhile (\<lambda>x. x = d) cs")
    case Nil
    then show ?thesis
      unfolding match_set_def scan by (simp del: dropWhile_eq_Nil_conv)
  next
    case (Cons x xs)
    then have "x \<in> set cs" by (metis list.set_intros(1) set_dropWhileD)
    with assms have "x \<noteq> CHR '']''" by blast
    with Cons show ?thesis
      unfolding match_set_def scan using dropWhile_bracket [OF assms, of d w] by simp
  qed
qed

lemma wildcard_bracket:
  assumes "CHR '']'' \<notin> set cs"
  shows "wildcard (CHR ''['' # cs @ CHR '']'' # w) (Some (d # s)) True =
    (if set cs \<subseteq> {d} then Ret False else wildcard w (Some s) True)"
proof -
  have "dropWhile (\<lambda>x. x = d) cs = [] \<longleftrightarrow> set cs \<subseteq> {d}"
    by (auto simp: dropWhile_eq_Nil_conv)
  then show ?thesis
    by (simp add: wildcard_eqs(2) match_set_start [OF assms] adv_def Let_def del: dropWhile_eq_Nil_conv)
qed

end
