(* ===== verification/Pathcmp.thy ===== *)
theory Pathcmp
  imports C_Base "HOL-Library.List_Lexorder"
begin

text \<open>
  \<open>pathcmp.c\<close>: the order of paths in transcripts, in which a slash comes before every other
  character, and the test whether a path lies below another one. \<open>tolower( *p )\<close> is applied
  to a plain \<open>char\<close>, which is negative from \<open>0x80\<close> on; the model takes the value such a
  character has as a signed \<open>char\<close> (for \<open>0xFF\<close>, which is \<open>EOF\<close>, this is what the C standard
  says).
\<close>

definition char_diff :: "bool \<Rightarrow> char \<Rightarrow> char \<Rightarrow> int" where
  "char_diff case_sensitive a b =
     (if case_sensitive then uchar a - uchar b
      else schar (c_tolower a) - schar (c_tolower b))"

fun pathcasecmp :: "string \<Rightarrow> string \<Rightarrow> bool \<Rightarrow> int" where
  "pathcasecmp [] [] sens = 0"
| "pathcasecmp [] (b # bs) sens = char_diff sens NUL b"
| "pathcasecmp (a # as) [] sens = char_diff sens a NUL"
| "pathcasecmp (a # as) (b # bs) sens =
     (let rc = char_diff sens a b
      in if rc \<noteq> 0
         then (if a = SLASH then -1 else if b = SLASH then 1 else rc)
         else pathcasecmp as bs sens)"

definition pathcmp :: "string \<Rightarrow> string \<Rightarrow> int" where
  "pathcmp p1 p2 = pathcasecmp p1 p2 True"

text \<open>\<open>child[ k ]\<close>, where the terminator is readable.\<close>

definition char_at :: "string \<Rightarrow> nat \<Rightarrow> char" where
  "char_at s k = (if k < length s then s ! k else NUL)"

definition ischildcase :: "string \<Rightarrow> string option \<Rightarrow> bool \<Rightarrow> bool" where
  "ischildcase child parent case_sensitive =
     (case parent of
        None \<Rightarrow> True
      | Some parent \<Rightarrow>
          let parentlen = length parent
          in if length child < parentlen then False
             else if parentlen = 1 \<and> char_at parent 0 = SLASH then char_at child 0 = SLASH
             else (if case_sensitive then strncmp parent child parentlen
                   else strncasecmp parent child parentlen) = 0 \<and>
                  (char_at child parentlen = SLASH \<or> char_at child parentlen = NUL))"

definition ischild :: "string \<Rightarrow> string option \<Rightarrow> bool" where
  "ischild child parent = ischildcase child parent True"

section \<open>The interface of a path order\<close>

text \<open>
  What the list, the transcripts and the sorting tool rely on: the comparison is a total
  preorder on the names in use.
\<close>

locale path_order =
  fixes cmp :: "string \<Rightarrow> string \<Rightarrow> int" and ok :: "string \<Rightarrow> bool"
  assumes cmp_refl: "ok a \<Longrightarrow> cmp a a = 0"
    and cmp_flip: "ok a \<Longrightarrow> ok b \<Longrightarrow> cmp a b < 0 \<longleftrightarrow> 0 < cmp b a"
    and cmp_trans: "ok a \<Longrightarrow> ok b \<Longrightarrow> ok c \<Longrightarrow> cmp a b \<le> 0 \<Longrightarrow> cmp b c \<le> 0 \<Longrightarrow> cmp a c \<le> 0"
begin

lemma cmp_eq_sym: "ok a \<Longrightarrow> ok b \<Longrightarrow> cmp a b = 0 \<Longrightarrow> cmp b a = 0"
  using cmp_flip [of a b] cmp_flip [of b a] by linarith

lemma cmp_le_flip: "ok a \<Longrightarrow> ok b \<Longrightarrow> cmp a b \<le> 0 \<longleftrightarrow> 0 \<le> cmp b a"
  using cmp_flip [of b a] by linarith

lemma cmp_less_trans:
  assumes "ok a" "ok b" "ok c" "cmp a b < 0" "cmp b c < 0"
  shows "cmp a c < 0"
proof (rule ccontr)
  assume "\<not> cmp a c < 0"
  then have "cmp c a \<le> 0" using cmp_le_flip assms(1,3) by force
  then have "cmp c b \<le> 0" using cmp_trans [of c a b] assms by force
  then show False using cmp_flip [of b c] assms by linarith
qed

lemma cmp_le_less_trans:
  assumes "ok a" "ok b" "ok c" "cmp a b \<le> 0" "cmp b c < 0"
  shows "cmp a c < 0"
proof (rule ccontr)
  assume "\<not> cmp a c < 0"
  then have "cmp c a \<le> 0" using cmp_le_flip assms(1,3) by force
  then have "cmp c b \<le> 0" using cmp_trans [of c a b] assms by force
  then show False using cmp_flip [of b c] assms by linarith
qed

lemma cmp_less_le_trans:
  assumes "ok a" "ok b" "ok c" "cmp a b < 0" "cmp b c \<le> 0"
  shows "cmp a c < 0"
proof (rule ccontr)
  assume "\<not> cmp a c < 0"
  then have "cmp c a \<le> 0" using cmp_le_flip assms(1,3) by force
  then have "cmp b a \<le> 0" using cmp_trans [of b c a] assms by force
  then show False using cmp_flip [of a b] assms by linarith
qed

text \<open>Ascending names: what a transcript or a list holds.\<close>

fun ascending :: "string list \<Rightarrow> bool" where
  "ascending [] = True"
| "ascending (p # ps) = ((\<forall>q \<in> set ps. cmp p q \<le> 0) \<and> ascending ps)"

fun insert_after :: "string \<Rightarrow> string list \<Rightarrow> string list" where
  "insert_after p [] = [p]"
| "insert_after p (q # qs) = (if 0 < cmp q p then p # q # qs else q # insert_after p qs)"

lemma set_insert_after [simp]: "set (insert_after p qs) = insert p (set qs)"
  by (induction qs) auto

lemma ascending_insert_after:
  "ok p \<Longrightarrow> \<forall>q \<in> set qs. ok q \<Longrightarrow> ascending qs \<Longrightarrow> ascending (insert_after p qs)"
proof (induction qs)
  case Nil
  then show ?case by simp
next
  case (Cons q qs)
  show ?case
  proof (cases "0 < cmp q p")
    case True
    then have pq: "cmp p q \<le> 0" using Cons.prems cmp_flip [of p q] by auto
    then have "\<forall>r \<in> set qs. cmp p r \<le> 0"
      using Cons.prems cmp_trans [OF _ _ _ pq] by auto
    with True pq Cons.prems show ?thesis by auto
  next
    case False
    with Cons show ?thesis by auto
  qed
qed

end

section \<open>The comparison as an order of keys\<close>

definition char_rank :: "bool \<Rightarrow> char \<Rightarrow> int" where
  "char_rank sens c = (if c = SLASH then 0 else uchar (if sens then c else c_tolower c) + 1)"

definition path_key :: "bool \<Rightarrow> string \<Rightarrow> int list" where
  "path_key sens p = map (char_rank sens) p"

definition ascii :: "string \<Rightarrow> bool" where
  "ascii s \<longleftrightarrow> (\<forall>c \<in> set s. 0 < uchar c \<and> uchar c < 128)"

definition path_ok :: "bool \<Rightarrow> string \<Rightarrow> bool" where
  "path_ok sens p \<longleftrightarrow> (if sens then c_string p else ascii p)"

lemma path_key_simps [simp]:
  "path_key sens [] = []" "path_key sens (c # p) = char_rank sens c # path_key sens p"
  "path_key sens (p @ q) = path_key sens p @ path_key sens q"
  by (simp_all add: path_key_def)

lemma ascii_simps [simp]:
  "ascii []" "ascii (c # s) \<longleftrightarrow> 0 < uchar c \<and> uchar c < 128 \<and> ascii s"
  by (auto simp: ascii_def)

lemma path_ok_simps [simp]:
  "path_ok sens []"
  "path_ok sens (c # p) \<longleftrightarrow> (if sens then c \<noteq> NUL else 0 < uchar c \<and> uchar c < 128) \<and> path_ok sens p"
  by (simp_all add: path_ok_def)

lemma uchar_c_tolower_ascii:
  assumes "0 < uchar c" "uchar c < 128"
  shows "schar (c_tolower c) = uchar (c_tolower c)" "0 < uchar (c_tolower c)"
proof -
  have n: "uchar c = int (of_char c)" by (simp add: uchar_def of_nat_of_char)
  have v: "(of_char (c_tolower c) :: nat) =
      (if 65 \<le> (of_char c :: nat) \<and> (of_char c :: nat) \<le> 90 then of_char c + 32 else of_char c)"
    by (simp add: c_tolower_def Let_def of_char_of take_bit_eq_mod)
  have i: "(of_char d :: int) = int (of_char d)" for d by (simp add: of_nat_of_char)
  show "schar (c_tolower c) = uchar (c_tolower c)"
    using assms by (auto simp: schar_def uchar_def i v n Let_def)
  show "0 < uchar (c_tolower c)"
    using assms by (auto simp: uchar_def i v n)
qed

lemma char_diff_ok:
  assumes "path_ok sens [a]" "path_ok sens [b]"
  shows "char_diff sens a b =
    uchar (if sens then a else c_tolower a) - uchar (if sens then b else c_tolower b)"
  using assms uchar_c_tolower_ascii [of a] uchar_c_tolower_ascii [of b]
  by (auto simp: char_diff_def)

lemma pathcasecmp_key:
  "path_ok sens p \<Longrightarrow> path_ok sens q \<Longrightarrow>
     (pathcasecmp p q sens < 0 \<longleftrightarrow> path_key sens p < path_key sens q) \<and>
     (pathcasecmp p q sens = 0 \<longleftrightarrow> path_key sens p = path_key sens q)"
proof (induction p q sens rule: pathcasecmp.induct)
  case (1 sens)
  then show ?case by simp
next
  case (2 b bs sens)
  then show ?case
    using uchar_range(1) [of b] uchar_c_tolower_ascii [of b]
    by (auto simp: char_diff_def schar_def c_tolower_def less_le split: if_splits)
next
  case (3 a as sens)
  then show ?case
    using uchar_range(1) [of a] uchar_c_tolower_ascii [of a]
    by (auto simp: char_diff_def schar_def c_tolower_def less_le split: if_splits)
next
  case (4 a as b bs sens)
  let ?f = "\<lambda>c. if sens then c else c_tolower c"
  have d: "char_diff sens a b = uchar (?f a) - uchar (?f b)"
    using "4.prems" by (intro char_diff_ok) auto
  have z: "?f c = SLASH \<longleftrightarrow> c = SLASH" for c by (simp add: c_tolower_eq_SLASH)
  show ?case
  proof (cases "char_diff sens a b = 0")
    case True
    then have "?f a = ?f b" using d by simp
    moreover then have "a = SLASH \<longleftrightarrow> b = SLASH" using z [of a] z [of b] by metis
    ultimately have "char_rank sens a = char_rank sens b" by (simp add: char_rank_def)
    with True "4.IH" [OF refl] "4.prems" show ?thesis by auto
  next
    case False
    then have ne: "uchar (?f a) \<noteq> uchar (?f b)" using d by simp
    show ?thesis
    proof (cases "a = SLASH \<or> b = SLASH")
      case True
      with False ne uchar_range(1) [of "?f a"] uchar_range(1) [of "?f b"] show ?thesis
        by (auto simp: char_rank_def Let_def)
    next
      case no: False
      with False ne d show ?thesis by (auto simp: char_rank_def Let_def)
    qed
  qed
qed

lemma pathcasecmp_less_iff:
  "path_ok sens p \<Longrightarrow> path_ok sens q \<Longrightarrow> pathcasecmp p q sens < 0 \<longleftrightarrow> path_key sens p < path_key sens q"
  and pathcasecmp_eq_iff:
  "path_ok sens p \<Longrightarrow> path_ok sens q \<Longrightarrow> pathcasecmp p q sens = 0 \<longleftrightarrow> path_key sens p = path_key sens q"
  and pathcasecmp_le_iff:
  "path_ok sens p \<Longrightarrow> path_ok sens q \<Longrightarrow> pathcasecmp p q sens \<le> 0 \<longleftrightarrow> path_key sens p \<le> path_key sens q"
  and pathcasecmp_greater_iff:
  "path_ok sens p \<Longrightarrow> path_ok sens q \<Longrightarrow> 0 < pathcasecmp p q sens \<longleftrightarrow> path_key sens q < path_key sens p"
  using pathcasecmp_key [of sens p q] by (auto simp: le_less not_less)

interpretation po: path_order "\<lambda>p q. pathcasecmp p q sens" "path_ok sens" for sens
  by unfold_locales
    (auto simp: pathcasecmp_less_iff pathcasecmp_eq_iff pathcasecmp_le_iff pathcasecmp_greater_iff)

lemma char_rank_inj: "char_rank True a = char_rank True b \<Longrightarrow> a = b"
  using uchar_range(1) [of a] uchar_range(1) [of b] by (auto simp: char_rank_def split: if_splits)

lemma path_key_inj: "path_key True p = path_key True q \<longleftrightarrow> p = q"
  unfolding path_key_def using inj_map_eq_map [of "char_rank True" p q]
  by (metis char_rank_inj injI)

lemma pathcmp_0_iff: "c_string p \<Longrightarrow> c_string q \<Longrightarrow> pathcmp p q = 0 \<longleftrightarrow> p = q"
  using pathcasecmp_eq_iff [of True p q] by (simp add: pathcmp_def path_ok_def path_key_inj)

section \<open>Directories and their contents\<close>

lemma strncmp_0_prefix:
  assumes "c_string parent" "c_string child" "length parent \<le> length child"
  shows "strncmp parent child (length parent) = 0 \<longleftrightarrow> take (length parent) child = parent"
proof -
  have "c_string (take (length parent) child)"
    using assms(2) by (auto simp: c_string_def dest: in_set_takeD)
  with assms show ?thesis by (auto simp: strncmp_def strcmp_0)
qed

lemma ischild_iff:
  assumes "c_string child" "c_string parent"
  shows "ischild child (Some parent) \<longleftrightarrow>
    (if parent = [SLASH] then \<exists>r. child = SLASH # r
     else child = parent \<or> (\<exists>r. child = parent @ SLASH # r))"
proof (cases "length child < length parent")
  case True
  then show ?thesis by (auto simp: ischild_def ischildcase_def)
next
  case False
  show ?thesis
  proof (cases "parent = [SLASH]")
    case True
    with False show ?thesis
      by (cases child) (auto simp: ischild_def ischildcase_def char_at_def)
  next
    case ne: False
    let ?n = "length parent"
    have root: "\<not> (length parent = 1 \<and> char_at parent 0 = SLASH)"
      using ne by (cases parent) (auto simp: char_at_def)
    have "ischild child (Some parent) \<longleftrightarrow> take ?n child = parent \<and>
        (char_at child ?n = SLASH \<or> char_at child ?n = NUL)"
      using False root strncmp_0_prefix [OF assms(2,1)]
      by (auto simp: ischild_def ischildcase_def Let_def)
    also have "\<dots> \<longleftrightarrow> (child = parent \<or> (\<exists>r. child = parent @ SLASH # r))"
    proof
      assume a: "take ?n child = parent \<and> (char_at child ?n = SLASH \<or> char_at child ?n = NUL)"
      then have c: "child = parent @ drop ?n child" by (metis append_take_drop_id)
      show "child = parent \<or> (\<exists>r. child = parent @ SLASH # r)"
      proof (cases "drop ?n child")
        case Nil
        with c show ?thesis by simp
      next
        case (Cons d r)
        then have "char_at child ?n = d" "d \<noteq> NUL"
          using c assms(1) by (metis char_at_def drop_all list.distinct(1) not_le nth_via_drop)
            (metis Cons c assms(1) c_string_simps(2,3))
        with a Cons c show ?thesis by auto
      qed
    qed (auto simp: char_at_def)
    finally show ?thesis using ne by simp
  qed
qed

text \<open>
  Between a directory's key and the key of something below it there are only keys of
  things below it.
\<close>

lemma key_between:
  fixes ks :: "int list"
  shows "ks \<le> bs \<Longrightarrow> bs \<le> ks @ 0 # rs \<Longrightarrow> \<forall>b \<in> set bs. 0 \<le> b \<Longrightarrow>
    \<exists>r. bs = ks @ r \<and> (r = [] \<or> hd r = 0)"
proof (induction ks arbitrary: bs)
  case Nil
  then show ?case by (cases bs) (auto simp: less_le)
next
  case (Cons k ks)
  then obtain b bs' where "bs = b # bs'" by (cases bs) auto
  with Cons show ?case by auto
qed

lemma key_le_append: "(ks :: int list) \<le> ks @ rs"
  by (induction ks) auto

lemma key_less_append: "(ks :: int list) < ks @ r # rs"
  by (induction ks) auto

lemma append_le_append: "(rs :: int list) \<le> rs' \<Longrightarrow> ks @ rs \<le> ks @ rs'"
  by (induction ks) auto

lemma char_rank_nonneg: "0 \<le> char_rank sens c"
  using uchar_range(1) by (simp add: char_rank_def)

lemma char_rank_0 [simp]: "char_rank sens c = 0 \<longleftrightarrow> c = SLASH"
  using uchar_range(1) [of "if sens then c else c_tolower c"] by (simp add: char_rank_def)

lemma char_rank_SLASH [simp]: "char_rank sens SLASH = 0"
  by simp

lemma path_key_prefix:
  "path_key True p = path_key True d @ r \<Longrightarrow> r = [] \<or> hd r = 0 \<Longrightarrow>
     p = d \<or> (\<exists>t. p = d @ SLASH # t)"
proof (induction d arbitrary: p)
  case Nil
  then show ?case by (cases p) auto
next
  case (Cons c d)
  then obtain c' p' where p: "p = c' # p'" by (cases p) auto
  with Cons.prems have "c' = c" "path_key True p' = path_key True d @ r"
    by (auto dest: char_rank_inj)
  with Cons.IH [of p'] Cons.prems(2) p show ?case by auto
qed

lemma ischild_key:
  assumes "c_string p" "c_string d" "d \<noteq> [SLASH]"
  shows "ischild p (Some d) \<longleftrightarrow>
    (\<exists>r. path_key True p = path_key True d @ r \<and> (r = [] \<or> hd r = 0))"
proof
  assume "ischild p (Some d)"
  with assms have "p = d \<or> (\<exists>t. p = d @ SLASH # t)" by (simp add: ischild_iff)
  then show "\<exists>r. path_key True p = path_key True d @ r \<and> (r = [] \<or> hd r = 0)" by auto
next
  assume "\<exists>r. path_key True p = path_key True d @ r \<and> (r = [] \<or> hd r = 0)"
  with assms show "ischild p (Some d)" by (auto simp: ischild_iff dest: path_key_prefix)
qed

lemma children_contiguous:
  assumes ok: "c_string d" "c_string a" "c_string b" "c_string c"
    and ab: "pathcmp a b \<le> 0" and bc: "pathcmp b c \<le> 0"
    and a: "ischild a (Some d)" and c: "ischild c (Some d)"
  shows "ischild b (Some d)"
proof -
  have ab': "path_key True a \<le> path_key True b" and bc': "path_key True b \<le> path_key True c"
    using ab bc ok by (simp_all add: pathcmp_def pathcasecmp_le_iff path_ok_def)
  show ?thesis
  proof (cases "d = [SLASH]")
    case True
    with a c ok obtain ra rc where "a = SLASH # ra" "c = SLASH # rc" by (auto simp: ischild_iff)
    with ab' bc' have "\<exists>r. b = SLASH # r"
      using char_rank_nonneg by (cases b) (auto simp: le_less dest: leD char_rank_inj)
    with True ok show ?thesis by (simp add: ischild_iff)
  next
    case False
    with a c ok obtain ra rc where
      ra: "path_key True a = path_key True d @ ra" and
      rc: "path_key True c = path_key True d @ rc" "rc = [] \<or> hd rc = 0"
      by (auto simp: ischild_key)
    have "path_key True d \<le> path_key True d @ ra"
      by (rule key_le_append)
    with ra ab' have lo: "path_key True d \<le> path_key True b" by simp
    have "path_key True d @ rc \<le> path_key True d @ 0 # rc'" if "rc = [] \<or> rc = 0 # rc'" for rc'
      using that by (auto intro: append_le_append)
    moreover obtain rc' where "rc = [] \<or> rc = 0 # rc'" using rc(2) by (cases rc) auto
    ultimately have hi: "path_key True b \<le> path_key True d @ 0 # rc'"
      using rc(1) bc' by (metis order_trans)
    have "\<forall>k \<in> set (path_key True b). 0 \<le> k"
      using char_rank_nonneg by (auto simp: path_key_def)
    from key_between [OF lo hi this] False ok show ?thesis by (simp add: ischild_key)
  qed
qed

lemma parent_before_child:
  assumes "c_string d" "c_string r"
  shows "pathcmp d (d @ SLASH # r) < 0"
proof -
  have "path_key True d < path_key True d @ 0 # k" for k
    by (rule key_less_append)
  with assms show ?thesis
    by (simp add: pathcmp_def pathcasecmp_less_iff path_ok_def)
qed

end
