(* ===== verification/PathList.thy ===== *)
theory PathList
  imports Pathcmp
begin

text \<open>
  \<open>list.c\<close>: the doubly linked list of paths behind the exclude list, the special list, the
  list of command files and the server's access list. The model keeps the pointers: a store
  of nodes by address, from which \<open>free\<close> removes, so that a use of a freed node is
  undefined behaviour. \<open>malloc\<close> is taken to succeed, with an address not used before.
\<close>

type_synonym ptr = "nat option"

record node =
  n_path :: string
  n_next :: ptr
  n_prev :: ptr

record plist =
  l_count :: int
  l_head :: ptr
  l_tail :: ptr
  l_heap :: "nat \<Rightarrow> node option"
  l_fresh :: nat

definition deref :: "(nat \<Rightarrow> node option) \<Rightarrow> ptr \<Rightarrow> node outcome" where
  "deref h p =
     (case p of None \<Rightarrow> UB | Some a \<Rightarrow> (case h a of None \<Rightarrow> UB | Some n \<Rightarrow> Ret n))"

text \<open>\<open>p->field = v\<close>.\<close>

definition upd :: "ptr \<Rightarrow> (node \<Rightarrow> node) \<Rightarrow> plist \<Rightarrow> plist outcome" where
  "upd p f l =
     (case p of
        None \<Rightarrow> UB
      | Some a \<Rightarrow>
          (case l_heap l a of
             None \<Rightarrow> UB
           | Some n \<Rightarrow> Ret (l\<lparr>l_heap := (l_heap l)(a \<mapsto> f n)\<rparr>)))"

definition free_node :: "ptr \<Rightarrow> plist \<Rightarrow> plist outcome" where
  "free_node p l =
     (case p of
        None \<Rightarrow> Ret l
      | Some a \<Rightarrow>
          (case l_heap l a of
             None \<Rightarrow> UB
           | Some n \<Rightarrow> Ret (l\<lparr>l_heap := (l_heap l)(a := None)\<rparr>)))"

definition list_create_node :: "plist \<Rightarrow> string \<Rightarrow> ptr \<times> plist" where
  "list_create_node l path =
     (if MAXPATHLEN \<le> length path then (None, l)
      else let a = l_fresh l
           in (Some a,
               l\<lparr>l_heap := (l_heap l)(a \<mapsto> \<lparr>n_path = path, n_next = None, n_prev = None\<rparr>),
                 l_fresh := Suc a\<rparr>))"

definition list_new :: plist where
  "list_new = \<lparr>l_count = 0, l_head = None, l_tail = None, l_heap = Map.empty, l_fresh = 0\<rparr>"

definition list_insert_head :: "plist \<Rightarrow> string \<Rightarrow> (int \<times> plist) outcome" where
  "list_insert_head l path =
     (case list_create_node l path of
        (None, l) \<Rightarrow> Ret (-1, l)
      | (Some a, l) \<Rightarrow>
          obind (if l_head l = None then Ret (l\<lparr>l_tail := Some a\<rparr>)
                 else obind (upd (l_head l) (\<lambda>n. n\<lparr>n_prev := Some a\<rparr>) l)
                        (upd (Some a) (\<lambda>n. n\<lparr>n_next := l_head l\<rparr>)))
            (\<lambda>l. Ret (0, l\<lparr>l_head := Some a, l_count := l_count l + 1\<rparr>)))"

definition list_insert_tail :: "plist \<Rightarrow> string \<Rightarrow> (int \<times> plist) outcome" where
  "list_insert_tail l path =
     (case list_create_node l path of
        (None, l) \<Rightarrow> Ret (-1, l)
      | (Some a, l) \<Rightarrow>
          obind (if l_tail l = None then Ret (l\<lparr>l_head := Some a\<rparr>)
                 else obind (upd (l_tail l) (\<lambda>n. n\<lparr>n_next := Some a\<rparr>) l)
                        (upd (Some a) (\<lambda>n. n\<lparr>n_prev := l_tail l\<rparr>)))
            (\<lambda>l. Ret (0, l\<lparr>l_tail := Some a, l_count := l_count l + 1\<rparr>)))"

text \<open>
  The loops follow \<open>n_next\<close>. Their fuel is the number of nodes ever made, more than any
  list holds; running out stands for a loop that does not end.
\<close>

fun find_greater ::
  "nat \<Rightarrow> (nat \<Rightarrow> node option) \<Rightarrow> ptr \<Rightarrow> string \<Rightarrow> bool \<Rightarrow> ptr outcome" where
  "find_greater k h None path sens = Ret None"
| "find_greater 0 h (Some a) path sens = UB"
| "find_greater (Suc k) h (Some a) path sens =
     obind (deref h (Some a))
       (\<lambda>n. if 0 < pathcasecmp (n_path n) path sens then Ret (Some a)
            else find_greater k h (n_next n) path sens)"

definition list_insert_case :: "plist \<Rightarrow> string \<Rightarrow> bool \<Rightarrow> (int \<times> plist) outcome" where
  "list_insert_case l path case_sensitive =
     obind (find_greater (l_fresh l) (l_heap l) (l_head l) path case_sensitive) (\<lambda>cur.
       case cur of
         None \<Rightarrow> list_insert_tail l path
       | Some c \<Rightarrow>
           obind (deref (l_heap l) cur) (\<lambda>cn.
             if n_prev cn = None then list_insert_head l path
             else (case list_create_node l path of
                     (None, l) \<Rightarrow> Ret (-1, l)
                   | (Some a, l) \<Rightarrow>
                       obind (upd (Some a) (\<lambda>n. n\<lparr>n_next := cur\<rparr>) l) (\<lambda>l.
                       obind (upd (n_prev cn) (\<lambda>n. n\<lparr>n_next := Some a\<rparr>) l) (\<lambda>l.
                       obind (upd (Some a) (\<lambda>n. n\<lparr>n_prev := n_prev cn\<rparr>) l) (\<lambda>l.
                       obind (upd cur (\<lambda>n. n\<lparr>n_prev := Some a\<rparr>) l) (\<lambda>l.
                         Ret (0, l\<lparr>l_count := l_count l + 1\<rparr>))))))))"

definition list_insert :: "plist \<Rightarrow> string \<Rightarrow> (int \<times> plist) outcome" where
  "list_insert l path = list_insert_case l path True"

text \<open>The popped node stays allocated; the caller owns it.\<close>

definition list_pop_tail :: "plist \<Rightarrow> (ptr \<times> plist) outcome" where
  "list_pop_tail l =
     (if l_tail l = None then Ret (None, l)
      else obind
        (if l_count l = 1 then Ret (l\<lparr>l_tail := None, l_head := None\<rparr>)
         else obind (deref (l_heap l) (l_tail l)) (\<lambda>n.
           let l' = l\<lparr>l_tail := n_prev n\<rparr>
           in upd (l_tail l') (\<lambda>n. n\<lparr>n_next := None\<rparr>) l'))
        (\<lambda>l'. Ret (l_tail l, l'\<lparr>l_count := l_count l' - 1\<rparr>)))"

definition list_pop_head :: "plist \<Rightarrow> (ptr \<times> plist) outcome" where
  "list_pop_head l =
     (if l_head l = None then Ret (None, l)
      else obind
        (let l1 = (if l_count l = 1 then l\<lparr>l_tail := None, l_head := None\<rparr> else l)
         in if l_head l1 \<noteq> None
            then obind (deref (l_heap l1) (l_head l1)) (\<lambda>n.
                   let l2 = l1\<lparr>l_head := n_next n\<rparr>
                   in upd (l_head l2) (\<lambda>n. n\<lparr>n_prev := None\<rparr>) l2)
            else Ret l1)
        (\<lambda>l'. Ret (l_head l, l'\<lparr>l_count := l_count l' - 1\<rparr>)))"

definition list_remove_head :: "plist \<Rightarrow> plist outcome" where
  "list_remove_head l = obind (list_pop_head l) (\<lambda>(p, l). free_node p l)"

definition list_remove_tail :: "plist \<Rightarrow> plist outcome" where
  "list_remove_tail l = obind (list_pop_tail l) (\<lambda>(p, l). free_node p l)"

fun list_clear_loop :: "nat \<Rightarrow> plist \<Rightarrow> plist outcome" where
  "list_clear_loop k l =
     (if l_tail l = None then Ret l
      else case k of 0 \<Rightarrow> UB | Suc k' \<Rightarrow> obind (list_remove_tail l) (list_clear_loop k'))"

declare list_clear_loop.simps [simp del]

definition list_clear :: "plist \<Rightarrow> plist outcome" where
  "list_clear l = list_clear_loop (l_fresh l) l"

fun list_check_loop :: "nat \<Rightarrow> (nat \<Rightarrow> node option) \<Rightarrow> ptr \<Rightarrow> string \<Rightarrow> bool outcome" where
  "list_check_loop k h None path = Ret False"
| "list_check_loop 0 h (Some a) path = UB"
| "list_check_loop (Suc k) h (Some a) path =
     obind (deref h (Some a))
       (\<lambda>n. if pathcmp (n_path n) path = 0 then Ret True
            else list_check_loop k h (n_next n) path)"

definition list_check :: "plist \<Rightarrow> string \<Rightarrow> bool outcome" where
  "list_check l path = list_check_loop (l_fresh l) (l_heap l) (l_head l) path"

text \<open>
  After a removal the loop goes on with \<open>cur = cur->n_next\<close>, where \<open>cur\<close> is the node that
  was just freed.
\<close>

fun list_remove_loop :: "nat \<Rightarrow> plist \<Rightarrow> ptr \<Rightarrow> string \<Rightarrow> nat \<Rightarrow> (nat \<times> plist) outcome" where
  "list_remove_loop k l None path count = Ret (count, l)"
| "list_remove_loop 0 l (Some a) path count = UB"
| "list_remove_loop (Suc k) l (Some a) path count =
     obind (deref (l_heap l) (Some a)) (\<lambda>n.
     obind (if pathcmp (n_path n) path = 0
            then (if l_head l = Some a
                  then obind (list_remove_head l) (\<lambda>l. Ret (Suc count, l))
                  else if l_tail l = Some a
                  then obind (list_remove_tail l) (\<lambda>l. Ret (Suc count, l))
                  else
                    obind (upd (n_prev n) (\<lambda>m. m\<lparr>n_next := n_next n\<rparr>) l) (\<lambda>l.
                    obind (upd (n_next n) (\<lambda>m. m\<lparr>n_prev := n_prev n\<rparr>) l) (\<lambda>l.
                    obind (free_node (Some a) l) (\<lambda>l.
                      Ret (Suc count, l\<lparr>l_count := l_count l - 1\<rparr>)))))
            else Ret (count, l))
       (\<lambda>(count, l).
          obind (deref (l_heap l) (Some a)) (\<lambda>n.
            list_remove_loop k l (n_next n) path count)))"

definition list_remove :: "plist \<Rightarrow> string \<Rightarrow> (nat \<times> plist) outcome" where
  "list_remove l path = list_remove_loop (l_fresh l) l (l_head l) path 0"

section \<open>Well-formed lists\<close>

definition hdp :: "nat list \<Rightarrow> ptr \<Rightarrow> ptr" where
  "hdp as nx = (case as of [] \<Rightarrow> nx | a # _ \<Rightarrow> Some a)"

definition lastp :: "nat list \<Rightarrow> ptr \<Rightarrow> ptr" where
  "lastp as pr = (if as = [] then pr else Some (last as))"

lemma hdp_simps [simp]: "hdp [] nx = nx" "hdp (a # as) nx = Some a"
  by (simp_all add: hdp_def)

lemma lastp_simps [simp]:
  "lastp [] pr = pr" "lastp (a # as) pr = lastp as (Some a)" "lastp (as @ [a]) pr = Some a"
  "lastp (as @ a # bs) pr = lastp bs (Some a)"
  by (simp_all add: lastp_def)

text \<open>
  \<open>chain h pr as nx ps\<close>: the nodes at \<open>as\<close> hold the paths \<open>ps\<close> and are linked both ways,
  between the pointers \<open>pr\<close> and \<open>nx\<close>.
\<close>

fun chain :: "(nat \<Rightarrow> node option) \<Rightarrow> ptr \<Rightarrow> nat list \<Rightarrow> ptr \<Rightarrow> string list \<Rightarrow> bool" where
  "chain h pr [] nx [] \<longleftrightarrow> True"
| "chain h pr (a # as) nx (p # ps) \<longleftrightarrow>
     h a = Some \<lparr>n_path = p, n_next = hdp as nx, n_prev = pr\<rparr> \<and> chain h (Some a) as nx ps"
| "chain h pr _ nx _ \<longleftrightarrow> False"

definition repr :: "plist \<Rightarrow> nat list \<Rightarrow> string list \<Rightarrow> bool" where
  "repr l as ps \<longleftrightarrow>
     chain (l_heap l) None as None ps \<and> distinct as \<and> (\<forall>a \<in> set as. a < l_fresh l) \<and>
     l_head l = hdp as None \<and> l_tail l = lastp as None \<and> l_count l = int (length as)"

lemma chain_length: "chain h pr as nx ps \<Longrightarrow> length ps = length as"
  by (induction h pr as nx ps rule: chain.induct) auto

lemma chain_append:
  "length as = length ps \<Longrightarrow>
     chain h pr (as @ bs) nx (ps @ qs) \<longleftrightarrow>
       chain h pr as (hdp bs nx) ps \<and> chain h (lastp as pr) bs nx qs"
  by (induction as ps arbitrary: pr rule: list_induct2) (auto simp: hdp_def split: list.splits)

lemma chain_fun_upd [simp]:
  "a \<notin> set as \<Longrightarrow> chain (h(a := x)) pr as nx ps = chain h pr as nx ps"
  by (induction h pr as nx ps rule: chain.induct) auto

lemma repr_fuel: "repr l as ps \<Longrightarrow> length as \<le> l_fresh l"
proof -
  assume "repr l as ps"
  then have "set as \<subseteq> {..<l_fresh l}" and d: "distinct as" by (auto simp: repr_def)
  then have "card (set as) \<le> card {..<l_fresh l}" by (intro card_mono) auto
  with d show ?thesis by (simp add: distinct_card)
qed

lemma repr_new: "repr list_new [] []"
  by (simp add: repr_def list_new_def)

lemma chain_hd:
  "chain h pr (a # as) nx ps \<Longrightarrow>
     \<exists>p qs. ps = p # qs \<and> h a = Some \<lparr>n_path = p, n_next = hdp as nx, n_prev = pr\<rparr> \<and>
       chain h (Some a) as nx qs"
  by (cases ps) auto

lemma chain_dom: "chain h pr as nx ps \<Longrightarrow> b \<in> set as \<Longrightarrow> \<exists>n. h b = Some n"
  by (induction h pr as nx ps rule: chain.induct) auto

section \<open>Searching\<close>

lemma list_check_loop_chain:
  "chain h pr as None ps \<Longrightarrow> length as \<le> k \<Longrightarrow>
     list_check_loop k h (hdp as None) path = Ret (\<exists>q \<in> set ps. pathcmp q path = 0)"
proof (induction as arbitrary: k pr ps)
  case Nil
  then show ?case by (cases ps) simp_all
next
  case (Cons a as)
  then obtain k' p qs where "k = Suc k'" "ps = p # qs"
    "h a = Some \<lparr>n_path = p, n_next = hdp as None, n_prev = pr\<rparr>" "chain h (Some a) as None qs"
    by (cases k) (auto dest: chain_hd)
  with Cons.IH [of "Some a" qs k'] Cons.prems(2) show ?case by (simp add: deref_def)
qed

lemma list_check_repr:
  "repr l as ps \<Longrightarrow> list_check l path = Ret (\<exists>q \<in> set ps. pathcmp q path = 0)"
  using list_check_loop_chain [of "l_heap l" None as ps "l_fresh l" path] repr_fuel [of l as ps]
  by (simp add: repr_def list_check_def)

lemma find_greater_chain:
  "chain h pr as None ps \<Longrightarrow> length as \<le> k \<Longrightarrow>
     find_greater k h (hdp as None) path sens =
       Ret (hdp (drop (length (takeWhile (\<lambda>q. \<not> 0 < pathcasecmp q path sens) ps)) as) None)"
proof (induction as arbitrary: k pr ps)
  case Nil
  then show ?case by (cases ps) simp_all
next
  case (Cons a as)
  then obtain k' p qs where "k = Suc k'" "ps = p # qs"
    "h a = Some \<lparr>n_path = p, n_next = hdp as None, n_prev = pr\<rparr>" "chain h (Some a) as None qs"
    by (cases k) (auto dest: chain_hd)
  with Cons.IH [of "Some a" qs k'] Cons.prems(2) show ?case by (simp add: deref_def)
qed

section \<open>Inserting\<close>

lemma insert_after_split:
  "path_order.insert_after (\<lambda>p q. pathcasecmp p q sens) path ps =
     takeWhile (\<lambda>q. \<not> 0 < pathcasecmp q path sens) ps @ path #
     dropWhile (\<lambda>q. \<not> 0 < pathcasecmp q path sens) ps"
  by (induction ps) auto

lemma insert_head_repr:
  assumes r: "repr l as ps" and "length path < MAXPATHLEN"
  shows "\<exists>l'. list_insert_head l path = Ret (0, l') \<and> repr l' (l_fresh l # as) (path # ps)"
proof (cases as)
  case Nil
  with assms show ?thesis
    by (cases ps) (auto simp: repr_def list_insert_head_def list_create_node_def Let_def)
next
  case (Cons a as')
  let ?f = "l_fresh l"
  from r Cons have "chain (l_heap l) None (a # as') None ps" by (simp add: repr_def)
  then obtain p qs where ps: "ps = p # qs" and
    h: "l_heap l a = Some \<lparr>n_path = p, n_next = hdp as' None, n_prev = None\<rparr>" and
    c: "chain (l_heap l) (Some a) as' None qs" by (auto dest: chain_hd)
  have n: "?f \<notin> set as" "a \<notin> set as'" "?f \<noteq> a" "distinct as'" "\<forall>b \<in> set as'. b < ?f"
    "l_head l = Some a" "l_tail l = lastp as' (Some a)" "l_count l = 1 + int (length as')" "a < ?f"
    using r Cons by (auto simp: repr_def)
  with h assms(2) c ps Cons show ?thesis
    by (auto simp: repr_def list_insert_head_def list_create_node_def Let_def upd_def less_SucI)
qed

lemma insert_tail_repr:
  assumes r: "repr l as ps" and "length path < MAXPATHLEN"
  shows "\<exists>l'. list_insert_tail l path = Ret (0, l') \<and> repr l' (as @ [l_fresh l]) (ps @ [path])"
proof (cases as rule: rev_cases)
  case Nil
  with assms show ?thesis
    by (cases ps) (auto simp: repr_def list_insert_tail_def list_create_node_def Let_def)
next
  case (snoc as' a)
  let ?f = "l_fresh l"
  from r have c: "chain (l_heap l) None as None ps" by (simp add: repr_def)
  with chain_length [OF c] snoc obtain qs p where ps: "ps = qs @ [p]" "length qs = length as'"
    by (cases ps rule: rev_cases) auto
  with c snoc have c': "chain (l_heap l) None as' (Some a) qs"
    "l_heap l a = Some \<lparr>n_path = p, n_next = None, n_prev = lastp as' None\<rparr>"
    by (simp_all add: chain_append)
  have n: "?f \<notin> set as'" "a \<notin> set as'" "?f \<noteq> a" "distinct as'" "\<forall>b \<in> set as'. b < ?f"
    "l_head l = hdp (as' @ [a]) None" "l_tail l = Some a" "l_count l = 1 + int (length as')" "a < ?f"
    using r snoc by (auto simp: repr_def)
  have hd: "hdp (as' @ [a] @ [?f]) None = hdp (as' @ [a]) None" by (cases as') simp_all
  from n c' assms(2) ps snoc hd show ?thesis
    by (auto simp: repr_def list_insert_tail_def list_create_node_def Let_def upd_def less_SucI chain_append)
qed

lemma insert_middle_repr:
  fixes path :: string
  assumes r: "repr l (as @ b # bs) (ps @ q # qs)" and len: "length as = length ps" and ne: "as \<noteq> []"
  defines "f \<equiv> l_fresh l"
  defines "h \<equiv> (l_heap l)(f \<mapsto> \<lparr>n_path = path, n_next = Some b, n_prev = Some (last as)\<rparr>,
      last as \<mapsto> (the (l_heap l (last as)))\<lparr>n_next := Some f\<rparr>,
      b \<mapsto> (the (l_heap l b))\<lparr>n_prev := Some f\<rparr>)"
  shows "repr (l\<lparr>l_heap := h, l_fresh := Suc f, l_count := l_count l + 1\<rparr>)
    (as @ f # b # bs) (ps @ path # q # qs)"
proof -
  obtain as' a where as: "as = as' @ [a]" using ne by (cases as rule: rev_cases) auto
  with len obtain ps' p where ps: "ps = ps' @ [p]" "length as' = length ps'"
    by (cases ps rule: rev_cases) auto
  have c: "chain (l_heap l) None as' (Some a) ps'"
    "l_heap l a = Some \<lparr>n_path = p, n_next = Some b, n_prev = lastp as' None\<rparr>"
    "l_heap l b = Some \<lparr>n_path = q, n_next = hdp bs None, n_prev = Some a\<rparr>"
    "chain (l_heap l) (Some b) bs None qs"
    using r as ps by (simp_all add: repr_def chain_append)
  have d: "distinct (as' @ a # b # bs)" "\<forall>x \<in> set (as' @ a # b # bs). x < f"
    using r as by (auto simp: repr_def f_def)
  then have n: "f \<notin> set as'" "f \<noteq> a" "f \<noteq> b" "f \<notin> set bs" by auto
  have "chain h None (as' @ a # f # b # bs) None (ps' @ p # path # q # qs)"
    using c d n ps(2) as by (auto simp: chain_append h_def)
  moreover have "hdp (as' @ a # f # b # bs) None = l_head l"
    "lastp (as' @ a # f # b # bs) None = l_tail l"
    using r as by (cases as'; simp add: repr_def lastp_def)+
  ultimately show ?thesis
    using d n as ps r by (auto simp: repr_def less_SucI)
qed

lemma insert_case_repr:
  assumes r: "repr l as ps" and len: "length path < MAXPATHLEN"
  shows "\<exists>l' as'. list_insert_case l path sens = Ret (0, l') \<and>
    repr l' as' (path_order.insert_after (\<lambda>p q. pathcasecmp p q sens) path ps)"
proof -
  let ?P = "\<lambda>q. \<not> 0 < pathcasecmp q path sens"
  let ?j = "length (takeWhile ?P ps)"
  have c: "chain (l_heap l) None as None ps" and hd: "l_head l = hdp as None"
    using r by (auto simp: repr_def)
  have find: "find_greater (l_fresh l) (l_heap l) (l_head l) path sens = Ret (hdp (drop ?j as) None)"
    using find_greater_chain [OF c repr_fuel [OF r]] hd by simp
  have lps: "length ps = length as" by (rule chain_length [OF c])
  show ?thesis
  proof (cases "drop ?j as")
    case Nil
    then have "length as \<le> ?j" by simp
    then have "length (takeWhile ?P ps) = length ps"
      using lps length_takeWhile_le [of ?P ps] by linarith
    then have "takeWhile ?P ps = ps" "dropWhile ?P ps = []"
      by (metis takeWhile_eq_take take_all order_refl, metis dropWhile_eq_drop drop_all order_refl)
    then have "path_order.insert_after (\<lambda>p q. pathcasecmp p q sens) path ps = ps @ [path]"
      by (simp only: insert_after_split)
    with insert_tail_repr [OF r len] find Nil show ?thesis
      by (auto simp: list_insert_case_def simp del: po.insert_after.simps)
  next
    case (Cons b bs)
    have j: "?j \<le> length ps" by (rule length_takeWhile_le)
    have "drop ?j ps = dropWhile ?P ps" by (simp add: dropWhile_eq_drop)
    moreover have "length (drop ?j ps) = length (drop ?j as)" using lps by simp
    ultimately obtain q qs where q: "dropWhile ?P ps = q # qs" using Cons by (cases "dropWhile ?P ps") auto
    have ps: "ps = takeWhile ?P ps @ q # qs" using q by (metis takeWhile_dropWhile_id)
    have as: "as = take ?j as @ b # bs" using Cons by (metis append_take_drop_id)
    have lt: "length (take ?j as) = length (takeWhile ?P ps)" using j lps by simp
    have "chain (l_heap l) None (take ?j as @ b # bs) None (takeWhile ?P ps @ q # qs)"
      using c as ps by simp
    then have b: "l_heap l b =
        Some \<lparr>n_path = q, n_next = hdp bs None, n_prev = lastp (take ?j as) None\<rparr>"
      using lt by (simp add: chain_append)
    show ?thesis
    proof (cases "take ?j as = []")
      case True
      then have "takeWhile ?P ps = []" using lt by (metis length_0_conv)
      moreover from this have "dropWhile ?P ps = ps" by (metis append_Nil takeWhile_dropWhile_id)
      ultimately have "path_order.insert_after (\<lambda>p q. pathcasecmp p q sens) path ps = path # ps"
        by (simp only: insert_after_split append_Nil)
      with insert_head_repr [OF r len] find Cons b True show ?thesis
        by (auto simp: list_insert_case_def deref_def)
    next
      case False
      have r': "repr l (take ?j as @ b # bs) (takeWhile ?P ps @ q # qs)" using r as ps by simp
      have "last (take ?j as) \<in> set as" using False by (metis in_set_takeD last_in_set)
      moreover have "last (take ?j as) \<noteq> b"
        using r' False by (auto simp: repr_def)
      moreover have "b \<in> set as" by (subst as) simp
      ultimately have fr: "l_fresh l \<noteq> b" "l_fresh l \<noteq> last (take ?j as)" "last (take ?j as) \<noteq> b"
        using r by (auto simp: repr_def)
      obtain as' a where as': "take ?j as = as' @ [a]" using False by (cases "take ?j as" rule: rev_cases) auto
      obtain ps' p where ps': "takeWhile ?P ps = ps' @ [p]" "length ps' = length as'"
        using lt as' by (metis append_butlast_last_id length_append_singleton length_butlast
            length_0_conv diff_Suc_1 append_is_Nil_conv not_Cons_self2)
      have "chain (l_heap l) None (as' @ [a] @ b # bs) None (ps' @ [p] @ q # qs)"
        using r' as' ps' by (simp add: repr_def)
      then have a: "l_heap l a = Some \<lparr>n_path = p, n_next = Some b, n_prev = lastp as' None\<rparr>"
        using ps'(2) by (simp add: chain_append)
      have ia: "path_order.insert_after (\<lambda>p q. pathcasecmp p q sens) path ps =
          takeWhile ?P ps @ path # q # qs"
        using q by (simp only: insert_after_split)
      have la: "last (take ?j as) = a" "lastp (take ?j as) None = Some a" by (simp_all add: as')
      let ?h = "(l_heap l)(l_fresh l \<mapsto> \<lparr>n_path = path, n_next = Some b, n_prev = Some a\<rparr>,
          a \<mapsto> (the (l_heap l a))\<lparr>n_next := Some (l_fresh l)\<rparr>,
          b \<mapsto> (the (l_heap l b))\<lparr>n_prev := Some (l_fresh l)\<rparr>)"
      have "list_insert_case l path sens =
          Ret (0, l\<lparr>l_heap := ?h, l_fresh := Suc (l_fresh l), l_count := l_count l + 1\<rparr>)"
        using find Cons a b fr len la
        by (cases l) (simp add: list_insert_case_def deref_def list_create_node_def Let_def upd_def
            fun_upd_twist)
      moreover have "repr (l\<lparr>l_heap := ?h, l_fresh := Suc (l_fresh l), l_count := l_count l + 1\<rparr>)
          (take ?j as @ l_fresh l # b # bs) (takeWhile ?P ps @ path # q # qs)"
        using insert_middle_repr [OF r' lt False, of path] by (simp only: la)
      ultimately show ?thesis unfolding ia by blast
    qed
  qed
qed

lemma insert_too_long:
  assumes r: "repr l as ps" and len: "MAXPATHLEN \<le> length path"
  shows "list_insert_case l path sens = Ret (-1, l)"
proof -
  have c: "chain (l_heap l) None as None ps" and hd: "l_head l = hdp as None"
    using r by (auto simp: repr_def)
  obtain j where find: "find_greater (l_fresh l) (l_heap l) (l_head l) path sens = Ret (hdp (drop j as) None)"
    using find_greater_chain [OF c repr_fuel [OF r]] hd by metis
  have "\<exists>n. l_heap l b = Some n" if "b \<in> set as" for b
    using chain_dom [OF c that] .
  then show ?thesis
    using find len in_set_dropD [of _ j as]
    by (cases "drop j as")
      (auto simp: list_insert_case_def list_insert_tail_def list_insert_head_def
        list_create_node_def deref_def split: option.splits)
qed

section \<open>Taking nodes off the ends\<close>

lemma pop_head_repr:
  assumes r: "repr l (a # as) (p # ps)"
  shows "\<exists>l' n. list_pop_head l = Ret (Some a, l') \<and> repr l' as ps \<and>
    l_heap l' a = Some n \<and> n_path n = p"
proof (cases as)
  case Nil
  with r show ?thesis
    by (cases ps) (auto simp: repr_def list_pop_head_def Let_def)
next
  case (Cons b as')
  with r obtain q qs where ps: "ps = q # qs" by (cases ps) (auto simp: repr_def)
  from r Cons ps have "l_heap l b = Some \<lparr>n_path = q, n_next = hdp as' None, n_prev = Some a\<rparr>"
    "l_heap l a = Some \<lparr>n_path = p, n_next = Some b, n_prev = None\<rparr>" "a \<noteq> b" "b \<notin> set as'"
    "chain (l_heap l) (Some b) as' None qs"
    by (auto simp: repr_def)
  with r Cons ps show ?thesis
    by (auto simp: repr_def list_pop_head_def Let_def deref_def upd_def)
qed

lemma pop_tail_repr:
  assumes r: "repr l (as @ [a]) (ps @ [p])"
  shows "\<exists>l' n. list_pop_tail l = Ret (Some a, l') \<and> repr l' as ps \<and>
    l_heap l' a = Some n \<and> n_path n = p"
proof (cases as rule: rev_cases)
  case Nil
  with r have "ps = []" by (cases ps) (auto simp: repr_def dest: chain_length)
  with Nil r show ?thesis by (auto simp: repr_def list_pop_tail_def)
next
  case (snoc as' b)
  from r have c: "chain (l_heap l) None (as @ [a]) None (ps @ [p])" by (simp add: repr_def)
  with chain_length [OF c] snoc obtain qs q where ps: "ps = qs @ [q]" "length qs = length as'"
    by (cases ps rule: rev_cases) auto
  with c snoc have "chain (l_heap l) None (as' @ [b] @ [a]) None (qs @ [q] @ [p])" by simp
  then have h: "chain (l_heap l) None as' (Some b) qs"
    "l_heap l b = Some \<lparr>n_path = q, n_next = Some a, n_prev = lastp as' None\<rparr>"
    "l_heap l a = Some \<lparr>n_path = p, n_next = None, n_prev = Some b\<rparr>"
    using ps(2) by (simp_all add: chain_append)
  have d: "distinct as'" "a \<noteq> b" "b \<notin> set as'" "a \<notin> set as'"
    "l_tail l = Some a" "l_count l = 2 + int (length as')"
    "\<forall>x \<in> insert a (insert b (set as')). x < l_fresh l"
    using r snoc by (auto simp: repr_def)
  have "l_head l = hdp (as' @ [b]) None"
    using r snoc by (cases as') (auto simp: repr_def)
  with h d ps snoc show ?thesis
    by (auto simp: repr_def list_pop_tail_def Let_def deref_def upd_def chain_append)
qed

lemma remove_head_repr:
  assumes r: "repr l (a # as) (p # ps)"
  shows "\<exists>l'. list_remove_head l = Ret l' \<and> repr l' as ps"
proof -
  obtain l' n where "list_pop_head l = Ret (Some a, l')" "repr l' as ps" "l_heap l' a = Some n"
    using pop_head_repr [OF r] by blast
  moreover have "a \<notin> set as" using r by (simp add: repr_def)
  ultimately show ?thesis by (auto simp: list_remove_head_def free_node_def repr_def)
qed

lemma remove_tail_repr:
  assumes r: "repr l (as @ [a]) (ps @ [p])"
  shows "\<exists>l'. list_remove_tail l = Ret l' \<and> repr l' as ps"
proof -
  obtain l' n where "list_pop_tail l = Ret (Some a, l')" "repr l' as ps" "l_heap l' a = Some n"
    using pop_tail_repr [OF r] by blast
  moreover have "a \<notin> set as" using r by (simp add: repr_def)
  ultimately show ?thesis by (auto simp: list_remove_tail_def free_node_def repr_def)
qed

lemma clear_loop_repr:
  "repr l as ps \<Longrightarrow> length as \<le> k \<Longrightarrow> \<exists>l'. list_clear_loop k l = Ret l' \<and> repr l' [] []"
proof (induction k arbitrary: l as ps)
  case 0
  then show ?case by (cases ps) (auto simp: repr_def list_clear_loop.simps)
next
  case (Suc k)
  show ?case
  proof (cases as rule: rev_cases)
    case Nil
    with Suc.prems show ?thesis by (cases ps) (auto simp: repr_def list_clear_loop.simps)
  next
    case (snoc as' a)
    with Suc.prems(1) have "length ps = Suc (length as')"
      by (auto simp: repr_def dest!: chain_length)
    then obtain ps' p where ps: "ps = ps' @ [p]" by (cases ps rule: rev_cases) auto
    with Suc.prems(1) snoc obtain l' where "list_remove_tail l = Ret l'" "repr l' as' ps'"
      using remove_tail_repr by metis
    moreover have "l_tail l = Some a" using Suc.prems(1) snoc by (simp add: repr_def)
    ultimately show ?thesis
      using Suc.IH [of l' as' ps'] Suc.prems(2) snoc by (simp add: list_clear_loop.simps)
  qed
qed

lemma list_clear_repr: "repr l as ps \<Longrightarrow> \<exists>l'. list_clear l = Ret l' \<and> repr l' [] []"
  unfolding list_clear_def by (rule clear_loop_repr) (auto dest: repr_fuel)

section \<open>Removing a path\<close>

lemma upd_no_Exit [simp]: "upd p f l \<noteq> Exit n"
  by (auto simp: upd_def split: option.splits)

lemma free_node_no_Exit [simp]: "free_node p l \<noteq> Exit n"
  by (auto simp: free_node_def split: option.splits)

lemma deref_no_Exit [simp]: "deref h p \<noteq> Exit n"
  by (auto simp: deref_def split: option.splits)

lemma free_node_gone: "free_node (Some a) l = Ret l' \<Longrightarrow> l_heap l' a = None"
  by (auto simp: free_node_def split: option.splits)

lemma list_remove_head_gone:
  "l_head l = Some a \<Longrightarrow> list_remove_head l = Ret l' \<Longrightarrow> l_heap l' a = None"
  by (auto simp: list_remove_head_def list_pop_head_def obind_Ret_iff dest!: free_node_gone)

lemma list_remove_tail_gone:
  "l_tail l = Some a \<Longrightarrow> list_remove_tail l = Ret l' \<Longrightarrow> l_heap l' a = None"
  by (auto simp: list_remove_tail_def list_pop_tail_def obind_Ret_iff dest!: free_node_gone)

lemma remove_ends_no_Exit [simp]: "list_remove_head l \<noteq> Exit n" "list_remove_tail l \<noteq> Exit n"
  by (auto simp: list_remove_head_def list_remove_tail_def list_pop_head_def list_pop_tail_def
      obind_Exit_iff Let_def split: if_splits)

text \<open>The node that matched is gone when the loop reads its \<open>n_next\<close>.\<close>

lemma remove_loop_hit:
  assumes h: "l_heap l a = Some n" and m: "pathcmp (n_path n) path = 0"
  shows "list_remove_loop (Suc k) l (Some a) path count = UB"
proof -
  have gone: "deref (l_heap l') (Some a) = UB" if "l_heap l' a = None" for l'
    using that by (simp add: deref_def)
  let ?body = "if l_head l = Some a
      then obind (list_remove_head l) (\<lambda>l. Ret (Suc count, l))
      else if l_tail l = Some a
      then obind (list_remove_tail l) (\<lambda>l. Ret (Suc count, l))
      else
        obind (upd (n_prev n) (\<lambda>m. m\<lparr>n_next := n_next n\<rparr>) l) (\<lambda>l.
        obind (upd (n_next n) (\<lambda>m. m\<lparr>n_prev := n_prev n\<rparr>) l) (\<lambda>l.
        obind (free_node (Some a) l) (\<lambda>l.
          Ret (Suc count, l\<lparr>l_count := l_count l - 1\<rparr>))))"
  have "l_heap l' a = None" if "?body = Ret (c, l')" for c l'
    using that by (auto simp: obind_Ret_iff split: if_splits
        dest: list_remove_head_gone list_remove_tail_gone free_node_gone)
  moreover have "?body \<noteq> Exit e" for e
    by (auto simp: obind_Exit_iff split: if_splits)
  ultimately have "obind ?body (\<lambda>(count, l). obind (deref (l_heap l) (Some a)) (\<lambda>n.
      list_remove_loop k l (n_next n) path count)) = UB"
    by (cases ?body) (auto simp: gone)
  with h m show ?thesis by (simp add: deref_def)
qed

lemma remove_loop_chain:
  "chain (l_heap l) pr as None ps \<Longrightarrow> length as \<le> k \<Longrightarrow>
     list_remove_loop k l (hdp as None) path count =
       (if \<exists>q \<in> set ps. pathcmp q path = 0 then UB else Ret (count, l))"
proof (induction as arbitrary: k pr ps)
  case Nil
  then show ?case by (cases ps) simp_all
next
  case (Cons a as)
  then obtain k' p qs where k: "k = Suc k'" "ps = p # qs"
    and h: "l_heap l a = Some \<lparr>n_path = p, n_next = hdp as None, n_prev = pr\<rparr>"
    and c: "chain (l_heap l) (Some a) as None qs"
    by (cases k) (auto dest: chain_hd)
  show ?case
  proof (cases "pathcmp p path = 0")
    case True
    with remove_loop_hit [OF h, of path k' count] k show ?thesis by simp
  next
    case False
    with Cons.IH [OF c, of k'] Cons.prems(2) k h show ?thesis by (simp add: deref_def)
  qed
qed

lemma list_remove_repr:
  "repr l as ps \<Longrightarrow> list_remove l path =
     (if \<exists>q \<in> set ps. pathcmp q path = 0 then UB else Ret (0, l))"
  using remove_loop_chain [of l None as ps "l_fresh l" path 0] repr_fuel [of l as ps]
  by (simp add: repr_def list_remove_def)

end
