(* ===== verification/NameSet.thy ===== *)
theory NameSet
  imports PathList
begin

text \<open>
  What the users of \<open>list.c\<close> rely on (the exclude, special and command file lists of
  \<open>transcript.c\<close>, the access list of \<open>command.c\<close>): the interface of a sorted set of paths. It is
  provided by the linked lists of \<open>PathList\<close> and, for the components that only need its
  contents, by a plain list of names.
\<close>

section \<open>The interface\<close>

lemma pathcmp_fun: "pathcmp = (\<lambda>p q. pathcasecmp p q True)"
  by (intro ext) (simp add: pathcmp_def)

interpretation pcmp: path_order pathcmp c_string
  using po.path_order_axioms [of True] by (simp add: pathcmp_fun path_ok_def [abs_def])

locale path_set =
  fixes rep :: "'s \<Rightarrow> string list \<Rightarrow> bool"
    and check :: "'s \<Rightarrow> string \<Rightarrow> bool outcome"
    and insert_path :: "'s \<Rightarrow> string \<Rightarrow> (int \<times> 's) outcome"
  assumes check_rep: "rep s ps \<Longrightarrow> check s p = Ret (\<exists>q \<in> set ps. pathcmp q p = 0)"
    and insert_rep: "rep s ps \<Longrightarrow> length p < MAXPATHLEN \<Longrightarrow>
      \<exists>s'. insert_path s p = Ret (0, s') \<and> rep s' (pcmp.insert_after p ps)"
    and insert_long: "rep s ps \<Longrightarrow> MAXPATHLEN \<le> length p \<Longrightarrow> insert_path s p = Ret (-1, s)"
begin

lemma check_insert:
  assumes "rep s ps" "insert_path s p = Ret (0, s')"
  shows "check s' q = Ret (pathcmp p q = 0 \<or> check s q = Ret True)"
proof -
  have "length p < MAXPATHLEN"
    using assms insert_long by (metis Pair_inject not_le outcome.inject(1) zero_neq_neg_one)
  then obtain s'' where *: "insert_path s p = Ret (0, s'')"
    "rep s'' (pcmp.insert_after p ps)"
    using insert_rep [OF assms(1)] by blast
  from * assms(2) have "s' = s''" by simp
  with check_rep [OF *(2), of q] check_rep [OF assms(1), of q] show ?thesis by simp
qed

text \<open>The common use: a path is added unless the list already has it.\<close>

lemma insert_unless_present:
  assumes "rep s ps" "length p < MAXPATHLEN" "c_string p"
  shows "\<exists>s'. obind (check s p) (\<lambda>b. if b then Ret (0, s) else insert_path s p) = Ret (0, s') \<and>
    check s' p = Ret True \<and> (\<forall>q. check s q = Ret True \<longrightarrow> check s' q = Ret True)"
proof (cases "check s p = Ret True")
  case True
  then show ?thesis by auto
next
  case False
  obtain s' where *: "insert_path s p = Ret (0, s')"
    using insert_rep [OF assms(1,2)] by blast
  with False check_rep [OF assms(1), of p] check_insert [OF assms(1) *] assms(3) show ?thesis
    by (auto simp: pathcmp_0_iff)
qed

end

section \<open>Provided by the linked lists\<close>

interpretation ptr_set: path_set "\<lambda>l ps. \<exists>as. repr l as ps" list_check list_insert
proof
  fix l :: plist and ps :: "string list" and p :: string
  assume "\<exists>as. repr l as ps"
  then obtain as where r: "repr l as ps" ..
  show "list_check l p = Ret (\<exists>q \<in> set ps. pathcmp q p = 0)"
    by (rule list_check_repr) (rule r)
  show "MAXPATHLEN \<le> length p \<Longrightarrow> list_insert l p = Ret (-1, l)"
    unfolding list_insert_def by (rule insert_too_long [OF r])
  assume "length p < MAXPATHLEN"
  from insert_case_repr [OF r this, of True]
  show "\<exists>l'. list_insert l p = Ret (0, l') \<and>
      (\<exists>as. repr l' as (pcmp.insert_after p ps))"
    by (auto simp: list_insert_def pathcmp_fun)
qed

section \<open>Provided by lists of names\<close>

text \<open>
  The contents of a list, as its users see it. Removing a path that is in the list reads a
  freed node (\<open>list_remove_repr\<close>).
\<close>

fun names_add :: "string list \<Rightarrow> string \<Rightarrow> string list" where
  "names_add [] p = [p]"
| "names_add (q # qs) p = (if 0 < pathcmp q p then p # q # qs else q # names_add qs p)"

definition names_insert :: "string list \<Rightarrow> string \<Rightarrow> (int \<times> string list) outcome" where
  "names_insert ns p = Ret (if MAXPATHLEN \<le> length p then (-1, ns) else (0, names_add ns p))"

definition names_check :: "string list \<Rightarrow> string \<Rightarrow> bool" where
  "names_check ns p \<longleftrightarrow> list_ex (\<lambda>q. pathcmp q p = 0) ns"

definition names_remove :: "string list \<Rightarrow> string \<Rightarrow> string list outcome" where
  "names_remove ns p = (if names_check ns p then UB else Ret ns)"

lemma names_add_insert_after: "names_add ns p = pcmp.insert_after p ns"
  by (induction ns) simp_all

lemma set_names_add [simp]: "set (names_add ns p) = insert p (set ns)"
  by (induction ns) auto

interpretation name_set: path_set "(=)" "\<lambda>ns p. Ret (names_check ns p)" names_insert
  by unfold_locales
    (auto simp: names_check_def names_insert_def names_add_insert_after list_ex_iff)

text \<open>The two providers agree on everything a user can observe.\<close>

lemma ptr_names_check: "repr l as ps \<Longrightarrow> list_check l p = Ret (names_check ps p)"
  using ptr_set.check_rep [of l ps p] by (auto simp: names_check_def list_ex_iff)

lemma ptr_names_insert:
  assumes "repr l as ps"
  shows "\<exists>n l' as' ps'. list_insert l p = Ret (n, l') \<and> names_insert ps p = Ret (n, ps') \<and> repr l' as' ps'"
proof (cases "length p < MAXPATHLEN")
  case True
  from ptr_set.insert_rep [OF _ this] assms obtain l' as' where
    "list_insert l p = Ret (0, l')" "repr l' as' (pcmp.insert_after p ps)" by blast
  with True show ?thesis by (auto simp: names_insert_def names_add_insert_after)
next
  case False
  with ptr_set.insert_long [of l ps p] assms show ?thesis
    by (auto simp: names_insert_def)
qed

lemma ptr_names_remove:
  assumes "repr l as ps"
  shows "list_remove l p = UB \<longleftrightarrow> names_remove ps p = UB"
    "names_remove ps p = Ret ps' \<Longrightarrow> list_remove l p = Ret (0, l) \<and> ps' = ps"
  using list_remove_repr [OF assms, of p]
  by (auto simp: names_remove_def names_check_def list_ex_iff split: if_splits)

end
