(* ===== verification/Base64.thy ===== *)
theory Base64
  imports C_Base
begin

text \<open>
  \<open>base64.c\<close>: encoding and decoding by tables that take a whole byte as their index and so
  save the shifts. The tables are the ones of the source, entry by entry. A decoding table
  has 256 entries and is indexed by a plain \<open>char\<close>, so a character from \<open>0x80\<close> on reads
  before the table.
\<close>

unbundle bit_operations_syntax

type_synonym byte = "8 word"

section \<open>The tables\<close>

definition etab_high6 :: string where
  "etab_high6 =
     ''AAAABBBB'' @ ''CCCCDDDD'' @ ''EEEEFFFF'' @ ''GGGGHHHH'' @
     ''IIIIJJJJ'' @ ''KKKKLLLL'' @ ''MMMMNNNN'' @ ''OOOOPPPP'' @
     ''QQQQRRRR'' @ ''SSSSTTTT'' @ ''UUUUVVVV'' @ ''WWWWXXXX'' @
     ''YYYYZZZZ'' @ ''aaaabbbb'' @ ''ccccdddd'' @ ''eeeeffff'' @
     ''gggghhhh'' @ ''iiiijjjj'' @ ''kkkkllll'' @ ''mmmmnnnn'' @
     ''oooopppp'' @ ''qqqqrrrr'' @ ''sssstttt'' @ ''uuuuvvvv'' @
     ''wwwwxxxx'' @ ''yyyyzzzz'' @ ''00001111'' @ ''22223333'' @
     ''44445555'' @ ''66667777'' @ ''88889999'' @ ''++++////''"

definition etab_high24 :: string where
  "etab_high24 =
     ''AQgwAQgw'' @ ''AQgwAQgw'' @ ''BRhxBRhx'' @ ''BRhxBRhx'' @
     ''CSiyCSiy'' @ ''CSiyCSiy'' @ ''DTjzDTjz'' @ ''DTjzDTjz'' @
     ''EUk0EUk0'' @ ''EUk0EUk0'' @ ''FVl1FVl1'' @ ''FVl1FVl1'' @
     ''GWm2GWm2'' @ ''GWm2GWm2'' @ ''HXn3HXn3'' @ ''HXn3HXn3'' @
     ''IYo4IYo4'' @ ''IYo4IYo4'' @ ''JZp5JZp5'' @ ''JZp5JZp5'' @
     ''Kaq6Kaq6'' @ ''Kaq6Kaq6'' @ ''Lbr7Lbr7'' @ ''Lbr7Lbr7'' @
     ''Mcs8Mcs8'' @ ''Mcs8Mcs8'' @ ''Ndt9Ndt9'' @ ''Ndt9Ndt9'' @
     ''Oeu+Oeu+'' @ ''Oeu+Oeu+'' @ ''Pfv/Pfv/'' @ ''Pfv/Pfv/''"

definition etab_low42 :: string where
  "etab_low42 =
     ''AEIMQUYc'' @ ''gkosw048'' @ ''AEIMQUYc'' @ ''gkosw048'' @
     ''AEIMQUYc'' @ ''gkosw048'' @ ''AEIMQUYc'' @ ''gkosw048'' @
     ''BFJNRVZd'' @ ''hlptx159'' @ ''BFJNRVZd'' @ ''hlptx159'' @
     ''BFJNRVZd'' @ ''hlptx159'' @ ''BFJNRVZd'' @ ''hlptx159'' @
     ''CGKOSWae'' @ ''imquy26+'' @ ''CGKOSWae'' @ ''imquy26+'' @
     ''CGKOSWae'' @ ''imquy26+'' @ ''CGKOSWae'' @ ''imquy26+'' @
     ''DHLPTXbf'' @ ''jnrvz37/'' @ ''DHLPTXbf'' @ ''jnrvz37/'' @
     ''DHLPTXbf'' @ ''jnrvz37/'' @ ''DHLPTXbf'' @ ''jnrvz37/''"

definition etab_low6 :: string where
  "etab_low6 =
     ''ABCDEFGH'' @ ''IJKLMNOP'' @ ''QRSTUVWX'' @ ''YZabcdef'' @
     ''ghijklmn'' @ ''opqrstuv'' @ ''wxyz0123'' @ ''456789+/'' @
     ''ABCDEFGH'' @ ''IJKLMNOP'' @ ''QRSTUVWX'' @ ''YZabcdef'' @
     ''ghijklmn'' @ ''opqrstuv'' @ ''wxyz0123'' @ ''456789+/'' @
     ''ABCDEFGH'' @ ''IJKLMNOP'' @ ''QRSTUVWX'' @ ''YZabcdef'' @
     ''ghijklmn'' @ ''opqrstuv'' @ ''wxyz0123'' @ ''456789+/'' @
     ''ABCDEFGH'' @ ''IJKLMNOP'' @ ''QRSTUVWX'' @ ''YZabcdef'' @
     ''ghijklmn'' @ ''opqrstuv'' @ ''wxyz0123'' @ ''456789+/''"

definition dtab_high6 :: "8 word list" where
  "dtab_high6 =
    [0x00, 0x00, 0x00, 0x00, 0x00, 0x00, 0x00, 0x00, 0x00, 0x00, 0x00, 0x00, 0x00, 0x00, 0x00, 0x00,
     0x00, 0x00, 0x00, 0x00, 0x00, 0x00, 0x00, 0x00, 0x00, 0x00, 0x00, 0x00, 0x00, 0x00, 0x00, 0x00,
     0x00, 0x00, 0x00, 0x00, 0x00, 0x00, 0x00, 0x00, 0x00, 0x00, 0x00, 0xf8, 0x00, 0x00, 0x00, 0xfc,
     0xd0, 0xd4, 0xd8, 0xdc, 0xe0, 0xe4, 0xe8, 0xec, 0xf0, 0xf4, 0x00, 0x00, 0x00, 0x00, 0x00, 0x00,
     0x00, 0x00, 0x04, 0x08, 0x0c, 0x10, 0x14, 0x18, 0x1c, 0x20, 0x24, 0x28, 0x2c, 0x30, 0x34, 0x38,
     0x3c, 0x40, 0x44, 0x48, 0x4c, 0x50, 0x54, 0x58, 0x5c, 0x60, 0x64, 0x00, 0x00, 0x00, 0x00, 0x00,
     0x00, 0x68, 0x6c, 0x70, 0x74, 0x78, 0x7c, 0x80, 0x84, 0x88, 0x8c, 0x90, 0x94, 0x98, 0x9c, 0xa0,
     0xa4, 0xa8, 0xac, 0xb0, 0xb4, 0xb8, 0xbc, 0xc0, 0xc4, 0xc8, 0xcc, 0x00, 0x00, 0x00, 0x00, 0x00,
     0x00, 0x00, 0x00, 0x00, 0x00, 0x00, 0x00, 0x00, 0x00, 0x00, 0x00, 0x00, 0x00, 0x00, 0x00, 0x00,
     0x00, 0x00, 0x00, 0x00, 0x00, 0x00, 0x00, 0x00, 0x00, 0x00, 0x00, 0x00, 0x00, 0x00, 0x00, 0x00,
     0x00, 0x00, 0x00, 0x00, 0x00, 0x00, 0x00, 0x00, 0x00, 0x00, 0x00, 0x00, 0x00, 0x00, 0x00, 0x00,
     0x00, 0x00, 0x00, 0x00, 0x00, 0x00, 0x00, 0x00, 0x00, 0x00, 0x00, 0x00, 0x00, 0x00, 0x00, 0x00,
     0x00, 0x00, 0x00, 0x00, 0x00, 0x00, 0x00, 0x00, 0x00, 0x00, 0x00, 0x00, 0x00, 0x00, 0x00, 0x00,
     0x00, 0x00, 0x00, 0x00, 0x00, 0x00, 0x00, 0x00, 0x00, 0x00, 0x00, 0x00, 0x00, 0x00, 0x00, 0x00,
     0x00, 0x00, 0x00, 0x00, 0x00, 0x00, 0x00, 0x00, 0x00, 0x00, 0x00, 0x00, 0x00, 0x00, 0x00, 0x00,
     0x00, 0x00, 0x00, 0x00, 0x00, 0x00, 0x00, 0x00, 0x00, 0x00, 0x00, 0x00, 0x00, 0x00, 0x00, 0x00]"

definition dtab_high2 :: "8 word list" where
  "dtab_high2 =
    [0x00, 0x00, 0x00, 0x00, 0x00, 0x00, 0x00, 0x00, 0x00, 0x00, 0x00, 0x00, 0x00, 0x00, 0x00, 0x00,
     0x00, 0x00, 0x00, 0x00, 0x00, 0x00, 0x00, 0x00, 0x00, 0x00, 0x00, 0x00, 0x00, 0x00, 0x00, 0x00,
     0x00, 0x00, 0x00, 0x00, 0x00, 0x00, 0x00, 0x00, 0x00, 0x00, 0x00, 0x03, 0x00, 0x00, 0x00, 0x03,
     0x03, 0x03, 0x03, 0x03, 0x03, 0x03, 0x03, 0x03, 0x03, 0x03, 0x00, 0x00, 0x00, 0x00, 0x00, 0x00,
     0x00, 0x00, 0x00, 0x00, 0x00, 0x00, 0x00, 0x00, 0x00, 0x00, 0x00, 0x00, 0x00, 0x00, 0x00, 0x00,
     0x00, 0x01, 0x01, 0x01, 0x01, 0x01, 0x01, 0x01, 0x01, 0x01, 0x01, 0x00, 0x00, 0x00, 0x00, 0x00,
     0x00, 0x01, 0x01, 0x01, 0x01, 0x01, 0x01, 0x02, 0x02, 0x02, 0x02, 0x02, 0x02, 0x02, 0x02, 0x02,
     0x02, 0x02, 0x02, 0x02, 0x02, 0x02, 0x02, 0x03, 0x03, 0x03, 0x03, 0x00, 0x00, 0x00, 0x00, 0x00,
     0x00, 0x00, 0x00, 0x00, 0x00, 0x00, 0x00, 0x00, 0x00, 0x00, 0x00, 0x00, 0x00, 0x00, 0x00, 0x00,
     0x00, 0x00, 0x00, 0x00, 0x00, 0x00, 0x00, 0x00, 0x00, 0x00, 0x00, 0x00, 0x00, 0x00, 0x00, 0x00,
     0x00, 0x00, 0x00, 0x00, 0x00, 0x00, 0x00, 0x00, 0x00, 0x00, 0x00, 0x00, 0x00, 0x00, 0x00, 0x00,
     0x00, 0x00, 0x00, 0x00, 0x00, 0x00, 0x00, 0x00, 0x00, 0x00, 0x00, 0x00, 0x00, 0x00, 0x00, 0x00,
     0x00, 0x00, 0x00, 0x00, 0x00, 0x00, 0x00, 0x00, 0x00, 0x00, 0x00, 0x00, 0x00, 0x00, 0x00, 0x00,
     0x00, 0x00, 0x00, 0x00, 0x00, 0x00, 0x00, 0x00, 0x00, 0x00, 0x00, 0x00, 0x00, 0x00, 0x00, 0x00,
     0x00, 0x00, 0x00, 0x00, 0x00, 0x00, 0x00, 0x00, 0x00, 0x00, 0x00, 0x00, 0x00, 0x00, 0x00, 0x00,
     0x00, 0x00, 0x00, 0x00, 0x00, 0x00, 0x00, 0x00, 0x00, 0x00, 0x00, 0x00, 0x00, 0x00, 0x00, 0x00]"

definition dtab_high4 :: "8 word list" where
  "dtab_high4 =
    [0x00, 0x00, 0x00, 0x00, 0x00, 0x00, 0x00, 0x00, 0x00, 0x00, 0x00, 0x00, 0x00, 0x00, 0x00, 0x00,
     0x00, 0x00, 0x00, 0x00, 0x00, 0x00, 0x00, 0x00, 0x00, 0x00, 0x00, 0x00, 0x00, 0x00, 0x00, 0x00,
     0x00, 0x00, 0x00, 0x00, 0x00, 0x00, 0x00, 0x00, 0x00, 0x00, 0x00, 0xe0, 0x00, 0x00, 0x00, 0xf0,
     0x40, 0x50, 0x60, 0x70, 0x80, 0x90, 0xa0, 0xb0, 0xc0, 0xd0, 0x00, 0x00, 0x00, 0x00, 0x00, 0x00,
     0x00, 0x00, 0x10, 0x20, 0x30, 0x40, 0x50, 0x60, 0x70, 0x80, 0x90, 0xa0, 0xb0, 0xc0, 0xd0, 0xe0,
     0xf0, 0x00, 0x10, 0x20, 0x30, 0x40, 0x50, 0x60, 0x70, 0x80, 0x90, 0x00, 0x00, 0x00, 0x00, 0x00,
     0x00, 0xa0, 0xb0, 0xc0, 0xd0, 0xe0, 0xf0, 0x00, 0x10, 0x20, 0x30, 0x40, 0x50, 0x60, 0x70, 0x80,
     0x90, 0xa0, 0xb0, 0xc0, 0xd0, 0xe0, 0xf0, 0x00, 0x10, 0x20, 0x30, 0x00, 0x00, 0x00, 0x00, 0x00,
     0x00, 0x00, 0x00, 0x00, 0x00, 0x00, 0x00, 0x00, 0x00, 0x00, 0x00, 0x00, 0x00, 0x00, 0x00, 0x00,
     0x00, 0x00, 0x00, 0x00, 0x00, 0x00, 0x00, 0x00, 0x00, 0x00, 0x00, 0x00, 0x00, 0x00, 0x00, 0x00,
     0x00, 0x00, 0x00, 0x00, 0x00, 0x00, 0x00, 0x00, 0x00, 0x00, 0x00, 0x00, 0x00, 0x00, 0x00, 0x00,
     0x00, 0x00, 0x00, 0x00, 0x00, 0x00, 0x00, 0x00, 0x00, 0x00, 0x00, 0x00, 0x00, 0x00, 0x00, 0x00,
     0x00, 0x00, 0x00, 0x00, 0x00, 0x00, 0x00, 0x00, 0x00, 0x00, 0x00, 0x00, 0x00, 0x00, 0x00, 0x00,
     0x00, 0x00, 0x00, 0x00, 0x00, 0x00, 0x00, 0x00, 0x00, 0x00, 0x00, 0x00, 0x00, 0x00, 0x00, 0x00,
     0x00, 0x00, 0x00, 0x00, 0x00, 0x00, 0x00, 0x00, 0x00, 0x00, 0x00, 0x00, 0x00, 0x00, 0x00, 0x00,
     0x00, 0x00, 0x00, 0x00, 0x00, 0x00, 0x00, 0x00, 0x00, 0x00, 0x00, 0x00, 0x00, 0x00, 0x00, 0x00]"

definition dtab_low4 :: "8 word list" where
  "dtab_low4 =
    [0x00, 0x00, 0x00, 0x00, 0x00, 0x00, 0x00, 0x00, 0x00, 0x00, 0x00, 0x00, 0x00, 0x00, 0x00, 0x00,
     0x00, 0x00, 0x00, 0x00, 0x00, 0x00, 0x00, 0x00, 0x00, 0x00, 0x00, 0x00, 0x00, 0x00, 0x00, 0x00,
     0x00, 0x00, 0x00, 0x00, 0x00, 0x00, 0x00, 0x00, 0x00, 0x00, 0x00, 0x0f, 0x00, 0x00, 0x00, 0x0f,
     0x0d, 0x0d, 0x0d, 0x0d, 0x0e, 0x0e, 0x0e, 0x0e, 0x0f, 0x0f, 0x00, 0x00, 0x00, 0x00, 0x00, 0x00,
     0x00, 0x00, 0x00, 0x00, 0x00, 0x01, 0x01, 0x01, 0x01, 0x02, 0x02, 0x02, 0x02, 0x03, 0x03, 0x03,
     0x03, 0x04, 0x04, 0x04, 0x04, 0x05, 0x05, 0x05, 0x05, 0x06, 0x06, 0x00, 0x00, 0x00, 0x00, 0x00,
     0x00, 0x06, 0x06, 0x07, 0x07, 0x07, 0x07, 0x08, 0x08, 0x08, 0x08, 0x09, 0x09, 0x09, 0x09, 0x0a,
     0x0a, 0x0a, 0x0a, 0x0b, 0x0b, 0x0b, 0x0b, 0x0c, 0x0c, 0x0c, 0x0c, 0x00, 0x00, 0x00, 0x00, 0x00,
     0x00, 0x00, 0x00, 0x00, 0x00, 0x00, 0x00, 0x00, 0x00, 0x00, 0x00, 0x00, 0x00, 0x00, 0x00, 0x00,
     0x00, 0x00, 0x00, 0x00, 0x00, 0x00, 0x00, 0x00, 0x00, 0x00, 0x00, 0x00, 0x00, 0x00, 0x00, 0x00,
     0x00, 0x00, 0x00, 0x00, 0x00, 0x00, 0x00, 0x00, 0x00, 0x00, 0x00, 0x00, 0x00, 0x00, 0x00, 0x00,
     0x00, 0x00, 0x00, 0x00, 0x00, 0x00, 0x00, 0x00, 0x00, 0x00, 0x00, 0x00, 0x00, 0x00, 0x00, 0x00,
     0x00, 0x00, 0x00, 0x00, 0x00, 0x00, 0x00, 0x00, 0x00, 0x00, 0x00, 0x00, 0x00, 0x00, 0x00, 0x00,
     0x00, 0x00, 0x00, 0x00, 0x00, 0x00, 0x00, 0x00, 0x00, 0x00, 0x00, 0x00, 0x00, 0x00, 0x00, 0x00,
     0x00, 0x00, 0x00, 0x00, 0x00, 0x00, 0x00, 0x00, 0x00, 0x00, 0x00, 0x00, 0x00, 0x00, 0x00, 0x00,
     0x00, 0x00, 0x00, 0x00, 0x00, 0x00, 0x00, 0x00, 0x00, 0x00, 0x00, 0x00, 0x00, 0x00, 0x00, 0x00]"

definition dtab_low2 :: "8 word list" where
  "dtab_low2 =
    [0x00, 0x00, 0x00, 0x00, 0x00, 0x00, 0x00, 0x00, 0x00, 0x00, 0x00, 0x00, 0x00, 0x00, 0x00, 0x00,
     0x00, 0x00, 0x00, 0x00, 0x00, 0x00, 0x00, 0x00, 0x00, 0x00, 0x00, 0x00, 0x00, 0x00, 0x00, 0x00,
     0x00, 0x00, 0x00, 0x00, 0x00, 0x00, 0x00, 0x00, 0x00, 0x00, 0x00, 0x80, 0x00, 0x00, 0x00, 0xc0,
     0x00, 0x40, 0x80, 0xc0, 0x00, 0x40, 0x80, 0xc0, 0x00, 0x40, 0x00, 0x00, 0x00, 0x00, 0x00, 0x00,
     0x00, 0x00, 0x40, 0x80, 0xc0, 0x00, 0x40, 0x80, 0xc0, 0x00, 0x40, 0x80, 0xc0, 0x00, 0x40, 0x80,
     0xc0, 0x00, 0x40, 0x80, 0xc0, 0x00, 0x40, 0x80, 0xc0, 0x00, 0x40, 0x00, 0x00, 0x00, 0x00, 0x00,
     0x00, 0x80, 0xc0, 0x00, 0x40, 0x80, 0xc0, 0x00, 0x40, 0x80, 0xc0, 0x00, 0x40, 0x80, 0xc0, 0x00,
     0x40, 0x80, 0xc0, 0x00, 0x40, 0x80, 0xc0, 0x00, 0x40, 0x80, 0xc0, 0x00, 0x00, 0x00, 0x00, 0x00,
     0x00, 0x00, 0x00, 0x00, 0x00, 0x00, 0x00, 0x00, 0x00, 0x00, 0x00, 0x00, 0x00, 0x00, 0x00, 0x00,
     0x00, 0x00, 0x00, 0x00, 0x00, 0x00, 0x00, 0x00, 0x00, 0x00, 0x00, 0x00, 0x00, 0x00, 0x00, 0x00,
     0x00, 0x00, 0x00, 0x00, 0x00, 0x00, 0x00, 0x00, 0x00, 0x00, 0x00, 0x00, 0x00, 0x00, 0x00, 0x00,
     0x00, 0x00, 0x00, 0x00, 0x00, 0x00, 0x00, 0x00, 0x00, 0x00, 0x00, 0x00, 0x00, 0x00, 0x00, 0x00,
     0x00, 0x00, 0x00, 0x00, 0x00, 0x00, 0x00, 0x00, 0x00, 0x00, 0x00, 0x00, 0x00, 0x00, 0x00, 0x00,
     0x00, 0x00, 0x00, 0x00, 0x00, 0x00, 0x00, 0x00, 0x00, 0x00, 0x00, 0x00, 0x00, 0x00, 0x00, 0x00,
     0x00, 0x00, 0x00, 0x00, 0x00, 0x00, 0x00, 0x00, 0x00, 0x00, 0x00, 0x00, 0x00, 0x00, 0x00, 0x00,
     0x00, 0x00, 0x00, 0x00, 0x00, 0x00, 0x00, 0x00, 0x00, 0x00, 0x00, 0x00, 0x00, 0x00, 0x00, 0x00]"

definition dtab_low6 :: "8 word list" where
  "dtab_low6 =
    [0x00, 0x00, 0x00, 0x00, 0x00, 0x00, 0x00, 0x00, 0x00, 0x00, 0x00, 0x00, 0x00, 0x00, 0x00, 0x00,
     0x00, 0x00, 0x00, 0x00, 0x00, 0x00, 0x00, 0x00, 0x00, 0x00, 0x00, 0x00, 0x00, 0x00, 0x00, 0x00,
     0x00, 0x00, 0x00, 0x00, 0x00, 0x00, 0x00, 0x00, 0x00, 0x00, 0x00, 0x3e, 0x00, 0x00, 0x00, 0x3f,
     0x34, 0x35, 0x36, 0x37, 0x38, 0x39, 0x3a, 0x3b, 0x3c, 0x3d, 0x00, 0x00, 0x00, 0x00, 0x00, 0x00,
     0x00, 0x00, 0x01, 0x02, 0x03, 0x04, 0x05, 0x06, 0x07, 0x08, 0x09, 0x0a, 0x0b, 0x0c, 0x0d, 0x0e,
     0x0f, 0x10, 0x11, 0x12, 0x13, 0x14, 0x15, 0x16, 0x17, 0x18, 0x19, 0x00, 0x00, 0x00, 0x00, 0x00,
     0x00, 0x1a, 0x1b, 0x1c, 0x1d, 0x1e, 0x1f, 0x20, 0x21, 0x22, 0x23, 0x24, 0x25, 0x26, 0x27, 0x28,
     0x29, 0x2a, 0x2b, 0x2c, 0x2d, 0x2e, 0x2f, 0x30, 0x31, 0x32, 0x33, 0x00, 0x00, 0x00, 0x00, 0x00,
     0x00, 0x00, 0x00, 0x00, 0x00, 0x00, 0x00, 0x00, 0x00, 0x00, 0x00, 0x00, 0x00, 0x00, 0x00, 0x00,
     0x00, 0x00, 0x00, 0x00, 0x00, 0x00, 0x00, 0x00, 0x00, 0x00, 0x00, 0x00, 0x00, 0x00, 0x00, 0x00,
     0x00, 0x00, 0x00, 0x00, 0x00, 0x00, 0x00, 0x00, 0x00, 0x00, 0x00, 0x00, 0x00, 0x00, 0x00, 0x00,
     0x00, 0x00, 0x00, 0x00, 0x00, 0x00, 0x00, 0x00, 0x00, 0x00, 0x00, 0x00, 0x00, 0x00, 0x00, 0x00,
     0x00, 0x00, 0x00, 0x00, 0x00, 0x00, 0x00, 0x00, 0x00, 0x00, 0x00, 0x00, 0x00, 0x00, 0x00, 0x00,
     0x00, 0x00, 0x00, 0x00, 0x00, 0x00, 0x00, 0x00, 0x00, 0x00, 0x00, 0x00, 0x00, 0x00, 0x00, 0x00,
     0x00, 0x00, 0x00, 0x00, 0x00, 0x00, 0x00, 0x00, 0x00, 0x00, 0x00, 0x00, 0x00, 0x00, 0x00, 0x00,
     0x00, 0x00, 0x00, 0x00, 0x00, 0x00, 0x00, 0x00, 0x00, 0x00, 0x00, 0x00, 0x00, 0x00, 0x00, 0x00]"

section \<open>The routines\<close>

definition etab :: "string \<Rightarrow> byte \<Rightarrow> char" where
  "etab t i = t ! unat i"

fun base64_e :: "byte list \<Rightarrow> string" where
  "base64_e (d0 # d1 # d2 # d) =
     etab etab_high6 d0 #
     etab etab_high24 ((d0 AND 0x03) OR (d1 AND 0xF0)) #
     etab etab_low42 ((d1 AND 0x0F) OR (d2 AND 0xC0)) #
     etab etab_low6 d2 # base64_e d"
| "base64_e [d0, d1] =
     [etab etab_high6 d0, etab etab_high24 ((d0 AND 0x03) OR (d1 AND 0xF0)),
      etab etab_low42 (d1 AND 0x0F), CHR ''='']"
| "base64_e [d0] = [etab etab_high6 d0, etab etab_high24 (d0 AND 0x03), CHR ''='', CHR ''='']"
| "base64_e [] = []"

definition dtab :: "byte list \<Rightarrow> char \<Rightarrow> byte outcome" where
  "dtab t c = (let i = schar c in if i < 0 then UB else Ret (t ! nat i))"

text \<open>The bytes written, three for each four characters; the rest of the input is not read.\<close>

fun base64_d :: "string \<Rightarrow> byte list outcome" where
  "base64_d (e0 # e1 # e2 # e3 # e) =
     obind (dtab dtab_high6 e0) (\<lambda>h6.
     obind (dtab dtab_high2 e1) (\<lambda>h2.
     obind (dtab dtab_high4 e1) (\<lambda>h4.
     obind (dtab dtab_low4 e2) (\<lambda>l4.
     obind (dtab dtab_low2 e2) (\<lambda>l2.
     obind (dtab dtab_low6 e3) (\<lambda>l6.
     obind (base64_d e) (\<lambda>d.
       Ret ((h6 OR h2) # (h4 OR l4) # (l2 OR l6) # d))))))))"
| "base64_d _ = Ret []"

section \<open>The tables are what they are meant to be\<close>

definition alphabet :: string where
  "alphabet = ''ABCDEFGHIJKLMNOPQRSTUVWXYZabcdefghijklmnopqrstuvwxyz0123456789+/''"

lemma etab_high6_table: "etab_high6 = map (\<lambda>n. alphabet ! (n div 4)) [0..<256]"
  by code_simp

lemma etab_high24_table:
  "etab_high24 = map (\<lambda>n. alphabet ! (n mod 4 * 16 + n div 16)) [0..<256]"
  by code_simp

lemma etab_low42_table:
  "etab_low42 = map (\<lambda>n. alphabet ! (n mod 16 * 4 + n div 64)) [0..<256]"
  by code_simp

lemma etab_low6_table: "etab_low6 = map (\<lambda>n. alphabet ! (n mod 64)) [0..<256]"
  by code_simp

text \<open>Looking up in a decoding table what an encoding table holds gives back the bits.\<close>

lemma dtab_high6_table:
  "map (dtab dtab_high6) etab_high6 = map (\<lambda>n. Ret (word_of_nat n AND 0xFC)) [0..<256]"
  by code_simp

lemma dtab_high2_table:
  "map (dtab dtab_high2) etab_high24 = map (\<lambda>n. Ret (word_of_nat n AND 0x03)) [0..<256]"
  by code_simp

lemma dtab_high4_table:
  "map (dtab dtab_high4) etab_high24 = map (\<lambda>n. Ret (word_of_nat n AND 0xF0)) [0..<256]"
  by code_simp

lemma dtab_low4_table:
  "map (dtab dtab_low4) etab_low42 = map (\<lambda>n. Ret (word_of_nat n AND 0x0F)) [0..<256]"
  by code_simp

lemma dtab_low2_table:
  "map (dtab dtab_low2) etab_low42 = map (\<lambda>n. Ret (word_of_nat n AND 0xC0)) [0..<256]"
  by code_simp

lemma dtab_low6_table:
  "map (dtab dtab_low6) etab_low6 = map (\<lambda>n. Ret (word_of_nat n AND 0x3F)) [0..<256]"
  by code_simp

text \<open>From a table to its entries.\<close>

lemma table_entry:
  assumes "map f t = map g [0..<256]" and "i < 256"
  shows "f (t ! i) = g i"
proof -
  have "length t = 256" using arg_cong [OF assms(1), of length] by simp
  with assms have "f (t ! i) = map g [0..<256] ! i" by (simp flip: assms(1))
  with assms(2) show ?thesis by simp
qed

lemma unat_byte: "unat (x :: byte) < 256"
  using unsigned_less [of x, where ?'a = nat] by simp

lemma dtab_etab [simp]:
  "dtab dtab_high6 (etab etab_high6 x) = Ret (x AND 0xFC)"
  "dtab dtab_high2 (etab etab_high24 x) = Ret (x AND 0x03)"
  "dtab dtab_high4 (etab etab_high24 x) = Ret (x AND 0xF0)"
  "dtab dtab_low4 (etab etab_low42 x) = Ret (x AND 0x0F)"
  "dtab dtab_low2 (etab etab_low42 x) = Ret (x AND 0xC0)"
  "dtab dtab_low6 (etab etab_low6 x) = Ret (x AND 0x3F)"
  using table_entry [OF dtab_high6_table unat_byte] table_entry [OF dtab_high2_table unat_byte]
    table_entry [OF dtab_high4_table unat_byte] table_entry [OF dtab_low4_table unat_byte]
    table_entry [OF dtab_low2_table unat_byte] table_entry [OF dtab_low6_table unat_byte]
  by (simp_all add: etab_def)

lemma dtab_pad [simp]:
  "dtab dtab_low4 (CHR ''='') = Ret 0" "dtab dtab_low2 (CHR ''='') = Ret 0"
  "dtab dtab_low6 (CHR ''='') = Ret 0"
  by code_simp+

lemma byte_eqI:
  assumes "\<forall>n \<in> {0, 1, 2, 3, 4, 5, 6, 7}. bit (a :: byte) n = bit b n"
  shows "a = b"
proof (rule bit_word_eqI)
  fix n :: nat
  assume "n < LENGTH(8)"
  then have "n = 0 \<or> n = 1 \<or> n = 2 \<or> n = 3 \<or> n = 4 \<or> n = 5 \<or> n = 6 \<or> n = 7"
    by (simp, linarith)
  with assms show "bit a n = bit b n" by blast
qed

lemma byte_parts [simp]:
  fixes x y z :: byte
  shows "(x AND 0xFC) OR (((x AND 0x03) OR (y AND 0xF0)) AND 0x03) = x"
    "(((x AND 0x03) OR (y AND 0xF0)) AND 0xF0) OR (((y AND 0x0F) OR (z AND 0xC0)) AND 0x0F) = y"
    "(((x AND 0x0F) OR (y AND 0xC0)) AND 0xC0) OR (y AND 0x3F) = y"
    "(x AND 0xFC) OR ((x AND 0x03) AND 0x03) = x"
    "(((x AND 0x03) OR (y AND 0xF0)) AND 0xF0) OR ((y AND 0x0F) AND 0x0F) = y"
    "(x AND 0xFC) OR (x AND 0x03) = x"
    "(((x AND 0x03) OR (y AND 0xF0)) AND 0xF0) OR (y AND 0x0F) = y"
    "((x AND 0x0F) AND 0xC0) = 0" "((x AND 0x03) AND 0xF0) = 0"
  by (rule byte_eqI, simp add: bit_and_iff bit_or_iff)+

text \<open>Decoding an encoding gives the bytes back, with zeros up to a multiple of three.\<close>

definition pad3 :: "byte list \<Rightarrow> byte list" where
  "pad3 d = d @ replicate ((3 - length d mod 3) mod 3) 0"

lemma pad3_step: "pad3 (a # b # c # d) = a # b # c # pad3 d"
proof -
  have "length (a # b # c # d) mod 3 = length d mod 3" by simp
  then show ?thesis unfolding pad3_def by (simp only: append_Cons)
qed

lemma base64_d_base64_e: "base64_d (base64_e d) = Ret (pad3 d)"
proof (induction d rule: base64_e.induct)
  case (1 d0 d1 d2 d)
  then show ?case by (simp add: pad3_step)
next
  case (2 d0 d1)
  then show ?case by (simp add: pad3_def)
next
  case (3 d0)
  then show ?case by (simp add: pad3_def numeral_2_eq_2)
next
  case 4
  then show ?case by (simp add: pad3_def)
qed

lemma length_base64_e: "length (base64_e d) = (length d + 2) div 3 * 4"
proof (induction d rule: base64_e.induct)
  case (1 d0 d1 d2 d)
  have "(length d + 5) div 3 = (length d + 2) div 3 + 1" by presburger
  with 1 show ?case by (simp add: add.commute)
qed simp_all

section \<open>The reference encoding\<close>

text \<open>
  RFC 4648: three bytes as one 24-bit number, its four groups of six bits as indices into
  the alphabet, and padding for a group that is not complete.
\<close>

definition group :: "nat \<Rightarrow> nat \<Rightarrow> char" where
  "group n k = alphabet ! (n div 64 ^ (3 - k) mod 64)"

fun base64_ref :: "byte list \<Rightarrow> string" where
  "base64_ref (a # b # c # d) =
     (let n = unat a * 65536 + unat b * 256 + unat c
      in [group n 0, group n 1, group n 2, group n 3] @ base64_ref d)"
| "base64_ref [a, b] =
     (let n = unat a * 65536 + unat b * 256 in [group n 0, group n 1, group n 2, CHR ''=''])"
| "base64_ref [a] =
     (let n = unat a * 65536 in [group n 0, group n 1, CHR ''='', CHR ''=''])"
| "base64_ref [] = []"

lemma etab_entries:
  "etab etab_high6 x = alphabet ! (unat x div 4)"
  "etab etab_high24 x = alphabet ! (unat x mod 4 * 16 + unat x div 16)"
  "etab etab_low42 x = alphabet ! (unat x mod 16 * 4 + unat x div 64)"
  "etab etab_low6 x = alphabet ! (unat x mod 64)"
  using unat_byte [of x]
  by (simp_all add: etab_def etab_high6_table etab_high24_table etab_low42_table etab_low6_table)

lemma mask_tables:
  "map (\<lambda>n. unat (word_of_nat n AND 0x03 :: byte)) [0..<256] = map (\<lambda>n. n mod 4) [0..<256]"
  "map (\<lambda>n. unat (word_of_nat n AND 0x0F :: byte)) [0..<256] = map (\<lambda>n. n mod 16) [0..<256]"
  "map (\<lambda>n. unat (word_of_nat n AND 0xF0 :: byte)) [0..<256] = map (\<lambda>n. n div 16 * 16) [0..<256]"
  "map (\<lambda>n. unat (word_of_nat n AND 0xC0 :: byte)) [0..<256] = map (\<lambda>n. n div 64 * 64) [0..<256]"
  by code_simp+

lemma unat_masks:
  fixes x :: byte
  shows "unat (x AND 0x03) = unat x mod 4" "unat (x AND 0x0F) = unat x mod 16"
    "unat (x AND 0xF0) = unat x div 16 * 16" "unat (x AND 0xC0) = unat x div 64 * 64"
  using table_entry [OF mask_tables(1) unat_byte [of x]]
    table_entry [OF mask_tables(2) unat_byte [of x]]
    table_entry [OF mask_tables(3) unat_byte [of x]]
    table_entry [OF mask_tables(4) unat_byte [of x]] unat_byte [of x]
  by simp_all

lemma or_disjoint: "(x :: byte) AND y = 0 \<Longrightarrow> x OR y = x + y"
  by (metis add.left_neutral word_plus_and_or)

lemma unat_join:
  fixes x y :: byte
  shows "unat ((x AND 0x03) OR (y AND 0xF0)) = unat x mod 4 + unat y div 16 * 16"
    "unat ((x AND 0x0F) OR (y AND 0xC0)) = unat x mod 16 + unat y div 64 * 64"
proof -
  have "(x AND 0x03) AND (y AND 0xF0) = 0" "(x AND 0x0F) AND (y AND 0xC0) = 0"
    by (rule byte_eqI, simp add: bit_and_iff bit_or_iff)+
  moreover have "unat y div 16 < 16" "unat y div 64 < 4"
    using unat_byte [of y] by (simp_all add: less_mult_imp_div_less)
  then have "unat x mod 4 + unat y div 16 * 16 < 256" "unat x mod 16 + unat y div 64 * 64 < 256"
    using mod_less_divisor [of 4 "unat x"] mod_less_divisor [of 16 "unat x"] by linarith+
  ultimately show "unat ((x AND 0x03) OR (y AND 0xF0)) = unat x mod 4 + unat y div 16 * 16"
    "unat ((x AND 0x0F) OR (y AND 0xC0)) = unat x mod 16 + unat y div 64 * 64"
    by (simp_all add: or_disjoint unat_word_ariths unat_masks)
qed

lemma group_digits:
  assumes "x0 < 64" "x1 < 64" "x2 < 64" "x3 < 64"
    and n: "n = ((x0 * 64 + x1) * 64 + x2) * 64 + x3"
  shows "group n 0 = alphabet ! x0" "group n 1 = alphabet ! x1"
    "group n 2 = alphabet ! x2" "group n 3 = alphabet ! x3"
proof -
  have d1: "n div 64 = (x0 * 64 + x1) * 64 + x2" using assms by simp
  then have d2: "n div 4096 = x0 * 64 + x1"
    using assms div_mult2_eq [of n 64 64] by simp
  then have d3: "n div 262144 = x0"
    using assms div_mult2_eq [of n 4096 64] by simp
  have g: "(u * 64 + v) mod 64 = v" if "v < 64" for u v :: nat using that by simp
  have "n div 262144 mod 64 = x0" "n div 4096 mod 64 = x1" "n div 64 mod 64 = x2" "n mod 64 = x3"
    using d1 d2 d3 assms(1-4) by (simp_all only: n g mod_less)
  then show "group n 0 = alphabet ! x0" "group n 1 = alphabet ! x1"
    "group n 2 = alphabet ! x2" "group n 3 = alphabet ! x3"
    by (simp_all add: group_def)
qed

text \<open>The two halves of a byte that the tables keep apart.\<close>

lemma split_index:
  "r < 4 \<Longrightarrow> (r + q * 16) mod 4 * 16 + (r + q * 16) div 16 = r * 16 + (q :: nat)"
  "t < 16 \<Longrightarrow> (t + p * 64) mod 16 * 4 + (t + p * 64) div 64 = t * 4 + (p :: nat)"
proof -
  assume r: "r < 4"
  have "(r + q * 16) mod 4 = (r + 4 * q * 4) mod 4" by (simp add: algebra_simps)
  with r have "(r + q * 16) mod 4 = r" by (simp only: mod_mult_self1 mod_less)
  moreover have "(r + q * 16) div 16 = q" using r by simp
  ultimately show "(r + q * 16) mod 4 * 16 + (r + q * 16) div 16 = r * 16 + q" by simp
next
  assume t: "t < 16"
  have "(t + p * 64) mod 16 = (t + 4 * p * 16) mod 16" by (simp add: algebra_simps)
  with t have "(t + p * 64) mod 16 = t" by (simp only: mod_mult_self1 mod_less)
  moreover have "(t + p * 64) div 64 = p" using t by simp
  ultimately show "(t + p * 64) mod 16 * 4 + (t + p * 64) div 64 = t * 4 + p" by simp
qed

lemma group_number:
  "a = qa * 4 + ra \<Longrightarrow> b = qb * 16 + rb \<Longrightarrow> c = qc * 64 + rc \<Longrightarrow>
     a * 65536 + b * 256 + c =
       ((qa * 64 + (ra * 16 + qb)) * 64 + (rb * 4 + qc)) * 64 + (rc :: nat)"
  by simp

lemma group_bytes:
  assumes "a < 256" "b < 256" "c < 256"
  shows "group (a * 65536 + b * 256 + c) 0 = alphabet ! (a div 4)"
    "group (a * 65536 + b * 256 + c) 1 = alphabet ! (a mod 4 * 16 + b div 16)"
    "group (a * 65536 + b * 256 + c) 2 = alphabet ! (b mod 16 * 4 + c div 64)"
    "group (a * 65536 + b * 256 + c) 3 = alphabet ! (c mod 64)"
proof -
  have m: "a = a div 4 * 4 + a mod 4" "b = b div 16 * 16 + b mod 16" "c = c div 64 * 64 + c mod 64"
    by simp_all
  have q: "a div 4 < 64" "b div 16 < 16" "c div 64 < 4"
    using assms by (simp_all add: less_mult_imp_div_less)
  have r: "a mod 4 < 4" "b mod 16 < 16" "c mod 64 < 64" by simp_all
  have n: "a * 65536 + b * 256 + c =
    ((a div 4 * 64 + (a mod 4 * 16 + b div 16)) * 64 + (b mod 16 * 4 + c div 64)) * 64 + c mod 64"
    by (rule group_number [OF m])
  have l: "a mod 4 * 16 + b div 16 < 64" "b mod 16 * 4 + c div 64 < 64"
    using q r by linarith+
  show "group (a * 65536 + b * 256 + c) 0 = alphabet ! (a div 4)"
    "group (a * 65536 + b * 256 + c) 1 = alphabet ! (a mod 4 * 16 + b div 16)"
    "group (a * 65536 + b * 256 + c) 2 = alphabet ! (b mod 16 * 4 + c div 64)"
    "group (a * 65536 + b * 256 + c) 3 = alphabet ! (c mod 64)"
    by (rule group_digits [OF q(1) l r(3) n])+
qed

lemma etab_joined:
  "etab etab_high24 ((x AND 0x03) OR (y AND 0xF0)) = alphabet ! (unat x mod 4 * 16 + unat y div 16)"
  "etab etab_low42 ((x AND 0x0F) OR (y AND 0xC0)) = alphabet ! (unat x mod 16 * 4 + unat y div 64)"
  "etab etab_high24 (x AND 0x03) = alphabet ! (unat x mod 4 * 16)"
  "etab etab_low42 (x AND 0x0F) = alphabet ! (unat x mod 16 * 4)"
  using split_index(1) [of "unat x mod 4" "unat y div 16"] split_index(2) [of "unat x mod 16" "unat y div 64"]
    split_index(1) [of "unat x mod 4" 0] split_index(2) [of "unat x mod 16" 0]
  by (simp_all only: etab_entries unat_join unat_masks)
    (simp_all add: div_eq_0_iff)

lemma base64_e_ref: "base64_e d = base64_ref d"
proof (induction d rule: base64_e.induct)
  case (1 a b c d)
  with group_bytes [OF unat_byte unat_byte unat_byte, of a b c] show ?case
    unfolding base64_e.simps etab_joined
    by (simp only: base64_ref.simps Let_def etab_entries append_Cons append_Nil)
next
  case (2 a b)
  with group_bytes [OF unat_byte unat_byte, of 0 a b] show ?case
    unfolding base64_e.simps etab_joined by (simp add: etab_entries Let_def)
next
  case (3 a)
  with group_bytes [OF unat_byte, of 0 0 a] show ?case
    unfolding base64_e.simps etab_joined by (simp add: etab_entries Let_def)
next
  case 4
  then show ?case by simp
qed

end
