(* ===== verification/PathInfo.thy ===== *)
theory PathInfo
  imports C_Num Base64
begin

text \<open>
  \<open>transcript.h\<close>: what is known of one object, from the file system or from a transcript line,
  and the options the command line tools set. Also \<open>cksum.c\<close>, which computes the checksum of
  a file, and \<open>radstat.c\<close>, which reads the type of an object. The build is the one for systems other
  than macOS and Solaris. A device number is kept as its major and minor parts.
\<close>

section \<open>Objects\<close>

record stat =
  st_mode :: "32 word"
  st_uid :: "32 word"
  st_gid :: "32 word"
  st_mtime :: int
  st_size :: int
  st_rdev :: "32 word \<times> 32 word"
  st_dev :: nat
  st_ino :: nat
  st_nlink :: nat

definition stat0 :: stat where
  "stat0 = \<lparr>st_mode = 0, st_uid = 0, st_gid = 0, st_mtime = 0, st_size = 0, st_rdev = (0, 0),
     st_dev = 0, st_ino = 0, st_nlink = 0\<rparr>"

definition FINFOLEN :: nat where
  "FINFOLEN = 32"

text \<open>Of the Finder information the model keeps \<open>ai_data\<close>, the field transcripts carry.\<close>

record pathinfo =
  pi_type :: char
  pi_minus :: bool
  pi_name :: string
  pi_link :: string
  pi_stat :: stat
  pi_cksum_b64 :: string
  pi_ai_data :: "byte list"

definition pathinfo0 :: pathinfo where
  "pathinfo0 = \<lparr>pi_type = NUL, pi_minus = False, pi_name = [], pi_link = [], pi_stat = stat0,
     pi_cksum_b64 = [], pi_ai_data = replicate FINFOLEN 0\<rparr>"

definition T_MODE :: "32 word" where
  "T_MODE = 0x0FFF"

definition S_IFMT :: "32 word" where
  "S_IFMT = 0xF000"

text \<open>The file type bits of \<open>st_mode\<close> (\<open>sys/stat.h\<close>).\<close>

definition S_IFSOCK :: "32 word" where "S_IFSOCK = 0xC000"
definition S_IFLNK :: "32 word" where "S_IFLNK = 0xA000"
definition S_IFREG :: "32 word" where "S_IFREG = 0x8000"
definition S_IFBLK :: "32 word" where "S_IFBLK = 0x6000"
definition S_IFDIR :: "32 word" where "S_IFDIR = 0x4000"
definition S_IFCHR :: "32 word" where "S_IFCHR = 0x2000"
definition S_IFIFO :: "32 word" where "S_IFIFO = 0x1000"

definition S_ISDIR :: "32 word \<Rightarrow> bool" where
  "S_ISDIR m \<longleftrightarrow> and m S_IFMT = S_IFDIR"

definition S_ISLNK :: "32 word \<Rightarrow> bool" where
  "S_ISLNK m \<longleftrightarrow> and m S_IFMT = S_IFLNK"

section \<open>The type of an object: \<open>radstat\<close>\<close>

datatype errno = ENOENT | ENOTDIR | EEXIST | EISDIR | ENOTEMPTY | EACCES | ENOSPC | EOTHER

text \<open>\<open>lstat\<close> as a function of the path: the information or the value of \<open>errno\<close>.\<close>

type_synonym lstat_fun = "string \<Rightarrow> errno + stat"

text \<open>
  The result of \<open>radstat\<close> is its return value with \<open>*st\<close> and \<open>*type\<close> as it leaves them, and
  \<open>errno\<close> when it fails.
\<close>

definition radstat ::
  "lstat_fun \<Rightarrow> string \<Rightarrow> stat \<Rightarrow> char \<Rightarrow> int \<times> stat \<times> char \<times> errno option" where
  "radstat lst path st0 type0 =
     (case lst path of
        Inl e \<Rightarrow>
          if e = ENOTDIR \<or> e = ENOENT then (-1, stat0, CHR ''X'', Some e)
          else (-1, st0, type0, Some e)
      | Inr st \<Rightarrow>
          let fmt = and (st_mode st) S_IFMT in
          if fmt = S_IFREG then (0, st, CHR ''f'', None)
          else if fmt = S_IFDIR then (0, st, CHR ''d'', None)
          else if fmt = S_IFLNK then (0, st, CHR ''l'', None)
          else if fmt = S_IFCHR then (0, st, CHR ''c'', None)
          else if fmt = S_IFBLK then (0, st, CHR ''b'', None)
          else if fmt = S_IFIFO then (0, st, CHR ''p'', None)
          else if fmt = S_IFSOCK then (0, st, CHR ''s'', None)
          else (1, st, type0, None))"

lemmas S_IF_defs = S_IFMT_def S_IFSOCK_def S_IFLNK_def S_IFREG_def S_IFBLK_def S_IFDIR_def
  S_IFCHR_def S_IFIFO_def

lemma radstat_dir_iff:
  assumes "radstat lst path st0 type0 = (0, st, t, e)"
  shows "t = CHR ''d'' \<longleftrightarrow> S_ISDIR (st_mode st)" "t = CHR ''l'' \<longleftrightarrow> S_ISLNK (st_mode st)"
    "t \<in> set ''fdlcbps''" "lst path = Inr st"
  using assms
  by (auto simp: radstat_def S_ISDIR_def S_ISLNK_def S_IF_defs Let_def split: sum.splits if_splits)

section \<open>Checksums: \<open>cksum.c\<close>\<close>

text \<open>
  An open file is the results of the \<open>read\<close> calls still to come: bytes or an error; after the
  last one \<open>read\<close> returns 0. The digest is that of the OpenSSL library: a context is made,
  updated with bytes and finished.
\<close>

datatype read_result = Bytes "byte list" | ReadError

record 'c digest =
  d_init :: 'c
  d_update :: "'c \<Rightarrow> byte list \<Rightarrow> 'c"
  d_final :: "'c \<Rightarrow> byte list"

fun fcksum_loop :: "'c digest \<Rightarrow> 'c \<Rightarrow> int \<Rightarrow> read_result list \<Rightarrow> (int \<times> 'c) option" where
  "fcksum_loop md ctx sz [] = Some (sz, ctx)"
| "fcksum_loop md ctx sz (ReadError # rs) = None"
| "fcksum_loop md ctx sz (Bytes bs # rs) =
     (if bs = [] then Some (sz, ctx)
      else fcksum_loop md (d_update md ctx bs) (sz + int (length bs)) rs)"

definition do_fcksum :: "'c digest \<Rightarrow> read_result list \<Rightarrow> int \<times> string option" where
  "do_fcksum md fd =
     (case fcksum_loop md (d_init md) 0 fd of
        None \<Rightarrow> (-1, None)
      | Some (sz, ctx) \<Rightarrow> (sz, Some (base64_e (d_final md ctx))))"

text \<open>
  \<open>open_file path\<close> is \<open>None\<close> when \<open>open\<close> fails, otherwise the file and whether \<open>close\<close> will
  succeed. The second component of the result is what is written to \<open>cksum_b64\<close>.
\<close>

definition do_cksum ::
  "'c digest \<Rightarrow> (string \<Rightarrow> (read_result list \<times> bool) option) \<Rightarrow> string \<Rightarrow> int \<times> string option" where
  "do_cksum md open_file path =
     (case open_file path of
        None \<Rightarrow> (-1, None)
      | Some (fd, close_ok) \<Rightarrow>
          let (sz, b64) = do_fcksum md fd
          in if close_ok then (sz, b64) else (-1, b64))"

text \<open>The stub for systems without HFS+.\<close>

definition do_acksum :: "string \<Rightarrow> int" where
  "do_acksum path = -1"

lemma fcksum_loop_chunks:
  assumes "\<And>c a b. d_update md (d_update md c a) b = d_update md c (a @ b)"
    and "\<And>c. d_update md c [] = c"
    and "list_all (\<lambda>bs. bs \<noteq> []) chunks"
  shows "fcksum_loop md ctx sz (map Bytes chunks) =
    Some (sz + int (length (concat chunks)), d_update md ctx (concat chunks))"
  using assms(3) by (induction chunks arbitrary: ctx sz) (simp_all add: assms(1,2))

end
