(* ===== verification/Hardlink.thy ===== *)
theory Hardlink
  imports PathInfo
begin

text \<open>
  \<open>hardlink.c\<close>: the names already met of every multiply linked inode, as a list of devices in
  ascending order, each with its inodes in ascending order.
\<close>

record inolist =
  i_ino :: nat
  i_name :: string
  i_flag :: bool

type_synonym devlist = "(nat \<times> inolist list) list"

fun d_insert :: "devlist \<Rightarrow> nat \<Rightarrow> devlist" where
  "d_insert [] dev = [(dev, [])]"
| "d_insert ((d, is) # ds) dev =
     (if dev \<le> d then (if dev = d then (d, is) # ds else (dev, []) # (d, is) # ds)
      else (d, is) # d_insert ds dev)"

fun i_insert :: "inolist list \<Rightarrow> pathinfo \<Rightarrow> string option \<times> inolist list" where
  "i_insert [] pinfo =
     (None, [\<lparr>i_ino = st_ino (pi_stat pinfo), i_name = pi_name pinfo, i_flag = False\<rparr>])"
| "i_insert (i # is) pinfo =
     (if st_ino (pi_stat pinfo) \<le> i_ino i
      then (if st_ino (pi_stat pinfo) = i_ino i then (Some (i_name i), i # is)
            else (None, \<lparr>i_ino = st_ino (pi_stat pinfo), i_name = pi_name pinfo, i_flag = False\<rparr>
                          # i # is))
      else let (r, is') = i_insert is pinfo in (r, i # is'))"

text \<open>An operation on the device that \<open>d_insert\<close> returned.\<close>

fun at_dev :: "nat \<Rightarrow> (inolist list \<Rightarrow> 'r \<times> inolist list) \<Rightarrow> devlist \<Rightarrow> ('r \<times> devlist) option" where
  "at_dev dev f [] = None"
| "at_dev dev f ((d, is) # ds) =
     (if d = dev then let (r, is') = f is in Some (r, (d, is') # ds)
      else map_option (apsnd (Cons (d, is))) (at_dev dev f ds))"

definition hardlink :: "devlist \<Rightarrow> pathinfo \<Rightarrow> string option \<times> devlist" where
  "hardlink ds pinfo =
     (let ds1 = d_insert ds (st_dev (pi_stat pinfo))
      in the (at_dev (st_dev (pi_stat pinfo)) (\<lambda>is. i_insert is pinfo) ds1))"

fun find_dev :: "devlist \<Rightarrow> nat \<Rightarrow> (nat \<times> inolist list) option" where
  "find_dev [] dev = None"
| "find_dev ((d, is) # ds) dev = (if dev \<le> d then Some (d, is) else find_dev ds dev)"

fun find_ino :: "inolist list \<Rightarrow> nat \<Rightarrow> inolist option" where
  "find_ino [] ino = None"
| "find_ino (i # is) ino = (if ino \<le> i_ino i then Some i else find_ino is ino)"

definition set_flag :: "nat \<Rightarrow> inolist list \<Rightarrow> inolist list" where
  "set_flag ino is = map (\<lambda>i. if i_ino i = ino then i\<lparr>i_flag := True\<rparr> else i) is"

text \<open>An inode that was never entered ends the program.\<close>

definition hardlink_changed :: "devlist \<Rightarrow> pathinfo \<Rightarrow> bool \<Rightarrow> (bool \<times> devlist) outcome" where
  "hardlink_changed ds pinfo set_it =
     (let dev = st_dev (pi_stat pinfo); ino = st_ino (pi_stat pinfo) in
      case find_dev ds dev of
        None \<Rightarrow> Exit 2
      | Some (d, is) \<Rightarrow>
          if dev \<noteq> d then Exit 2
          else (case find_ino is ino of
                  None \<Rightarrow> Exit 2
                | Some i \<Rightarrow>
                    if ino \<noteq> i_ino i then Exit 2
                    else if set_it
                    then Ret (True, the (map_option snd (at_dev dev (\<lambda>is. ((), set_flag ino is)) ds)))
                    else Ret (i_flag i, ds)))"

section \<open>The lists as a map from inodes to names\<close>

definition dev_ok :: "devlist \<Rightarrow> bool" where
  "dev_ok ds \<longleftrightarrow> sorted_wrt (<) (map fst ds) \<and> list_all (\<lambda>(d, is). sorted_wrt (<) (map i_ino is)) ds"

fun lookup_ino :: "inolist list \<Rightarrow> nat \<Rightarrow> (string \<times> bool) option" where
  "lookup_ino [] ino = None"
| "lookup_ino (i # is) ino = (if i_ino i = ino then Some (i_name i, i_flag i) else lookup_ino is ino)"

definition links :: "devlist \<Rightarrow> nat \<times> nat \<Rightarrow> (string \<times> bool) option" where
  "links ds k = (case map_of ds (fst k) of None \<Rightarrow> None | Some is \<Rightarrow> lookup_ino is (snd k))"

definition ino_of :: "pathinfo \<Rightarrow> nat \<times> nat" where
  "ino_of pinfo = (st_dev (pi_stat pinfo), st_ino (pi_stat pinfo))"

lemma links_Nil [simp]: "links [] k = None"
  by (simp add: links_def)

lemma dev_ok_simps [simp]:
  "dev_ok []"
  "dev_ok ((d, is) # ds) \<longleftrightarrow>
     (\<forall>x \<in> set ds. d < fst x) \<and> sorted_wrt (<) (map i_ino is) \<and> dev_ok ds"
  by (auto simp: dev_ok_def)

lemma lookup_ino_less:
  "\<forall>i \<in> set is. n < i_ino i \<Longrightarrow> ino \<le> n \<Longrightarrow> lookup_ino is ino = None"
  by (induction "is") auto

lemma map_of_less: "\<forall>x \<in> set ds. (d :: nat) < fst x \<Longrightarrow> dev \<le> d \<Longrightarrow> map_of ds dev = None"
  by (induction ds) auto

lemma i_insert_lookup:
  assumes "sorted_wrt (<) (map i_ino is)" "i_insert is p = (r, is')"
  shows "sorted_wrt (<) (map i_ino is') \<and> r = map_option fst (lookup_ino is (st_ino (pi_stat p))) \<and>
    lookup_ino is' = (if r = None then (lookup_ino is)(st_ino (pi_stat p) \<mapsto> (pi_name p, False))
                      else lookup_ino is) \<and>
    set (map i_ino is') = insert (st_ino (pi_stat p)) (set (map i_ino is))"
  using assms
proof (induction "is" arbitrary: r is')
  case Nil
  then show ?case by (auto simp: fun_eq_iff)
next
  case (Cons i "is")
  show ?case
  proof (cases "st_ino (pi_stat p) \<le> i_ino i")
    case True
    have "\<forall>j \<in> set is. i_ino i < i_ino j" using Cons.prems(1) by simp
    with True have "lookup_ino is (st_ino (pi_stat p)) = None"
      "st_ino (pi_stat p) \<noteq> i_ino i \<Longrightarrow> \<forall>j \<in> set is. st_ino (pi_stat p) < i_ino j"
      by (auto intro: lookup_ino_less)
    with True Cons.prems show ?thesis
      by (auto simp: fun_eq_iff split: if_splits)
  next
    case False
    obtain r0 is0 where e: "i_insert is p = (r0, is0)" by force
    with Cons.prems False have r: "r = r0" "is' = i # is0" by auto
    from Cons.IH [OF _ e] Cons.prems(1) have
      *: "sorted_wrt (<) (map i_ino is0)" "r0 = map_option fst (lookup_ino is (st_ino (pi_stat p)))"
      "lookup_ino is0 = (if r0 = None then (lookup_ino is)(st_ino (pi_stat p) \<mapsto> (pi_name p, False))
        else lookup_ino is)"
      "set (map i_ino is0) = insert (st_ino (pi_stat p)) (set (map i_ino is))" by auto
    have "\<forall>j \<in> set is0. i_ino i < i_ino j"
      using *(4) Cons.prems(1) False by (auto simp: set_eq_iff image_iff) (metis not_le)+
    with * False r Cons.prems(1) show ?thesis by (auto simp: fun_eq_iff)
  qed
qed

lemma d_insert_ok:
  assumes "dev_ok ds"
  shows "dev_ok (d_insert ds dev)" "dev \<in> fst ` set (d_insert ds dev)"
    "map_of (d_insert ds dev) = (if dev \<in> dom (map_of ds) then map_of ds else (map_of ds)(dev \<mapsto> []))"
    "fst ` set (d_insert ds dev) = insert dev (fst ` set ds)"
  using assms
proof (induction ds)
  case Nil
  { case 1 show ?case by simp }
  { case 2 show ?case by simp }
  { case 3 show ?case by (simp add: fun_eq_iff) }
  { case 4 show ?case by simp }
next
  case (Cons x ds)
  obtain d "is" where x: "x = (d, is)" by force
  { case 4 then show ?case using Cons.IH(4) by (auto simp: x) }
  note keys = this
  { case 1
    have "\<forall>y \<in> set (d_insert ds dev). d < fst y" if "d < dev"
    proof
      fix y assume "y \<in> set (d_insert ds dev)"
      then have "fst y \<in> insert dev (fst ` set ds)"
        using Cons.IH(4) 1 by (auto simp: x)
      with 1 that show "d < fst y" by (auto simp: x)
    qed
    with 1 Cons.IH(1) show ?case by (auto simp: x) }
  { case 2 then show ?case using Cons.IH(2) by (auto simp: x) }
  { case 3
    then have "dev \<le> d \<Longrightarrow> map_of ds dev = None" by (intro map_of_less) (auto simp: x)
    with 3 show ?case using Cons.IH(3) by (auto simp: x fun_eq_iff) }
qed

lemma at_dev_ok:
  assumes "dev_ok ds" "map_of ds dev = Some is" "f is = (r, is')"
    and "sorted_wrt (<) (map i_ino is')"
  shows "\<exists>ds'. at_dev dev f ds = Some (r, ds') \<and> dev_ok ds' \<and>
    map_of ds' = (map_of ds)(dev \<mapsto> is') \<and> map fst ds' = map fst ds"
  using assms(1,2)
proof (induction ds)
  case Nil
  then show ?case by simp
next
  case (Cons x ds)
  obtain d js where x: "x = (d, js)" by force
  show ?case
  proof (cases "d = dev")
    case True
    with Cons.prems assms(3,4) show ?thesis by (auto simp: x fun_eq_iff)
  next
    case False
    with Cons obtain ds' where ds': "at_dev dev f ds = Some (r, ds')" "dev_ok ds'"
      "map_of ds' = (map_of ds)(dev \<mapsto> is')" "map fst ds' = map fst ds"
      by (fastforce simp: x)
    have "\<forall>y \<in> set ds'. d < fst y"
    proof
      fix y assume "y \<in> set ds'"
      then have "fst y \<in> set (map fst ds)" by (simp flip: ds'(4))
      with Cons.prems(1) show "d < fst y" by (auto simp: x)
    qed
    with ds' False Cons.prems(1) show ?thesis by (auto simp: x fun_eq_iff)
  qed
qed

text \<open>
  The contract of \<open>hardlink\<close>: the first name met for an inode is kept and returned from then
  on.
\<close>

lemma hardlink_links:
  assumes "dev_ok ds" "hardlink ds p = (r, ds')"
  shows "dev_ok ds'" "r = map_option fst (links ds (ino_of p))"
    "links ds' = (if r = None then (links ds)(ino_of p \<mapsto> (pi_name p, False)) else links ds)"
proof -
  let ?dev = "st_dev (pi_stat p)" and ?ino = "st_ino (pi_stat p)"
  note d = d_insert_ok [OF assms(1), of ?dev]
  obtain "is" where m: "map_of (d_insert ds ?dev) ?dev = Some is"
    using d(2) by (metis domIff dom_map_of_conv_image_fst not_None_eq)
  have srt: "sorted_wrt (<) (map i_ino is)"
    using d(1) map_of_SomeD [OF m] by (auto simp: dev_ok_def list_all_iff)
  obtain r0 is' where i: "i_insert is p = (r0, is')" by force
  note ii = i_insert_lookup [OF srt i]
  obtain ds0 where ds0: "at_dev ?dev (\<lambda>is. i_insert is p) (d_insert ds ?dev) = Some (r0, ds0)"
    "dev_ok ds0" "map_of ds0 = (map_of (d_insert ds ?dev))(?dev \<mapsto> is')"
    using at_dev_ok [where f = "\<lambda>is. i_insert is p", OF d(1) m i] ii by auto
  with assms(2) have r: "r = r0" "ds' = ds0" by (simp_all add: hardlink_def)
  from ds0 r show "dev_ok ds'" by simp
  have old: "links ds (?dev, k) = lookup_ino is k" for k
    using m d(3) by (auto simp: links_def dom_def split: option.splits if_splits)
  with ii r show "r = map_option fst (links ds (ino_of p))"
    by (simp add: ino_of_def)
  show "links ds' = (if r = None then (links ds)(ino_of p \<mapsto> (pi_name p, False)) else links ds)"
  proof
    fix k :: "nat \<times> nat"
    obtain a b where k: "k = (a, b)" by force
    show "links ds' k = (if r = None then (links ds)(ino_of p \<mapsto> (pi_name p, False)) else links ds) k"
    proof (cases "a = ?dev")
      case True
      have "links ds' k = lookup_ino is' b" using ds0(3) r True by (simp add: links_def k)
      with ii old [of b] r True show ?thesis by (auto simp: k ino_of_def)
    next
      case False
      then have "links ds' k = links ds k"
        using ds0(3) d(3) r by (simp add: links_def k)
      with False show ?thesis by (simp add: k ino_of_def)
    qed
  qed
qed

lemma find_dev_sorted:
  assumes "dev_ok ds"
  shows "(case find_dev ds dev of Some (d, is) \<Rightarrow> if d = dev then Some is else None | None \<Rightarrow> None)
    = map_of ds dev"
  using assms
proof (induction ds)
  case (Cons x ds)
  obtain d js where x: "x = (d, js)" by force
  from Cons.prems have "dev \<le> d \<Longrightarrow> map_of ds dev = None"
    by (intro map_of_less [of ds d]) (auto simp: x)
  with Cons show ?case by (auto simp: x)
qed simp

lemma find_ino_sorted:
  assumes "sorted_wrt (<) (map i_ino is)"
  shows "(case find_ino is ino of Some i \<Rightarrow> if i_ino i = ino then Some (i_name i, i_flag i) else None
    | None \<Rightarrow> None) = lookup_ino is ino"
  using assms
proof (induction "is")
  case (Cons i "is")
  then have "ino \<le> i_ino i \<Longrightarrow> lookup_ino is ino = None"
    by (intro lookup_ino_less [of "is" "i_ino i"]) auto
  with Cons show ?case by auto
qed simp

lemma set_flag_lookup:
  "lookup_ino (set_flag ino is) k =
     (if k = ino then map_option (\<lambda>(n, _). (n, True)) (lookup_ino is k) else lookup_ino is k)"
  "map i_ino (set_flag ino is) = map i_ino is"
  by (induction "is") (auto simp: set_flag_def)

text \<open>
  The contract of \<open>hardlink_changed\<close>: it ends the program for an inode that was never met,
  else it reads the flag, which a call with \<open>set\<close> raises.
\<close>

lemma hardlink_changed_links:
  assumes "dev_ok ds"
  shows "case links ds (ino_of p) of
      None \<Rightarrow> hardlink_changed ds p b = Exit 2
    | Some (n, fl) \<Rightarrow>
        \<exists>ds'. hardlink_changed ds p b = Ret (fl \<or> b, ds') \<and> dev_ok ds' \<and>
          links ds' = (if b then (links ds)(ino_of p \<mapsto> (n, True)) else links ds)"
proof -
  let ?dev = "st_dev (pi_stat p)" and ?ino = "st_ino (pi_stat p)"
  show ?thesis
  proof (cases "map_of ds ?dev")
    case None
    with find_dev_sorted [OF assms, of ?dev] show ?thesis
      by (auto simp: links_def ino_of_def hardlink_changed_def Let_def split: option.splits if_splits)
  next
    case (Some "is")
    with find_dev_sorted [OF assms, of ?dev] have fd: "find_dev ds ?dev = Some (?dev, is)"
      by (auto split: option.splits if_splits)
    have srt: "sorted_wrt (<) (map i_ino is)"
      using assms map_of_SomeD [OF Some] by (auto simp: dev_ok_def list_all_iff)
    note fi = find_ino_sorted [OF srt, of ?ino]
    have l: "links ds (?dev, k) = lookup_ino is k" for k
      using Some by (simp add: links_def)
    show ?thesis
    proof (cases "lookup_ino is ?ino")
      case None
      with fi fd l show ?thesis
        by (auto simp: ino_of_def hardlink_changed_def Let_def split: option.splits if_splits)
    next
      case (Some v)
      with fi obtain i where i: "find_ino is ?ino = Some i" "i_ino i = ?ino" "v = (i_name i, i_flag i)"
        by (auto split: option.splits if_splits)
      obtain ds' where ds': "at_dev ?dev (\<lambda>is. ((), set_flag ?ino is)) ds = Some ((), ds')" "dev_ok ds'"
        "map_of ds' = (map_of ds)(?dev \<mapsto> set_flag ?ino is)"
        using at_dev_ok [OF assms \<open>map_of ds ?dev = Some is\<close>, of "\<lambda>is. ((), set_flag ?ino is)"] srt
        by (auto simp: set_flag_lookup(2))
      have "links ds' = (links ds)(ino_of p \<mapsto> (i_name i, True))"
      proof
        fix k :: "nat \<times> nat"
        obtain a b where k: "k = (a, b)" by force
        show "links ds' k = ((links ds)(ino_of p \<mapsto> (i_name i, True))) k"
          using ds'(3) Some i(3) l [of b]
          by (auto simp: links_def k ino_of_def set_flag_lookup(1))
      qed
      with i fd ds' l Some assms show ?thesis
        by (auto simp: ino_of_def hardlink_changed_def Let_def)
    qed
  qed
qed

end
