(* ===== verification/Transcript.thy ===== *)
theory Transcript
  imports Escape Argv Wildcard NameSet Hardlink
begin

text \<open>
  \<open>transcript.c\<close>, first part: reading and printing transcript lines. An open transcript keeps
  the unread rest of its file in \<open>t_in\<close>; \<open>t_num\<close>, which is unique among the open
  transcripts, stands for the address of a transcript. Messages on standard error are not
  modelled.
\<close>

section \<open>Options and data\<close>

datatype edit = APPLICABLE | CREATABLE
datatype tformat = T_RELATIVE | T_ABSOLUTE | T_UNSET
datatype ttype = T_NULL | T_POSITIVE | T_NEGATIVE | T_SPECIAL
datatype pr_flag = PR_TRAN_ONLY | PR_FS_ONLY | PR_DOWNLOAD | PR_STATUS | PR_STATUS_NEG | PR_STATUS_MINUS
datatype location = K_CLIENT | K_SERVER
datatype move = T_MOVE_TRAN | T_MOVE_FS | T_MOVE_BOTH

definition T_SKIP_POSITIVE :: "32 word" where "T_SKIP_POSITIVE = 2"
definition T_SKIP_NEGATIVE :: "32 word" where "T_SKIP_NEGATIVE = 4"
definition T_SKIP_SPECIAL :: "32 word" where "T_SKIP_SPECIAL = 8"
definition T_SKIP_EXCLUDES :: "32 word" where "T_SKIP_EXCLUDES = 16"
definition T_SKIP_ALL :: "32 word" where "T_SKIP_ALL = 30"

record config =
  edit_path :: edit
  case_sensitive :: bool
  tran_format :: tformat
  ignore_timestamps :: bool
  skip :: "32 word"
  cksum :: bool
  exclude_warnings :: bool
  transcript_shell_escapes :: bool
  path_prefix :: "string option"
  radmind_path :: string

text \<open>
  What the code reads from the system: text files, the bytes of files with the digest in use,
  symbolic links, \<open>lstat\<close> and the entries of directories.
\<close>

record 'c env =
  e_text :: "string \<Rightarrow> string option"
  e_md :: "'c digest"
  e_bytes :: "string \<Rightarrow> (read_result list \<times> bool) option"
  e_readlink :: "string \<Rightarrow> string option"
  e_lstat :: lstat_fun
  e_readdir :: "string \<Rightarrow> string list option"

record tran =
  t_pinfo :: pathinfo
  t_type :: ttype
  t_num :: nat
  t_fullname :: string
  t_shortname :: string
  t_kfile :: string
  t_linenum :: nat
  t_eof :: bool
  t_in :: "string option"

text \<open>The variables of the module, and what it has printed.\<close>

record tstate =
  tran_list :: "tran list"
  prev_tran :: "nat option"
  fs_minus :: bool
  hlinks :: devlist
  dbuf :: string
  kdir :: string
  kfile_list :: "string list"
  special_list :: "string list"
  exclude_list :: "string list"
  outtran :: string
  stdout :: string

section \<open>\<open>convert_path_type\<close>\<close>

definition convert_path_type :: "config \<Rightarrow> string \<Rightarrow> string option" where
  "convert_path_type cfg path =
     (if length path = 1
      then (if tran_format cfg = T_ABSOLUTE \<and> char_at path 0 = CHR ''.'' then Some [SLASH]
            else if tran_format cfg = T_RELATIVE \<and> char_at path 0 = SLASH then Some ''.''
            else Some path)
      else if tran_format cfg = T_ABSOLUTE \<and> char_at path 0 = CHR ''.''
      then (if char_at path 1 = SLASH then snprintf MAXPATHLEN (drop 1 path)
            else snprintf MAXPATHLEN (SLASH # path))
      else if tran_format cfg = T_RELATIVE \<and> char_at path 0 = SLASH
      then snprintf MAXPATHLEN (CHR ''.'' # path)
      else Some path)"

section \<open>\<open>transcript_parse\<close>\<close>

text \<open>
  Reading the next line with words that is not a comment. A line that starts with a NUL makes
  the code read before the buffer.
\<close>

function read_words :: "string \<Rightarrow> nat \<Rightarrow> (string \<times> nat \<times> string list option) outcome" where
  "read_words inp linenum =
     (case fgets MAXPATHLEN inp of
        None \<Rightarrow> Ret (inp, linenum, None)
      | Some (buf, rest) \<Rightarrow>
          let line = cstr buf in
          if line = [] then UB
          else if last line \<noteq> NL then Exit 2
          else obind (argcargv line) (\<lambda>av.
                 if av = [] \<or> char_at (hd av) 0 = CHR ''#'' then read_words rest (Suc linenum)
                 else Ret (rest, Suc linenum, Some av)))"
  by pat_completeness auto

termination
  by (relation "measure (\<lambda>(inp, _). length inp)")
    (auto dest!: fgets_shrinks simp: MAXPATHLEN_def)

declare read_words.simps [simp del]

definition arg :: "string list \<Rightarrow> nat \<Rightarrow> string outcome" where
  "arg av i = (if i < length av then Ret (av ! i) else UB)"

definition set_owner :: "string \<Rightarrow> string \<Rightarrow> string \<Rightarrow> pathinfo \<Rightarrow> pathinfo" where
  "set_owner m u g p =
     p\<lparr>pi_stat := (pi_stat p)\<lparr>st_mode := word_of_int (strtol 8 m), st_uid := atoi u, st_gid := atoi g\<rparr>\<rparr>"

text \<open>\<open>base64_d\<close> into \<open>ai_data\<close>, which has 32 bytes.\<close>

definition set_finfo :: "string \<Rightarrow> pathinfo \<Rightarrow> pathinfo outcome" where
  "set_finfo e p =
     obind (base64_d e) (\<lambda>bs.
       if FINFOLEN < length bs then UB
       else Ret (p\<lparr>pi_ai_data := bs @ drop (length bs) (pi_ai_data p)\<rparr>))"

definition parse_fields ::
  "config \<Rightarrow> ttype \<Rightarrow> string list \<Rightarrow> pathinfo \<Rightarrow> string \<Rightarrow> (pathinfo \<times> string) outcome" where
  "parse_fields cfg tt av p buf =
     (let ac = length av; ty = char_at (av ! 0) 0 in
      if ty = CHR ''d'' then
        (if ac \<noteq> 5 \<and> ac \<noteq> 6 then Exit 2
         else let p = set_owner (av ! 2) (av ! 3) (av ! 4) p
              in if ac = 6 then obind (set_finfo (av ! 5) p) (\<lambda>p. Ret (p, buf))
                 else Ret (p\<lparr>pi_ai_data := replicate FINFOLEN 0\<rparr>, buf))
      else if ty = CHR ''p'' \<or> ty = CHR ''D'' \<or> ty = CHR ''s'' then
        (if ac \<noteq> 5 then Exit 2 else Ret (set_owner (av ! 2) (av ! 3) (av ! 4) p, buf))
      else if ty = CHR ''b'' \<or> ty = CHR ''c'' then
        (if ac \<noteq> 7 then Exit 2
         else let p = set_owner (av ! 2) (av ! 3) (av ! 4) p
              in Ret (p\<lparr>pi_stat := (pi_stat p)\<lparr>st_rdev := (atoi (av ! 5), atoi (av ! 6))\<rparr>\<rparr>, buf))
      else if ty = CHR ''l'' then
        (if ac \<noteq> 3 \<and> ac \<noteq> 6 then Exit 2
         else let p = (if ac = 3
                       then p\<lparr>pi_stat := (pi_stat p)\<lparr>st_mode := 0x1FF, st_uid := 0, st_gid := 0\<rparr>\<rparr>
                       else set_owner (av ! 2) (av ! 3) (av ! 4) p)
              in obind (decode (av ! (ac - 1)) buf) (\<lambda>(epath, buf).
                   case epath of None \<Rightarrow> Exit 2 | Some epath \<Rightarrow> Ret (p\<lparr>pi_link := epath\<rparr>, buf)))
      else if ty = CHR ''h'' then
        (if ac \<noteq> 3 then Exit 2
         else obind (decode (av ! 2) buf) (\<lambda>(epath, buf).
                case epath of
                  None \<Rightarrow> Exit 2
                | Some epath \<Rightarrow>
                    (case convert_path_type cfg epath of
                       None \<Rightarrow> Exit 2
                     | Some epath \<Rightarrow> Ret (p\<lparr>pi_link := epath\<rparr>, buf))))
      else if ty = CHR ''a'' \<or> ty = CHR ''f'' then
        (if ac \<noteq> 8 then Exit 2
         else let p = set_owner (av ! 2) (av ! 3) (av ! 4) p;
                  p = p\<lparr>pi_stat := (pi_stat p)\<lparr>st_mtime := strtol 10 (av ! 5),
                                                st_size := strtol 10 (av ! 6)\<rparr>\<rparr>
              in if tt \<noteq> T_NEGATIVE \<and> cksum cfg \<and> strcmp ''-'' (av ! 7) = 0 then Exit 2
                 else Ret (p\<lparr>pi_cksum_b64 := av ! 7\<rparr>, buf))
      else Exit 2)"

definition parse_line :: "config \<Rightarrow> tran \<Rightarrow> string list \<Rightarrow> string \<Rightarrow> (tran \<times> string) outcome" where
  "parse_line cfg t av buf =
     (if length av < 3 then Exit 2
      else if length (av ! 0) \<noteq> 1 then Exit 2
      else let dash = (char_at (av ! 0) 0 = CHR ''-'');
               av = (if dash then tl av else av);
               av = (if char_at (av ! 0) 0 = CHR ''+'' then tl av else av)
           in obind (arg av 1) (\<lambda>a1.
              obind (decode a1 buf) (\<lambda>(epath, buf).
                case epath of
                  None \<Rightarrow> Exit 2
                | Some epath \<Rightarrow>
                    (case convert_path_type cfg epath of
                       None \<Rightarrow> Exit 2
                     | Some epath \<Rightarrow>
                         if pathcasecmp epath (pi_name (t_pinfo t)) (case_sensitive cfg) \<le> 0 then Exit 2
                         else obind
                           (parse_fields cfg (t_type t) av
                              ((t_pinfo t)\<lparr>pi_minus := dash, pi_type := char_at (av ! 0) 0,
                                 pi_name := epath\<rparr>) buf)
                           (\<lambda>(p, buf). Ret (t\<lparr>t_pinfo := p\<rparr>, buf))))))"

definition transcript_parse :: "config \<Rightarrow> tran \<Rightarrow> string \<Rightarrow> (tran \<times> string) outcome" where
  "transcript_parse cfg t buf =
     (case t_in t of
        None \<Rightarrow> UB
      | Some inp \<Rightarrow>
          obind (read_words inp (t_linenum t)) (\<lambda>(rest, linenum, av).
            let t = t\<lparr>t_in := Some rest, t_linenum := linenum\<rparr> in
            case av of
              None \<Rightarrow> Ret (t\<lparr>t_eof := True\<rparr>, buf)
            | Some av \<Rightarrow> parse_line cfg t av buf))"

section \<open>\<open>t_print\<close>\<close>

definition enc_name :: "config \<Rightarrow> string \<Rightarrow> string option outcome" where
  "enc_name cfg = (if transcript_shell_escapes cfg then encode_space else encode)"

definition fmt_head :: "pathinfo \<Rightarrow> string \<Rightarrow> string" where
  "fmt_head p epath = [pi_type p, SP] @ pad_right 37 epath @ [TAB]"

definition fmt_owner :: "pathinfo \<Rightarrow> string" where
  "fmt_owner p =
     zero_pad 4 (print_oct (unat (and T_MODE (st_mode (pi_stat p))))) @ [SP] @
     pad_left 5 (print_int (sint (st_uid (pi_stat p)))) @ [SP] @
     pad_left 5 (print_int (sint (st_gid (pi_stat p))))"

text \<open>The checksum of an object of the file system, where one is computed.\<close>

definition get_cksum :: "'c env \<Rightarrow> pathinfo \<Rightarrow> pathinfo outcome" where
  "get_cksum env p =
     (if pi_type p = CHR ''f'' then
        (case do_cksum (e_md env) (e_bytes env) (pi_name p) of
           (n, b64) \<Rightarrow>
             if n < 0 then Exit 2
             else Ret (case b64 of None \<Rightarrow> p | Some e \<Rightarrow> p\<lparr>pi_cksum_b64 := e\<rparr>))
      else if pi_type p = CHR ''a'' then (if do_acksum (pi_name p) < 0 then Exit 2 else Ret p)
      else Ret p)"

text \<open>
  The line of a file, with \<open>+\<close> when its contents have to be fetched; when only the permissions
  of a file of a negative transcript changed, the time is the one of the file system. The
  result is \<open>cur\<close>, which may have a checksum now, and the text.
\<close>

definition print_file ::
  "config \<Rightarrow> 'c env \<Rightarrow> pathinfo \<Rightarrow> pathinfo option \<Rightarrow> pr_flag \<Rightarrow> bool \<Rightarrow> string \<Rightarrow>
    (pathinfo \<times> string) outcome" where
  "print_file cfg env cur fs flag gone epath =
     (let plus = (if edit_path cfg = APPLICABLE \<and> (flag = PR_TRAN_ONLY \<or> flag = PR_DOWNLOAD)
                  then ''+ '' else [])
      in obind (if char_at (pi_cksum_b64 cur) 0 = CHR ''-'' \<and> cksum cfg \<and> \<not> gone
                then get_cksum env cur else Ret cur) (\<lambda>cur.
         obind (if flag = PR_STATUS_NEG
                then (case fs of None \<Rightarrow> UB | Some f \<Rightarrow> Ret (st_mtime (pi_stat f)))
                else Ret (st_mtime (pi_stat cur))) (\<lambda>mtime.
           Ret (cur, plus @ fmt_head cur epath @ fmt_owner cur @ [SP] @
                     pad_left 9 (print_int mtime) @ [SP] @
                     pad_left 7 (print_int (st_size (pi_stat cur))) @ [SP] @
                     pi_cksum_b64 cur @ [NL]))))"

text \<open>The line for \<open>cur\<close>, after its name is encoded.\<close>

definition print_body ::
  "config \<Rightarrow> 'c env \<Rightarrow> pathinfo \<Rightarrow> pathinfo option \<Rightarrow> pr_flag \<Rightarrow> bool \<Rightarrow> string \<Rightarrow>
    (pathinfo \<times> string) outcome" where
  "print_body cfg env cur fs flag gone epath =
     (let ty = pi_type cur in
      if ty = CHR ''s'' \<or> ty = CHR ''D'' \<or> ty = CHR ''p'' \<or> ty = CHR ''d'' then
        Ret (cur, fmt_head cur epath @ fmt_owner cur @ [NL])
      else if ty = CHR ''l'' then
        obind (enc_name cfg (pi_link cur)) (\<lambda>elink.
          case elink of
            None \<Rightarrow> Exit 2
          | Some elink \<Rightarrow> Ret (cur, fmt_head cur epath @ fmt_owner cur @ [SP] @ elink @ [NL]))
      else if ty = CHR ''h'' then
        obind (enc_name cfg (pi_link cur)) (\<lambda>elink.
          case elink of
            None \<Rightarrow> Exit 2
          | Some elink \<Rightarrow> Ret (cur, fmt_head cur epath @ elink @ [NL]))
      else if ty = CHR ''a'' \<or> ty = CHR ''f'' then
        print_file cfg env cur fs flag gone epath
      else if ty = CHR ''c'' \<or> ty = CHR ''b'' then
        Ret (cur, fmt_head cur epath @ fmt_owner cur @ [SP] @
               pad_left 5 (print_int (sint (fst (st_rdev (pi_stat cur))))) @ [SP] @
               pad_left 5 (print_int (sint (snd (st_rdev (pi_stat cur))))) @ [NL])
      else Exit 2)"

text \<open>Which object is printed, that of the file system (\<open>True\<close>), and whether as removed.\<close>

definition pick_cur :: "config \<Rightarrow> pathinfo option \<Rightarrow> pr_flag \<Rightarrow> (bool \<times> bool) outcome" where
  "pick_cur cfg fs flag =
     (if edit_path cfg = APPLICABLE then Ret (flag = PR_FS_ONLY, flag = PR_FS_ONLY)
      else if flag = PR_TRAN_ONLY then Ret (False, True)
      else (case fs of
              None \<Rightarrow> UB
            | Some f \<Rightarrow> Ret (if pi_type f = CHR ''X'' then (False, True) else (True, False))))"

definition note_hardlink :: "config \<Rightarrow> pathinfo option \<Rightarrow> tstate \<Rightarrow> tstate outcome" where
  "note_hardlink cfg fs st =
     (case fs of
        None \<Rightarrow> Ret st
      | Some f \<Rightarrow>
          if edit_path cfg = APPLICABLE \<and> pi_type f \<noteq> CHR ''d'' \<and> pi_type f \<noteq> CHR ''h'' \<and>
             1 < st_nlink (pi_stat f)
          then obind (hardlink_changed (hlinks st) f True) (\<lambda>(_, ds). Ret (st\<lparr>hlinks := ds\<rparr>))
          else Ret st)"

definition print_tran_name :: "config \<Rightarrow> tran \<Rightarrow> pr_flag \<Rightarrow> tstate \<Rightarrow> tstate" where
  "print_tran_name cfg t flag st =
     (if edit_path cfg = APPLICABLE \<and>
         (flag = PR_TRAN_ONLY \<or> flag = PR_DOWNLOAD \<or> flag = PR_STATUS_NEG) \<and>
         prev_tran st \<noteq> Some (t_num t)
      then st\<lparr>outtran := outtran st @ t_shortname t @ '':'' @ [NL], prev_tran := Some (t_num t)\<rparr>
      else st)"

definition t_print ::
  "config \<Rightarrow> 'c env \<Rightarrow> pathinfo option \<Rightarrow> tran \<Rightarrow> pr_flag \<Rightarrow> tstate \<Rightarrow>
    (pathinfo option \<times> tran \<times> tstate) outcome" where
  "t_print cfg env fs t flag st =
     obind (note_hardlink cfg fs st) (\<lambda>st.
     let st = print_tran_name cfg t flag st in
     obind (pick_cur cfg fs flag) (\<lambda>(on_fs, gone).
     let dash = (if edit_path cfg = APPLICABLE \<and> flag = PR_STATUS_MINUS then ''- '' else []) @
                (if gone then ''- '' else []);
         st = (if gone then st\<lparr>fs_minus := True\<rparr> else st) in
     case (if on_fs then fs else Some (t_pinfo t)) of
       None \<Rightarrow> UB
     | Some cur \<Rightarrow>
         obind (enc_name cfg (pi_name cur)) (\<lambda>epath.
           case epath of
             None \<Rightarrow> Exit 2
           | Some epath \<Rightarrow>
               obind (print_body cfg env cur fs flag gone epath) (\<lambda>(cur, text).
                 Ret (if on_fs then Some cur else fs, if on_fs then t else t\<lparr>t_pinfo := cur\<rparr>,
                      st\<lparr>outtran := outtran st @ dash @ text\<rparr>)))))"

text \<open>Printing changes neither the position in a transcript nor what an object is.\<close>

definition same_obj :: "pathinfo \<Rightarrow> pathinfo \<Rightarrow> bool" where
  "same_obj p p' \<longleftrightarrow> (\<exists>c. p' = p\<lparr>pi_cksum_b64 := c\<rparr>)"

lemma same_obj_refl [simp]: "same_obj p p"
  unfolding same_obj_def by (rule exI [of _ "pi_cksum_b64 p"]) simp

lemma same_obj_update [simp]: "same_obj p (p\<lparr>pi_cksum_b64 := c\<rparr>)"
  by (auto simp: same_obj_def)

lemma same_objD:
  assumes "same_obj p p'"
  shows "pi_type p' = pi_type p" "pi_minus p' = pi_minus p" "pi_name p' = pi_name p"
    "pi_link p' = pi_link p" "pi_stat p' = pi_stat p" "pi_ai_data p' = pi_ai_data p"
  using assms by (auto simp: same_obj_def)

lemma get_cksum_keeps: "get_cksum env p = Ret p' \<Longrightarrow> same_obj p p'"
  by (auto simp: get_cksum_def split: if_splits prod.splits option.splits)

lemma print_file_keeps:
  assumes "print_file cfg env cur fs flag gone epath = Ret (cur', body)"
  shows "same_obj cur cur'"
proof -
  from assms obtain c where "(if char_at (pi_cksum_b64 cur) 0 = CHR ''-'' \<and> cksum cfg \<and> \<not> gone
      then get_cksum env cur else Ret cur) = Ret c" and "cur' = c"
    by (auto simp: print_file_def Let_def obind_Ret_iff)
  then show ?thesis by (auto dest: get_cksum_keeps split: if_split_asm)
qed

lemma print_body_keeps:
  assumes "print_body cfg env cur fs flag gone epath = Ret (cur', body)"
  shows "same_obj cur cur'"
proof -
  have "all_ret (\<lambda>(c, _). same_obj cur c) (print_file cfg env cur fs flag gone epath)"
    by (auto simp: all_ret_def dest: print_file_keeps)
  then have "all_ret (\<lambda>(c, _). same_obj cur c) (print_body cfg env cur fs flag gone epath)"
    unfolding print_body_def Let_def
    by (intro all_ret_rules) (simp_all only: all_ret_Ret prod.case same_obj_refl)
  then show ?thesis using assms by (auto dest: all_retD)
qed

lemma note_hardlink_keeps: "note_hardlink cfg fs st = Ret st' \<Longrightarrow> \<exists>ds. st' = st\<lparr>hlinks := ds\<rparr>"
  by (cases st) (auto simp: note_hardlink_def outcome_simps split: option.splits if_splits)

lemma print_tran_name_keeps:
  "\<exists>o' p'. print_tran_name cfg t flag st = st\<lparr>outtran := outtran st @ o', prev_tran := p'\<rparr>"
  by (cases st) (auto simp: print_tran_name_def)

text \<open>What all operations that print keep of the state, and how the output grows.\<close>

definition same_state :: "tstate \<Rightarrow> tstate \<Rightarrow> bool" where
  "same_state st st' \<longleftrightarrow>
     tran_list st' = tran_list st \<and> dbuf st' = dbuf st \<and> kdir st' = kdir st \<and>
     kfile_list st' = kfile_list st \<and> special_list st' = special_list st \<and>
     exclude_list st' = exclude_list st \<and> stdout st' = stdout st \<and>
     (\<exists>o'. outtran st' = outtran st @ o')"

lemma same_state_refl [simp]: "same_state st st"
  by (simp add: same_state_def)

lemma same_state_updates [simp]:
  "same_state st (st'\<lparr>hlinks := ds\<rparr>) = same_state st st'"
  "same_state st (st'\<lparr>prev_tran := p\<rparr>) = same_state st st'"
  "same_state st (st'\<lparr>fs_minus := m\<rparr>) = same_state st st'"
  by (simp_all add: same_state_def)

lemma same_state_out:
  "same_state st st' \<Longrightarrow> same_state st (st'\<lparr>outtran := outtran st' @ o'\<rparr>)"
  "same_state st st' \<Longrightarrow> same_state st (st'\<lparr>fs_minus := m, outtran := outtran st' @ o'\<rparr>)"
  by (auto simp: same_state_def)

lemma note_hardlink_same: "note_hardlink cfg fs st = Ret st' \<Longrightarrow> same_state st st'"
  by (auto dest: note_hardlink_keeps)

lemma print_tran_name_same: "same_state st st' \<Longrightarrow> same_state st (print_tran_name cfg t flag st')"
  using print_tran_name_keeps [of cfg t flag st'] by (auto simp: same_state_def)

lemma t_print_keeps:
  assumes "t_print cfg env fs t flag st = Ret (fs', t', st')"
  shows "same_state st st'" "t' = t \<or> (\<exists>p. t' = t\<lparr>t_pinfo := p\<rparr> \<and> same_obj (t_pinfo t) p)"
    "rel_option same_obj fs fs'"
proof -
  have "all_ret (\<lambda>(fs', t', st'). same_state st st' \<and>
      (t' = t \<or> (\<exists>p. t' = t\<lparr>t_pinfo := p\<rparr> \<and> same_obj (t_pinfo t) p)) \<and> rel_option same_obj fs fs')
    (t_print cfg env fs t flag st)"
    unfolding t_print_def Let_def
    by (intro all_ret_rules)
      (auto dest!: print_body_keeps note_hardlink_same
         intro: same_state_out print_tran_name_same option.rel_refl split: if_split_asm)
  then show "same_state st st'" "t' = t \<or> (\<exists>p. t' = t\<lparr>t_pinfo := p\<rparr> \<and> same_obj (t_pinfo t) p)"
    "rel_option same_obj fs fs'"
    using assms by (auto dest: all_retD)
qed

lemma t_print_same:
  "t_print cfg env fs t flag st = Ret (fs', t', st') \<Longrightarrow>
     same_state st st' \<and> (t' = t \<or> (\<exists>p. t' = t\<lparr>t_pinfo := p\<rparr> \<and> same_obj (t_pinfo t) p))"
  using t_print_keeps by blast

end
