(* ===== verification/TranscriptRun.thy ===== *)
theory TranscriptRun
  imports Transcript
begin

text \<open>
  \<open>transcript.c\<close>, second part: comparing an object with a transcript, choosing the transcript
  that comes next, the step for one object of the file system, and reading command files.
  A transcript is named by its place in \<open>tran_list\<close>, the list from \<open>tran_head\<close> on.
\<close>

section \<open>\<open>t_compare\<close>\<close>

definition owner_differs :: "pathinfo \<Rightarrow> pathinfo \<Rightarrow> bool" where
  "owner_differs f t \<longleftrightarrow>
     st_uid (pi_stat f) \<noteq> st_uid (pi_stat t) \<or> st_gid (pi_stat f) \<noteq> st_gid (pi_stat t) \<or>
     and T_MODE (st_mode (pi_stat f)) \<noteq> and T_MODE (st_mode (pi_stat t))"

text \<open>The part of \<open>t_compare\<close> for an object whose name and type match: what is printed.\<close>

definition compare_file :: "config \<Rightarrow> 'c env \<Rightarrow> pathinfo \<Rightarrow> tran \<Rightarrow> (pathinfo \<times> pr_flag option) outcome" where
  "compare_file cfg env f t =
     (let tp = t_pinfo t;
          times = (\<not> ignore_timestamps cfg \<and> st_mtime (pi_stat f) \<noteq> st_mtime (pi_stat tp));
          perms = (\<lambda>f. (f, if owner_differs f tp
                           then Some (if t_type t = T_NEGATIVE \<and> edit_path cfg = APPLICABLE
                                      then PR_STATUS_NEG else PR_STATUS)
                           else None))
      in if t_type t \<noteq> T_NEGATIVE then
           (if st_size (pi_stat f) \<noteq> st_size (pi_stat tp) then Ret (f, Some PR_DOWNLOAD)
            else if cksum cfg then
              obind (get_cksum env f) (\<lambda>f.
                if strcmp (pi_cksum_b64 f) (pi_cksum_b64 tp) \<noteq> 0 then Ret (f, Some PR_DOWNLOAD)
                else if times then Ret (f, Some PR_STATUS)
                else Ret (perms f))
            else if times then Ret (f, Some PR_DOWNLOAD)
            else Ret (perms f))
         else Ret (perms f))"

definition compare_same ::
  "config \<Rightarrow> 'c env \<Rightarrow> devlist \<Rightarrow> pathinfo \<Rightarrow> tran \<Rightarrow> (pathinfo \<times> pr_flag option) outcome" where
  "compare_same cfg env ds f t =
     (let tp = t_pinfo t; ty = pi_type f;
          dev_differs = (st_rdev (pi_stat f) \<noteq> st_rdev (pi_stat tp));
          status = (\<lambda>b. Ret (f, if b then Some PR_STATUS else None))
      in if ty = CHR ''a'' \<or> ty = CHR ''f'' then compare_file cfg env f t
         else if ty = CHR ''d'' \<or> ty = CHR ''D'' \<or> ty = CHR ''p'' \<or> ty = CHR ''s''
         then status (owner_differs f tp)
         else if ty = CHR ''l''
         then status (t_type t \<noteq> T_NEGATIVE \<and> strcmp (pi_link f) (pi_link tp) \<noteq> 0)
         else if ty = CHR ''h''
         then (if strcmp (pi_link f) (pi_link tp) \<noteq> 0 then status True
               else obind (hardlink_changed ds f False) (\<lambda>(b, _). status b))
         else if ty = CHR ''c''
         then status (if t_type t \<noteq> T_NEGATIVE then owner_differs f tp \<or> dev_differs else dev_differs)
         else if ty = CHR ''b'' then status (owner_differs f tp \<or> dev_differs)
         else status False)"

definition t_compare ::
  "config \<Rightarrow> 'c env \<Rightarrow> pathinfo option \<Rightarrow> tran \<Rightarrow> tstate \<Rightarrow>
    (move \<times> pathinfo option \<times> tran \<times> tstate) outcome" where
  "t_compare cfg env fs t st =
     (let cmp = (if t_eof t then -1
                 else (case fs of
                         None \<Rightarrow> 1
                       | Some f \<Rightarrow> pathcasecmp (pi_name f) (pi_name (t_pinfo t)) (case_sensitive cfg)))
      in if t_eof t \<and> fs = None then Ret (T_MOVE_FS, fs, t, st)
         else if 0 < cmp then
           obind (t_print cfg env fs t PR_TRAN_ONLY st) (\<lambda>r. Ret (T_MOVE_TRAN, r))
         else if cmp < 0 then
           obind (t_print cfg env fs t PR_FS_ONLY st) (\<lambda>r. Ret (T_MOVE_FS, r))
         else (case fs of
                 None \<Rightarrow> UB
               | Some f \<Rightarrow>
                   if pi_type f \<noteq> pi_type (t_pinfo t) then
                     obind (t_print cfg env fs t PR_DOWNLOAD st) (\<lambda>r. Ret (T_MOVE_BOTH, r))
                   else obind (compare_same cfg env (hlinks st) f t) (\<lambda>(f, flag).
                     (case flag of
                        None \<Rightarrow> Ret (T_MOVE_BOTH, Some f, t, st)
                      | Some flag \<Rightarrow>
                          obind (t_print cfg env (Some f) t flag st) (\<lambda>r. Ret (T_MOVE_BOTH, r))))))"

section \<open>\<open>transcript_select\<close>\<close>

fun t_exclude :: "config \<Rightarrow> string list \<Rightarrow> string \<Rightarrow> bool outcome" where
  "t_exclude cfg [] path = Ret False"
| "t_exclude cfg (w # ws) path =
     obind (wildcard w (Some path) (case_sensitive cfg)) (\<lambda>b.
       if b then Ret True else t_exclude cfg ws path)"

text \<open>\<open>begin_tran\<close> after the first loop, as an index.\<close>

definition begin_step :: "config \<Rightarrow> tran list \<Rightarrow> nat \<Rightarrow> nat \<Rightarrow> nat" where
  "begin_step cfg ts b n =
     (if t_eof (ts ! b) then n
      else if \<not> t_eof (ts ! n) \<and>
              pathcasecmp (pi_name (t_pinfo (ts ! n))) (pi_name (t_pinfo (ts ! b))) (case_sensitive cfg) < 0
      then n else b)"

definition select_begin :: "config \<Rightarrow> tran list \<Rightarrow> nat" where
  "select_begin cfg ts = foldl (begin_step cfg ts) 0 [1..<length ts]"

text \<open>The second loop, over the transcripts after \<open>begin_tran\<close>.\<close>

fun parse_matching :: "config \<Rightarrow> string \<Rightarrow> tran list \<Rightarrow> string \<Rightarrow> (tran list \<times> string) outcome" where
  "parse_matching cfg name [] buf = Ret ([], buf)"
| "parse_matching cfg name (t # ts) buf =
     obind (if pathcasecmp name (pi_name (t_pinfo t)) (case_sensitive cfg) = 0
            then transcript_parse cfg t buf else Ret (t, buf)) (\<lambda>(t, buf).
     obind (parse_matching cfg name ts buf) (\<lambda>(ts, buf). Ret (t # ts, buf)))"

definition advance_matching :: "config \<Rightarrow> nat \<Rightarrow> tstate \<Rightarrow> tstate outcome" where
  "advance_matching cfg b st =
     obind (parse_matching cfg (pi_name (t_pinfo (tran_list st ! b))) (drop (Suc b) (tran_list st)) (dbuf st))
       (\<lambda>(ts, buf). Ret (st\<lparr>tran_list := take (Suc b) (tran_list st) @ ts, dbuf := buf\<rparr>))"

text \<open>\<open>transcript_parse\<close> of the transcript at a place.\<close>

definition parse_at :: "config \<Rightarrow> nat \<Rightarrow> tstate \<Rightarrow> tstate outcome" where
  "parse_at cfg i st =
     obind (transcript_parse cfg (tran_list st ! i) (dbuf st))
       (\<lambda>(t, buf). Ret (st\<lparr>tran_list := (tran_list st)[i := t], dbuf := buf\<rparr>))"

definition warn_excluded :: "config \<Rightarrow> string \<Rightarrow> tstate \<Rightarrow> tstate" where
  "warn_excluded cfg path st =
     (if exclude_warnings cfg
      then st\<lparr>stdout := stdout st @ ''#! Warning: excluding '' @ path @ [NL]\<rparr> else st)"

text \<open>Whether the line the selected transcript is at is to be skipped, and for an exclude pattern.\<close>

datatype select_skip = Keep | Skip | SkipExcluded

definition select_test :: "config \<Rightarrow> tstate \<Rightarrow> tran \<Rightarrow> select_skip outcome" where
  "select_test cfg st t =
     (if t_eof t then Ret Keep
      else if pi_minus (t_pinfo t) then Ret Skip
      else obind (if t_type t \<noteq> T_SPECIAL then t_exclude cfg (exclude_list st) (pi_name (t_pinfo t))
                  else Ret False) (\<lambda>ex.
        if ex then Ret SkipExcluded
        else if \<not> ischildcase (pi_name (t_pinfo t)) (path_prefix cfg) (case_sensitive cfg) then Ret Skip
        else Ret Keep))"

text \<open>What is left to read in the transcripts.\<close>

definition tran_todo :: "tran \<Rightarrow> nat" where
  "tran_todo t = (case t_in t of None \<Rightarrow> 0 | Some s \<Rightarrow> length s) + (if t_eof t then 0 else 1)"

definition todo :: "tstate \<Rightarrow> nat" where
  "todo st = sum_list (map tran_todo (tran_list st))"

lemma read_words_rest:
  "read_words inp n = Ret (rest, m, av) \<Longrightarrow> length rest \<le> length inp \<and> (av \<noteq> None \<longrightarrow> length rest < length inp)"
proof (induction inp n rule: read_words.induct)
  case (1 inp n)
  show ?case
  proof (cases "fgets MAXPATHLEN inp")
    case None
    with "1.prems" show ?thesis by (simp add: read_words.simps)
  next
    case (Some p)
    obtain l r where p: "p = (l, r)" by force
    have r: "length r < length inp"
      using fgets_shrinks [of MAXPATHLEN inp l r] Some p by (simp add: MAXPATHLEN_def)
    obtain av' where av': "argcargv (cstr l) = Ret av'" using argcargv_defined by blast
    show ?thesis
    proof (cases "av' = [] \<or> char_at (hd av') 0 = CHR ''#''")
      case True
      with "1.prems" Some p av' have "cstr l \<noteq> []" "last (cstr l) = NL"
        "read_words r (Suc n) = Ret (rest, m, av)"
        by (auto simp: read_words.simps [of inp] Let_def split: if_splits)
      with "1.IH" [OF Some p [symmetric] refl _ _ av' True] r show ?thesis by simp
    next
      case False
      with "1.prems" Some p av' r show ?thesis
        by (auto simp: read_words.simps [of inp] Let_def split: if_splits)
    qed
  qed
qed

lemma parse_line_in:
  assumes "parse_line cfg t av buf = Ret (t', buf')"
  shows "t_in t' = t_in t" "t_eof t' = t_eof t"
  using assms
  by (auto simp: parse_line_def Let_def outcome_simps split: if_splits option.splits prod.splits)

lemma transcript_parse_todo:
  assumes "transcript_parse cfg t buf = Ret (t', buf')"
  shows "tran_todo t' \<le> tran_todo t" "\<not> t_eof t \<Longrightarrow> tran_todo t' < tran_todo t"
proof -
  from assms obtain inp where inp: "t_in t = Some inp"
    by (auto simp: transcript_parse_def split: option.splits)
  with assms obtain rest n av where
    r: "read_words inp (t_linenum t) = Ret (rest, n, av)" and
    t': "(case av of None \<Rightarrow> Ret (t\<lparr>t_in := Some rest, t_linenum := n, t_eof := True\<rparr>, buf)
      | Some av \<Rightarrow> parse_line cfg (t\<lparr>t_in := Some rest, t_linenum := n\<rparr>) av buf) = Ret (t', buf')"
    by (auto simp: transcript_parse_def outcome_simps Let_def)
  have "tran_todo t' \<le> tran_todo t \<and> (\<not> t_eof t \<longrightarrow> tran_todo t' < tran_todo t)"
  proof (cases av)
    case None
    with t' read_words_rest [OF r] inp show ?thesis by (auto simp: tran_todo_def)
  next
    case (Some w)
    with t' parse_line_in [of cfg "t\<lparr>t_in := Some rest, t_linenum := n\<rparr>" w buf t' buf']
      read_words_rest [OF r] inp show ?thesis by (auto simp: tran_todo_def)
  qed
  then show "tran_todo t' \<le> tran_todo t" "\<not> t_eof t \<Longrightarrow> tran_todo t' < tran_todo t" by auto
qed

lemma parse_matching_todo:
  "parse_matching cfg name ts buf = Ret (ts', buf') \<Longrightarrow>
     sum_list (map tran_todo ts') \<le> sum_list (map tran_todo ts) \<and> length ts' = length ts"
  by (induction ts arbitrary: ts' buf buf')
    (fastforce simp: outcome_simps dest: transcript_parse_todo(1) split: if_splits)+

lemma todo_update:
  assumes "i < length ts"
  shows "sum_list (map tran_todo (ts[i := t])) + tran_todo (ts ! i) =
    sum_list (map tran_todo ts) + tran_todo t"
  using assms by (induction ts arbitrary: i) (auto split: nat.splits)

lemma parse_at_todo:
  assumes "parse_at cfg i st = Ret st'" "i < length (tran_list st)"
  shows "todo st' \<le> todo st" "\<not> t_eof (tran_list st ! i) \<Longrightarrow> todo st' < todo st"
    "length (tran_list st') = length (tran_list st)"
proof -
  from assms obtain t buf where p: "transcript_parse cfg (tran_list st ! i) (dbuf st) = Ret (t, buf)"
    and st': "st' = st\<lparr>tran_list := (tran_list st)[i := t], dbuf := buf\<rparr>"
    by (auto simp: parse_at_def outcome_simps)
  note * = transcript_parse_todo [OF p] todo_update [OF assms(2), of t]
  show "todo st' \<le> todo st" using * by (simp add: todo_def st')
  show "todo st' < todo st" if "\<not> t_eof (tran_list st ! i)" using * that by (simp add: todo_def st')
  show "length (tran_list st') = length (tran_list st)" by (simp add: st')
qed

lemma advance_matching_todo:
  assumes "advance_matching cfg b st = Ret st'" "b < length (tran_list st)"
  shows "todo st' \<le> todo st" "length (tran_list st') = length (tran_list st)" "tran_list st' ! b = tran_list st ! b"
proof -
  from assms obtain ts buf where
    p: "parse_matching cfg (pi_name (t_pinfo (tran_list st ! b))) (drop (Suc b) (tran_list st)) (dbuf st) = Ret (ts, buf)"
    and st': "st' = st\<lparr>tran_list := take (Suc b) (tran_list st) @ ts, dbuf := buf\<rparr>"
    by (auto simp: advance_matching_def outcome_simps)
  from parse_matching_todo [OF p] have
    "sum_list (map tran_todo ts) \<le> sum_list (map tran_todo (drop (Suc b) (tran_list st)))" by simp
  moreover have "sum_list (map tran_todo (tran_list st)) =
      sum_list (map tran_todo (take (Suc b) (tran_list st))) + sum_list (map tran_todo (drop (Suc b) (tran_list st)))"
    by (metis append_take_drop_id map_append sum_list_append)
  ultimately show "todo st' \<le> todo st" by (simp add: todo_def st')
  show "length (tran_list st') = length (tran_list st)"
    using parse_matching_todo [OF p] assms(2) by (simp add: st')
  show "tran_list st' ! b = tran_list st ! b"
    using assms(2) by (simp add: st' nth_append)
qed

lemma select_begin_less: "ts \<noteq> [] \<Longrightarrow> select_begin cfg ts < length ts"
proof -
  have "\<forall>n \<in> set ns. n < length ts \<Longrightarrow> b < length ts \<Longrightarrow> foldl (begin_step cfg ts) b ns < length ts" for b ns
    by (induction ns arbitrary: b) (auto simp: begin_step_def)
  then show "ts \<noteq> [] \<Longrightarrow> ?thesis" by (simp add: select_begin_def)
qed

lemma select_test_skip:
  "select_test cfg st t = Ret Skip \<Longrightarrow> \<not> t_eof t" "select_test cfg st t = Ret SkipExcluded \<Longrightarrow> \<not> t_eof t"
  by (auto simp: select_test_def)

lemma warn_excluded_simps [simp]:
  "tran_list (warn_excluded cfg p st) = tran_list st" "todo (warn_excluded cfg p st) = todo st"
  "dbuf (warn_excluded cfg p st) = dbuf st" "exclude_list (warn_excluded cfg p st) = exclude_list st"
  "outtran (warn_excluded cfg p st) = outtran st"
  by (simp_all add: warn_excluded_def todo_def)

function transcript_select :: "config \<Rightarrow> tstate \<Rightarrow> (nat \<times> tstate) outcome" where
  "transcript_select cfg st =
     (if tran_list st = [] then UB
      else let b = select_begin cfg (tran_list st)
           in obind (advance_matching cfg b st) (\<lambda>st1.
              obind (select_test cfg st1 (tran_list st1 ! b)) (\<lambda>sk.
                case sk of
                  Keep \<Rightarrow> Ret (b, st1)
                | Skip \<Rightarrow> obind (parse_at cfg b st1) (transcript_select cfg)
                | SkipExcluded \<Rightarrow>
                    obind (parse_at cfg b (warn_excluded cfg (pi_name (t_pinfo (tran_list st1 ! b))) st1))
                      (transcript_select cfg))))"
  by pat_completeness auto

termination
proof (relation "measure (\<lambda>(_, st). todo st)")
  fix cfg st b st1 sk st2
  assume ne: "tran_list st \<noteq> []" and b: "b = select_begin cfg (tran_list st)"
    and a: "advance_matching cfg b st = Ret st1"
    and t: "select_test cfg st1 (tran_list st1 ! b) = Ret sk"
  have bl: "b < length (tran_list st)" using select_begin_less [OF ne] b by simp
  note * = advance_matching_todo [OF a bl]
  { assume "sk = Skip" "parse_at cfg b st1 = Ret st2"
    with t parse_at_todo(2) [of cfg b st1 st2] select_test_skip(1) * bl
    show "((cfg, st2), cfg, st) \<in> measure (\<lambda>(_, st). todo st)" by force }
  { assume "sk = SkipExcluded"
      "parse_at cfg b (warn_excluded cfg (pi_name (t_pinfo (tran_list st1 ! b))) st1) = Ret st2"
    with t parse_at_todo(2) [of cfg b "warn_excluded cfg (pi_name (t_pinfo (tran_list st1 ! b))) st1" st2]
      select_test_skip(2) * bl
    show "((cfg, st2), cfg, st) \<in> measure (\<lambda>(_, st). todo st)" by force }
qed simp

declare transcript_select.simps [simp del]

lemma transcript_select_less:
  "transcript_select cfg st = Ret (b, st') \<Longrightarrow>
     b < length (tran_list st') \<and> length (tran_list st') = length (tran_list st) \<and> todo st' \<le> todo st"
proof (induction cfg st rule: transcript_select.induct)
  case (1 cfg st)
  from "1.prems" have ne: "tran_list st \<noteq> []" by (auto simp: transcript_select.simps [of cfg st])
  define b0 where "b0 = select_begin cfg (tran_list st)"
  from "1.prems" ne obtain st1 sk where a: "advance_matching cfg b0 st = Ret st1" and
    t: "select_test cfg st1 (tran_list st1 ! b0) = Ret sk"
    by (auto simp: transcript_select.simps [of cfg st] Let_def b0_def obind_Ret_iff)
  have bl: "b0 < length (tran_list st)" using select_begin_less [OF ne] by (simp add: b0_def)
  note * = advance_matching_todo [OF a bl]
  show ?case
  proof (cases sk)
    case Keep
    with "1.prems" ne a t * bl show ?thesis
      by (auto simp: transcript_select.simps [of cfg st] Let_def b0_def)
  next
    case Skip
    with "1.prems" ne a t obtain st2 where st2: "parse_at cfg b0 st1 = Ret st2"
      "transcript_select cfg st2 = Ret (b, st')"
      by (auto simp: transcript_select.simps [of cfg st] Let_def b0_def obind_Ret_iff)
    with parse_at_todo [OF st2(1)] "1.IH" (1) [OF ne b0_def a t Skip st2(1,2)] * bl show ?thesis by simp
  next
    case SkipExcluded
    with "1.prems" ne a t obtain st2 where st2:
      "parse_at cfg b0 (warn_excluded cfg (pi_name (t_pinfo (tran_list st1 ! b0))) st1) = Ret st2"
      "transcript_select cfg st2 = Ret (b, st')"
      by (auto simp: transcript_select.simps [of cfg st] Let_def b0_def obind_Ret_iff)
    with parse_at_todo [OF st2(1)] "1.IH" (2) [OF ne b0_def a t SkipExcluded st2(1,2)] * bl
    show ?thesis by simp
  qed
qed

section \<open>\<open>transcript\<close>\<close>

lemma t_compare_keeps:
  assumes "t_compare cfg env fs t st = Ret (mv, fs', t', st')"
  shows "same_state st st'" "t' = t \<or> (\<exists>p. t' = t\<lparr>t_pinfo := p\<rparr> \<and> same_obj (t_pinfo t) p)"
    "mv = T_MOVE_TRAN \<Longrightarrow> \<not> t_eof t"
proof -
  have "all_ret (\<lambda>(mv, fs', t', st'). same_state st st' \<and>
      (t' = t \<or> (\<exists>p. t' = t\<lparr>t_pinfo := p\<rparr> \<and> same_obj (t_pinfo t) p)) \<and>
      (mv = T_MOVE_TRAN \<longrightarrow> \<not> t_eof t))
    (t_compare cfg env fs t st)"
    unfolding t_compare_def Let_def
    by (intro all_ret_rules) (auto dest!: t_print_same split: if_split_asm)
  then show "same_state st st'" "t' = t \<or> (\<exists>p. t' = t\<lparr>t_pinfo := p\<rparr> \<and> same_obj (t_pinfo t) p)"
    "mv = T_MOVE_TRAN \<Longrightarrow> \<not> t_eof t"
    using assms by (auto dest: all_retD)
qed

text \<open>
  The main loop: transcripts are consumed up to the object \<open>fs\<close>. The result is what the caller
  is told: 0 not to enter, 1 a directory to enter, 2 a directory of a negative transcript.
\<close>

function transcript_loop ::
  "config \<Rightarrow> 'c env \<Rightarrow> pathinfo option \<Rightarrow> int \<Rightarrow> tstate \<Rightarrow> (int \<times> tstate) outcome" where
  "transcript_loop cfg env fs enter st =
     obind (transcript_select cfg st) (\<lambda>(b, st).
     obind (t_compare cfg env fs (tran_list st ! b) st) (\<lambda>(mv, fs, t, st).
       let st = st\<lparr>tran_list := (tran_list st)[b := t]\<rparr> in
       case mv of
         T_MOVE_FS \<Rightarrow> Ret (enter, st)
       | T_MOVE_BOTH \<Rightarrow>
           obind (parse_at cfg b st) (\<lambda>st.
             Ret (if t_type t = T_NEGATIVE \<and> pi_type (t_pinfo t) = CHR ''d'' then 2 else enter, st))
       | T_MOVE_TRAN \<Rightarrow> obind (parse_at cfg b st) (transcript_loop cfg env fs enter)))"
  by pat_completeness auto

termination
proof (relation "measure (\<lambda>(_, _, _, _, st). todo st)")
  fix cfg :: config and env :: "'c env" and fs enter st x b st1 y mv z fs' u t st2 st3 st4
  assume s: "transcript_select cfg st = Ret x" "(b, st1) = x"
    and c: "t_compare cfg env fs (tran_list st1 ! b) st1 = Ret y" "(mv, z) = y" "(fs', u) = z" "(t, st2) = u"
    and st3: "st3 = st2\<lparr>tran_list := (tran_list st2)[b := t]\<rparr>"
    and mv: "mv = T_MOVE_TRAN" and p: "parse_at cfg b st3 = Ret st4"
  from s have s': "transcript_select cfg st = Ret (b, st1)" by simp
  from c have c': "t_compare cfg env fs (tran_list st1 ! b) st1 = Ret (mv, fs', t, st2)" by simp
  note * = transcript_select_less [OF s'] t_compare_keeps [OF c']
  have tt: "tran_todo t = tran_todo (tran_list st1 ! b)" "t_eof t = t_eof (tran_list st1 ! b)"
    using *(3) by (auto simp: tran_todo_def)
  have bl: "b < length (tran_list st3)" "tran_list st3 ! b = t"
    using * by (auto simp: st3 same_state_def)
  have "todo st3 = todo st1"
    using todo_update [of b "tran_list st1" t] * tt by (simp add: todo_def st3 same_state_def)
  moreover have "todo st4 < todo st3"
    using parse_at_todo(2) [OF p bl(1)] bl(2) tt(2) *(4) mv by simp
  ultimately show "((cfg, env, fs', enter, st4), cfg, env, fs, enter, st)
      \<in> measure (\<lambda>(_, _, _, _, st). todo st)"
    using * by simp
qed simp

declare transcript_loop.simps [simp del]

text \<open>
  The object as \<open>transcript\<close> sees it. \<open>pi_link\<close> is set for links of both kinds only, and read
  only for these. A failing \<open>readlink\<close> makes the code write before \<open>epath\<close>, and a target of
  \<open>MAXPATHLEN\<close> characters behind it.
\<close>

definition make_pathinfo ::
  "'c env \<Rightarrow> string \<Rightarrow> stat \<Rightarrow> char \<Rightarrow> byte list \<Rightarrow> tstate \<Rightarrow> (pathinfo \<times> tstate) outcome" where
  "make_pathinfo env path s ty ai st =
     (let p = \<lparr>pi_type = ty, pi_minus = False, pi_name = path, pi_link = [], pi_stat = s,
               pi_cksum_b64 = ''-'', pi_ai_data = ai\<rparr>;
          (linkpath, ds) = (if \<not> S_ISDIR (st_mode s) \<and> 1 < st_nlink s then hardlink (hlinks st) p
                            else (None, hlinks st));
          st = st\<lparr>hlinks := ds\<rparr>
      in case linkpath of
           Some l \<Rightarrow> Ret (p\<lparr>pi_type := CHR ''h'', pi_link := l\<rparr>, st)
         | None \<Rightarrow>
             if S_ISLNK (st_mode s)
             then (case e_readlink env path of
                     None \<Rightarrow> UB
                   | Some l \<Rightarrow> if MAXPATHLEN \<le> length l then UB else Ret (p\<lparr>pi_link := cstr l\<rparr>, st))
             else Ret (p, st))"

definition transcript ::
  "config \<Rightarrow> 'c env \<Rightarrow> (string \<times> stat \<times> char \<times> byte list) option \<Rightarrow> bool \<Rightarrow> tstate \<Rightarrow>
    (int \<times> tstate) outcome" where
  "transcript cfg env obj parent_minus st =
     (let st = st\<lparr>fs_minus := False\<rparr> in
      case obj of
        None \<Rightarrow> transcript_loop cfg env None 0 st
      | Some (path, s, ty, ai) \<Rightarrow>
          obind (t_exclude cfg (exclude_list st) path) (\<lambda>ex.
            if ex \<and> \<not> parent_minus \<and> \<not> names_check (special_list st) path
            then obind (transcript_select cfg (warn_excluded cfg path st)) (\<lambda>(_, st). Ret (0, st))
            else obind (make_pathinfo env path s ty ai st) (\<lambda>(p, st).
                   transcript_loop cfg env (Some p) (if S_ISDIR (st_mode s) then 1 else 0) st)))"

section \<open>Opening transcripts and reading command files\<close>

definition new_tran :: "ttype \<Rightarrow> string \<Rightarrow> string \<Rightarrow> string \<Rightarrow> string option \<Rightarrow> tran" where
  "new_tran type fullname shortname kfile inp =
     \<lparr>t_pinfo = pathinfo0, t_type = type, t_num = 0, t_fullname = fullname, t_shortname = shortname,
      t_kfile = kfile, t_linenum = 0, t_eof = (type = T_NULL), t_in = inp\<rparr>"

definition link_tran :: "tran \<Rightarrow> tstate \<Rightarrow> tstate" where
  "link_tran t st =
     (let t = (case tran_list st of [] \<Rightarrow> t | h # _ \<Rightarrow> t\<lparr>t_num := t_num h + 1\<rparr>)
      in st\<lparr>tran_list := t # tran_list st\<rparr>)"

definition t_new ::
  "config \<Rightarrow> 'c env \<Rightarrow> ttype \<Rightarrow> string \<Rightarrow> string \<Rightarrow> string \<Rightarrow> tstate \<Rightarrow> tstate outcome" where
  "t_new cfg env type fullname shortname kfile st =
     (if type = T_NULL then Ret (link_tran (new_tran T_NULL [] [] [] None) st)
      else (case e_text env fullname of
              None \<Rightarrow> Exit 2
            | Some inp \<Rightarrow>
                obind (transcript_parse cfg (new_tran type fullname shortname kfile (Some inp)) (dbuf st))
                  (\<lambda>(t, buf). Ret (link_tran t (st\<lparr>dbuf := buf\<rparr>)))))"

text \<open>The list always ends with the null transcript.\<close>

fun t_remove :: "ttype \<Rightarrow> string \<Rightarrow> tran list \<Rightarrow> tran list outcome" where
  "t_remove type shortname [] = UB"
| "t_remove type shortname (t # ts) =
     (if t_type t = T_NULL then Ret (t # ts)
      else obind (t_remove type shortname ts) (\<lambda>ts'.
        Ret (if t_type t = type \<and> strcmp (t_shortname t) shortname = 0 then ts' else t # ts')))"

definition t_display_line :: "tran \<Rightarrow> string" where
  "t_display_line t =
     print_int (int (t_num t)) @ '': '' @
     (case t_type t of
        T_POSITIVE \<Rightarrow> ''p '' @ t_shortname t
      | T_NEGATIVE \<Rightarrow> ''n '' @ t_shortname t
      | T_SPECIAL \<Rightarrow> ''s '' @ t_shortname t
      | T_NULL \<Rightarrow> ''NULL'') @ [NL]"

definition t_display :: "tstate \<Rightarrow> tstate" where
  "t_display st = st\<lparr>stdout := stdout st @ concat (map t_display_line (tran_list st))\<rparr>"

text \<open>
  One line of a command file. The result is \<open>-1\<close> when \<open>read_kfile\<close> returns at this line, \<open>0\<close> when it goes
  on; \<open>rec\<close> is \<open>read_kfile\<close> for an included file.
\<close>

definition kfile_path :: "config \<Rightarrow> location \<Rightarrow> string \<Rightarrow> string list \<Rightarrow> string option" where
  "kfile_path cfg loc dir av =
     (case loc of
        K_CLIENT \<Rightarrow> snprintf MAXPATHLEN (dir @ av ! 1)
      | K_SERVER \<Rightarrow>
          snprintf MAXPATHLEN
            (radmind_path cfg @ [SLASH] @
             (if char_at (av ! 0) 0 = CHR ''k'' then ''command'' else ''transcript'') @ [SLASH] @ av ! 1))"

definition kfile_exclude :: "config \<Rightarrow> bool \<Rightarrow> string \<Rightarrow> tstate \<Rightarrow> (int \<times> tstate) outcome" where
  "kfile_exclude cfg dash pat st =
     obind (decode pat (dbuf st)) (\<lambda>(d_pattern, buf).
     let st = st\<lparr>dbuf := buf\<rparr> in
     case d_pattern of
       None \<Rightarrow> UB
     | Some d_pattern \<Rightarrow>
         (case convert_path_type cfg d_pattern of
            None \<Rightarrow> Exit 2
          | Some d_pattern \<Rightarrow>
              if dash then obind (names_remove (exclude_list st) d_pattern)
                (\<lambda>ns. Ret (0, st\<lparr>exclude_list := ns\<rparr>))
              else if names_check (exclude_list st) d_pattern then Ret (0, st)
              else obind (names_insert (exclude_list st) d_pattern)
                (\<lambda>(n, ns). Ret (n, st\<lparr>exclude_list := ns\<rparr>))))"

definition kfile_special :: "config \<Rightarrow> bool \<Rightarrow> string \<Rightarrow> tstate \<Rightarrow> (int \<times> tstate) outcome" where
  "kfile_special cfg dash path st =
     (case convert_path_type cfg path of
        None \<Rightarrow> Exit 2
      | Some path \<Rightarrow>
          if dash then
            (if names_check (special_list st) path
             then obind (names_remove (special_list st) path) (\<lambda>ns. Ret (0, st\<lparr>special_list := ns\<rparr>))
             else Ret (0, st))
          else if names_check (special_list st) path then Ret (0, st)
          else obind (names_insert (special_list st) path)
            (\<lambda>(n, ns). Ret (n, st\<lparr>special_list := ns\<rparr>)))"

definition kfile_line ::
  "config \<Rightarrow> 'c env \<Rightarrow> location \<Rightarrow> (string \<Rightarrow> tstate \<Rightarrow> (int \<times> tstate) outcome) \<Rightarrow> string \<Rightarrow>
    string list \<Rightarrow> tstate \<Rightarrow> (int \<times> tstate) outcome" where
  "kfile_line cfg env loc rec kfile av st =
     (let dash = (char_at (av ! 0) 0 = CHR ''-'');
          av = (if dash then tl av else av)
      in if length av \<noteq> 2 then Ret (-1, st)
         else (case kfile_path cfg loc (kdir st) av of
                 None \<Rightarrow> Ret (-1, st)
               | Some fullpath \<Rightarrow>
                   let ty = char_at (av ! 0) 0 in
                   if ty = CHR ''k'' then
                     (if dash then Ret (-1, st)
                      else if names_check (kfile_list st) fullpath then Ret (-1, st)
                      else obind (names_insert (kfile_list st) fullpath) (\<lambda>(n, ns).
                        if n \<noteq> 0 then Ret (-1, st)
                        else obind (rec fullpath (st\<lparr>kfile_list := ns\<rparr>)) (\<lambda>(n, st).
                          Ret (if n \<noteq> 0 then -1 else 0, st))))
                   else if ty = CHR ''n'' then
                     (if and (skip cfg) T_SKIP_NEGATIVE \<noteq> 0 then Ret (0, st)
                      else if dash then obind (t_remove T_NEGATIVE (av ! 1) (tran_list st))
                        (\<lambda>ts. Ret (0, st\<lparr>tran_list := ts\<rparr>))
                      else obind (t_new cfg env T_NEGATIVE fullpath (av ! 1) kfile st) (\<lambda>st. Ret (0, st)))
                   else if ty = CHR ''p'' then
                     (if and (skip cfg) T_SKIP_POSITIVE \<noteq> 0 then Ret (0, st)
                      else if dash then obind (t_remove T_POSITIVE (av ! 1) (tran_list st))
                        (\<lambda>ts. Ret (0, st\<lparr>tran_list := ts\<rparr>))
                      else obind (t_new cfg env T_POSITIVE fullpath (av ! 1) kfile st) (\<lambda>st. Ret (0, st)))
                   else if ty = CHR ''x'' then
                     (if and (skip cfg) T_SKIP_EXCLUDES \<noteq> 0 then Ret (0, st)
                      else kfile_exclude cfg dash (av ! 1) st)
                   else if ty = CHR ''s'' then
                     (if and (skip cfg) T_SKIP_SPECIAL \<noteq> 0 then Ret (0, st)
                      else kfile_special cfg dash (av ! 1) st)
                   else Ret (-1, st)))"

text \<open>The lines of a command file, over what \<open>fgets\<close> has still to read.\<close>

function kfile_lines ::
  "config \<Rightarrow> 'c env \<Rightarrow> location \<Rightarrow> (string \<Rightarrow> tstate \<Rightarrow> (int \<times> tstate) outcome) \<Rightarrow> string \<Rightarrow>
    string \<Rightarrow> tstate \<Rightarrow> (int \<times> tstate) outcome" where
  "kfile_lines cfg env loc rec kfile inp st =
     (case fgets MAXPATHLEN inp of
        None \<Rightarrow> Ret (0, st)
      | Some (buf, rest) \<Rightarrow>
          let line = cstr buf in
          if line = [] then UB
          else if last line \<noteq> NL then Ret (-1, st)
          else obind (argcargv line) (\<lambda>av.
            if av = [] \<or> char_at (hd av) 0 = CHR ''#'' then kfile_lines cfg env loc rec kfile rest st
            else obind (kfile_line cfg env loc rec kfile av st) (\<lambda>(n, st).
              if n \<noteq> 0 then Ret (-1, st) else kfile_lines cfg env loc rec kfile rest st)))"
  by pat_completeness auto

termination
  by (relation "measure (\<lambda>(_, _, _, _, _, inp, _). length inp)")
    (auto dest!: fgets_shrinks simp: MAXPATHLEN_def)

declare kfile_lines.simps [simp del]

text \<open>
  Files include files; the recursion of the code has no bound of its own, and the model's
  depth bound stands for the end of the stack.
\<close>

primrec read_kfile ::
  "nat \<Rightarrow> config \<Rightarrow> 'c env \<Rightarrow> location \<Rightarrow> string \<Rightarrow> tstate \<Rightarrow> (int \<times> tstate) outcome" where
  "read_kfile 0 cfg env loc kfile st = UB"
| "read_kfile (Suc n) cfg env loc kfile st =
     (case e_text env kfile of
        None \<Rightarrow> Ret (-1, st)
      | Some inp \<Rightarrow> kfile_lines cfg env loc (read_kfile n cfg env loc) kfile inp st)"

definition tstate0 :: tstate where
  "tstate0 = \<lparr>tran_list = [], prev_tran = None, fs_minus = False, hlinks = [], dbuf = decode_buf0,
     kdir = [], kfile_list = [], special_list = [], exclude_list = [], outtran = [], stdout = []\<rparr>"

definition dir_of :: "string \<Rightarrow> string" where
  "dir_of kfile = (case strrchr kfile SLASH of None \<Rightarrow> ''./'' | Some (pre, _) \<Rightarrow> pre @ [SLASH])"

definition transcript_init ::
  "nat \<Rightarrow> config \<Rightarrow> 'c env \<Rightarrow> string \<Rightarrow> location \<Rightarrow> tstate \<Rightarrow> tstate outcome" where
  "transcript_init depth cfg env kfile loc st =
     obind (t_new cfg env T_NULL [] [] [] st) (\<lambda>st.
     if skip cfg = T_SKIP_ALL then Ret st
     else let st = st\<lparr>kdir := dir_of kfile, kfile_list := [], special_list := [], exclude_list := []\<rparr>
       in obind (names_insert (kfile_list st) kfile) (\<lambda>(n, ns).
       if n \<noteq> 0 then Exit 2
       else obind (read_kfile depth cfg env loc kfile (st\<lparr>kfile_list := ns\<rparr>)) (\<lambda>(n, st).
       if n \<noteq> 0 then Exit 2
       else obind
         (if and (skip cfg) T_SKIP_SPECIAL = 0 \<and> special_list st \<noteq> [] \<and> loc = K_CLIENT
          then (if MAXPATHLEN < length (kdir st) + length ''special.T'' + 2 then Exit 2
                else t_new cfg env T_SPECIAL (kdir st @ ''special.T'') ''special.T'' ''special'' st)
          else Ret st) (\<lambda>st.
         if t_type (hd (tran_list st)) = T_NULL \<and> edit_path cfg = APPLICABLE then Exit 2
         else Ret st))))"

text \<open>At the end of the file system the rest of the transcripts is consumed, then they are freed.\<close>

definition transcript_free :: "config \<Rightarrow> 'c env \<Rightarrow> tstate \<Rightarrow> tstate outcome" where
  "transcript_free cfg env st =
     obind (transcript cfg env None False st) (\<lambda>(_, st). Ret (st\<lparr>tran_list := []\<rparr>))"

end
