(* ===== verification/TranscriptText.thy ===== *)
theory TranscriptText
  imports TranscriptRun
begin

text \<open>
  The text of a transcript: what \<open>t_print\<close> writes for the objects of the file system is read back by
  \<open>transcript_parse\<close>, line by line, and whatever \<open>transcript_parse\<close> accepts is in strictly
  ascending order.
\<close>

section \<open>A line as words\<close>

lemma enc_name_short: "length s < MAXPATHLEN \<Longrightarrow>
    enc_name cfg s = Ret (Some (encode_text (transcript_shell_escapes cfg) s))"
  by (simp add: enc_name_def encode_def encode_space_def encode_internal_short)

interpretation name_codec: codec "enc_name cfg" for cfg
proof
  fix s :: string
  assume "c_string s" "length s < MAXPATHLEN"
  then show "\<exists>e. enc_name cfg s = Ret (Some e) \<and> c_string e \<and> well_escaped e \<and> unescaped e = s"
    by (simp add: enc_name_short c_string_encode_text well_escaped_encode_text unescaped_encode_text)
qed

text \<open>A printed number, padded on the left.\<close>

definition num_word :: "nat \<Rightarrow> int \<Rightarrow> string \<times> string" where
  "num_word w i = (SP # replicate (w - length (print_int i)) SP, print_int i)"

definition mode_text :: "pathinfo \<Rightarrow> string" where
  "mode_text p = zero_pad 4 (print_oct (unat (and T_MODE (st_mode (pi_stat p)))))"

definition line_words :: "bool \<Rightarrow> pathinfo \<Rightarrow> (string \<times> string) list" where
  "line_words sh p =
     (let ty = pi_type p; e = encode_text sh (pi_name p); s = pi_stat p;
          gap = replicate (37 - length e) SP @ [TAB];
          owner = [(gap, mode_text p), num_word 5 (sint (st_uid s)), num_word 5 (sint (st_gid s))]
      in [([], [ty]), ([SP], e)] @
         (if ty = CHR ''h'' then [(gap, encode_text sh (pi_link p))]
          else if ty = CHR ''l'' then owner @ [([SP], encode_text sh (pi_link p))]
          else if ty = CHR ''a'' \<or> ty = CHR ''f''
          then owner @ [num_word 9 (st_mtime s), num_word 7 (st_size s), ([SP], pi_cksum_b64 p)]
          else if ty = CHR ''c'' \<or> ty = CHR ''b''
          then owner @ [num_word 5 (sint (fst (st_rdev s))), num_word 5 (sint (snd (st_rdev s)))]
          else owner))"

definition line_text :: "bool \<Rightarrow> pathinfo \<Rightarrow> string" where
  "line_text sh p = layout (line_words sh p) [NL]"

text \<open>An object whose line can be written and read.\<close>

definition name_ok :: "config \<Rightarrow> string \<Rightarrow> bool" where
  "name_ok cfg n \<longleftrightarrow>
     n \<noteq> [] \<and> c_string n \<and> length n < MAXPATHLEN \<and> convert_path_type cfg n = Some n"

definition obj_ok :: "config \<Rightarrow> pathinfo \<Rightarrow> bool" where
  "obj_ok cfg p \<longleftrightarrow>
     pi_type p \<in> set ''dpDsbclhaf'' \<and> name_ok cfg (pi_name p) \<and>
     (pi_type p = CHR ''h'' \<longrightarrow> name_ok cfg (pi_link p)) \<and>
     (pi_type p = CHR ''l'' \<longrightarrow> pi_link p \<noteq> [] \<and> c_string (pi_link p) \<and> length (pi_link p) < MAXPATHLEN) \<and>
     (pi_type p \<in> set ''af'' \<longrightarrow>
        - (2 ^ 63) \<le> st_mtime (pi_stat p) \<and> st_mtime (pi_stat p) < 2 ^ 63 \<and>
        - (2 ^ 63) \<le> st_size (pi_stat p) \<and> st_size (pi_stat p) < 2 ^ 63 \<and>
        pi_cksum_b64 p \<noteq> [] \<and> list_all plain_char (pi_cksum_b64 p) \<and>
        (cksum cfg \<longrightarrow> hd (pi_cksum_b64 p) \<noteq> CHR ''-'')) \<and>
     length (line_text (transcript_shell_escapes cfg) p) < MAXPATHLEN"

text \<open>What a line says of an object.\<close>

definition line_eq :: "pathinfo \<Rightarrow> pathinfo \<Rightarrow> bool" where
  "line_eq p q \<longleftrightarrow>
     pi_type q = pi_type p \<and> \<not> pi_minus q \<and> pi_name q = pi_name p \<and>
     (pi_type p \<noteq> CHR ''h'' \<longrightarrow>
        st_mode (pi_stat q) = and T_MODE (st_mode (pi_stat p)) \<and>
        st_uid (pi_stat q) = st_uid (pi_stat p) \<and> st_gid (pi_stat q) = st_gid (pi_stat p)) \<and>
     (pi_type p \<in> set ''lh'' \<longrightarrow> pi_link q = pi_link p) \<and>
     (pi_type p \<in> set ''af'' \<longrightarrow>
        st_mtime (pi_stat q) = st_mtime (pi_stat p) \<and> st_size (pi_stat q) = st_size (pi_stat p) \<and>
        pi_cksum_b64 q = pi_cksum_b64 p) \<and>
     (pi_type p \<in> set ''bc'' \<longrightarrow> st_rdev (pi_stat q) = st_rdev (pi_stat p))"

lemma layout_Nil: "layout [] tr = tr"
  by (simp add: layout_def)

lemma print_body_words:
  assumes "obj_ok cfg p"
  shows "print_body cfg env p fs PR_FS_ONLY False (encode_text (transcript_shell_escapes cfg) (pi_name p)) =
    Ret (p, line_text (transcript_shell_escapes cfg) p)"
proof -
  have owner: "fmt_owner p = mode_text p @ fst (num_word 5 (sint (st_uid (pi_stat p)))) @
      print_int (sint (st_uid (pi_stat p))) @ fst (num_word 5 (sint (st_gid (pi_stat p)))) @
      print_int (sint (st_gid (pi_stat p)))"
    by (simp add: fmt_owner_def mode_text_def pad_left_def num_word_def)
  note simps = print_body_def print_file_def line_text_def line_words_def layout_Cons layout_Nil Let_def
    num_word_def fmt_head_def pad_right_def pad_left_def owner
  from assms consider "pi_type p \<in> set ''dpDs''" | "pi_type p \<in> set ''bc''" | "pi_type p = CHR ''l''"
    | "pi_type p = CHR ''h''" | "pi_type p \<in> set ''af''"
    by (auto simp: obj_ok_def)
  then show ?thesis
  proof cases
    case 1
    then show ?thesis by (simp, elim disjE) (simp_all add: simps) 
  next
    case 2
    then show ?thesis by (simp, elim disjE) (simp_all add: simps)
  next
    case 3
    then show ?thesis using assms by (simp add: simps obj_ok_def enc_name_short)
  next
    case 4
    then show ?thesis using assms by (simp add: simps obj_ok_def name_ok_def enc_name_short)
  next
    case 5
    with assms have "cksum cfg \<Longrightarrow> char_at (pi_cksum_b64 p) 0 \<noteq> CHR ''-''"
      by (cases "pi_cksum_b64 p") (auto simp: obj_ok_def char_at_def)
    moreover from 5 have "pi_type p = CHR ''a'' \<or> pi_type p = CHR ''f''" by simp
    ultimately show ?thesis
      by (elim disjE; cases "cksum cfg"; simp add: simps)
  qed
qed

text \<open>What \<open>fsdiff\<close> prints for an object of the file system that no transcript has.\<close>

lemma t_print_line:
  assumes "obj_ok cfg p" "edit_path cfg = CREATABLE"
  shows "t_print cfg env (Some p) t PR_FS_ONLY st =
    Ret (Some p, t, st\<lparr>outtran := outtran st @ line_text (transcript_shell_escapes cfg) p\<rparr>)"
proof -
  from assms have "pi_type p \<noteq> CHR ''X''" "length (pi_name p) < MAXPATHLEN"
    by (auto simp: obj_ok_def name_ok_def)
  with assms print_body_words [OF assms(1), of env "Some p"] show ?thesis
    by (simp add: t_print_def note_hardlink_def print_tran_name_def pick_cur_def enc_name_short)
qed

section \<open>Reading a line back\<close>

lemma mode_text_read: "word_of_int (strtol 8 (mode_text p)) = and T_MODE (st_mode (pi_stat p))"
proof -
  have "unat (and T_MODE (st_mode (pi_stat p))) < 2 ^ 32"
    using unsigned_less [of "and T_MODE (st_mode (pi_stat p))"] by simp
  then show ?thesis by (simp add: mode_text_def strtol_zero_pad_oct)
qed

lemma mode_text_ok: "arg_ok (mode_text p)" "mode_text p \<noteq> []"
  by (simp_all add: mode_text_def arg_ok_plain plain_zero_pad_oct)

lemma layout_ok_num: "layout_ok iw (num_word w i # ws) tr \<longleftrightarrow> layout_ok True ws tr"
  by (simp add: num_word_def layout_ok_Cons arg_ok_plain plain_print_int)

lemma layout_ok_Nil: "layout_ok iw [] tr \<longleftrightarrow> blank tr"
  by (simp add: layout_ok_def)

lemma line_layout_ok:
  assumes "obj_ok cfg p"
  shows "layout_ok False (line_words (transcript_shell_escapes cfg) p) [NL]"
proof -
  let ?sh = "transcript_shell_escapes cfg"
  have nm: "arg_ok (encode_text ?sh (pi_name p))" "pi_name p \<noteq> []"
    using assms by (simp_all add: obj_ok_def name_ok_def arg_ok_encode_text)
  note simps = line_words_def Let_def layout_ok_Cons layout_ok_Nil layout_ok_num mode_text_ok nm
  from assms consider "pi_type p \<in> set ''dpDs''" | "pi_type p \<in> set ''bc''"
    | "pi_type p \<in> set ''lh''" "arg_ok (encode_text ?sh (pi_link p))" "pi_link p \<noteq> []"
    | "pi_type p \<in> set ''af''" "arg_ok (pi_cksum_b64 p)" "pi_cksum_b64 p \<noteq> []"
    by (auto simp: obj_ok_def name_ok_def arg_ok_encode_text arg_ok_plain)
  then show ?thesis
    by cases (simp, elim disjE; simp add: simps)+
qed

lemma line_no_NL:
  assumes "layout_ok iw ws [NL]" "\<forall>(w, a) \<in> set ws. NL \<notin> set w"
  shows "\<exists>l. layout ws [NL] = l @ [NL] \<and> NL \<notin> set l \<and> c_string l"
proof -
  have "NL \<notin> set a \<and> c_string a" if "arg_ok a" for a
    using that by (induction a rule: arg_ok_induct) auto
  moreover have "c_string w" if "blank w" for w
    using that by (auto simp: blank_def c_string_def)
  ultimately have "NL \<notin> set (layout ws []) \<and> c_string (layout ws [])"
    using assms by (fastforce simp: layout_ok_def layout_def c_string_def)
  then show ?thesis by (intro exI [of _ "layout ws []"]) (simp add: layout_def)
qed

lemma read_words_line:
  assumes "obj_ok cfg p"
  defines "ws \<equiv> line_words (transcript_shell_escapes cfg) p"
  shows "read_words (line_text (transcript_shell_escapes cfg) p @ rest) n = Ret (rest, Suc n, Some (map snd ws))"
proof -
  have lok: "layout_ok False ws [NL]" using line_layout_ok [OF assms(1)] by (simp add: ws_def)
  have "\<forall>(w, a) \<in> set ws. NL \<notin> set w"
    by (auto simp: ws_def line_words_def Let_def num_word_def)
  from line_no_NL [OF lok this] obtain l where
    l: "layout ws [NL] = l @ [NL]" "NL \<notin> set l" "c_string l" by blast
  then have lt: "line_text (transcript_shell_escapes cfg) p = l @ [NL]" by (simp add: line_text_def ws_def)
  have "length (l @ [NL]) < MAXPATHLEN" using assms(1) unfolding lt [symmetric] by (simp add: obj_ok_def)
  then have "fgets MAXPATHLEN (l @ NL # rest) = Some (l @ [NL], rest)"
    by (intro fgets_line) (use l in simp_all)
  moreover have "cstr (l @ [NL]) = l @ [NL]" using l by (simp add: cstr_id)
  moreover have "argcargv (l @ [NL]) = Ret (map snd ws)"
    using argcargv_layout [OF lok] l by simp
  moreover have "map snd ws \<noteq> []" "char_at (hd (map snd ws)) 0 \<noteq> CHR ''#''"
    using assms(1) by (auto simp: ws_def line_words_def Let_def char_at_def obj_ok_def)
  ultimately show ?thesis
    by (simp add: read_words.simps [of "l @ NL # rest"] lt Let_def)
qed

lemma decode_name:
  assumes "c_string s" "length s < MAXPATHLEN" "length buf = MAXPATHLEN"
  shows "\<exists>buf'. decode (encode_text sh s) buf = Ret (Some s, buf') \<and> length buf' = MAXPATHLEN"
proof (cases sh)
  case True
  with shell_codec.dec_enc [OF assms, of "encode_text True s"] assms(2) show ?thesis
    by (simp add: encode_space_def encode_internal_short)
next
  case False
  with plain_codec.dec_enc [OF assms, of "encode_text False s"] assms(2) show ?thesis
    by (simp add: encode_def encode_internal_short)
qed

lemma parse_fields_line:
  assumes "obj_ok cfg p" "length buf = MAXPATHLEN" "pi_type q = pi_type p" "\<not> pi_minus q" "pi_name q = pi_name p"
  shows "\<exists>q' buf'. parse_fields cfg tt (map snd (line_words (transcript_shell_escapes cfg) p)) q buf = Ret (q', buf') \<and>
    line_eq p q' \<and> length buf' = MAXPATHLEN"
proof -
  let ?sh = "transcript_shell_escapes cfg"
  note simps = parse_fields_def line_words_def Let_def char_at_def set_owner_def mode_text_read num_word_def
    atoi_print_sint line_eq_def
  from assms(1) consider "pi_type p \<in> set ''dpDs''" | "pi_type p \<in> set ''bc''" | "pi_type p = CHR ''l''"
    | "pi_type p = CHR ''h''" | "pi_type p \<in> set ''af''"
    by (auto simp: obj_ok_def)
  then show ?thesis
  proof cases
    case 1
    with assms(2-5) show ?thesis by (simp, elim disjE) (simp_all add: simps)
  next
    case 2
    with assms(2-5) show ?thesis by (simp, elim disjE) (simp_all add: simps)
  next
    case 3
    with assms(1) decode_name [of "pi_link p" buf ?sh] assms(2) obtain buf' where
      "decode (encode_text ?sh (pi_link p)) buf = Ret (Some (pi_link p), buf')" "length buf' = MAXPATHLEN"
      by (auto simp: obj_ok_def)
    with 3 assms(3-5) show ?thesis by (simp add: simps)
  next
    case 4
    with assms(1) decode_name [of "pi_link p" buf ?sh] assms(2) obtain buf' where
      "decode (encode_text ?sh (pi_link p)) buf = Ret (Some (pi_link p), buf')" "length buf' = MAXPATHLEN"
      "convert_path_type cfg (pi_link p) = Some (pi_link p)"
      by (auto simp: obj_ok_def name_ok_def)
    with 4 assms(3-5) show ?thesis by (simp add: simps)
  next
    case 5
    with assms(1) have
      "strtol 10 (print_int (st_mtime (pi_stat p))) = st_mtime (pi_stat p)"
      "strtol 10 (print_int (st_size (pi_stat p))) = st_size (pi_stat p)"
      and ck: "cksum cfg \<Longrightarrow> strcmp ''-'' (pi_cksum_b64 p) \<noteq> 0"
      by (auto simp: obj_ok_def strtol_print_int neq_Nil_conv)
    with 5 assms(2-5) show ?thesis by (simp, elim disjE) (auto simp: simps)
  qed
qed

lemma words_of_line:
  assumes "obj_ok cfg p"
  shows "\<exists>ws. map snd (line_words sh p) = [pi_type p] # encode_text sh (pi_name p) # ws \<and> ws \<noteq> []"
  by (simp add: line_words_def Let_def)

lemma transcript_parse_line:
  assumes "obj_ok cfg p" "length buf = MAXPATHLEN"
    and inp: "t_in t = Some (line_text (transcript_shell_escapes cfg) p @ rest)"
    and gt: "0 < pathcasecmp (pi_name p) (pi_name (t_pinfo t)) (case_sensitive cfg)"
  shows "\<exists>q buf'. transcript_parse cfg t buf =
      Ret (t\<lparr>t_in := Some rest, t_linenum := Suc (t_linenum t), t_pinfo := q\<rparr>, buf') \<and>
    line_eq p q \<and> length buf' = MAXPATHLEN"
proof -
  let ?sh = "transcript_shell_escapes cfg" and ?av = "map snd (line_words (transcript_shell_escapes cfg) p)"
  define t1 where "t1 = t\<lparr>t_in := Some rest, t_linenum := Suc (t_linenum t)\<rparr>"
  obtain ws where ws: "?av = [pi_type p] # encode_text ?sh (pi_name p) # ws" "ws \<noteq> []"
    using words_of_line [OF assms(1), of ?sh] that by (elim exE conjE) assumption+
  have nm: "c_string (pi_name p)" "length (pi_name p) < MAXPATHLEN"
    "convert_path_type cfg (pi_name p) = Some (pi_name p)"
    "pi_type p \<noteq> CHR ''-''" "pi_type p \<noteq> CHR ''+''"
    using assms(1) by (auto simp: obj_ok_def name_ok_def)
  obtain buf1 where buf1: "decode (encode_text ?sh (pi_name p)) buf = Ret (Some (pi_name p), buf1)"
    "length buf1 = MAXPATHLEN"
    using decode_name [OF nm(1,2) assms(2)] by blast
  define q0 where "q0 = (t_pinfo t)\<lparr>pi_minus := False, pi_type := pi_type p, pi_name := pi_name p\<rparr>"
  obtain q buf' where q: "parse_fields cfg (t_type t) ?av q0 buf1 = Ret (q, buf')" "line_eq p q"
    "length buf' = MAXPATHLEN"
    using parse_fields_line [OF assms(1) buf1(2), of q0 "t_type t"] by (auto simp: q0_def)
  have "parse_line cfg t1 ?av buf = Ret (t1\<lparr>t_pinfo := q\<rparr>, buf')"
    using ws nm buf1 gt q(1)
    by (cases ws) (simp_all add: parse_line_def arg_def char_at_def t1_def q0_def)
  then have "transcript_parse cfg t buf = Ret (t1\<lparr>t_pinfo := q\<rparr>, buf')"
    by (simp add: transcript_parse_def inp read_words_line [OF assms(1)] t1_def)
  with q show ?thesis by (auto simp: t1_def)
qed

section \<open>Whole transcripts\<close>

text \<open>The objects that successive calls of \<open>transcript_parse\<close> yield up to the end of the file.\<close>

function parse_all :: "config \<Rightarrow> tran \<Rightarrow> string \<Rightarrow> pathinfo list outcome" where
  "parse_all cfg t buf =
     (if t_eof t then Ret []
      else obind (transcript_parse cfg t buf) (\<lambda>(t, buf).
        if t_eof t then Ret [] else obind (parse_all cfg t buf) (\<lambda>ps. Ret (t_pinfo t # ps))))"
  by pat_completeness auto

termination
  by (relation "measure (\<lambda>(_, t, _). tran_todo t)") (auto dest: transcript_parse_todo(2))

declare parse_all.simps [simp del]

fun ascending_from :: "config \<Rightarrow> string \<Rightarrow> pathinfo list \<Rightarrow> bool" where
  "ascending_from cfg n [] = True"
| "ascending_from cfg n (p # ps) =
     (0 < pathcasecmp (pi_name p) n (case_sensitive cfg) \<and> ascending_from cfg (pi_name p) ps)"

lemma parse_end:
  "\<not> t_eof t \<Longrightarrow> t_in t = Some [] \<Longrightarrow> parse_all cfg t buf = Ret []"
  by (simp add: parse_all.simps [of cfg t] transcript_parse_def read_words.simps fgets_def)

lemma parse_all_lines:
  assumes "list_all (obj_ok cfg) ps" "ascending_from cfg (pi_name (t_pinfo t)) ps"
    and "length buf = MAXPATHLEN" "\<not> t_eof t"
    and "t_in t = Some (concat (map (line_text (transcript_shell_escapes cfg)) ps))"
  shows "\<exists>qs. parse_all cfg t buf = Ret qs \<and> list_all2 line_eq ps qs"
  using assms
proof (induction ps arbitrary: t buf)
  case Nil
  then show ?case by (simp add: parse_end)
next
  case (Cons p ps)
  let ?rest = "concat (map (line_text (transcript_shell_escapes cfg)) ps)"
  from Cons.prems have p: "obj_ok cfg p" "0 < pathcasecmp (pi_name p) (pi_name (t_pinfo t)) (case_sensitive cfg)"
    "t_in t = Some (line_text (transcript_shell_escapes cfg) p @ ?rest)" by simp_all
  from transcript_parse_line [OF p(1) Cons.prems(3) p(3,2)] obtain q buf' where
    q: "transcript_parse cfg t buf =
        Ret (t\<lparr>t_in := Some ?rest, t_linenum := Suc (t_linenum t), t_pinfo := q\<rparr>, buf')"
      "line_eq p q" "length buf' = MAXPATHLEN" by blast
  let ?t = "t\<lparr>t_in := Some ?rest, t_linenum := Suc (t_linenum t), t_pinfo := q\<rparr>"
  have "\<exists>qs. parse_all cfg ?t buf' = Ret qs \<and> list_all2 line_eq ps qs"
    using Cons.prems q by (intro Cons.IH) (simp_all add: line_eq_def)
  with q Cons.prems(4) show ?case by (auto simp: parse_all.simps [of cfg t])
qed

section \<open>Order\<close>

lemma parse_fields_name:
  assumes "parse_fields cfg tt av p buf = Ret (q, buf')"
  shows "pi_name q = pi_name p" "pi_minus q = pi_minus p" "pi_type q = pi_type p"
proof -
  have "all_ret (\<lambda>(q, _). pi_name q = pi_name p \<and> pi_minus q = pi_minus p \<and> pi_type q = pi_type p)
      (parse_fields cfg tt av p buf)"
    unfolding parse_fields_def Let_def
    by (intro all_ret_rules) (auto simp: set_owner_def set_finfo_def obind_Ret_iff split: if_split_asm)
  then show "pi_name q = pi_name p" "pi_minus q = pi_minus p" "pi_type q = pi_type p"
    using assms by (auto dest: all_retD)
qed

lemma c_string_convert: "c_string n \<Longrightarrow> convert_path_type cfg n = Some m \<Longrightarrow> c_string m"
  by (auto simp: convert_path_type_def c_string_def dest: in_set_dropD split: if_splits)

lemma parse_line_name:
  assumes "parse_line cfg t av buf = Ret (t', buf')"
  shows "0 < pathcasecmp (pi_name (t_pinfo t')) (pi_name (t_pinfo t)) (case_sensitive cfg)"
    "c_string (pi_name (t_pinfo t'))"
proof -
  have "all_ret (\<lambda>(t', _). 0 < pathcasecmp (pi_name (t_pinfo t')) (pi_name (t_pinfo t)) (case_sensitive cfg) \<and>
      c_string (pi_name (t_pinfo t'))) (parse_line cfg t av buf)"
    unfolding parse_line_def Let_def
    by (intro all_ret_rules)
      (auto dest!: parse_fields_name(1) decode_c_string intro: c_string_convert)
  then show "0 < pathcasecmp (pi_name (t_pinfo t')) (pi_name (t_pinfo t)) (case_sensitive cfg)"
    "c_string (pi_name (t_pinfo t'))"
    using assms by (auto dest: all_retD)
qed

text \<open>The contract of \<open>transcript_parse\<close>: the end of the file, or a name after the last one.\<close>

lemma transcript_parse_name:
  assumes "transcript_parse cfg t buf = Ret (t', buf')"
  shows "t_eof t' \<and> t_pinfo t' = t_pinfo t \<or>
    t_eof t' = t_eof t \<and> c_string (pi_name (t_pinfo t')) \<and>
    0 < pathcasecmp (pi_name (t_pinfo t')) (pi_name (t_pinfo t)) (case_sensitive cfg)"
proof -
  have "all_ret (\<lambda>(t', _). t_eof t' \<and> t_pinfo t' = t_pinfo t \<or>
      t_eof t' = t_eof t \<and> c_string (pi_name (t_pinfo t')) \<and>
      0 < pathcasecmp (pi_name (t_pinfo t')) (pi_name (t_pinfo t)) (case_sensitive cfg))
    (transcript_parse cfg t buf)"
    unfolding transcript_parse_def Let_def
    by (intro all_ret_rules) (auto simp: all_ret_def dest: parse_line_name parse_line_in)
  then show ?thesis using assms by (auto dest: all_retD)
qed

lemma parse_all_ascending:
  "parse_all cfg t buf = Ret ps \<Longrightarrow>
     ascending_from cfg (pi_name (t_pinfo t)) ps \<and> (\<forall>p \<in> set ps. c_string (pi_name p))"
proof (induction cfg t buf arbitrary: ps rule: parse_all.induct)
  case (1 cfg t buf)
  show ?case
  proof (cases "t_eof t")
    case True
    with "1.prems" show ?thesis by (simp add: parse_all.simps [of cfg t])
  next
    case False
    with "1.prems" obtain t' buf' where p: "transcript_parse cfg t buf = Ret (t', buf')" and
      ps: "(if t_eof t' then Ret [] else obind (parse_all cfg t' buf') (\<lambda>ps. Ret (t_pinfo t' # ps))) = Ret ps"
      by (auto simp: parse_all.simps [of cfg t] obind_Ret_iff)
    show ?thesis
    proof (cases "t_eof t'")
      case True
      with ps show ?thesis by simp
    next
      case eof: False
      with ps obtain ps' where ps': "parse_all cfg t' buf' = Ret ps'" "ps = t_pinfo t' # ps'"
        by (auto simp: obind_Ret_iff)
      with "1.IH" [OF False p refl eof ps'(1)] transcript_parse_name [OF p] eof show ?thesis by auto
    qed
  qed
qed

lemma ascending_from_sorted:
  assumes "ascending_from cfg n ps" "\<forall>p \<in> set ps. path_ok (case_sensitive cfg) (pi_name p)"
    "path_ok (case_sensitive cfg) n"
  shows "sorted_wrt (\<lambda>p q. pathcasecmp (pi_name p) (pi_name q) (case_sensitive cfg) < 0) ps \<and>
    (\<forall>p \<in> set ps. pathcasecmp n (pi_name p) (case_sensitive cfg) < 0)"
  using assms
proof (induction ps arbitrary: n)
  case (Cons p ps)
  let ?c = "case_sensitive cfg"
  from Cons.prems have p: "path_ok ?c n" "path_ok ?c (pi_name p)" "0 < pathcasecmp (pi_name p) n ?c" by simp_all
  then have less: "pathcasecmp n (pi_name p) ?c < 0" using po.cmp_flip by blast
  from Cons.IH [of "pi_name p"] Cons.prems have
    *: "sorted_wrt (\<lambda>p q. pathcasecmp (pi_name p) (pi_name q) ?c < 0) ps"
    "\<forall>q \<in> set ps. pathcasecmp (pi_name p) (pi_name q) ?c < 0" by simp_all
  then have "\<forall>q \<in> set ps. pathcasecmp n (pi_name q) ?c < 0"
    using less p Cons.prems(2) po.cmp_less_trans [of ?c n "pi_name p"] by auto
  with * less show ?case by simp
qed simp

end
