(* ===== verification/TranscriptSelect.thy ===== *)
theory TranscriptSelect
  imports TranscriptText
begin

text \<open>
  Which transcript comes next: \<open>transcript_select\<close> yields the transcript at the least name, the
  earliest in the list among equals, past the lines that are to be ignored. And what
  \<open>t_compare\<close> decides for an object that is in the file system and in a transcript.
\<close>

section \<open>The first loop\<close>

abbreviation tname :: "tran \<Rightarrow> string" where
  "tname t \<equiv> pi_name (t_pinfo t)"

definition names_fine :: "config \<Rightarrow> tran list \<Rightarrow> bool" where
  "names_fine cfg ts \<longleftrightarrow> (\<forall>t \<in> set ts. path_ok (case_sensitive cfg) (tname t))"

text \<open>Place \<open>b\<close> is the first with the least name among the places below \<open>k\<close> that are not at their end.\<close>

definition least_upto :: "config \<Rightarrow> tran list \<Rightarrow> nat \<Rightarrow> nat \<Rightarrow> bool" where
  "least_upto cfg ts k b \<longleftrightarrow>
     (if t_eof (ts ! b) then \<forall>i < k. t_eof (ts ! i)
      else (\<forall>i < k. \<not> t_eof (ts ! i) \<longrightarrow>
              pathcasecmp (tname (ts ! b)) (tname (ts ! i)) (case_sensitive cfg) \<le> 0) \<and>
           (\<forall>i < b. \<not> t_eof (ts ! i) \<longrightarrow>
              pathcasecmp (tname (ts ! b)) (tname (ts ! i)) (case_sensitive cfg) < 0))"

lemma begin_step_least:
  assumes "names_fine cfg ts" "b < k" "k < length ts" "least_upto cfg ts k b"
  shows "least_upto cfg ts (Suc k) (begin_step cfg ts b k)"
proof -
  let ?c = "case_sensitive cfg"
  have ok: "path_ok ?c (tname (ts ! i))" if "i < length ts" for i
    using assms(1) that by (simp add: names_fine_def)
  show ?thesis
  proof (cases "t_eof (ts ! b)")
    case True
    with assms show ?thesis
      using po.cmp_refl [OF ok, of k] by (auto simp: begin_step_def least_upto_def less_Suc_eq)
  next
    case False
    note b = this
    show ?thesis
    proof (cases "\<not> t_eof (ts ! k) \<and> pathcasecmp (tname (ts ! k)) (tname (ts ! b)) ?c < 0")
      case True
      have *: "pathcasecmp (tname (ts ! k)) (tname (ts ! i)) ?c < 0" if "i < k" "\<not> t_eof (ts ! i)" for i
      proof -
        have "pathcasecmp (tname (ts ! b)) (tname (ts ! i)) ?c \<le> 0"
          using assms(4) that b by (simp add: least_upto_def)
        with True that show ?thesis
          using po.cmp_less_le_trans [of ?c "tname (ts ! k)" "tname (ts ! b)" "tname (ts ! i)"] ok assms(2,3)
          by simp
      qed
      then have "pathcasecmp (tname (ts ! k)) (tname (ts ! i)) ?c \<le> 0" if "i < Suc k" "\<not> t_eof (ts ! i)" for i
        using that po.cmp_refl [OF ok, of k] assms(3) by (auto simp: less_Suc_eq dest: less_imp_le)
      moreover note *
      ultimately show ?thesis
        using True b by (auto simp: begin_step_def least_upto_def)
    next
      case ge: False
      have "pathcasecmp (tname (ts ! b)) (tname (ts ! k)) ?c \<le> 0" if "\<not> t_eof (ts ! k)"
        using ge that po.cmp_le_flip [of ?c "tname (ts ! b)" "tname (ts ! k)"] ok assms by auto
      with ge b assms show ?thesis by (auto simp: begin_step_def least_upto_def less_Suc_eq)
    qed
  qed
qed

lemma select_begin_least:
  assumes "names_fine cfg ts" "ts \<noteq> []"
  shows "least_upto cfg ts (length ts) (select_begin cfg ts)"
proof -
  have "foldl (begin_step cfg ts) 0 [1..<Suc k] < Suc k \<and>
      least_upto cfg ts (Suc k) (foldl (begin_step cfg ts) 0 [1..<Suc k])" if "k < length ts" for k
    using that
  proof (induction k)
    case 0
    have "path_ok (case_sensitive cfg) (tname (ts ! 0))" using assms by (simp add: names_fine_def)
    from po.cmp_refl [OF this] show ?case by (simp add: least_upto_def)
  next
    case (Suc k)
    let ?b = "foldl (begin_step cfg ts) 0 [1..<Suc k]"
    have e: "foldl (begin_step cfg ts) 0 [1..<Suc (Suc k)] = begin_step cfg ts ?b (Suc k)" by simp
    from Suc have b: "?b < Suc k" "least_upto cfg ts (Suc k) ?b" by auto
    have "begin_step cfg ts ?b (Suc k) < Suc (Suc k)" using b by (simp add: begin_step_def)
    with begin_step_least [OF assms(1) b(1) Suc.prems b(2)] show ?case unfolding e by simp
  qed
  from this [of "length ts - 1"] assms(2) show ?thesis by (simp add: select_begin_def)
qed

section \<open>The second loop\<close>

lemma parse_matching_names:
  assumes "parse_matching cfg n ts buf = Ret (ts', buf')" "names_fine cfg ts" "case_sensitive cfg" "c_string n"
  shows "length ts' = length ts \<and> names_fine cfg ts' \<and>
    (\<forall>i < length ts. t_eof (ts ! i) \<longrightarrow> t_eof (ts' ! i)) \<and>
    (\<forall>i < length ts. \<not> t_eof (ts' ! i) \<longrightarrow>
       pathcasecmp n (tname (ts ! i)) True \<le> 0 \<longrightarrow> pathcasecmp n (tname (ts' ! i)) True < 0)"
  using assms
proof (induction ts arbitrary: ts' buf)
  case Nil
  then show ?case by simp
next
  case (Cons t ts)
  from Cons.prems(1) obtain t1 buf1 ts1 where
    t1: "(if pathcasecmp n (tname t) (case_sensitive cfg) = 0 then transcript_parse cfg t buf
          else Ret (t, buf)) = Ret (t1, buf1)" and
    ts1: "parse_matching cfg n ts buf1 = Ret (ts1, buf')" "ts' = t1 # ts1"
    by (auto simp: obind_Ret_iff)
  from Cons.prems(2,3) have t: "c_string (tname t)" "names_fine cfg ts"
    by (auto simp: names_fine_def path_ok_def)
  note IH = Cons.IH [OF ts1(1) t(2) Cons.prems(3,4)]
  have "c_string (tname t1) \<and> (t_eof t \<longrightarrow> t_eof t1) \<and>
    (\<not> t_eof t1 \<longrightarrow> pathcasecmp n (tname t) True \<le> 0 \<longrightarrow> pathcasecmp n (tname t1) True < 0)"
  proof (cases "pathcasecmp n (tname t) True = 0")
    case True
    with t1 Cons.prems(3) have p: "transcript_parse cfg t buf = Ret (t1, buf1)" by simp
    have "pathcasecmp n (tname t1) True < 0" if "c_string (tname t1)" "0 < pathcasecmp (tname t1) (tname t) True"
      using po.cmp_le_less_trans [of True n "tname t" "tname t1"] True that t(1) Cons.prems(4)
        po.cmp_flip [of True "tname t" "tname t1"] by (auto simp: path_ok_def)
    with transcript_parse_name [OF p] t(1) Cons.prems(3) show ?thesis by auto
  next
    case False
    with t1 t(1) Cons.prems(3) show ?thesis by auto
  qed
  with IH ts1(2) Cons.prems(3) t(1) show ?case
    by (auto simp: names_fine_def path_ok_def nth_Cons split: nat.splits)
qed

section \<open>The contract of \<open>transcript_select\<close>\<close>

text \<open>
  The chosen transcript: when it is at its end, all are; otherwise its name comes strictly
  before the names of all others, its line is not to be ignored, no exclude pattern matches it
  unless it is the special transcript, and it lies below the initial path.
\<close>

definition selected :: "config \<Rightarrow> string list \<Rightarrow> tran list \<Rightarrow> nat \<Rightarrow> bool" where
  "selected cfg ex ts b \<longleftrightarrow> b < length ts \<and>
     (if t_eof (ts ! b) then \<forall>t \<in> set ts. t_eof t
      else \<not> pi_minus (t_pinfo (ts ! b)) \<and>
        (t_type (ts ! b) = T_SPECIAL \<or> t_exclude cfg ex (tname (ts ! b)) = Ret False) \<and>
        ischildcase (tname (ts ! b)) (path_prefix cfg) (case_sensitive cfg) \<and>
        (\<forall>i < length ts. i \<noteq> b \<longrightarrow> \<not> t_eof (ts ! i) \<longrightarrow>
           pathcasecmp (tname (ts ! b)) (tname (ts ! i)) (case_sensitive cfg) < 0))"

lemma advance_matching_least:
  assumes "advance_matching cfg b st = Ret st'" "names_fine cfg (tran_list st)" "case_sensitive cfg"
    "b < length (tran_list st)" "least_upto cfg (tran_list st) (length (tran_list st)) b"
  shows "names_fine cfg (tran_list st')" "exclude_list st' = exclude_list st"
    "length (tran_list st') = length (tran_list st)" "tran_list st' ! b = tran_list st ! b"
    "if t_eof (tran_list st' ! b) then \<forall>t \<in> set (tran_list st'). t_eof t
     else \<forall>i < length (tran_list st'). i \<noteq> b \<longrightarrow> \<not> t_eof (tran_list st' ! i) \<longrightarrow>
       pathcasecmp (tname (tran_list st' ! b)) (tname (tran_list st' ! i)) True < 0"
proof -
  let ?ts = "tran_list st" and ?n = "tname (tran_list st ! b)"
  from assms(1) obtain ts buf where p: "parse_matching cfg ?n (drop (Suc b) ?ts) (dbuf st) = Ret (ts, buf)"
    and st': "st' = st\<lparr>tran_list := take (Suc b) ?ts @ ts, dbuf := buf\<rparr>"
    by (auto simp: advance_matching_def obind_Ret_iff)
  have fine: "names_fine cfg (take (Suc b) ?ts)" "names_fine cfg (drop (Suc b) ?ts)" "c_string ?n"
    using assms(2-4) by (auto simp: names_fine_def path_ok_def dest: in_set_takeD in_set_dropD)
  note pm = parse_matching_names [OF p fine(2) assms(3) fine(3)]
  then have len: "length ts = length ?ts - Suc b" by simp
  show "names_fine cfg (tran_list st')" "exclude_list st' = exclude_list st"
    using pm fine(1) by (auto simp: st' names_fine_def)
  show ln: "length (tran_list st') = length ?ts" using len assms(4) by (simp add: st')
  show b: "tran_list st' ! b = ?ts ! b" using assms(4) by (simp add: st' nth_append)
  have low: "tran_list st' ! i = ?ts ! i" if "i \<le> b" for i
    using that assms(4) by (simp add: st' nth_append)
  have high: "tran_list st' ! i = ts ! (i - Suc b)" "drop (Suc b) ?ts ! (i - Suc b) = ?ts ! i"
    "i - Suc b < length (drop (Suc b) ?ts)" if "b < i" "i < length ?ts" for i
    using that assms(4) by (simp_all add: st' nth_append)
  show "if t_eof (tran_list st' ! b) then \<forall>t \<in> set (tran_list st'). t_eof t
     else \<forall>i < length (tran_list st'). i \<noteq> b \<longrightarrow> \<not> t_eof (tran_list st' ! i) \<longrightarrow>
       pathcasecmp (tname (tran_list st' ! b)) (tname (tran_list st' ! i)) True < 0"
  proof (cases "t_eof (?ts ! b)")
    case True
    have "t_eof (tran_list st' ! i)" if "i < length ?ts" for i
    proof (cases "i \<le> b")
      case le: True
      with low [OF le] True assms(5) that show ?thesis by (simp add: least_upto_def)
    next
      case False
      with high [of i] True assms(5) that pm show ?thesis by (simp add: least_upto_def)
    qed
    with True b ln show ?thesis by (auto simp: in_set_conv_nth)
  next
    case False
    have "pathcasecmp ?n (tname (tran_list st' ! i)) True < 0"
      if "i < length ?ts" "i \<noteq> b" "\<not> t_eof (tran_list st' ! i)" for i
    proof (cases "i < b")
      case True
      with low [of i] False assms(3,5) that show ?thesis by (simp add: least_upto_def)
    next
      case ge: False
      with that have bi: "b < i" by simp
      note h = high [OF bi that(1)]
      have "\<not> t_eof (?ts ! i)" using pm that(3) h by metis
      then have "pathcasecmp ?n (tname (?ts ! i)) True \<le> 0"
        using False assms(3,5) that(1) by (simp add: least_upto_def)
      with pm that(3) h show ?thesis by simp
    qed
    with False b ln show ?thesis by simp
  qed
qed

lemma parse_at_fine:
  assumes "parse_at cfg i st = Ret st'" "names_fine cfg (tran_list st)" "case_sensitive cfg"
    "i < length (tran_list st)"
  shows "names_fine cfg (tran_list st')" "exclude_list st' = exclude_list st" "tran_list st' \<noteq> []"
proof -
  from assms(1) obtain t buf where p: "transcript_parse cfg (tran_list st ! i) (dbuf st) = Ret (t, buf)" and
    st': "st' = st\<lparr>tran_list := (tran_list st)[i := t], dbuf := buf\<rparr>"
    by (auto simp: parse_at_def obind_Ret_iff)
  have "c_string (tname t)"
    using transcript_parse_name [OF p] assms(2-4) by (auto simp: names_fine_def path_ok_def)
  with assms(2,3) show "names_fine cfg (tran_list st')" "exclude_list st' = exclude_list st"
    by (auto simp: st' names_fine_def path_ok_def dest!: set_update_subset_insert [THEN subsetD])
  show "tran_list st' \<noteq> []" using assms(4) by (auto simp: st')
qed

lemma transcript_select_selected:
  assumes "transcript_select cfg st = Ret (b, st')" "names_fine cfg (tran_list st)" "case_sensitive cfg"
  shows "selected cfg (exclude_list st) (tran_list st') b \<and> names_fine cfg (tran_list st') \<and>
    exclude_list st' = exclude_list st"
  using assms
proof (induction cfg st rule: transcript_select.induct)
  case (1 cfg st)
  from "1.prems"(1) have ne: "tran_list st \<noteq> []" by (auto simp: transcript_select.simps [of cfg st])
  define b0 where "b0 = select_begin cfg (tran_list st)"
  from "1.prems"(1) ne obtain st1 sk where a: "advance_matching cfg b0 st = Ret st1" and
    t: "select_test cfg st1 (tran_list st1 ! b0) = Ret sk"
    by (auto simp: transcript_select.simps [of cfg st] Let_def b0_def obind_Ret_iff)
  have bl: "b0 < length (tran_list st)" using select_begin_less [OF ne] by (simp add: b0_def)
  note adv = advance_matching_least [OF a "1.prems"(2,3) bl
      select_begin_least [OF "1.prems"(2) ne, folded b0_def]]
  show ?case
  proof (cases sk)
    case Keep
    with "1.prems"(1) ne a t have r: "b = b0" "st' = st1"
      by (auto simp: transcript_select.simps [of cfg st] Let_def b0_def)
    have "selected cfg (exclude_list st) (tran_list st1) b0"
      using adv t Keep bl "1.prems"(3)
      by (auto simp: selected_def select_test_def obind_Ret_iff split: if_split_asm)
    with adv r show ?thesis by simp
  next
    case Skip
    with "1.prems"(1) ne a t obtain st2 where st2: "parse_at cfg b0 st1 = Ret st2"
      "transcript_select cfg st2 = Ret (b, st')"
      by (auto simp: transcript_select.simps [of cfg st] Let_def b0_def obind_Ret_iff)
    note pf = parse_at_fine [OF st2(1) adv(1) "1.prems"(3)]
    from "1.IH" (1) [OF ne b0_def a t Skip st2(1,2) _ "1.prems"(3)] pf adv bl show ?thesis by simp
  next
    case SkipExcluded
    let ?st1 = "warn_excluded cfg (tname (tran_list st1 ! b0)) st1"
    from SkipExcluded "1.prems"(1) ne a t obtain st2 where st2:
      "parse_at cfg b0 ?st1 = Ret st2" "transcript_select cfg st2 = Ret (b, st')"
      by (auto simp: transcript_select.simps [of cfg st] Let_def b0_def obind_Ret_iff)
    note pf = parse_at_fine [OF st2(1) _ "1.prems"(3)]
    from "1.IH" (2) [OF ne b0_def a t SkipExcluded st2(1,2) _ "1.prems"(3)] pf adv bl show ?thesis by simp
  qed
qed

end
