(* ===== verification/TranscriptDiff.thy ===== *)
theory TranscriptDiff
  imports TranscriptSelect
begin

text \<open>
  What \<open>t_compare\<close> decides for one object, and the run over a whole file system: a transcript
  made from the file system differs from it in nothing.
\<close>

section \<open>The decision for a file\<close>

text \<open>The checksum that is written for a file, when its contents can be read.\<close>

definition cksum_is :: "'c env \<Rightarrow> string \<Rightarrow> string \<Rightarrow> bool" where
  "cksum_is env path c \<longleftrightarrow> (\<exists>n. 0 \<le> n \<and> do_cksum (e_md env) (e_bytes env) path = (n, Some c))"

lemma get_cksum_file:
  "pi_type f = CHR ''f'' \<Longrightarrow> cksum_is env (pi_name f) c \<Longrightarrow> get_cksum env f = Ret (f\<lparr>pi_cksum_b64 := c\<rparr>)"
  by (auto simp: get_cksum_def cksum_is_def)

lemma owner_differs_cksum [simp]:
  "owner_differs (f\<lparr>pi_cksum_b64 := c\<rparr>) t = owner_differs f t"
  by (simp add: owner_differs_def)

lemma compare_file_cksum:
  assumes "t_type t \<noteq> T_NEGATIVE" "cksum cfg" "pi_type f = CHR ''f''" "cksum_is env (pi_name f) c"
    "c_string c" "c_string (pi_cksum_b64 (t_pinfo t))"
  shows "\<exists>f'. compare_file cfg env f t = Ret (f',
      if st_size (pi_stat f) \<noteq> st_size (pi_stat (t_pinfo t)) \<or> c \<noteq> pi_cksum_b64 (t_pinfo t)
      then Some PR_DOWNLOAD
      else if \<not> ignore_timestamps cfg \<and> st_mtime (pi_stat f) \<noteq> st_mtime (pi_stat (t_pinfo t)) \<or>
              owner_differs f (t_pinfo t)
      then Some PR_STATUS else None)"
  using assms by (simp add: compare_file_def Let_def get_cksum_file strcmp_0)

lemma compare_file_nocksum:
  assumes "t_type t \<noteq> T_NEGATIVE" "\<not> cksum cfg"
  shows "compare_file cfg env f t = Ret (f,
      if st_size (pi_stat f) \<noteq> st_size (pi_stat (t_pinfo t)) \<or>
         \<not> ignore_timestamps cfg \<and> st_mtime (pi_stat f) \<noteq> st_mtime (pi_stat (t_pinfo t))
      then Some PR_DOWNLOAD
      else if owner_differs f (t_pinfo t) then Some PR_STATUS else None)"
  using assms by (simp add: compare_file_def Let_def)

text \<open>
  The one case in which a transcript line needs a checksum that it does not have: the file of
  a negative transcript, which is missing on the client.
\<close>

lemma negative_needs_file:
  assumes "edit_path cfg = APPLICABLE" "cksum cfg" "pi_type (t_pinfo t) = CHR ''f''"
    "pi_cksum_b64 (t_pinfo t) = ''-''" "e_bytes env (tname t) = None" "length (tname t) < MAXPATHLEN"
  shows "t_print cfg env None t PR_TRAN_ONLY st = Exit 2"
  using assms
  by (simp add: t_print_def note_hardlink_def pick_cur_def enc_name_short print_body_def print_file_def
      Let_def char_at_def get_cksum_def do_cksum_def)

section \<open>An unchanged file system\<close>

text \<open>
  The objects of a file system in the order of their names, each with the arguments
  \<open>transcript\<close> is called with, and the calls that \<open>fsdiff\<close> makes for them.
\<close>

type_synonym obj = "string \<times> stat \<times> char \<times> byte list"

fun run_objects :: "config \<Rightarrow> 'c env \<Rightarrow> obj list \<Rightarrow> tstate \<Rightarrow> tstate outcome" where
  "run_objects cfg env [] st = transcript_free cfg env st"
| "run_objects cfg env (ob # obs) st =
     obind (transcript cfg env (Some ob) False st) (\<lambda>(_, st). run_objects cfg env obs st)"

text \<open>The object as the transcript of the file system has it, with its checksum.\<close>

definition obj_link :: "'c env \<Rightarrow> obj \<Rightarrow> string" where
  "obj_link env ob =
     (case ob of (path, s, ty, ai) \<Rightarrow>
        if S_ISLNK (st_mode s) then cstr (the (e_readlink env path)) else [])"

definition seen_as :: "'c env \<Rightarrow> obj \<Rightarrow> string \<Rightarrow> pathinfo" where
  "seen_as env ob c =
     (case ob of (path, s, ty, ai) \<Rightarrow>
        \<lparr>pi_type = ty, pi_minus = False, pi_name = path, pi_link = obj_link env ob, pi_stat = s,
         pi_cksum_b64 = c, pi_ai_data = ai\<rparr>)"

text \<open>
  What is assumed of an object: it is known under one name, its type is the one \<open>radstat\<close> finds,
  it can be written to a transcript, no pattern excludes it, and the contents of a file can be
  read and have the checksum \<open>c\<close> (\<open>-\<close> when no checksums are used).
\<close>

definition obj_fine :: "config \<Rightarrow> 'c env \<Rightarrow> string list \<Rightarrow> obj \<Rightarrow> string \<Rightarrow> bool" where
  "obj_fine cfg env ex ob c \<longleftrightarrow>
     (case ob of (path, s, ty, ai) \<Rightarrow>
        ty \<in> set ''dpsbclf'' \<and> (S_ISDIR (st_mode s) \<or> st_nlink s \<le> 1) \<and>
        (ty = CHR ''l'' \<longleftrightarrow> S_ISLNK (st_mode s)) \<and>
        (S_ISLNK (st_mode s) \<longrightarrow> (\<exists>l. e_readlink env path = Some l \<and> length l < MAXPATHLEN)) \<and>
        t_exclude cfg ex path = Ret False \<and>
        ischildcase path (path_prefix cfg) (case_sensitive cfg) \<and>
        obj_ok cfg (seen_as env ob c) \<and>
        (ty = CHR ''f'' \<longrightarrow> (if cksum cfg then cksum_is env path c else c = ''-'')))"

lemma make_pathinfo_fine:
  assumes "obj_fine cfg env ex (path, s, ty, ai) c"
  shows "make_pathinfo env path s ty ai st = Ret (seen_as env (path, s, ty, ai) ''-'', st)"
  using assms by (auto simp: make_pathinfo_def obj_fine_def seen_as_def obj_link_def split: option.splits)

lemma mode_twice: "and T_MODE (and T_MODE m) = and T_MODE (m :: 32 word)"
  by (simp add: and.assoc [symmetric])

lemma owner_same: "line_eq p q \<Longrightarrow> pi_type p \<noteq> CHR ''h'' \<Longrightarrow> \<not> owner_differs p q"
  by (simp add: line_eq_def owner_differs_def mode_twice)

text \<open>Nothing is printed for an object that its line describes.\<close>

lemma compare_same_line:
  assumes "obj_fine cfg env ex ob c" "line_eq (seen_as env ob c) (t_pinfo t)" "t_type t = T_POSITIVE"
  shows "\<exists>f'. compare_same cfg env ds (seen_as env ob ''-'') t = Ret (f', None)"
proof -
  obtain path s ty ai where ob: "ob = (path, s, ty, ai)" by (cases ob)
  let ?f = "seen_as env ob ''-''" and ?p = "seen_as env ob c"
  have eqs: "pi_type ?f = ty" "pi_name ?f = path" "pi_stat ?f = s" "pi_link ?f = pi_link ?p" "pi_type ?p = ty"
    "pi_stat ?p = s" "pi_cksum_b64 ?p = c"
    by (simp_all add: seen_as_def ob)
  have ty: "ty \<in> set ''dpsbclf''" using assms(1) by (auto simp: obj_fine_def ob)
  then have own: "\<not> owner_differs ?f (t_pinfo t)"
    using owner_same [OF assms(2)] eqs by (auto simp: owner_differs_def)
  show ?thesis
  proof (cases "ty = CHR ''f''")
    case True
    then have "st_size s = st_size (pi_stat (t_pinfo t))" "st_mtime s = st_mtime (pi_stat (t_pinfo t))"
      "c = pi_cksum_b64 (t_pinfo t)" "cksum cfg \<Longrightarrow> cksum_is env path c"
      using assms(1,2) eqs by (simp_all add: line_eq_def obj_fine_def ob)
    moreover have "get_cksum env ?f = Ret (?f\<lparr>pi_cksum_b64 := c\<rparr>)" if "cksum cfg"
      using get_cksum_file [of ?f env c] calculation(4) that True eqs by simp
    ultimately show ?thesis
      using True own assms(3) eqs by (simp add: compare_same_def compare_file_def Let_def)
  next
    case False
    with ty have "ty = CHR ''d'' \<or> ty = CHR ''p'' \<or> ty = CHR ''s'' \<or> ty = CHR ''b'' \<or> ty = CHR ''c'' \<or> ty = CHR ''l''"
      by simp
    then show ?thesis
      using own assms(2,3) eqs by (elim disjE; simp add: compare_same_def line_eq_def)
  qed
qed

text \<open>
  A state in which one positive transcript stands at the first of the objects \<open>obs\<close> and has
  the lines of the others still to come.
\<close>

definition at_objects :: "config \<Rightarrow> 'c env \<Rightarrow> (obj \<times> string) list \<Rightarrow> tstate \<Rightarrow> bool" where
  "at_objects cfg env obs st \<longleftrightarrow>
     (\<exists>t n. tran_list st = [t, n] \<and> t_type t = T_POSITIVE \<and> t_eof n \<and> pi_name (t_pinfo n) = [] \<and>
        length (dbuf st) = MAXPATHLEN \<and>
        (case obs of
           [] \<Rightarrow> t_eof t
         | (ob, c) # obs' \<Rightarrow>
             \<not> t_eof t \<and> line_eq (seen_as env ob c) (t_pinfo t) \<and>
             t_in t = Some (concat (map (\<lambda>(ob, c). line_text (transcript_shell_escapes cfg) (seen_as env ob c)) obs'))))"

lemma select_two:
  assumes "tran_list st = [t, n]" "t_eof n" "\<not> t_eof t" "tname n = []" "tname t \<noteq> []"
    "case_sensitive cfg" "c_string (tname t)" "\<not> pi_minus (t_pinfo t)"
    "t_exclude cfg (exclude_list st) (tname t) = Ret False"
    "ischildcase (tname t) (path_prefix cfg) (case_sensitive cfg)"
  shows "transcript_select cfg st = Ret (0, st)"
proof -
  have b: "select_begin cfg (tran_list st) = 0"
    using assms(1-3) by (simp add: select_begin_def begin_step_def upt_rec)
  have "pathcasecmp (tname t) (tname n) (case_sensitive cfg) \<noteq> 0"
    using assms(4-7) pathcmp_0_iff [of "tname t" "[]"] by (simp add: pathcmp_def)
  then have "advance_matching cfg 0 st = Ret st"
    using assms(1) by (simp add: advance_matching_def)
  with assms b show ?thesis
    by (simp add: transcript_select.simps [of cfg st] select_test_def)
qed

lemma select_end:
  assumes "tran_list st = [t, n]" "t_eof n" "t_eof t"
  shows "transcript_select cfg st = Ret (1, st)"
proof -
  have b: "select_begin cfg (tran_list st) = 1"
    using assms by (simp add: select_begin_def begin_step_def upt_rec)
  have "advance_matching cfg 1 st = Ret st"
    using assms(1) by (simp add: advance_matching_def numeral_2_eq_2)
  with assms b show ?thesis
    by (simp add: transcript_select.simps [of cfg st] select_test_def)
qed

lemma parse_at_next:
  assumes "tran_list st = [t, n]" "\<not> t_eof t" "t_type t = T_POSITIVE" "t_eof n" "tname n = []"
    "length (dbuf st) = MAXPATHLEN" "list_all (\<lambda>(ob, c). obj_fine cfg env ex ob c) obs"
    "ascending_from cfg (tname t) (map (\<lambda>(ob, c). seen_as env ob c) obs)"
    "t_in t = Some (concat (map (\<lambda>(ob, c). line_text (transcript_shell_escapes cfg) (seen_as env ob c)) obs))"
  shows "\<exists>st'. parse_at cfg 0 st = Ret st' \<and> at_objects cfg env obs st' \<and> outtran st' = outtran st \<and>
    exclude_list st' = exclude_list st"
proof (cases obs)
  case Nil
  with assms have "transcript_parse cfg t (dbuf st) = Ret (t\<lparr>t_in := Some [], t_linenum := t_linenum t, t_eof := True\<rparr>, dbuf st)"
    by (simp add: transcript_parse_def read_words.simps fgets_def)
  with assms Nil show ?thesis by (simp add: parse_at_def at_objects_def)
next
  case (Cons o1 obs')
  obtain ob c where o1: "o1 = (ob, c)" by (rule prod.exhaust)
  let ?p = "seen_as env ob c"
  let ?rest = "concat (map (\<lambda>(ob, c). line_text (transcript_shell_escapes cfg) (seen_as env ob c)) obs')"
  have p: "obj_ok cfg ?p" "0 < pathcasecmp (pi_name ?p) (tname t) (case_sensitive cfg)"
    using assms(7,8) Cons o1 by (auto simp: obj_fine_def)
  have inp: "t_in t = Some (line_text (transcript_shell_escapes cfg) ?p @ ?rest)"
    using assms(9) Cons o1 by simp
  from transcript_parse_line [OF p(1) assms(6) inp p(2)] obtain q buf' where
    q: "transcript_parse cfg t (dbuf st) =
        Ret (t\<lparr>t_in := Some ?rest, t_linenum := Suc (t_linenum t), t_pinfo := q\<rparr>, buf')"
      "line_eq ?p q" "length buf' = MAXPATHLEN" by blast
  with assms(1-5) Cons o1 show ?thesis by (simp add: parse_at_def at_objects_def)
qed

lemma transcript_unchanged:
  assumes "at_objects cfg env ((ob, c) # obs) st" "case_sensitive cfg"
    "obj_fine cfg env (exclude_list st) ob c" "list_all (\<lambda>(ob, c). obj_fine cfg env (exclude_list st) ob c) obs"
    "ascending_from cfg (pi_name (seen_as env ob c)) (map (\<lambda>(ob, c). seen_as env ob c) obs)"
  shows "\<exists>e st'. transcript cfg env (Some ob) False st = Ret (e, st') \<and> at_objects cfg env obs st' \<and>
    outtran st' = outtran st \<and> exclude_list st' = exclude_list st"
proof -
  obtain path s ty ai where ob: "ob = (path, s, ty, ai)" by (cases ob)
  let ?p = "seen_as env ob c" and ?f = "seen_as env ob ''-''"
  from assms(1) obtain t n where t: "tran_list st = [t, n]" "t_type t = T_POSITIVE" "t_eof n" "tname n = []"
    "length (dbuf st) = MAXPATHLEN" "\<not> t_eof t" "line_eq ?p (t_pinfo t)"
    "t_in t = Some (concat (map (\<lambda>(ob, c). line_text (transcript_shell_escapes cfg) (seen_as env ob c)) obs))"
    by (auto simp: at_objects_def)
  have nm: "pi_name ?p = path" "pi_name ?f = path" "pi_type ?f = ty" "pi_type ?p = ty"
    by (simp_all add: seen_as_def ob)
  with t(7) have tn: "tname t = path" "\<not> pi_minus (t_pinfo t)" "pi_type (t_pinfo t) = ty"
    by (simp_all add: line_eq_def)
  have fine: "t_exclude cfg (exclude_list st) path = Ret False"
    "ischildcase path (path_prefix cfg) (case_sensitive cfg)" "path \<noteq> []" "c_string path"
    using assms(3) nm(1) by (auto simp: obj_fine_def ob obj_ok_def name_ok_def)
  define st1 where "st1 = st\<lparr>fs_minus := False\<rparr>"
  have sel: "transcript_select cfg st1 = Ret (0, st1)"
    by (rule select_two [of st1 t n]) (use t tn fine assms(2) in \<open>simp_all add: st1_def\<close>)
  obtain f' where f': "compare_same cfg env (hlinks st1) ?f t = Ret (f', None)"
    using compare_same_line [OF assms(3) t(7,2)] by blast
  have "path_ok (case_sensitive cfg) path" using fine(4) assms(2) by (simp add: path_ok_def)
  from po.cmp_refl [OF this] have cmp: "t_compare cfg env (Some ?f) t st1 = Ret (T_MOVE_BOTH, Some f', t, st1)"
    using t(6) tn nm f' by (simp add: t_compare_def)
  have t1: "tran_list st1 = [t, n]" "length (dbuf st1) = MAXPATHLEN"
    "exclude_list st1 = exclude_list st" "outtran st1 = outtran st" using t by (simp_all add: st1_def)
  have "\<exists>st'. parse_at cfg 0 st1 = Ret st' \<and> at_objects cfg env obs st' \<and> outtran st' = outtran st1 \<and>
      exclude_list st' = exclude_list st1"
    by (rule parse_at_next [where ex = "exclude_list st"]) (use t t1 assms(4,5) tn nm in simp_all)
  then obtain st' where st': "parse_at cfg 0 st1 = Ret st'" "at_objects cfg env obs st'"
    "outtran st' = outtran st" "exclude_list st' = exclude_list st" by (auto simp: t1)
  have upd: "st1\<lparr>tran_list := [t, n]\<rparr> = st1" using t1(1) by (cases st1) simp
  have pa: "parse_at cfg 0 (st1\<lparr>tran_list := [t, n]\<rparr>) = Ret st'" by (simp only: upd st'(1))
  have "transcript_loop cfg env (Some ?f) enter st1 = Ret (enter, st')" for enter
    using sel cmp pa t(2) t1(1)
    by (simp add: transcript_loop.simps [of cfg env "Some ?f" enter st1])
  moreover have "transcript cfg env (Some ob) False st =
      transcript_loop cfg env (Some ?f) (if S_ISDIR (st_mode s) then 1 else 0) st1"
    using fine(1) make_pathinfo_fine [OF assms(3) [unfolded ob], of st1]
    by (simp add: transcript_def ob st1_def)
  ultimately show ?thesis using st' by auto
qed

lemma transcript_free_silent:
  assumes "at_objects cfg env [] st"
  shows "\<exists>st'. transcript_free cfg env st = Ret st' \<and> outtran st' = outtran st"
proof -
  from assms obtain t n where t: "tran_list st = [t, n]" "t_eof n" "t_eof t"
    by (auto simp: at_objects_def)
  define st1 where "st1 = st\<lparr>fs_minus := False\<rparr>"
  have "transcript_select cfg st1 = Ret (1, st1)"
    by (rule select_end [of st1 t n]) (use t in \<open>simp_all add: st1_def\<close>)
  moreover have "tran_list st1 = [t, n]" using t by (simp add: st1_def)
  ultimately have "transcript_loop cfg env None 0 st1 = Ret (0, st1\<lparr>tran_list := [t, n]\<rparr>)"
    using t by (simp add: transcript_loop.simps [of cfg env None 0 st1] t_compare_def)
  then show ?thesis by (simp add: transcript_free_def transcript_def st1_def)
qed

lemma run_unchanged:
  assumes "at_objects cfg env obs st" "case_sensitive cfg"
    "list_all (\<lambda>(ob, c). obj_fine cfg env (exclude_list st) ob c) obs"
    "ascending_from cfg n (map (\<lambda>(ob, c). seen_as env ob c) obs)"
  shows "\<exists>st'. run_objects cfg env (map fst obs) st = Ret st' \<and> outtran st' = outtran st"
  using assms
proof (induction obs arbitrary: st n)
  case Nil
  with transcript_free_silent [of cfg env st] show ?case by simp
next
  case (Cons o1 obs)
  obtain ob c where o1: "o1 = (ob, c)" by (rule prod.exhaust)
  from transcript_unchanged [of cfg env ob c obs st] Cons.prems obtain e st' where
    "transcript cfg env (Some ob) False st = Ret (e, st')" "at_objects cfg env obs st'"
    "outtran st' = outtran st" "exclude_list st' = exclude_list st"
    by (auto simp: o1)
  with Cons.IH [of st' "pi_name (seen_as env ob c)"] Cons.prems show ?case by (auto simp: o1)
qed

text \<open>The state after \<open>transcript_init\<close> has opened the one transcript \<open>file\<close>.\<close>

lemma open_one:
  assumes "case_sensitive cfg" "length (dbuf st) = MAXPATHLEN" "tran_list st = []"
    "list_all (\<lambda>(ob, c). obj_fine cfg env ex ob c) obs"
    "ascending_from cfg [] (map (\<lambda>(ob, c). seen_as env ob c) obs)"
    "e_text env file = Some (concat (map (\<lambda>(ob, c). line_text (transcript_shell_escapes cfg) (seen_as env ob c)) obs))"
  shows "\<exists>st'. obind (t_new cfg env T_NULL [] [] [] st) (t_new cfg env T_POSITIVE file short kf) = Ret st' \<and>
    at_objects cfg env obs st' \<and> outtran st' = outtran st \<and> exclude_list st' = exclude_list st"
proof -
  define t where "t = new_tran T_POSITIVE file short kf (e_text env file)"
  define st1 where "st1 = st\<lparr>tran_list := [t, new_tran T_NULL [] [] [] None]\<rparr>"
  have "\<exists>st'. parse_at cfg 0 st1 = Ret st' \<and> at_objects cfg env obs st' \<and> outtran st' = outtran st1 \<and>
      exclude_list st' = exclude_list st1"
    by (rule parse_at_next [where ex = ex and t = t and n = "new_tran T_NULL [] [] [] None"])
      (use assms in \<open>simp_all add: st1_def t_def new_tran_def pathinfo0_def\<close>)
  then obtain st2 where st2: "parse_at cfg 0 st1 = Ret st2" "at_objects cfg env obs st2"
    "outtran st2 = outtran st" "exclude_list st2 = exclude_list st" by (auto simp: st1_def)
  then obtain t' buf where p: "transcript_parse cfg t (dbuf st) = Ret (t', buf)" and
    e: "st2 = st1\<lparr>tran_list := [t', new_tran T_NULL [] [] [] None], dbuf := buf\<rparr>"
    by (auto simp: parse_at_def obind_Ret_iff st1_def)
  define st3 where "st3 = st2\<lparr>tran_list := [t'\<lparr>t_num := 1\<rparr>, new_tran T_NULL [] [] [] None]\<rparr>"
  have "at_objects cfg env obs st3"
    using st2(2) e by (auto simp: at_objects_def st3_def split: list.splits)
  moreover have "obind (t_new cfg env T_NULL [] [] [] st) (t_new cfg env T_POSITIVE file short kf) = Ret st3"
    using assms(3,6) p e
    by (simp add: t_new_def link_tran_def new_tran_def t_def st3_def st1_def)
  ultimately show ?thesis using st2 by (auto simp: st3_def)
qed

section \<open>A new transcript\<close>

lemma seen_as_cksum: "(seen_as env ob c)\<lparr>pi_cksum_b64 := d\<rparr> = seen_as env ob d"
  by (cases ob) (simp add: seen_as_def)

lemma seen_as_simps:
  "pi_type (seen_as env (path, s, ty, ai) c) = ty" "pi_name (seen_as env (path, s, ty, ai) c) = path"
  "pi_cksum_b64 (seen_as env ob c) = c"
  by (simp_all add: seen_as_def split: prod.splits)

lemma print_body_fresh:
  assumes "obj_fine cfg env ex ob c"
  shows "\<exists>f. print_body cfg env (seen_as env ob ''-'') fs PR_FS_ONLY False
      (encode_text (transcript_shell_escapes cfg) (pi_name (seen_as env ob c))) =
    Ret (f, line_text (transcript_shell_escapes cfg) (seen_as env ob c))"
proof -
  obtain path s ty ai where ob: "ob = (path, s, ty, ai)" by (cases ob)
  let ?e = "encode_text (transcript_shell_escapes cfg) path" and ?p = "seen_as env ob c" and ?f = "seen_as env ob ''-''"
  have ok: "obj_ok cfg ?p" using assms by (simp add: obj_fine_def ob)
  note pb = print_body_words [OF ok, of env fs]
  have ty: "pi_type ?p = ty" "pi_type ?f = ty" "pi_name ?p = path" "pi_name ?f = path"
    by (simp_all add: ob seen_as_simps)
  show ?thesis
  proof (cases "ty = CHR ''f''")
    case True
    have c: "if cksum cfg then get_cksum env ?f = Ret ?p else ?f = ?p"
      using assms True get_cksum_file [of ?f env c] ty by (auto simp: obj_fine_def ob seen_as_cksum)
    have "hd (pi_cksum_b64 ?p) \<noteq> CHR ''-''" "pi_cksum_b64 ?p \<noteq> []" if "cksum cfg"
      using ok that True ty by (simp_all add: obj_ok_def)
    then have "char_at c 0 \<noteq> CHR ''-''" if "cksum cfg"
      using that by (cases c) (simp_all add: seen_as_simps char_at_def)
    with c have "print_file cfg env ?f fs PR_FS_ONLY False ?e = print_file cfg env ?p fs PR_FS_ONLY False ?e"
      by (simp add: print_file_def seen_as_simps char_at_def split: if_split_asm)
    with True ty have "print_body cfg env ?f fs PR_FS_ONLY False ?e = print_body cfg env ?p fs PR_FS_ONLY False ?e"
      by (simp add: print_body_def)
    with pb ty show ?thesis by simp
  next
    case False
    then have "ty \<in> set ''dpsbcl''" using assms by (auto simp: obj_fine_def ob)
    then have af: "ty \<noteq> CHR ''a''" "ty \<noteq> CHR ''f''" by auto
    have same: "pi_stat ?f = pi_stat ?p" "pi_link ?f = pi_link ?p" by (simp_all add: seen_as_def ob)
    have lw: "line_text sh ?f = line_text sh ?p" for sh
      using af ty same by (simp add: line_text_def line_words_def mode_text_def Let_def)
    have "obj_ok cfg ?f"
      using ok af ty same lw by (simp add: obj_ok_def)
    from print_body_words [OF this, of env fs] lw ty show ?thesis by simp
  qed
qed

lemma t_print_fresh:
  assumes "obj_fine cfg env ex ob c" "edit_path cfg = CREATABLE"
  shows "\<exists>f. t_print cfg env (Some (seen_as env ob ''-'')) t PR_FS_ONLY st =
    Ret (Some f, t, st\<lparr>outtran := outtran st @ line_text (transcript_shell_escapes cfg) (seen_as env ob c)\<rparr>)"
proof -
  obtain path s ty ai where ob: "ob = (path, s, ty, ai)" by (cases ob)
  let ?f = "seen_as env ob ''-''"
  obtain f where f: "print_body cfg env ?f (Some ?f) PR_FS_ONLY False
      (encode_text (transcript_shell_escapes cfg) (pi_name (seen_as env ob c))) =
    Ret (f, line_text (transcript_shell_escapes cfg) (seen_as env ob c))"
    using print_body_fresh [OF assms(1), of "Some ?f"] by blast
  have "pi_name (seen_as env ob c) = path" "pi_name ?f = path" "pi_type ?f = ty"
    by (simp_all add: ob seen_as_simps)
  moreover have "length path < MAXPATHLEN" "ty \<noteq> CHR ''X''"
    using assms(1) by (auto simp: obj_fine_def ob obj_ok_def name_ok_def seen_as_simps)
  ultimately show ?thesis
    using assms(2) f
    by (simp add: t_print_def note_hardlink_def print_tran_name_def pick_cur_def enc_name_short)
qed

text \<open>Only the null transcript is open.\<close>

definition no_transcript :: "tstate \<Rightarrow> bool" where
  "no_transcript st \<longleftrightarrow> (\<exists>n. tran_list st = [n] \<and> t_eof n)"

lemma select_none: "tran_list st = [n] \<Longrightarrow> t_eof n \<Longrightarrow> transcript_select cfg st = Ret (0, st)"
  by (simp add: transcript_select.simps [of cfg st] select_begin_def advance_matching_def select_test_def)

lemma transcript_fresh:
  assumes "no_transcript st" "edit_path cfg = CREATABLE" "obj_fine cfg env (exclude_list st) ob c"
  shows "\<exists>e st'. transcript cfg env (Some ob) False st = Ret (e, st') \<and> no_transcript st' \<and>
    outtran st' = outtran st @ line_text (transcript_shell_escapes cfg) (seen_as env ob c) \<and>
    exclude_list st' = exclude_list st"
proof -
  obtain path s ty ai where ob: "ob = (path, s, ty, ai)" by (cases ob)
  let ?f = "seen_as env ob ''-''" and ?l = "line_text (transcript_shell_escapes cfg) (seen_as env ob c)"
  obtain n where n: "tran_list st = [n]" "t_eof n" using assms(1) by (auto simp: no_transcript_def)
  define st1 where "st1 = st\<lparr>fs_minus := False\<rparr>"
  have t1: "tran_list st1 = [n]" "exclude_list st1 = exclude_list st" "outtran st1 = outtran st"
    by (simp_all add: st1_def n)
  obtain f where f: "t_print cfg env (Some ?f) n PR_FS_ONLY st1 = Ret (Some f, n, st1\<lparr>outtran := outtran st1 @ ?l\<rparr>)"
    using t_print_fresh [OF assms(3,2)] by blast
  have "transcript_loop cfg env (Some ?f) enter st1 =
      Ret (enter, st1\<lparr>outtran := outtran st1 @ ?l, tran_list := [n]\<rparr>)" for enter
    using select_none [OF t1(1) n(2)] f n(2) t1(1)
    by (simp add: transcript_loop.simps [of cfg env "Some ?f" enter st1] t_compare_def)
  moreover have "t_exclude cfg (exclude_list st) path = Ret False"
    using assms(3) by (simp add: obj_fine_def ob)
  ultimately show ?thesis
    using make_pathinfo_fine [OF assms(3) [unfolded ob], of st1] n
    by (simp add: transcript_def ob st1_def no_transcript_def)
qed

lemma run_fresh:
  assumes "no_transcript st" "edit_path cfg = CREATABLE"
    "list_all (\<lambda>(ob, c). obj_fine cfg env (exclude_list st) ob c) obs"
  shows "\<exists>st'. run_objects cfg env (map fst obs) st = Ret st' \<and> outtran st' =
    outtran st @ concat (map (\<lambda>(ob, c). line_text (transcript_shell_escapes cfg) (seen_as env ob c)) obs)"
  using assms
proof (induction obs arbitrary: st)
  case Nil
  then obtain n where n: "tran_list st = [n]" "t_eof n" by (auto simp: no_transcript_def)
  define st1 where "st1 = st\<lparr>fs_minus := False\<rparr>"
  have t1: "tran_list st1 = [n]" by (simp add: st1_def n)
  have "transcript_loop cfg env None 0 st1 = Ret (0, st1\<lparr>tran_list := [n]\<rparr>)"
    using select_none [OF t1 n(2)] n(2) t1
    by (simp add: transcript_loop.simps [of cfg env None 0 st1] t_compare_def)
  then show ?case by (simp add: transcript_free_def transcript_def st1_def)
next
  case (Cons o1 obs)
  obtain ob c where o1: "o1 = (ob, c)" by (rule prod.exhaust)
  from transcript_fresh [OF Cons.prems(1,2), of env ob c] Cons.prems(3) obtain e st' where
    "transcript cfg env (Some ob) False st = Ret (e, st')" "no_transcript st'"
    "outtran st' = outtran st @ line_text (transcript_shell_escapes cfg) (seen_as env ob c)"
    "exclude_list st' = exclude_list st"
    by (auto simp: o1)
  with Cons.IH [of st'] Cons.prems show ?case by (auto simp: o1)
qed

end
