(* ===== verification/LList.thy ===== *)
theory LList
  imports NameSet
begin

text \<open>
  \<open>llist.c\<close> and \<open>fs_insert\<close> of \<open>fsdiff.c\<close>: lists of names kept in order of \<open>strcmp\<close> or \<open>strcasecmp\<close>.
  A list is the sequence of its nodes; allocation succeeds.
\<close>

section \<open>The two orders\<close>

lemma strcmp_key:
  assumes "c_string s" "c_string t"
  shows "strcmp s t < 0 \<longleftrightarrow> map uchar s < map uchar t" "strcmp s t = 0 \<longleftrightarrow> map uchar s = map uchar t"
  using assms
proof (induction s t rule: strcmp.induct)
  case (2 b bs)
  { case 1 then show ?case using uchar_range(1) [of b] uchar_eq_0 [of b] by (simp add: le_less) }
  { case 2 then show ?case by simp }
next
  case (3 a as)
  { case 1 then show ?case using uchar_range(1) [of a] by simp }
  { case 2 then show ?case by simp }
next
  case (4 a as b bs)
  { case 1 with 4 show ?case by auto }
  { case 2 with 4 show ?case by auto }
qed simp_all

lemma strcasecmp_key:
  assumes "c_string s" "c_string t"
  shows "strcasecmp s t < 0 \<longleftrightarrow> map (\<lambda>c. uchar (c_tolower c)) s < map (\<lambda>c. uchar (c_tolower c)) t"
    "strcasecmp s t = 0 \<longleftrightarrow> map (\<lambda>c. uchar (c_tolower c)) s = map (\<lambda>c. uchar (c_tolower c)) t"
  using assms
proof (induction s t rule: strcasecmp.induct)
  case (2 b bs)
  { case 1 then show ?case using uchar_range(1) [of "c_tolower b"] uchar_eq_0 [of "c_tolower b"] by (simp add: le_less) }
  { case 2 then show ?case by simp }
next
  case (3 a as)
  { case 1 then show ?case using uchar_range(1) [of "c_tolower a"] by simp }
  { case 2 then show ?case by simp }
next
  case (4 a as b bs)
  { case 1 with 4 show ?case by auto }
  { case 2 with 4 show ?case by auto }
qed simp_all

lemma path_order_key:
  fixes key :: "string \<Rightarrow> int list"
  assumes less: "\<And>a b. ok a \<Longrightarrow> ok b \<Longrightarrow> cmp a b < 0 \<longleftrightarrow> key a < key b"
    and eq: "\<And>a b. ok a \<Longrightarrow> ok b \<Longrightarrow> cmp a b = 0 \<longleftrightarrow> key a = key b"
  shows "path_order cmp ok"
proof
  have le: "cmp a b \<le> (0 :: int) \<longleftrightarrow> key a \<le> key b" if "ok a" "ok b" for a b
    using less [OF that] eq [OF that] by (auto simp: le_less)
  fix a b c
  show "ok a \<Longrightarrow> cmp a a = 0" using eq by simp
  show "ok a \<Longrightarrow> ok b \<Longrightarrow> cmp a b < 0 \<longleftrightarrow> 0 < cmp b a"
    using less [of a b] le [of b a] by (simp flip: not_le)
  show "ok a \<Longrightarrow> ok b \<Longrightarrow> ok c \<Longrightarrow> cmp a b \<le> 0 \<Longrightarrow> cmp b c \<le> 0 \<Longrightarrow> cmp a c \<le> 0"
    using le by (meson order_trans)
qed

interpretation so: path_order strcmp c_string
  by (rule path_order_key [where key = "map uchar"]) (use strcmp_key in auto)

interpretation co: path_order strcasecmp c_string
  by (rule path_order_key [where key = "map (\<lambda>c. uchar (c_tolower c))"]) (use strcasecmp_key in auto)

section \<open>Insertion\<close>

text \<open>Both functions put the new entry before the first one that is not smaller.\<close>

fun ll_insert :: "string list \<Rightarrow> string \<Rightarrow> string list" where
  "ll_insert [] new = [new]"
| "ll_insert (c # cs) new = (if strcmp new c \<le> 0 then new # c # cs else c # ll_insert cs new)"

fun ll_insert_case :: "string list \<Rightarrow> string \<Rightarrow> string list" where
  "ll_insert_case [] new = [new]"
| "ll_insert_case (c # cs) new =
     (if strcasecmp new c \<le> 0 then new # c # cs else c # ll_insert_case cs new)"

text \<open>
  \<open>strcpy\<close> of a name of \<open>MAXPATHLEN\<close> characters or more writes behind the node's buffer.
\<close>

definition ll_allocate :: "string \<Rightarrow> string outcome" where
  "ll_allocate name = (if MAXPATHLEN \<le> length name then UB else Ret name)"

context path_order begin

fun insert_before :: "string \<Rightarrow> string list \<Rightarrow> string list" where
  "insert_before p [] = [p]"
| "insert_before p (q # qs) = (if cmp p q \<le> 0 then p # q # qs else q # insert_before p qs)"

lemma set_insert_before [simp]: "set (insert_before p qs) = insert p (set qs)"
  by (induction qs) auto

lemma ascending_insert_before:
  assumes "ascending qs" "ok p" "\<forall>q \<in> set qs. ok q"
  shows "ascending (insert_before p qs)"
  using assms
proof (induction qs)
  case (Cons q qs)
  show ?case
  proof (cases "cmp p q \<le> 0")
    case True
    have "cmp p r \<le> 0" if "r \<in> set qs" for r
      using cmp_trans [of p q r] True that Cons.prems by auto
    with True Cons.prems show ?thesis by simp
  next
    case False
    then have "cmp q p \<le> 0" using cmp_flip [of q p] Cons.prems by auto
    with False Cons show ?thesis by auto
  qed
qed simp

text \<open>
  Searching from behind an entry that is smaller than the new one finds the same place, so a
  hint where to start does not change the result.
\<close>

lemma insert_before_skip:
  assumes "ascending (ps @ q # qs)" "\<forall>r \<in> set (ps @ q # qs). ok r" "ok p" "0 < cmp p q"
  shows "insert_before p (ps @ q # qs) = ps @ q # insert_before p qs"
  using assms
proof (induction ps)
  case (Cons r ps)
  have "0 < cmp p r"
  proof -
    have "cmp r q \<le> 0" using Cons.prems(1) by auto
    moreover have "cmp q p < 0" using cmp_flip [of q p] Cons.prems by auto
    ultimately have "cmp r p < 0" using cmp_le_less_trans [of r q p] Cons.prems by auto
    then show ?thesis using cmp_flip [of r p] Cons.prems by auto
  qed
  with Cons show ?case by simp
qed simp

end

lemma ll_insert_before: "ll_insert cs new = so.insert_before new cs"
  by (induction cs) simp_all

lemma ll_insert_case_before: "ll_insert_case cs new = co.insert_before new cs"
  by (induction cs) simp_all

end
