(* ===== verification/Fsdiff.thy ===== *)
theory Fsdiff
  imports TranscriptDiff LList "HOL-Library.Multiset"
begin

text \<open>
  \<open>fsdiff.c\<close>: the walk over the file system, which hands every object to \<open>transcript\<close>, and the
  path it starts from. The progress output of \<open>-%\<close> is not modelled. \<open>chdir\<close> into a directory
  followed by \<open>lstat\<close> of a name in it is \<open>lstat\<close> of the joined path.
\<close>

section \<open>Directory entries in order\<close>

type_synonym fs_entry = "string \<times> stat \<times> char"

text \<open>
  \<open>hint\<close> is the place of the entry inserted before, where the search starts when the new name
  comes behind it.
\<close>

definition fs_insert ::
  "fs_entry list \<Rightarrow> nat option \<Rightarrow> fs_entry \<Rightarrow> (string \<Rightarrow> string \<Rightarrow> int) \<Rightarrow> nat \<times> fs_entry list" where
  "fs_insert l hint new cmp =
     (let start = (case hint of
                     Some i \<Rightarrow> if 0 < cmp (fst new) (fst (l ! i)) then Suc i else 0
                   | None \<Rightarrow> 0);
          k = start + length (takeWhile (\<lambda>e. 0 < cmp (fst new) (fst e)) (drop start l))
      in (k, take k l @ new # drop k l))"

context path_order begin

lemma insert_before_takeWhile:
  "(let k = length (takeWhile (\<lambda>q. 0 < cmp p q) qs) in take k qs @ p # drop k qs) = insert_before p qs"
  by (induction qs) (auto simp: Let_def)

lemma fs_insert_names:
  assumes "ascending (map fst l)" "\<forall>e \<in> set l. ok (fst e)" "ok (fst new)"
    "case hint of None \<Rightarrow> True | Some i \<Rightarrow> i < length l"
    and ins: "fs_insert l hint new cmp = (k, l')"
  shows "map fst l' = insert_before (fst new) (map fst l)" "k < length l'" "l' ! k = new"
    "set l' = insert new (set l)"
proof -
  define start where "start = (case hint of
      Some i \<Rightarrow> if 0 < cmp (fst new) (fst (l ! i)) then Suc i else 0 | None \<Rightarrow> 0)"
  let ?n = "length (takeWhile (\<lambda>e. 0 < cmp (fst new) (fst e)) (drop start l))"
  have k: "k = start + ?n" and l': "l' = take k l @ new # drop k l"
    using ins by (auto simp: fs_insert_def start_def Let_def)
  have sl: "start \<le> length l" using assms(4) by (auto simp: start_def split: option.splits)
  then have kl: "k \<le> length l" using length_takeWhile_le [of _ "drop start l"] k by (simp add: le_diff_conv2 add.commute)
  then show "k < length l'" "l' ! k = new" by (simp_all add: l' nth_append)
  show "set l' = insert new (set l)"
  proof -
    have "set l = set (take k l) \<union> set (drop k l)" by (metis append_take_drop_id set_append)
    then show ?thesis by (auto simp: l')
  qed
  have tw: "?n = length (takeWhile (\<lambda>q. 0 < cmp (fst new) q) (map fst (drop start l)))"
    by (simp add: takeWhile_map comp_def)
  have "map fst l' = take start (map fst l) @ insert_before (fst new) (drop start (map fst l))"
    using insert_before_takeWhile [of "fst new" "map fst (drop start l)"] tw sl
    by (simp add: l' k Let_def take_add take_map drop_map add.commute)
  also have "\<dots> = insert_before (fst new) (map fst l)"
  proof (cases "start = 0")
    case False
    then obtain i where i: "hint = Some i" "start = Suc i" "0 < cmp (fst new) (fst (l ! i))"
      by (auto simp: start_def split: option.splits if_splits)
    with assms(4) have il: "i < length l" by simp
    have e: "map fst l = take i (map fst l) @ fst (l ! i) # drop (Suc i) (map fst l)"
      using id_take_nth_drop [of i "map fst l"] il by simp
    have "insert_before (fst new) (take i (map fst l) @ fst (l ! i) # drop (Suc i) (map fst l)) =
        take i (map fst l) @ fst (l ! i) # insert_before (fst new) (drop (Suc i) (map fst l))"
      by (rule insert_before_skip) (use assms(1-3) i(3) in \<open>simp_all only: e [symmetric] set_map ball_simps fst_conv\<close>)
    moreover have "take start (map fst l) = take i (map fst l) @ [fst (l ! i)]"
      using i(2) il by (simp add: take_Suc_conv_app_nth)
    ultimately show ?thesis using e i(2) by (metis append.assoc append_Cons append_Nil)
  qed simp
  finally show "map fst l' = insert_before (fst new) (map fst l)" .
qed

end

section \<open>\<open>canonicalized_path\<close>\<close>

text \<open>
  The static buffer is the bytes it holds. \<open>strcpy\<close> writes the path and its terminator;
  \<open>memmove\<close> shifts the path by two, without the terminator.
\<close>

definition poke :: "string \<Rightarrow> nat \<Rightarrow> string \<Rightarrow> string" where
  "poke buf at s = take at buf @ s @ drop (at + length s) buf"

definition canon_format :: "string \<Rightarrow> nat \<Rightarrow> tformat" where
  "canon_format cpath len =
     (if char_at cpath 0 = CHR ''.''
      then (if len = 1 then T_RELATIVE
            else if char_at cpath 1 = SLASH then T_RELATIVE else T_ABSOLUTE)
      else T_ABSOLUTE)"

definition canonicalized_path :: "string \<Rightarrow> string option \<Rightarrow> (string option \<times> tformat option \<times> string) outcome" where
  "canonicalized_path buf path =
     (case path of
        None \<Rightarrow> Ret (None, None, buf)
      | Some path \<Rightarrow>
          if MAXPATHLEN \<le> length path then Exit 2
          else let buf = poke buf 0 (path @ [NUL]); len = length path;
                   clip = (1 < len \<and> buf ! (len - 1) = SLASH);
                   buf = (if clip then poke buf (len - 1) [NUL] else buf);
                   len = (if clip then len - 1 else len)
               in if buf ! 0 = SLASH \<or> buf ! 0 = CHR ''.'' \<and> (len = 1 \<or> buf ! 1 = SLASH)
                  then Ret (Some (cstr buf), Some (canon_format buf len), buf)
                  else if MAXPATHLEN \<le> len + 2 then Exit 2
                  else let buf = poke (poke buf 2 (take len buf)) 0 ''./''
                       in Ret (Some (cstr buf), Some (canon_format buf len), buf))"

section \<open>\<open>fs_walk\<close>\<close>

definition join_path :: "string \<Rightarrow> string \<Rightarrow> string option outcome" where
  "join_path path name =
     (if path = [] then UB
      else Ret (snprintf MAXPATHLEN (if last path = SLASH then path @ name else path @ SLASH # name)))"

definition no_finfo :: "byte list" where
  "no_finfo = replicate FINFOLEN 0"

text \<open>An entry is entered with what \<open>radstat\<close> says of it; a vanished one has type \<open>X\<close>.\<close>

definition dir_entry :: "'c env \<Rightarrow> string \<Rightarrow> string \<Rightarrow> fs_entry outcome" where
  "dir_entry env path name =
     (case radstat (e_lstat env) (if path \<noteq> [] \<and> last path = SLASH then path @ name else path @ SLASH # name)
             stat0 NUL of
        (rc, s, ty, e) \<Rightarrow>
          if rc = 0 then Ret (name, s, ty)
          else if rc = 1 then Exit 2
          else if e = Some ENOTDIR \<or> e = Some ENOENT then Ret (name, s, ty) else Exit 2)"

fun read_entries ::
  "'c env \<Rightarrow> (string \<Rightarrow> string \<Rightarrow> int) \<Rightarrow> string \<Rightarrow> string list \<Rightarrow> fs_entry list \<Rightarrow> nat option \<Rightarrow>
    fs_entry list outcome" where
  "read_entries env cmp path [] l hint = Ret l"
| "read_entries env cmp path (d # ds) l hint =
     (if strcmp d ''.'' = 0 \<or> strcmp d ''..'' = 0 then read_entries env cmp path ds l hint
      else obind (dir_entry env path d) (\<lambda>e.
        let (k, l') = fs_insert l hint e cmp in read_entries env cmp path ds l' (Some k)))"

definition read_dir :: "config \<Rightarrow> 'c env \<Rightarrow> string \<Rightarrow> fs_entry list outcome" where
  "read_dir cfg env path =
     (case e_readdir env path of
        None \<Rightarrow> Exit 2
      | Some ds \<Rightarrow>
          read_entries env (if case_sensitive cfg then strcmp else strcasecmp) path ds [] None)"

fun walk_entries ::
  "(obj \<Rightarrow> bool \<Rightarrow> tstate \<Rightarrow> tstate outcome) \<Rightarrow> string \<Rightarrow> bool \<Rightarrow> fs_entry list \<Rightarrow> tstate \<Rightarrow> tstate outcome" where
  "walk_entries walk path del_parent [] st = Ret st"
| "walk_entries walk path del_parent ((name, s, ty) # es) st =
     obind (join_path path name) (\<lambda>temp.
       case temp of
         None \<Rightarrow> Exit 2
       | Some temp \<Rightarrow>
           obind (walk (temp, s, ty, no_finfo) del_parent st) (walk_entries walk path del_parent es))"

text \<open>
  A directory of a negative transcript is not read: only the objects that transcripts list
  below it are looked at.
\<close>

fun walk_negative ::
  "nat \<Rightarrow> config \<Rightarrow> 'c env \<Rightarrow> (obj \<Rightarrow> bool \<Rightarrow> tstate \<Rightarrow> tstate outcome) \<Rightarrow> string \<Rightarrow> bool \<Rightarrow> tstate \<Rightarrow>
    tstate outcome" where
  "walk_negative 0 cfg env walk path pdel st = UB"
| "walk_negative (Suc n) cfg env walk path pdel st =
     obind (transcript_select cfg st) (\<lambda>(b, st).
       let t = tran_list st ! b; temp = pi_name (t_pinfo t) in
       if t_eof t then Ret st
       else if ischildcase temp (Some path) (case_sensitive cfg) then
         (case radstat (e_lstat env) temp stat0 NUL of
            (rc, s, ty, e) \<Rightarrow>
              if rc = 0 \<or> rc \<noteq> 1 \<and> (e = Some ENOTDIR \<or> e = Some ENOENT)
              then obind (walk (temp, s, ty, no_finfo) pdel st) (walk_negative n cfg env walk path pdel)
              else Exit 2)
       else Ret st)"

text \<open>The number bounds the depth of the recursion and the steps in a negative directory.\<close>

primrec fs_walk :: "nat \<Rightarrow> config \<Rightarrow> 'c env \<Rightarrow> obj \<Rightarrow> bool \<Rightarrow> tstate \<Rightarrow> tstate outcome" where
  "fs_walk 0 cfg env ob pdel st = UB"
| "fs_walk (Suc n) cfg env ob pdel st =
     obind (transcript cfg env (Some ob) pdel st) (\<lambda>(r, st).
       if r = 2 then walk_negative n cfg env (fs_walk n cfg env) (fst ob) pdel st
       else if r = 0 then Ret st
       else if r = 1 then
         (if skip cfg \<noteq> 0 then Ret st
          else obind (read_dir cfg env (fst ob)) (\<lambda>es.
            walk_entries (fs_walk n cfg env) (fst ob) (fs_minus st) es st))
       else Exit 2)"

section \<open>Facts\<close>

text \<open>The entries of a directory come in order, each once, whatever order \<open>readdir\<close> has.\<close>

lemma dir_entry_name: "dir_entry env path d = Ret e \<Longrightarrow> fst e = d"
  by (auto simp: dir_entry_def split: prod.splits if_splits)

definition dotless :: "string list \<Rightarrow> string list" where
  "dotless ds = filter (\<lambda>d. d \<noteq> ''.'' \<and> d \<noteq> ''..'') ds"

context path_order begin

lemma read_entries_names:
  assumes "read_entries env cmp path ds l hint = Ret l'"
    "ascending (map fst l)" "\<forall>e \<in> set l. ok (fst e)" "\<forall>d \<in> set ds. ok d \<and> c_string d"
    "case hint of None \<Rightarrow> True | Some i \<Rightarrow> i < length l"
  shows "ascending (map fst l') \<and> mset (map fst l') = mset (map fst l) + mset (dotless ds)"
  using assms
proof (induction ds arbitrary: l hint)
  case Nil
  then show ?case by (simp add: dotless_def)
next
  case (Cons d ds)
  have d: "strcmp d ''.'' = 0 \<longleftrightarrow> d = ''.''" "strcmp d ''..'' = 0 \<longleftrightarrow> d = ''..''"
    using Cons.prems(4) by (simp_all add: strcmp_0)
  show ?case
  proof (cases "d = ''.'' \<or> d = ''..''")
    case True
    with Cons d show ?thesis by (auto simp: dotless_def)
  next
    case False
    with Cons.prems(1) d obtain e where e: "dir_entry env path d = Ret e" and
      r: "(let (k, l') = fs_insert l hint e cmp in read_entries env cmp path ds l' (Some k)) = Ret l'"
      by (auto simp: obind_Ret_iff)
    obtain k l1 where ins: "fs_insert l hint e cmp = (k, l1)" by force
    have fe: "fst e = d" by (rule dir_entry_name) (rule e)
    note fi = fs_insert_names [OF Cons.prems(2,3) _ Cons.prems(5) ins]
    from Cons.prems(4) fe have okd: "ok (fst e)" by simp
    note fi = fi [OF okd]
    have m: "mset (insert_before p qs) = add_mset p (mset qs)" for p qs by (induction qs) auto
    have "ascending (map fst l') \<and> mset (map fst l') = mset (map fst l1) + mset (dotless ds)"
      by (rule Cons.IH [of l1 "Some k"])
        (use r ins fi okd Cons.prems(2-4) ascending_insert_before [of "map fst l" "fst e"] in auto)
    with fi fe False m show ?thesis by (simp add: dotless_def)
  qed
qed

end

end
