(* ===== verification/FsdiffDepth.thy ===== *)
theory FsdiffDepth
  imports Fsdiff
begin

text \<open>
  The depth bound of \<open>fs_walk\<close>. Every level of the recursion has a longer path and no path reaches
  \<open>MAXPATHLEN\<close>, so the bound is never met as long as no transcript is negative.
\<close>

section \<open>The kinds of the transcripts stay\<close>

definition types :: "tstate \<Rightarrow> ttype list" where
  "types st = map t_type (tran_list st)"

lemma parse_line_type: "parse_line cfg t av buf = Ret (t', buf') \<Longrightarrow> t_type t' = t_type t"
  by (auto simp: parse_line_def Let_def outcome_simps split: if_splits option.splits prod.splits)

lemma transcript_parse_type: "transcript_parse cfg t buf = Ret (t', buf') \<Longrightarrow> t_type t' = t_type t"
  by (auto simp: transcript_parse_def outcome_simps Let_def dest!: parse_line_type split: option.splits)

lemma types_update: "t_type t = t_type (tran_list st ! b) \<Longrightarrow> types (st\<lparr>tran_list := (tran_list st)[b := t]\<rparr>) = types st"
  by (cases "b < length (tran_list st)") (auto simp: types_def nth_list_update intro!: nth_equalityI)

lemma parse_at_types: "parse_at cfg b st = Ret st' \<Longrightarrow> types st' = types st"
  using types_update
  by (fastforce simp: parse_at_def outcome_simps types_def dest!: transcript_parse_type)

lemma parse_matching_types: "parse_matching cfg name ts buf = Ret (ts', buf') \<Longrightarrow> map t_type ts' = map t_type ts"
  by (induction ts arbitrary: ts' buf buf')
    (fastforce simp: outcome_simps dest: transcript_parse_type split: if_splits)+

lemma advance_matching_types: "advance_matching cfg b st = Ret st' \<Longrightarrow> types st' = types st"
  by (auto simp: advance_matching_def outcome_simps types_def dest!: parse_matching_types)
     (metis append_take_drop_id map_append)

lemma warn_types [simp]: "types (warn_excluded cfg p st) = types st"
  by (simp add: types_def warn_excluded_def)

lemma transcript_select_types: "transcript_select cfg st = Ret (b, st') \<Longrightarrow> types st' = types st"
proof (induction cfg st rule: transcript_select.induct)
  case (1 cfg st)
  then have ne: "tran_list st \<noteq> []" by (auto simp: transcript_select.simps [of cfg st])
  define b0 where "b0 = select_begin cfg (tran_list st)"
  from "1.prems" ne obtain st1 sk where a: "advance_matching cfg b0 st = Ret st1" and
    t: "select_test cfg st1 (tran_list st1 ! b0) = Ret sk"
    by (auto simp: transcript_select.simps [of cfg st] Let_def b0_def obind_Ret_iff)
  note IH = "1.IH" [OF ne b0_def a t]
  show ?case
    using "1.prems" ne a t IH advance_matching_types [OF a]
    by (cases sk) (fastforce simp: transcript_select.simps [of cfg st] Let_def b0_def [symmetric] obind_Ret_iff
        dest: parse_at_types)+
qed

lemma transcript_loop_types:
  "transcript_loop cfg env fs enter st = Ret (r, st') \<Longrightarrow>
     types st' = types st \<and> (T_NEGATIVE \<notin> set (types st) \<longrightarrow> r = enter)"
proof (induction cfg env fs enter st rule: transcript_loop.induct)
  case (1 cfg env fs enter st)
  from "1.prems" obtain b st1 where s: "transcript_select cfg st = Ret (b, st1)"
    by (auto simp: transcript_loop.simps [of cfg env fs] obind_Ret_iff)
  with "1.prems" obtain mv fs' t st2 where c: "t_compare cfg env fs (tran_list st1 ! b) st1 = Ret (mv, fs', t, st2)"
    by (auto simp: transcript_loop.simps [of cfg env fs] obind_Ret_iff)
  define st3 where "st3 = st2\<lparr>tran_list := (tran_list st2)[b := t]\<rparr>"
  note k = t_compare_keeps [OF c]
  have b: "b < length (tran_list st1)" using transcript_select_less [OF s] by simp
  have ty: "t_type t = t_type (tran_list st1 ! b)" using k(2) by auto
  have t3: "types st3 = types st"
    using transcript_select_types [OF s] k(1) types_update [of t st2 b] ty
    by (simp add: st3_def same_state_def types_def)
  have neg: "t_type t \<noteq> T_NEGATIVE" if "T_NEGATIVE \<notin> set (types st)"
    using that ty b transcript_select_types [OF s] by (auto simp: types_def) (metis nth_mem imageI list.set_map)
  show ?case
  proof (cases mv)
    case T_MOVE_TRAN
    with "1.prems" s c obtain st4 where st4: "parse_at cfg b st3 = Ret st4"
      "transcript_loop cfg env fs' enter st4 = Ret (r, st')"
      by (auto simp: transcript_loop.simps [of cfg env fs] obind_Ret_iff st3_def Let_def)
    from "1.IH" [OF s refl c refl refl refl st3_def T_MOVE_TRAN st4] parse_at_types [OF st4(1)] t3 show ?thesis by simp
  qed (use "1.prems" s c t3 neg in \<open>auto simp: transcript_loop.simps [of cfg env fs] obind_Ret_iff st3_def [symmetric]
        Let_def dest!: parse_at_types\<close>)
qed

lemma make_pathinfo_types: "make_pathinfo env path s ty ai st = Ret (p, st') \<Longrightarrow> types st' = types st"
  by (auto simp: make_pathinfo_def Let_def types_def split: prod.splits option.splits if_splits)

lemma transcript_types:
  assumes "transcript cfg env (Some ob) pdel st = Ret (r, st')"
  shows "types st' = types st" "T_NEGATIVE \<notin> set (types st) \<Longrightarrow> r \<noteq> 2"
proof -
  have [simp]: "types (st\<lparr>fs_minus := False\<rparr>) = types st" by (simp add: types_def)
  have "types st' = types st \<and> (T_NEGATIVE \<notin> set (types st) \<longrightarrow> r \<noteq> 2)"
    using assms
    by (cases ob) (auto simp: transcript_def Let_def obind_Ret_iff split: if_splits
        dest!: transcript_select_types make_pathinfo_types transcript_loop_types)
  then show "types st' = types st" "T_NEGATIVE \<notin> set (types st) \<Longrightarrow> r \<noteq> 2" by blast+
qed

section \<open>The bound is never met\<close>

definition no_negative :: "tstate \<Rightarrow> bool" where
  "no_negative st \<longleftrightarrow> T_NEGATIVE \<notin> set (types st)"

text \<open>Two walks that agree below a path, and keep the kinds of the transcripts, agree on a directory.\<close>

definition agree_below :: "string \<Rightarrow> (obj \<Rightarrow> bool \<Rightarrow> tstate \<Rightarrow> tstate outcome) \<Rightarrow>
    (obj \<Rightarrow> bool \<Rightarrow> tstate \<Rightarrow> tstate outcome) \<Rightarrow> bool" where
  "agree_below path w w' \<longleftrightarrow> (\<forall>ob pdel st. no_negative st \<longrightarrow>
     length path < length (fst ob) \<longrightarrow> length (fst ob) < MAXPATHLEN \<longrightarrow>
     w ob pdel st = w' ob pdel st \<and> (\<forall>st'. w ob pdel st = Ret st' \<longrightarrow> no_negative st'))"

lemma join_path_longer:
  "join_path path name = Ret (Some temp) \<Longrightarrow> name \<noteq> [] \<or> last path \<noteq> SLASH \<Longrightarrow>
     length path < length temp \<and> length temp < MAXPATHLEN"
  by (auto simp: join_path_def snprintf_def split: if_splits)

lemma walk_entries_agree:
  "agree_below path w w' \<Longrightarrow> no_negative st \<Longrightarrow> [] \<notin> fst ` set es \<Longrightarrow>
     walk_entries w path dp es st = walk_entries w' path dp es st \<and>
     (\<forall>st'. walk_entries w path dp es st = Ret st' \<longrightarrow> no_negative st')"
proof (induction w path dp es st rule: walk_entries.induct)
  case (2 walk path dp name s ty es st)
  show ?case
  proof (cases "join_path path name")
    case (Ret t)
    show ?thesis
    proof (cases t)
      case (Some temp)
      with Ret join_path_longer "2.prems"(3) have "length path < length temp" "length temp < MAXPATHLEN" by auto
      with "2.prems"(1,2) have w: "walk (temp, s, ty, no_finfo) dp st = w' (temp, s, ty, no_finfo) dp st"
        "\<And>st'. walk (temp, s, ty, no_finfo) dp st = Ret st' \<Longrightarrow> no_negative st'"
        by (auto simp: agree_below_def)
      with "2.IH" [OF Ret Some _ "2.prems"(1)] "2.prems"(3) Ret Some show ?thesis
        by (cases "w' (temp, s, ty, no_finfo) dp st") auto
    qed (use Ret in simp)
  qed simp_all
qed simp

lemma fs_insert_set: "fs_insert l hint e cmp = (k, l') \<Longrightarrow> set l' = insert e (set l)"
proof -
  have "set (take n l @ e # drop n l) = insert e (set l)" for n
    by (metis append_take_drop_id list.simps(15) set_append Un_insert_right)
  then show "fs_insert l hint e cmp = (k, l') \<Longrightarrow> set l' = insert e (set l)"
    unfolding fs_insert_def Let_def by blast
qed

lemma read_entries_set:
  "read_entries env cmp path ds l hint = Ret l' \<Longrightarrow> fst ` set l' \<subseteq> fst ` set l \<union> set ds"
proof (induction env cmp path ds l hint rule: read_entries.induct)
  case (2 env cmp path d ds l hint)
  show ?case
  proof (cases "strcmp d ''.'' = 0 \<or> strcmp d ''..'' = 0")
    case False
    with "2.prems" obtain e where e: "dir_entry env path d = Ret e" by (auto simp: obind_Ret_iff)
    obtain k l1 where i: "fs_insert l hint e cmp = (k, l1)" by force
    from "2.IH" (2) [OF False e i [symmetric]] "2.prems" False e i fs_insert_set [OF i] dir_entry_name [OF e]
    show ?thesis by auto
  qed (use 2 in auto)
qed simp

lemma read_dir_named:
  "read_dir cfg env path = Ret es \<Longrightarrow> (\<And>ds. e_readdir env path = Some ds \<Longrightarrow> [] \<notin> set ds) \<Longrightarrow> [] \<notin> fst ` set es"
  by (auto simp: read_dir_def split: option.splits dest!: read_entries_set)

lemma fs_walk_agree:
  assumes "\<And>p ds. e_readdir env p = Some ds \<Longrightarrow> [] \<notin> set ds"
  shows "0 < n \<Longrightarrow> MAXPATHLEN \<le> n + length (fst ob) \<Longrightarrow> n \<le> m \<Longrightarrow> no_negative st \<Longrightarrow>
    fs_walk n cfg env ob pdel st = fs_walk m cfg env ob pdel st \<and>
    (\<forall>st'. fs_walk n cfg env ob pdel st = Ret st' \<longrightarrow> no_negative st')"
proof (induction n arbitrary: m ob pdel st)
  case (Suc n)
  then obtain m' where m: "m = Suc m'" "n \<le> m'" by (cases m) auto
  have agree: "agree_below (fst ob) (fs_walk n cfg env) (fs_walk m' cfg env)"
    unfolding agree_below_def using Suc.prems(2) m(2) by (intro allI impI Suc.IH) auto
  show ?case
  proof (cases "transcript cfg env (Some ob) pdel st")
    case (Ret x)
    then obtain r st1 where t: "transcript cfg env (Some ob) pdel st = Ret (r, st1)" by (cases x) simp
    note ty = transcript_types [OF t]
    with Suc.prems(4) have "no_negative st1" "r \<noteq> 2" by (auto simp: no_negative_def)
    moreover from this have "walk_entries (fs_walk n cfg env) (fst ob) dp es st1 = walk_entries (fs_walk m' cfg env) (fst ob) dp es st1 \<and>
        (\<forall>st'. walk_entries (fs_walk n cfg env) (fst ob) dp es st1 = Ret st' \<longrightarrow> no_negative st')"
      if "read_dir cfg env (fst ob) = Ret es" for es dp
      using walk_entries_agree [OF agree _ read_dir_named [OF that]] assms by blast
    ultimately show ?thesis using t m(1) by (cases "read_dir cfg env (fst ob)") auto
  qed (use m in simp_all)
qed simp

end
