(* ===== verification/Trace.thy ===== *)
theory Trace
  imports PathInfo
begin

text \<open>
  The system as the code meets it: a program's run is the sequence of the calls it has made
  with their results, and an environment is a function that answers the next call from this
  history. The file system, the peer of a connection, PAM, TLS and zlib are such environments; nothing
  is assumed about them unless a theorem says so. Also \<open>mkdirs.c\<close>, which only
  make calls.
\<close>

section \<open>Calls\<close>

datatype call =
    Open string
  | Create string
  | Fopen string
  | SnetOpen string
  | Fstat string
  | Close string
  | Write string string
  | Stat string
  | Lstat string
  | Access string
  | Select
  | SnetClose
  | Mkdir string "32 word"
  | Unlink string
  | Rmdir string
  | Opendir string
  | Chmod string "32 word"
  | Chown string "32 word" "32 word"
  | Lchown string "32 word" "32 word"
  | Link string string
  | Symlink string string
  | Mknod string "32 word" "32 word \<times> 32 word"
  | Mkfifo string "32 word"
  | Utime string int
  | Rename string string
  | Send string
  | GetLine
  | Recv nat
  | SetNoDelay bool
  | Gethostname
  | StartTls
  | SetCompression int
  | PamStart string
  | PamAuth "string option list"
  | PamAcct "string option list"
  | PamEnd
  | Syslog string

datatype event = Did call "errno option"

type_synonym history = "event list"

text \<open>
  The answers. \<open>os_err\<close> is \<open>None\<close> for success. The other answers carry data: of a successful \<open>stat\<close>
  the information, of an open file the results of the \<open>read\<close> calls or its text, of a connection the
  next line or bytes and whether \<open>select\<close> finds it readable, of a TLS handshake the peer's subject and common name (\<open>None\<close> without a
  certificate), of a PAM call the prompts of each conversation it starts.
\<close>

datatype pam_style = PAM_PROMPT_ECHO_OFF | PAM_PROMPT_ECHO_ON | PAM_TEXT_INFO | PAM_ERROR_MSG | PAM_OTHER

record os =
  os_err :: "history \<Rightarrow> call \<Rightarrow> errno option"
  os_stat :: "history \<Rightarrow> string \<Rightarrow> stat"
  os_lstat :: "history \<Rightarrow> string \<Rightarrow> errno + stat"
  os_bytes :: "history \<Rightarrow> string \<Rightarrow> read_result list"
  os_text :: "history \<Rightarrow> string \<Rightarrow> string"
  os_lines :: "history \<Rightarrow> string \<Rightarrow> string list"
  os_dir :: "history \<Rightarrow> string \<Rightarrow> string list"
  os_line :: "history \<Rightarrow> string"
  os_recv :: "history \<Rightarrow> string"
  os_ready :: "history \<Rightarrow> bool"
  os_peer :: "history \<Rightarrow> (string \<times> string option) option"
  os_conv :: "history \<Rightarrow> pam_style list list"
  os_strerror :: "errno \<Rightarrow> string"
  os_errtext :: "history \<Rightarrow> string"
  os_hostname :: string

definition answer :: "os \<Rightarrow> call \<Rightarrow> history \<Rightarrow> errno option \<times> history" where
  "answer os c h = (let r = os_err os h c in (r, h @ [Did c r]))"

lemma answer_split: "answer os c h = (os_err os h c, h @ [Did c (os_err os h c)])"
  by (simp add: answer_def Let_def)

text \<open>What a piece of code adds to the trace.\<close>

definition grows :: "(call \<Rightarrow> bool) \<Rightarrow> history \<Rightarrow> history \<Rightarrow> bool" where
  "grows P h h' \<longleftrightarrow> (\<exists>es. h' = h @ es \<and> (\<forall>c e. Did c e \<in> set es \<longrightarrow> P c))"

lemma grows_refl [simp]: "grows P h h"
  by (simp add: grows_def)

lemma grows_trans: "grows P h1 h2 \<Longrightarrow> grows P h2 h3 \<Longrightarrow> grows P h1 h3"
  unfolding grows_def by fastforce

lemma grows_mono: "grows P h h' \<Longrightarrow> (\<And>c. P c \<Longrightarrow> Q c) \<Longrightarrow> grows Q h h'"
  unfolding grows_def by blast

lemma grows_answer: "answer os c h1 = (e, h2) \<Longrightarrow> P c \<Longrightarrow> grows P h h1 \<Longrightarrow> grows P h h2"
  unfolding grows_def by (fastforce simp: answer_split)

text \<open>Bytes as characters.\<close>

definition chars_of :: "byte list \<Rightarrow> string" where
  "chars_of bs = map (\<lambda>b. char_of (unat b)) bs"

text \<open>The data of the \<open>Send\<close> and \<open>Write\<close> calls of a piece of trace.\<close>

fun sent :: "history \<Rightarrow> string" where
  "sent [] = []"
| "sent (Did (Send t) e # h) = t @ sent h"
| "sent (x # h) = sent h"

fun written :: "string \<Rightarrow> history \<Rightarrow> string" where
  "written p [] = []"
| "written p (Did (Write q d) None # h) = (if q = p then d else []) @ written p h"
| "written p (x # h) = written p h"

lemma sent_append: "sent (h @ k) = sent h @ sent k"
  by (induction h rule: sent.induct) simp_all

lemma written_append: "written p (h @ k) = written p h @ written p k"
  by (induction p h rule: written.induct) simp_all

section \<open>\<open>mkdirs\<close>\<close>

text \<open>
  \<open>mkdirs\<close> makes the directories above the last component. It tries the longest prefix first
  and goes up while a parent is missing, then comes down again. \<open>prefixes path\<close> are the places
  of the slashes, from the right, as the text before each.
\<close>

fun prefixes :: "string \<Rightarrow> string list" where
  "prefixes [] = []"
| "prefixes (c # s) = map (Cons c) (prefixes s) @ (if c = SLASH then [[]] else [])"

text \<open>
  Upwards: the result is the list of prefixes still to be made, below the one that exists now. A
  failure leaves \<open>path\<close> cut off at the prefix that was tried last, \<open>cur\<close>; without a
  slash \<open>errno\<close> is \<open>EINVAL\<close>.
\<close>

fun mkdirs_up ::
  "os \<Rightarrow> string list \<Rightarrow> string \<Rightarrow> string list \<Rightarrow> history \<Rightarrow> ((errno \<times> string) + string list) \<times> history" where
  "mkdirs_up os [] cur todo h = (Inl (EOTHER, cur), h)"
| "mkdirs_up os (p # ps) cur todo h =
     (case answer os (Mkdir p 0x1FF) h of
        (None, h) \<Rightarrow> (Inr todo, h)
      | (Some e, h) \<Rightarrow>
          if e = EEXIST then (Inr todo, h)
          else if e \<noteq> ENOENT then (Inl (e, p), h)
          else mkdirs_up os ps p (p # todo) h)"

fun mkdirs_down :: "os \<Rightarrow> string list \<Rightarrow> history \<Rightarrow> (errno \<times> string) option \<times> history" where
  "mkdirs_down os [] h = (None, h)"
| "mkdirs_down os (p # ps) h =
     (case answer os (Mkdir p 0x1FF) h of
        (None, h) \<Rightarrow> mkdirs_down os ps h
      | (Some e, h) \<Rightarrow> if e = EEXIST then mkdirs_down os ps h else (Some (e, p), h))"

definition mkdirs :: "os \<Rightarrow> string \<Rightarrow> history \<Rightarrow> (errno \<times> string) option \<times> history" where
  "mkdirs os path h =
     (case mkdirs_up os (prefixes path) path [] h of
        (Inl e, h) \<Rightarrow> (Some e, h)
      | (Inr below, h) \<Rightarrow> mkdirs_down os below h)"

lemma prefixes_prefix: "p \<in> set (prefixes path) \<Longrightarrow> \<exists>r. path = p @ SLASH # r"
  by (induction path arbitrary: p) auto

lemma mkdirs_up_grows:
  "mkdirs_up os ps cur todo h = (r, h') \<Longrightarrow> \<forall>p \<in> set ps. P (Mkdir p 0x1FF) \<Longrightarrow>
     grows P h h' \<and> (\<forall>qs. r = Inr qs \<longrightarrow> set qs \<subseteq> set ps \<union> set todo)"
proof (induction os ps cur todo h arbitrary: r h' rule: mkdirs_up.induct)
  case (2 os p ps cur todo h)
  obtain e h1 where a: "answer os (Mkdir p 0x1FF) h = (e, h1)" by force
  have g: "grows P h h1" by (rule grows_answer [OF a]) (use "2.prems" in simp_all)
  show ?case
  proof (cases "e = Some ENOENT")
    case True
    with 2 a have "grows P h1 h'" "\<forall>qs. r = Inr qs \<longrightarrow> set qs \<subseteq> set ps \<union> set (p # todo)" by fastforce+
    with g show ?thesis by (auto intro: grows_trans)
  next
    case False
    with "2.prems"(1) a have "h' = h1" "r = Inr todo \<or> (\<exists>e. r = Inl e)"
      by (auto split: option.splits if_splits)
    with g show ?thesis by auto
  qed
qed auto

lemma mkdirs_down_grows:
  "mkdirs_down os ps h = (r, h') \<Longrightarrow> \<forall>p \<in> set ps. P (Mkdir p 0x1FF) \<Longrightarrow> grows P h h'"
proof (induction ps arbitrary: h)
  case (Cons p ps)
  obtain e h1 where a: "answer os (Mkdir p 0x1FF) h = (e, h1)" by force
  have g: "grows P h h1" by (rule grows_answer [OF a]) (use Cons.prems in simp_all)
  show ?case
  proof (cases "e = None \<or> e = Some EEXIST")
    case True
    with Cons.prems a have "mkdirs_down os ps h1 = (r, h')" by auto
    from Cons.IH [OF this] Cons.prems g show ?thesis by (auto intro: grows_trans)
  next
    case False
    with Cons.prems a g show ?thesis by (auto split: option.splits if_splits)
  qed
qed simp

text \<open>\<open>mkdirs\<close> only makes directories, and only ones that lie above the path.\<close>

lemma mkdirs_grows:
  assumes "mkdirs os path h = (r, h')" "\<And>p q. path = p @ SLASH # q \<Longrightarrow> P (Mkdir p 0x1FF)"
  shows "grows P h h'"
proof -
  have P: "\<forall>p \<in> set (prefixes path). P (Mkdir p 0x1FF)"
    using assms(2) by (auto dest: prefixes_prefix)
  obtain r1 h1 where u: "mkdirs_up os (prefixes path) path [] h = (r1, h1)" by force
  note g = mkdirs_up_grows [OF u P]
  show ?thesis
  proof (cases r1)
    case (Inl e)
    with assms(1) u g show ?thesis by (simp add: mkdirs_def)
  next
    case (Inr qs)
    with assms(1) u have "mkdirs_down os qs h1 = (r, h')" by (simp add: mkdirs_def)
    from mkdirs_down_grows [OF this, of P] g P Inr show ?thesis by (auto intro: grows_trans)
  qed
qed

end
