(* ===== verification/Server.thy ===== *)
theory Server
  imports Trace Escape Argv Wildcard NameSet
begin

text \<open>
  \<open>command.c\<close>, the server side of the protocol: the state of a connection, the requests
  that name a path, \<open>RETR\<close>, \<open>STAT\<close>, \<open>STOR\<close>, \<open>REPO\<close>, \<open>COMP\<close> and \<open>LOGIN\<close>. A handler is a function of
  the state, which holds the trace of the calls made so far. The build has PAM and zlib. Memory is
  available, so no \<open>strdup\<close> or \<open>malloc\<close> fails; what \<open>syslog\<close> gets is only kept for the
  reports of clients.
\<close>

section \<open>The state of a connection\<close>

text \<open>
  A handler returns a number or ends the process. The password is not set, set, or freed with
  the pointer left as it was.
\<close>

datatype hres = Rc int | Quit int

datatype password = NoPassword | Password string | Freed

datatype handler =
    F_QUIT | F_NOOP | F_HELP | F_NOAUTH | F_NOTLS | F_STAT | F_RETR | F_STOR | F_STARTTLS | F_REPO
  | F_LOGIN | F_COMPRESS

type_synonym command = "string \<times> handler"

record server =
  user :: "string option"
  password :: password
  remote_host :: string
  remote_addr :: string
  remote_cn :: "string option"
  special_dir :: string
  command_file :: string
  upload_xscript :: string
  access_list :: "string list"
  commands :: "command list"
  authorized :: bool
  prevstor :: bool
  zlib_on :: bool
  sdbuf :: string
  hist :: history

text \<open>
  What the options of \<open>radmind\<close> set, and \<open>EVP_get_digestbyname( "sha1" )\<close>. A digest context
  is the bytes it was updated with.
\<close>

record settings =
  authlevel :: int
  checkuser :: bool
  max_zlib_level :: int
  rap_extensions :: bool
  version :: string
  connections :: int
  maxconnections :: int
  sha1 :: "byte list digest option"

abbreviation CRLF :: string where "CRLF \<equiv> [CR, NL]"

definition do_call :: "os \<Rightarrow> call \<Rightarrow> server \<Rightarrow> errno option \<times> server" where
  "do_call os c s = (let (e, h) = answer os c (hist s) in (e, s\<lparr>hist := h\<rparr>))"

text \<open>\<open>snet_writef\<close>, whose result is never looked at, and its usual form \<open>"%d ...\r\n"\<close>.\<close>

definition say :: "os \<Rightarrow> string \<Rightarrow> server \<Rightarrow> server" where
  "say os t s = snd (do_call os (Send t) s)"

definition reply :: "os \<Rightarrow> int \<Rightarrow> string \<Rightarrow> server \<Rightarrow> server" where
  "reply os n t s = say os (print_int n @ [SP] @ t @ CRLF) s"

definition decode_in :: "string \<Rightarrow> server \<Rightarrow> (string option \<times> server) outcome" where
  "decode_in t s = obind (decode t (sdbuf s)) (\<lambda>(r, b). Ret (r, s\<lparr>sdbuf := b\<rparr>))"

section \<open>Short handlers\<close>

definition f_quit :: "os \<Rightarrow> string list \<Rightarrow> server \<Rightarrow> (hres \<times> server) outcome" where
  "f_quit os av s = Ret (Quit 0, reply os 201 ''QUIT OK, closing connection'' s)"

definition f_noop :: "os \<Rightarrow> string list \<Rightarrow> server \<Rightarrow> (hres \<times> server) outcome" where
  "f_noop os av s = Ret (Rc 0, reply os 202 ''NOOP OK'' s)"

definition f_help :: "os \<Rightarrow> string list \<Rightarrow> server \<Rightarrow> (hres \<times> server) outcome" where
  "f_help os av s = Ret (Rc 0, reply os 203 ''What is this, SMTP?'' s)"

definition f_noauth :: "os \<Rightarrow> string list \<Rightarrow> server \<Rightarrow> (hres \<times> server) outcome" where
  "f_noauth os av s = Ret (Quit 1, reply os 500 (''No access for '' @ remote_host s) s)"

definition f_notls :: "os \<Rightarrow> string list \<Rightarrow> server \<Rightarrow> (hres \<times> server) outcome" where
  "f_notls os av s = Ret (Quit 1, reply os 530 ''Must issue a STARTTLS command first'' s)"

section \<open>Requests that name a path\<close>

datatype key = K_COMMAND | K_TRANSCRIPT | K_SPECIAL | K_FILE

text \<open>
  \<open>keyword\<close>; \<open>None\<close> is its result \<open>-1\<close>. For \<open>COMMAND\<close> without a name it compares
  \<open>strlen( command_file + 5 )\<close> with \<open>MAXPATHLEN\<close>. That text ends within the array of
  \<open>MAXPATHLEN\<close> characters, so the test never succeeds.
\<close>

definition keyword :: "server \<Rightarrow> string list \<Rightarrow> key option" where
  "keyword s av =
     (let ac = length av in
      if ac < 2 then None
      else if strcasecmp (av ! 1) ''COMMAND'' = 0 then (if 3 < ac then None else Some K_COMMAND)
      else Option.bind
        (if strcasecmp (av ! 1) ''SPECIAL'' = 0 then
           (if ac \<noteq> 3 then None
            else if MAXPATHLEN < length (av ! 1) + length (av ! 2) + length (remote_host s) + 5 then None
            else Some K_SPECIAL)
         else if strcasecmp (av ! 1) ''TRANSCRIPT'' = 0 then
           (if ac \<noteq> 3 then None
            else if MAXPATHLEN < length (av ! 1) + length (av ! 2) + 5 then None
            else Some K_TRANSCRIPT)
         else if strcasecmp (av ! 1) ''FILE'' = 0 then
           (if ac \<noteq> 4 then None
            else if strncmp (av ! 3) ''../'' 3 = 0 then None
            else if strstr (av ! 3) ''/../'' then None
            else if MAXPATHLEN < length (av ! 1) + length (av ! 2) + length (av ! 3) + 5 then None
            else Some K_FILE)
         else None)
        (\<lambda>rc. if strstr (av ! 2) ''../'' then None else Some rc))"

text \<open>
  The paths of \<open>RETR\<close> and \<open>STAT\<close>: \<open>Inr\<close> the path, or \<open>Inl\<close> the result of the handler after
  its error reply. Commands and transcripts must be in the access list.
\<close>

definition listed_path :: "os \<Rightarrow> string \<Rightarrow> string \<Rightarrow> server \<Rightarrow> ((hres + string) \<times> server) outcome" where
  "listed_path os dir arg s =
     obind (decode_in arg s) (\<lambda>(d, s). case d of
       None \<Rightarrow> Ret (Inl (Rc 1), reply os 540 ''Line too long'' s)
     | Some d \<Rightarrow>
         if \<not> names_check (access_list s) d
         then Ret (Inl (Rc 1), reply os 540 (''No access for '' @ d) s)
         else (case snprintf MAXPATHLEN (dir @ d) of
                 None \<Rightarrow> Ret (Inl (Rc 1), reply os 540 ''Path too long'' s)
               | Some path \<Rightarrow> Ret (Inr path, s)))"

definition command_path :: "os \<Rightarrow> string list \<Rightarrow> server \<Rightarrow> ((hres + string) \<times> server) outcome" where
  "command_path os av s =
     (if length av = 2
      then (case snprintf MAXPATHLEN (''command/'' @ command_file s) of
              None \<Rightarrow> Ret (Inl (Rc 1), reply os 540 ''Path too long'' s)
            | Some path \<Rightarrow> Ret (Inr path, s))
      else listed_path os ''command/'' (av ! 2) s)"

definition special_path :: "os \<Rightarrow> string list \<Rightarrow> server \<Rightarrow> ((hres + string) \<times> server) outcome" where
  "special_path os av s =
     obind (decode_in (av ! 2) s) (\<lambda>(d, s). case d of
       None \<Rightarrow> Ret (Inl (Rc 1), reply os 540 ''Line too long'' s)
     | Some d \<Rightarrow>
         (case snprintf MAXPATHLEN (special_dir s @ [SLASH] @ d) of
            None \<Rightarrow> Ret (Inl (Rc 1), reply os 540 ''Path too long'' s)
          | Some path \<Rightarrow> Ret (Inr path, s)))"

definition file_path :: "os \<Rightarrow> string list \<Rightarrow> server \<Rightarrow> ((hres + string) \<times> server) outcome" where
  "file_path os av s =
     obind (decode_in (av ! 3) s) (\<lambda>(p, s). case p of
       None \<Rightarrow> Ret (Inl (Rc 1), reply os 540 ''Line too long'' s)
     | Some d_path \<Rightarrow>
     obind (decode_in (av ! 2) s) (\<lambda>(t, s). case t of
       None \<Rightarrow> Ret (Inl (Rc 1), reply os 540 ''Line too long'' s)
     | Some d_tran \<Rightarrow>
         if \<not> names_check (access_list s) d_tran
         then Ret (Inl (Rc 1), reply os 540 (''No access for '' @ d_tran @ '':'' @ d_path) s)
         else (case snprintf MAXPATHLEN (''file/'' @ d_tran @ [SLASH] @ d_path) of
                 None \<Rightarrow> Ret (Inl (Rc 1), reply os 540 ''Path too long'' s)
               | Some path \<Rightarrow> Ret (Inr path, s))))"

definition request_path :: "os \<Rightarrow> key \<Rightarrow> string list \<Rightarrow> server \<Rightarrow> ((hres + string) \<times> server) outcome" where
  "request_path os key av s =
     (case key of
        K_COMMAND \<Rightarrow> command_path os av s
      | K_TRANSCRIPT \<Rightarrow> listed_path os ''transcript/'' (av ! 2) s
      | K_SPECIAL \<Rightarrow> special_path os av s
      | K_FILE \<Rightarrow> file_path os av s)"

definition with_path ::
  "((hres + string) \<times> server) outcome \<Rightarrow> (string \<Rightarrow> server \<Rightarrow> (hres \<times> server) outcome) \<Rightarrow>
    (hres \<times> server) outcome" where
  "with_path m f = obind m (\<lambda>(r, s). case r of Inl e \<Rightarrow> Ret (e, s) | Inr path \<Rightarrow> f path s)"

section \<open>\<open>RETR\<close>\<close>

text \<open>The loop over \<open>read\<close>; the first component says whether it came to the end of the file.\<close>

fun retr_loop :: "os \<Rightarrow> read_result list \<Rightarrow> server \<Rightarrow> bool \<times> server" where
  "retr_loop os [] s = (True, s)"
| "retr_loop os (ReadError # rs) s = (False, s)"
| "retr_loop os (Bytes bs # rs) s =
     (if bs = [] then (True, s)
      else (case do_call os (Send (chars_of bs)) s of
              (None, s) \<Rightarrow> retr_loop os rs s
            | (Some e, s) \<Rightarrow> (False, s)))"

definition retr_send :: "os \<Rightarrow> string \<Rightarrow> server \<Rightarrow> hres \<times> server" where
  "retr_send os path s =
     (case do_call os (Open path) s of
        (Some e, s) \<Rightarrow> (Rc 1, reply os 543 (''Unable to access '' @ path @ ''.'') s)
      | (None, s) \<Rightarrow>
     (case do_call os (Fstat path) s of
        (Some e, s) \<Rightarrow>
          (case do_call os (Close path) (reply os 543 (''Access Error: '' @ path) s) of
             (Some e, s) \<Rightarrow> (Rc (-1), s)
           | (None, s) \<Rightarrow> (Rc 1, s))
      | (None, s) \<Rightarrow>
          let s = say os (''240 Retrieving file'' @ CRLF @ print_int (st_size (os_stat os (hist s) path)) @ CRLF) s
          in (case retr_loop os (os_bytes os (hist s) path) s of
                (False, s) \<Rightarrow> (Rc (-1), s)
              | (True, s) \<Rightarrow>
                  (case do_call os (Close path) (say os (''.'' @ CRLF) s) of
                     (Some e, s) \<Rightarrow> (Rc (-1), s)
                   | (None, s) \<Rightarrow> (Rc 0, s)))))"

definition f_retr :: "os \<Rightarrow> string list \<Rightarrow> server \<Rightarrow> (hres \<times> server) outcome" where
  "f_retr os av s =
     (case keyword s av of
        None \<Rightarrow> Ret (Rc 1, reply os 540 ''RETR Syntax error'' s)
      | Some key \<Rightarrow> with_path (request_path os key av s) (\<lambda>path s. Ret (retr_send os path s)))"

section \<open>\<open>STAT\<close>\<close>

text \<open>
  \<open>special_t\<close> looks for the line of a special file in up to three transcripts. A line that begins
  with a NUL has length 0, and the code then reads the character before it.
\<close>

function special_lines :: "string \<Rightarrow> string \<Rightarrow> string list option outcome" where
  "special_lines remote_path inp =
     (case fgets MAXPATHLEN inp of
        None \<Rightarrow> Ret None
      | Some (buf, rest) \<Rightarrow>
          let line = cstr buf in
          if line = [] then UB
          else if last line \<noteq> NL then Ret None
          else if strncmp line ''f '' 2 \<noteq> 0 \<and> strncmp line ''a '' 2 \<noteq> 0 then special_lines remote_path rest
          else obind (argcargv line) (\<lambda>av.
            if length av \<noteq> 8 then special_lines remote_path rest
            else if strcmp (av ! 1) remote_path = 0 then Ret (Some av)
            else special_lines remote_path rest))"
  by pat_completeness auto
termination
  by (relation "measure (\<lambda>(_, inp). length inp)") (auto dest!: fgets_shrinks simp: MAXPATHLEN_def)

declare special_lines.simps [simp del]

definition special_name :: "string \<Rightarrow> string option" where
  "special_name path =
     (case strrchr path (CHR ''.'') of
        Some (_, post) \<Rightarrow>
          if strcmp post ''T'' = 0 then (if MAXPATHLEN \<le> length path then None else Some path)
          else snprintf MAXPATHLEN (path @ ''.T'')
      | None \<Rightarrow> snprintf MAXPATHLEN (path @ ''.T''))"

fun special_t :: "os \<Rightarrow> string list \<Rightarrow> string \<Rightarrow> server \<Rightarrow> (string list option \<times> server) outcome" where
  "special_t os [] remote_path s = Ret (None, s)"
| "special_t os (p # ps) remote_path s =
     (case special_name p of
        None \<Rightarrow> special_t os ps remote_path s
      | Some sp_t \<Rightarrow>
          (case do_call os (Fopen sp_t) s of
             (Some e, s) \<Rightarrow> special_t os ps remote_path s
           | (None, s) \<Rightarrow>
               obind (special_lines remote_path (os_text os (hist s) sp_t)) (\<lambda>r.
                 let s = snd (do_call os (Close sp_t) s) in
                 case r of
                   Some av \<Rightarrow> Ret (Some av, s)
                 | None \<Rightarrow> special_t os ps remote_path s)))"

definition special_paths :: "server \<Rightarrow> string \<Rightarrow> string list" where
  "special_paths s sp_path = [sp_path, special_dir s, ''transcript/special.T'']"

text \<open>\<open>do_cksum\<close> with its calls in the trace.\<close>

definition cksum_call :: "os \<Rightarrow> byte list digest \<Rightarrow> string \<Rightarrow> server \<Rightarrow> (int \<times> string option) \<times> server" where
  "cksum_call os md path s =
     (case do_call os (Open path) s of
        (Some e, s) \<Rightarrow> (do_cksum md (\<lambda>_. None) path, s)
      | (None, s) \<Rightarrow>
          let (c, s') = do_call os (Close path) s
          in (do_cksum md (\<lambda>_. Some (os_bytes os (hist s) path, c = None)) path, s'))"

text \<open>\<open>RADMIND_STAT_FMT\<close>, and the format that is used when mode and owners are words of a line.\<close>

definition stat_words :: "string \<Rightarrow> string \<Rightarrow> string \<Rightarrow> string \<Rightarrow> string \<Rightarrow> stat \<Rightarrow> string \<Rightarrow> string" where
  "stat_words type name mode uid gid st b64 =
     type @ [SP] @ name @ [SP] @ mode @ [SP] @ uid @ [SP] @ gid @ [SP] @ print_int (st_mtime st) @ [SP] @
     print_int (st_size st) @ [SP] @ b64 @ CRLF"

definition stat_default :: "string \<Rightarrow> stat \<Rightarrow> string \<Rightarrow> string" where
  "stat_default name st b64 =
     stat_words ''f'' name (print_oct 292) (print_int 0) (print_int 0) st b64"

definition stat_reply :: "os \<Rightarrow> key \<Rightarrow> string list \<Rightarrow> string \<Rightarrow> stat \<Rightarrow> string \<Rightarrow> server \<Rightarrow> (hres \<times> server) outcome" where
  "stat_reply os key av path st b64 s =
     (case key of
        K_COMMAND \<Rightarrow>
          Ret (Rc 0, say os (stat_default (if length av = 2 then ''command'' else av ! 2) st b64) s)
      | K_TRANSCRIPT \<Rightarrow> Ret (Rc 0, say os (stat_default (av ! 2) st b64) s)
      | K_SPECIAL \<Rightarrow>
          (let enc_file = av ! 2 in
           obind (special_t os (special_paths s path) enc_file s) (\<lambda>(r, s). case r of
             None \<Rightarrow> Ret (Rc 0, say os (stat_default enc_file st b64) s)
           | Some av \<Rightarrow>
               Ret (Rc 0, say os (stat_words (av ! 0) enc_file (av ! 2) (av ! 3) (av ! 4) st b64) s)))
      | K_FILE \<Rightarrow> Ret (Rc 1, s))"

text \<open>A checksum that fails leaves \<open>errno\<close> for the \<open>%m\<close> of the reply.\<close>

definition stat_send ::
  "settings \<Rightarrow> os \<Rightarrow> key \<Rightarrow> string list \<Rightarrow> string \<Rightarrow> server \<Rightarrow> (hres \<times> server) outcome" where
  "stat_send cfg os key av path s =
     (case do_call os (Stat path) s of
        (Some e, s) \<Rightarrow> Ret (Rc 1, reply os 531 (''Access Error: '' @ path) s)
      | (None, s) \<Rightarrow>
          let st = os_stat os (hist s) path in
          case sha1 cfg of
            None \<Rightarrow> Ret (Quit 1, s)
          | Some md \<Rightarrow>
              (case cksum_call os md path s of
                 (ck, s) \<Rightarrow>
                   if fst ck < 0
                   then Ret (Rc 1, reply os 500 (''Checksum Error: '' @ path @ '': '' @ os_errtext os (hist s)) s)
                   else stat_reply os key av path st (case snd ck of None \<Rightarrow> [] | Some b \<Rightarrow> b)
                     (reply os 230 ''Returning STAT information'' s)))"

definition f_stat :: "settings \<Rightarrow> os \<Rightarrow> string list \<Rightarrow> server \<Rightarrow> (hres \<times> server) outcome" where
  "f_stat cfg os av s =
     (let key = keyword s av in
      case key of
        None \<Rightarrow> Ret (Rc 1, reply os 530 ''STAT Syntax error'' s)
      | Some k \<Rightarrow>
          if k = K_FILE then Ret (Rc 1, reply os 530 ''STAT Syntax error'' s)
          else with_path (request_path os k av s) (stat_send cfg os k av))"

section \<open>\<open>STOR\<close>\<close>

text \<open>
  The data of a file: pieces of at most 8192 bytes are received and written until \<open>len\<close> is used up.
  \<open>Inl\<close> is a result of the handler, \<open>Inr\<close> the final \<open>len\<close>.
\<close>

function stor_loop :: "os \<Rightarrow> string \<Rightarrow> int \<Rightarrow> server \<Rightarrow> (hres + int) \<times> server" where
  "stor_loop os upload len s =
     (if len \<le> 0 then (Inr len, s)
      else let n = nat (min len 8192) in
           case do_call os (Recv n) s of
             (Some e, s1) \<Rightarrow> (Inl (Rc (-1)), s1)
           | (None, s1) \<Rightarrow>
               let buf = take n (os_recv os (hist s1)) in
               if buf = [] then (Inl (Rc (-1)), s1)
               else (case do_call os (Write upload buf) s1 of
                       (Some e, s2) \<Rightarrow>
                         (Inl (Quit 1), reply os 555 (upload @ '': '' @ os_strerror os e) s2)
                     | (None, s2) \<Rightarrow> stor_loop os upload (len - int (length buf)) s2))"
  by pat_completeness auto
termination
  by (relation "measure (\<lambda>(_, _, len, _). nat len)") auto

declare stor_loop.simps [simp del]

definition stor_receive :: "os \<Rightarrow> string \<Rightarrow> server \<Rightarrow> hres \<times> server" where
  "stor_receive os upload s =
     (let s = reply os 350 ''Storing file'' s in
      case do_call os GetLine s of
        (Some e, s) \<Rightarrow> (Rc (-1), s)
      | (None, s) \<Rightarrow>
     (case stor_loop os upload (strtol 10 (os_line os (hist s))) s of
        (Inl r, s) \<Rightarrow> (r, s)
      | (Inr len, s) \<Rightarrow>
          if len \<noteq> 0 then (Quit 1, reply os 555 (upload @ '': internal error!'') s)
          else
     (case do_call os (Close upload) s of
        (Some e, s) \<Rightarrow> (Quit 1, reply os 555 (upload @ '': '' @ os_strerror os e) s)
      | (None, s) \<Rightarrow>
     (case do_call os GetLine s of
        (Some e, s) \<Rightarrow> (Rc (-1), s)
      | (None, s) \<Rightarrow>
          if strcmp (os_line os (hist s)) ''.'' \<noteq> 0
          then (Quit 1, snd (do_call os (Unlink upload)
                  (reply os 555 (''Length doesn't match sent data '' @ upload) s)))
          else (Rc 0, reply os 250 ''File stored'' s)))))"

text \<open>The file is made, after its directories if need be; \<open>mkdirs\<close> leaves a cut path when it fails.\<close>

definition stor_open :: "os \<Rightarrow> string \<Rightarrow> server \<Rightarrow> hres \<times> server" where
  "stor_open os upload s =
     (case do_call os (Create upload) s of
        (None, s) \<Rightarrow> stor_receive os upload s
      | (Some e, s) \<Rightarrow>
     (case mkdirs os upload (hist s) of
        (Some (e, part), h) \<Rightarrow> (Quit 1, reply os 555 (part @ '': '' @ os_strerror os e) (s\<lparr>hist := h\<rparr>))
      | (None, h) \<Rightarrow>
     (case do_call os (Create upload) (s\<lparr>hist := h\<rparr>) of
        (Some e, s) \<Rightarrow> (Quit 1, reply os 555 (upload @ '': '' @ os_strerror os e) s)
      | (None, s) \<Rightarrow> stor_receive os upload s)))"

definition stor_transcript :: "os \<Rightarrow> string list \<Rightarrow> string \<Rightarrow> server \<Rightarrow> (hres + string) \<times> server" where
  "stor_transcript os av d_tran s =
     (case (snprintf MAXPATHLEN (''tmp/file/'' @ d_tran), snprintf MAXPATHLEN (''tmp/transcript/'' @ d_tran)) of
        (Some xscriptdir, Some upload) \<Rightarrow>
          if MAXPATHLEN \<le> length (av ! 2) then (Inl (Rc 1), reply os 540 ''Path too long'' s)
          else (case do_call os (Mkdir xscriptdir 0x1FF) (s\<lparr>upload_xscript := av ! 2\<rparr>) of
                  (Some e, s) \<Rightarrow>
                    if e = EEXIST then (Inl (Quit 1), reply os 551 ''Transcript exists'' s)
                    else (Inl (Quit 1), reply os 551 (xscriptdir @ '': '' @ os_strerror os e) s)
                | (None, s) \<Rightarrow> (Inr upload, s))
      | _ \<Rightarrow> (Inl (Rc 1), reply os 540 ''Path too long'' s))"

definition stor_file :: "os \<Rightarrow> string list \<Rightarrow> string \<Rightarrow> server \<Rightarrow> ((hres + string) \<times> server) outcome" where
  "stor_file os av d_tran s =
     (if strcmp (upload_xscript s) (av ! 2) \<noteq> 0
      then Ret (Inl (Quit 1), reply os 552 (''Incorrect Transcript '' @ av ! 2) s)
      else obind (decode_in (av ! 3) s) (\<lambda>(p, s). case p of
        None \<Rightarrow> Ret (Inl (Rc 1), reply os 540 ''Line too long'' s)
      | Some d_path \<Rightarrow>
          (case snprintf MAXPATHLEN
                  (''tmp/file/'' @ d_tran @ (if char_at d_path 0 = SLASH then [] else [SLASH]) @ d_path) of
             None \<Rightarrow> Ret (Inl (Rc 1), reply os 540 ''Path too long'' s)
           | Some upload \<Rightarrow> Ret (Inr upload, s))))"

text \<open>
  \<open>getprotobyname\<close> and \<open>setsockopt\<close> are the call \<open>SetNoDelay\<close>. The second argument is decoded before
  \<open>keyword\<close> has counted the arguments; without one the code reads past the end of the
  argument vector.
\<close>

definition f_stor :: "settings \<Rightarrow> os \<Rightarrow> string list \<Rightarrow> server \<Rightarrow> (hres \<times> server) outcome" where
  "f_stor cfg os av s =
     (case (if prevstor s then (None, s) else do_call os (SetNoDelay False) s) of
        (Some e, s) \<Rightarrow> Ret (Rc (-1), s)
      | (None, s) \<Rightarrow>
          let s = s\<lparr>prevstor := True\<rparr> in
          if checkuser cfg \<and> \<not> authorized s then Ret (Quit 1, reply os 551 ''Not logged in'' s)
          else if length av < 3 then UB
          else obind (decode_in (av ! 2) s) (\<lambda>(t, s). case t of
            None \<Rightarrow> Ret (Rc 1, reply os 540 ''Line too long'' s)
          | Some d_tran \<Rightarrow>
              with_path
                (case keyword s av of
                   Some K_TRANSCRIPT \<Rightarrow> Ret (stor_transcript os av d_tran s)
                 | Some K_FILE \<Rightarrow> stor_file os av d_tran s
                 | _ \<Rightarrow> Ret (Inl (Quit 1), reply os 550 ''STOR Syntax error'' s))
                (\<lambda>upload s. Ret (stor_open os upload s))))"

section \<open>\<open>REPO\<close> and \<open>COMP\<close>\<close>

definition f_repo :: "os \<Rightarrow> string list \<Rightarrow> server \<Rightarrow> (hres \<times> server) outcome" where
  "f_repo os av s =
     (if length av \<noteq> 3 then Ret (Rc 1, reply os 501 ''Syntax error (invalid parameters)'' s)
      else obind (decode_in (av ! 2) s) (\<lambda>(m, s). case m of
        None \<Rightarrow> Ret (Rc 1, reply os 501 ''Syntax error (invalid parameter)'' s)
      | Some d_msg \<Rightarrow>
          let cn = (case remote_cn s of None \<Rightarrow> ''-'' | Some c \<Rightarrow> c);
              s = snd (do_call os (Syslog (''report '' @ remote_host s @ [SP] @ remote_addr s @ [SP] @ cn @
                    '' - '' @ av ! 1 @ [SP] @ d_msg)) s)
          in Ret (Rc 0, reply os 215 ''Report successful'' s)))"

definition f_compress :: "settings \<Rightarrow> os \<Rightarrow> string list \<Rightarrow> server \<Rightarrow> (hres \<times> server) outcome" where
  "f_compress cfg os av s =
     (let ac = length av in
      if max_zlib_level cfg \<le> 0 then Ret (Rc 1, reply os 501 ''Compression not enabled'' s)
      else if ac \<noteq> 2 \<and> ac \<noteq> 3 then Ret (Rc 1, reply os 501 ''Syntax error'' s)
      else if zlib_on s then Ret (Rc 1, reply os 501 ''Compression already enabled'' s)
      else if strcasecmp (av ! 1) ''ZLIB'' = 0 then
        (let level = (if ac = 3 then min (max (sint (atoi (av ! 2))) 1) (max_zlib_level cfg)
                      else max_zlib_level cfg);
             s = reply os 320 (''Ready to start ZLIB compression level '' @ print_int level) s
         in case do_call os (SetCompression level) s of
              (Some e, s) \<Rightarrow> Ret (Rc (-1), s)
            | (None, s) \<Rightarrow>
                Ret (Rc 0, reply os 220 (''ZLIB compression level '' @ print_int level @ '' enabled'')
                  (s\<lparr>zlib_on := True\<rparr>)))
      else Ret (Rc 0, reply os 525 (av ! 1 @ '': unknown compression type'') s))"

section \<open>\<open>LOGIN\<close>\<close>

text \<open>
  \<open>exchange\<close>, the conversation function PAM calls, on the styles of the messages. After an
  unknown style the code frees the pointers of all \<open>num_msg\<close> replies, though those from that
  message on were never set.
\<close>

fun exchange_replies :: "password \<Rightarrow> pam_style list \<Rightarrow> string option list outcome" where
  "exchange_replies pw [] = Ret []"
| "exchange_replies pw (m # ms) =
     obind (if m = PAM_PROMPT_ECHO_OFF \<or> m = PAM_PROMPT_ECHO_ON
            then (case pw of Password p \<Rightarrow> Ret (Some p) | _ \<Rightarrow> UB)
            else if m = PAM_TEXT_INFO \<or> m = PAM_ERROR_MSG then Ret None
            else UB)
       (\<lambda>r. obind (exchange_replies pw ms) (\<lambda>rs. Ret (r # rs)))"

text \<open>\<open>None\<close> is \<open>PAM_CONV_ERR\<close>.\<close>

definition exchange :: "password \<Rightarrow> pam_style list \<Rightarrow> string option list option outcome" where
  "exchange pw msgs =
     (if msgs = [] then Ret None else obind (exchange_replies pw msgs) (\<lambda>rs. Ret (Some rs)))"

text \<open>A PAM call may start several conversations; the calls of the trace show all replies.\<close>

fun converse :: "password \<Rightarrow> pam_style list list \<Rightarrow> string option list outcome" where
  "converse pw [] = Ret []"
| "converse pw (c # cs) =
     obind (exchange pw c) (\<lambda>r. obind (converse pw cs) (\<lambda>rs.
       Ret ((case r of None \<Rightarrow> [] | Some x \<Rightarrow> x) @ rs)))"

definition login_failed :: "os \<Rightarrow> server \<Rightarrow> (hres \<times> server) outcome" where
  "login_failed os s = Ret (Rc 1, reply os 535 ''Authentication Failed'' s)"

text \<open>
  The password is freed after \<open>pam_authenticate\<close> has succeeded, but the pointer keeps its
  value: the next \<open>LOGIN\<close> frees it again.
\<close>

definition f_login :: "settings \<Rightarrow> os \<Rightarrow> string list \<Rightarrow> server \<Rightarrow> (hres \<times> server) outcome" where
  "f_login cfg os av s =
     (if \<not> checkuser cfg then Ret (Rc 1, reply os 502 ''login not enabled'' s)
      else if length av \<noteq> 3 then Ret (Rc 1, reply os 501 ''Syntax error'' s)
      else if password s = Freed then UB
      else
        let s = s\<lparr>user := Some (av ! 1), password := Password (av ! 2)\<rparr> in
        case do_call os (PamStart (av ! 1)) s of
          (Some e, s) \<Rightarrow> login_failed os s
        | (None, s) \<Rightarrow>
        obind (converse (password s) (os_conv os (hist s))) (\<lambda>rs.
        case do_call os (PamAuth rs) s of
          (Some e, s) \<Rightarrow> login_failed os s
        | (None, s) \<Rightarrow>
        let s = s\<lparr>password := Freed\<rparr> in
        obind (converse (password s) (os_conv os (hist s))) (\<lambda>rs.
        case do_call os (PamAcct rs) s of
          (Some e, s) \<Rightarrow> login_failed os s
        | (None, s) \<Rightarrow>
        (case do_call os PamEnd s of
          (Some e, s) \<Rightarrow> login_failed os s
        | (None, s) \<Rightarrow>
            Ret (Rc 0, (reply os 205 (av ! 1 @ '' successfully logged in'') s)\<lparr>authorized := True\<rparr>)))))"

end
