(* ===== verification/ServerConfig.thy ===== *)
theory ServerConfig
  imports Server
begin

text \<open>
  The configuration of the server in \<open>command.c\<close>: which command file and special
  directory a client gets (\<open>command_k\<close>, with the entries matched by \<open>match_config_entry\<close>), and
  the access list made from the command files (\<open>read_kfile\<close>). The text files are read without
  error once they are open.
\<close>

section \<open>The config file\<close>

definition RADMIND_MAX_INCLUDE_DEPTH :: nat where
  "RADMIND_MAX_INCLUDE_DEPTH = 10"

definition match_config_entry :: "server \<Rightarrow> string \<Rightarrow> string option outcome" where
  "match_config_entry s entry =
     obind (case remote_cn s of None \<Rightarrow> Ret False | Some cn \<Rightarrow> wildcard entry (Some cn) False) (\<lambda>m.
     if m then Ret (remote_cn s)
     else obind (wildcard entry (Some (remote_host s)) False) (\<lambda>m.
     if m then Ret (Some (remote_host s))
     else obind (wildcard entry (Some (remote_addr s)) True) (\<lambda>m.
     if m then Ret (Some (remote_addr s)) else Ret None)))"

text \<open>
  A line that is not an include. The special directory is set before the entry is
  matched, and stays set when it does not match; a path that is too long is cut off.
\<close>

definition config_special :: "string \<Rightarrow> string \<times> bool" where
  "config_special file =
     (case strrchr file SLASH of
        None \<Rightarrow> (''special'', True)
      | Some (pre, _) \<Rightarrow>
          let d = ''special/'' @ pre
          in (take (MAXPATHLEN - 1) d, length d < MAXPATHLEN))"

definition config_entry :: "string list \<Rightarrow> server \<Rightarrow> (bool \<times> server) outcome" where
  "config_entry av s =
     (case config_special (av ! 1) of
        (d, ok) \<Rightarrow>
          let s = s\<lparr>special_dir := d\<rparr> in
          if \<not> ok then Ret (False, s)
          else obind (match_config_entry s (av ! 0)) (\<lambda>v. case v of
            None \<Rightarrow> Ret (False, s)
          | Some valid_host \<Rightarrow>
              if MAXPATHLEN \<le> length (av ! 1) then Ret (False, s)
              else let s = s\<lparr>command_file := av ! 1\<rparr> in
                   case snprintf MAXPATHLEN (special_dir s @ [SLASH] @ valid_host) of
                     None \<Rightarrow> Ret (False, s)
                   | Some temp \<Rightarrow> Ret (True, s\<lparr>special_dir := temp\<rparr>)))"

text \<open>
  The lines of a file. \<open>rec\<close> reads an included file, and is \<open>None\<close> when the include depth is used
  up; the line then ends the file with the result \<open>-1\<close>.
\<close>

fun command_lines ::
  "(string \<Rightarrow> server \<Rightarrow> (int \<times> server) outcome) option \<Rightarrow> string list \<Rightarrow> server \<Rightarrow>
    (int \<times> server) outcome" where
  "command_lines rec [] s = Ret (-1, s)"
| "command_lines rec (line # ls) s =
     obind (argcargv line) (\<lambda>av.
       if av = [] \<or> char_at (av ! 0) 0 = CHR ''#'' then command_lines rec ls s
       else if length av < 2 then command_lines rec ls s
       else if strcmp (av ! 0) ''@include'' = 0 then
         (case rec of
            None \<Rightarrow> Ret (-1, s)
          | Some include \<Rightarrow>
              if 3 < length av then command_lines rec ls s
              else obind (if length av = 3 then match_config_entry s (av ! 2) else Ret (Some [])) (\<lambda>v.
                if v = None then command_lines rec ls s
                else obind (include (av ! 1) s) (\<lambda>(n, s).
                  if n \<noteq> 0 then command_lines rec ls s else Ret (0, s))))
       else if 2 < length av \<and> char_at (av ! 2) 0 \<noteq> CHR ''#'' then command_lines rec ls s
       else obind (config_entry av s) (\<lambda>(found, s).
         if found then Ret (0, s) else command_lines rec ls s))"

text \<open>\<open>command_at k\<close> is \<open>command_k\<close> with \<open>k\<close> levels of includes left.\<close>

primrec command_at :: "nat \<Rightarrow> os \<Rightarrow> string \<Rightarrow> server \<Rightarrow> (int \<times> server) outcome" where
  "command_at 0 os path s =
     (case do_call os (SnetOpen path) s of
        (Some e, s) \<Rightarrow> Ret (-1, s)
      | (None, s) \<Rightarrow> command_lines None (os_lines os (hist s) path) s)"
| "command_at (Suc k) os path s =
     (case do_call os (SnetOpen path) s of
        (Some e, s) \<Rightarrow> Ret (-1, s)
      | (None, s) \<Rightarrow> command_lines (Some (command_at k os)) (os_lines os (hist s) path) s)"

definition command_k :: "os \<Rightarrow> string \<Rightarrow> nat \<Rightarrow> server \<Rightarrow> (int \<times> server) outcome" where
  "command_k os path_config depth = command_at (RADMIND_MAX_INCLUDE_DEPTH - depth) os path_config"

section \<open>The access list\<close>

definition not_available :: "os \<Rightarrow> server \<Rightarrow> server" where
  "not_available os s = reply os 421 ''Service not available, closing transmission channel'' s"

text \<open>A line; \<open>rec\<close> is \<open>read_kfile\<close>. The result is \<open>0\<close> when the loop goes on.\<close>

definition access_add :: "os \<Rightarrow> string \<Rightarrow> server \<Rightarrow> (int \<times> server) outcome" where
  "access_add os name s =
     obind (names_insert (access_list s) name) (\<lambda>(n, ns).
       let s = s\<lparr>access_list := ns\<rparr>
       in if n \<noteq> 0 then Ret (-1, not_available os s) else Ret (0, s))"

definition access_line ::
  "os \<Rightarrow> (string \<Rightarrow> server \<Rightarrow> (int \<times> server) outcome) \<Rightarrow> string list \<Rightarrow> server \<Rightarrow>
    (int \<times> server) outcome" where
  "access_line os rec av s =
     (if char_at (av ! 0) 0 = CHR ''-'' then Ret (0, s)
      else if length av \<noteq> 2 then Ret (-1, not_available os s)
      else let c = char_at (av ! 0) 0 in
        if c = CHR ''k'' then
          (if names_check (access_list s) (av ! 1) then Ret (0, s)
           else obind (access_add os (av ! 1) s) (\<lambda>(n, s).
             if n \<noteq> 0 then Ret (-1, s)
             else obind (rec (av ! 1) s) (\<lambda>(n, s). Ret (if n \<noteq> 0 then -1 else 0, s))))
        else if c = CHR ''p'' \<or> c = CHR ''n'' then
          (if names_check (access_list s) (av ! 1) then Ret (0, s) else access_add os (av ! 1) s)
        else if c = CHR ''s'' \<or> c = CHR ''x'' then Ret (0, s)
        else Ret (-1, not_available os s))"

function access_lines ::
  "os \<Rightarrow> (string \<Rightarrow> server \<Rightarrow> (int \<times> server) outcome) \<Rightarrow> string \<Rightarrow> server \<Rightarrow>
    (int \<times> server) outcome" where
  "access_lines os rec inp s =
     (case fgets MAXPATHLEN inp of
        None \<Rightarrow> Ret (0, s)
      | Some (buf, rest) \<Rightarrow>
          obind (argcargv (cstr buf)) (\<lambda>av.
            if av = [] \<or> char_at (av ! 0) 0 = CHR ''#'' then access_lines os rec rest s
            else obind (access_line os rec av s) (\<lambda>(n, s).
              if n \<noteq> 0 then Ret (-1, s) else access_lines os rec rest s)))"
  by pat_completeness auto
termination
  by (relation "measure (\<lambda>(_, _, inp, _). length inp)") (auto dest!: fgets_shrinks simp: MAXPATHLEN_def)

declare access_lines.simps [simp del]

text \<open>
  \<open>read_kfile\<close> calls itself for each command file it meets first; the depth bound stands for the
  end of the stack. \<open>server_read_kfile_returns\<close> shows that the recursion ends.
\<close>

primrec server_read_kfile :: "nat \<Rightarrow> os \<Rightarrow> string \<Rightarrow> server \<Rightarrow> (int \<times> server) outcome" where
  "server_read_kfile 0 os kfile s = UB"
| "server_read_kfile (Suc k) os kfile s =
     (case snprintf MAXPATHLEN (''command/'' @ kfile) of
        None \<Rightarrow> Ret (-1, not_available os s)
      | Some path \<Rightarrow>
          (case do_call os (Fopen path) s of
             (Some e, s) \<Rightarrow> Ret (-1, not_available os s)
           | (None, s) \<Rightarrow>
               obind (access_lines os (server_read_kfile k os) (os_text os (hist s) path) s) (\<lambda>(n, s).
                 (case do_call os (Close path) s of
                    (e, s) \<Rightarrow>
                      if n \<noteq> 0 then Ret (-1, s)
                      else if e \<noteq> None then Ret (-1, not_available os s)
                      else Ret (0, s)))))"

end
