(* ===== verification/ServerLoop.thy ===== *)
theory ServerLoop
  imports ServerConfig
begin

text \<open>
  The command loop of \<open>command.c\<close>: the three command tables, \<open>STARTTLS\<close>, the start of a connection
  and its step relation. The statistics \<open>QUIT\<close> prints on the terminal in debug mode are left out.
\<close>

section \<open>Command tables\<close>

definition notls :: "command list" where
  "notls =
     [(''QUIT'', F_QUIT), (''NOOP'', F_NOOP), (''HELP'', F_HELP), (''STATus'', F_NOTLS),
      (''RETRieve'', F_NOTLS), (''STORe'', F_NOTLS), (''STARttls'', F_STARTTLS), (''REPOrt'', F_NOTLS),
      (''LOGIn'', F_NOTLS), (''COMPress'', F_NOTLS)]"

definition noauth :: "command list" where
  "noauth =
     [(''QUIT'', F_QUIT), (''NOOP'', F_NOOP), (''HELP'', F_HELP), (''STATus'', F_NOAUTH),
      (''RETRieve'', F_NOAUTH), (''STORe'', F_NOAUTH), (''REPOrt'', F_NOAUTH), (''LOGIn'', F_NOAUTH),
      (''COMPress'', F_NOAUTH)]"

definition auth :: "command list" where
  "auth =
     [(''QUIT'', F_QUIT), (''NOOP'', F_NOOP), (''HELP'', F_HELP), (''STATus'', F_STAT),
      (''RETRieve'', F_RETR), (''STORe'', F_STOR), (''STARttls'', F_STARTTLS), (''REPOrt'', F_REPO),
      (''LOGIn'', F_LOGIN), (''COMPress'', F_COMPRESS)]"

section \<open>\<open>STARTTLS\<close>\<close>

text \<open>
  The name of the peer, with its certificate; \<open>None\<close> is the failure without one. Without a common
  name \<open>X509_NAME_get_text_by_NID\<close> leaves the buffer alone, which then still holds the subject.
\<close>

definition peer_name :: "settings \<Rightarrow> os \<Rightarrow> server \<Rightarrow> server option" where
  "peer_name cfg os s =
     (if 2 \<le> authlevel cfg
      then (case os_peer os (hist s) of
              None \<Rightarrow> None
            | Some (subject, cn) \<Rightarrow> Some (s\<lparr>remote_cn := Some (case cn of None \<Rightarrow> subject | Some c \<Rightarrow> c)\<rparr>))
      else Some s)"

text \<open>The commands and the access list of the client. \<open>depth\<close> bounds the recursion of \<open>read_kfile\<close>.\<close>

definition find_client :: "nat \<Rightarrow> os \<Rightarrow> server \<Rightarrow> (hres \<times> server) outcome" where
  "find_client depth os s =
     obind (command_k os ''config'' 0 s) (\<lambda>(n, s).
       if n < 0 then Ret (Rc 0, s\<lparr>commands := noauth\<rparr>)
       else obind (server_read_kfile depth os (command_file s) (s\<lparr>commands := auth\<rparr>)) (\<lambda>(n, s).
         Ret (if n \<noteq> 0 then Quit 1 else Rc 0, s)))"

definition f_starttls :: "nat \<Rightarrow> settings \<Rightarrow> os \<Rightarrow> string list \<Rightarrow> server \<Rightarrow> (hres \<times> server) outcome" where
  "f_starttls depth cfg os av s =
     (if length av \<noteq> 1 then Ret (Rc 1, reply os 501 ''Syntax error (no parameters allowed)'' s)
      else
     (case do_call os StartTls (reply os 220 ''Ready to start TLS'' s) of
        (Some e, s) \<Rightarrow> Ret (Rc 1, reply os 501 ''SSL didn't work error! XXX'' s)
      | (None, s) \<Rightarrow>
          (case peer_name cfg os s of
             None \<Rightarrow> Ret (Rc (-1), s)
           | Some s \<Rightarrow> find_client depth os s)))"

section \<open>The loop\<close>

definition run_handler ::
  "nat \<Rightarrow> settings \<Rightarrow> os \<Rightarrow> handler \<Rightarrow> string list \<Rightarrow> server \<Rightarrow> (hres \<times> server) outcome" where
  "run_handler depth cfg os f av s =
     (case f of
        F_QUIT \<Rightarrow> f_quit os av s
      | F_NOOP \<Rightarrow> f_noop os av s
      | F_HELP \<Rightarrow> f_help os av s
      | F_NOAUTH \<Rightarrow> f_noauth os av s
      | F_NOTLS \<Rightarrow> f_notls os av s
      | F_STAT \<Rightarrow> f_stat cfg os av s
      | F_RETR \<Rightarrow> f_retr os av s
      | F_STOR \<Rightarrow> f_stor cfg os av s
      | F_STARTTLS \<Rightarrow> f_starttls depth cfg os av s
      | F_REPO \<Rightarrow> f_repo os av s
      | F_LOGIN \<Rightarrow> f_login cfg os av s
      | F_COMPRESS \<Rightarrow> f_compress cfg os av s)"

text \<open>At least four letters, and no more than the name in the table has.\<close>

definition find_command :: "command list \<Rightarrow> string \<Rightarrow> command option" where
  "find_command cs w = find (\<lambda>(name, f). strncasecmp w name (max (length w) 4) = 0) cs"

definition server0 :: "string \<Rightarrow> string option \<Rightarrow> server" where
  "server0 addr hname =
     \<lparr>user = None, password = NoPassword,
      remote_host = (case hname of None \<Rightarrow> addr | Some n \<Rightarrow> map c_tolower n),
      remote_addr = addr, remote_cn = None, special_dir = [], command_file = [], upload_xscript = [],
      access_list = [], commands = [], authorized = False, prevstor = False, zlib_on = False,
      sdbuf = decode_buf0, hist = []\<rparr>"

definition greeting :: "settings \<Rightarrow> os \<Rightarrow> server \<Rightarrow> server" where
  "greeting cfg os s =
     (let s = say os (''200'' @ (if rap_extensions cfg then ''-'' else '' '') @ ''RAP 1 '' @ os_hostname os @
          [SP] @ version cfg @ '' radmind access protocol'' @ CRLF) s
      in if \<not> rap_extensions cfg then s
         else let s = say os ''200 CAPA'' s;
                  s = (if 0 < max_zlib_level cfg then say os '' ZLIB'' s else s)
              in say os CRLF (say os '' REPO'' s))"

text \<open>Without TLS the client is looked up at once, by its name or address.\<close>

definition admit :: "nat \<Rightarrow> os \<Rightarrow> server \<Rightarrow> (hres \<times> server) outcome" where
  "admit depth os s =
     obind (command_k os ''config'' 0 s) (\<lambda>(n, s).
       if n < 0 then Ret (Quit 1, reply os 500 (''No access for '' @ remote_host s) s)
       else obind (server_read_kfile depth os (command_file s) s) (\<lambda>(n, s).
         if n \<noteq> 0 then Ret (Quit 1, s) else Ret (Rc 0, s\<lparr>commands := auth\<rparr>)))"

definition greet :: "settings \<Rightarrow> os \<Rightarrow> hres \<times> server \<Rightarrow> hres \<times> server" where
  "greet cfg os r =
     (if fst r \<noteq> Rc 0 then r
      else (case do_call os Gethostname (snd r) of
              (Some e, s) \<Rightarrow> (Quit 1, s)
            | (None, s) \<Rightarrow> (Rc 0, greeting cfg os s)))"

text \<open>
  \<open>cmdloop\<close> up to the loop, for a client with address \<open>addr\<close> and the name \<open>gethostbyaddr\<close> gives.
  The result \<open>Rc 0\<close> enters the loop.
\<close>

definition cmdloop_start ::
  "nat \<Rightarrow> settings \<Rightarrow> os \<Rightarrow> string \<Rightarrow> string option \<Rightarrow> (hres \<times> server) outcome" where
  "cmdloop_start depth cfg os addr hname =
     (let s = (server0 addr hname)\<lparr>commands := (if authlevel cfg = 0 then noauth else notls)\<rparr>;
          s = snd (do_call os (SetNoDelay True) s)
      in if maxconnections cfg \<noteq> 0 \<and> maxconnections cfg < connections cfg
         then Ret (Quit 1, reply os 420 ''Server busy'' s)
         else obind (if authlevel cfg \<noteq> 0 then Ret (Rc 0, s) else admit depth os s)
           (\<lambda>r. Ret (greet cfg os r)))"

text \<open>
  One round of the loop: \<open>None\<close> goes on, \<open>Some r\<close> is the end of the process or of \<open>cmdloop\<close>.
\<close>

definition after_handler :: "os \<Rightarrow> hres \<times> server \<Rightarrow> hres option \<times> server" where
  "after_handler os r =
     (case fst r of
        Quit n \<Rightarrow> (Some (Quit n), snd r)
      | Rc n \<Rightarrow>
          if n < 0 then (Some (Rc 0), reply os 444 ''Server closing connection'' (snd r))
          else (None, snd r))"

definition cmd_step ::
  "nat \<Rightarrow> settings \<Rightarrow> os \<Rightarrow> server \<Rightarrow> (hres option \<times> server) outcome" where
  "cmd_step depth cfg os s =
     (case do_call os GetLine s of
        (Some e, s) \<Rightarrow> Ret (Some (Rc 0), reply os 444 ''Server closing connection'' s)
      | (None, s) \<Rightarrow>
          obind (argcargv (os_line os (hist s))) (\<lambda>av.
            if av = [] then Ret (None, reply os 501 ''Illegal null command'' s)
            else (case find_command (commands s) (av ! 0) of
                    None \<Rightarrow> Ret (None, reply os 500 (''Command '' @ av ! 0 @ '' unrecognized'') s)
                  | Some (name, f) \<Rightarrow>
                      obind (run_handler depth cfg os f av s) (\<lambda>r. Ret (after_handler os r)))))"

text \<open>
  The states of a connection: at the top of the loop, or ended. A connection ends for good,
  so \<open>Ended\<close> has no step.
\<close>

datatype conn = Looping server | Ended hres server

inductive conn_step :: "nat \<Rightarrow> settings \<Rightarrow> os \<Rightarrow> conn \<Rightarrow> conn \<Rightarrow> bool"
  for depth cfg os where
  go: "cmd_step depth cfg os s = Ret (None, s') \<Longrightarrow> conn_step depth cfg os (Looping s) (Looping s')"
| stop: "cmd_step depth cfg os s = Ret (Some r, s') \<Longrightarrow> conn_step depth cfg os (Looping s) (Ended r s')"

inductive connected :: "nat \<Rightarrow> settings \<Rightarrow> os \<Rightarrow> string \<Rightarrow> string option \<Rightarrow> conn \<Rightarrow> bool"
  for depth cfg os addr hname where
  accepted: "cmdloop_start depth cfg os addr hname = Ret (Rc 0, s) \<Longrightarrow>
    connected depth cfg os addr hname (Looping s)"
| refused: "cmdloop_start depth cfg os addr hname = Ret (Quit n, s) \<Longrightarrow>
    connected depth cfg os addr hname (Ended (Quit n) s)"
| step: "connected depth cfg os addr hname c \<Longrightarrow> conn_step depth cfg os c c' \<Longrightarrow>
    connected depth cfg os addr hname c'"

inductive_cases conn_stepE: "conn_step depth cfg os c c'"
inductive_simps conn_step_Ended [simp]: "conn_step depth cfg os (Ended r s) c'"

end
