(* ===== verification/ServerCalls.thy ===== *)
theory ServerCalls
  imports ServerLoop
begin

text \<open>
  Which calls the handlers of the server make, and which part of the state they leave alone:
  one lemma per handler, in a calculus that follows the code.
\<close>

section \<open>What a piece of code adds to the trace\<close>

definition adds :: "(call \<Rightarrow> bool) \<Rightarrow> server \<Rightarrow> server \<Rightarrow> bool" where
  "adds P s s' \<longleftrightarrow> grows P (hist s) (hist s')"

text \<open>The part of the state that says what the client may do.\<close>

definition same_rights :: "server \<Rightarrow> server \<Rightarrow> bool" where
  "same_rights s s' \<longleftrightarrow>
     commands s' = commands s \<and> access_list s' = access_list s \<and> special_dir s' = special_dir s \<and>
     command_file s' = command_file s \<and> remote_host s' = remote_host s \<and> authorized s' = authorized s"

definition evolves :: "(call \<Rightarrow> bool) \<Rightarrow> server \<Rightarrow> server \<Rightarrow> bool" where
  "evolves P s s' \<longleftrightarrow> adds P s s' \<and> same_rights s s'"

named_theorems evolve

lemma adds_refl [simp]: "adds P s s"
  by (simp add: adds_def)

lemma adds_trans: "adds P s1 s2 \<Longrightarrow> adds P s2 s3 \<Longrightarrow> adds P s1 s3"
  unfolding adds_def by (rule grows_trans)

lemma adds_mono: "adds P s s' \<Longrightarrow> (\<And>c. P c \<Longrightarrow> Q c) \<Longrightarrow> adds Q s s'"
  unfolding adds_def by (rule grows_mono)

lemma adds_do_call: "do_call os c s1 = (e, s2) \<Longrightarrow> P c \<Longrightarrow> adds P s s1 \<Longrightarrow> adds P s s2"
  unfolding adds_def do_call_def by (auto simp: Let_def split: prod.splits elim: grows_answer)

lemma same_rights_refl [simp]: "same_rights s s"
  by (simp add: same_rights_def)

lemma same_rights_trans: "same_rights s1 s2 \<Longrightarrow> same_rights s2 s3 \<Longrightarrow> same_rights s1 s3"
  by (simp add: same_rights_def)

lemma evolves_refl [evolve]: "evolves P s s"
  by (simp add: evolves_def)

lemma evolves_trans: "evolves P s1 s2 \<Longrightarrow> evolves P s2 s3 \<Longrightarrow> evolves P s1 s3"
  unfolding evolves_def by (blast intro: adds_trans same_rights_trans)

lemma evolves_mono: "evolves P s s' \<Longrightarrow> (\<And>c. P c \<Longrightarrow> Q c) \<Longrightarrow> evolves Q s s'"
  unfolding evolves_def by (blast intro: adds_mono)

lemma do_call_fields:
  "do_call os c s1 = (e, s2) \<Longrightarrow> \<exists>h. s2 = s1\<lparr>hist := h\<rparr>"
  by (auto simp: do_call_def Let_def split: prod.splits)

lemma evolves_do_call: "do_call os c s1 = (e, s2) \<Longrightarrow> P c \<Longrightarrow> evolves P s s1 \<Longrightarrow> evolves P s s2"
  unfolding evolves_def
  by (auto simp: same_rights_def intro: adds_do_call dest: do_call_fields)

lemma evolves_snd_do_call [evolve]: "P c \<Longrightarrow> evolves P s s1 \<Longrightarrow> evolves P s (snd (do_call os c s1))"
  by (rule evolves_do_call [OF surjective_pairing])

lemma evolves_say [evolve]: "P (Send t) \<Longrightarrow> evolves P s s1 \<Longrightarrow> evolves P s (say os t s1)"
  by (simp add: say_def evolves_snd_do_call)

lemma evolves_reply [evolve]:
  "(\<And>t. P (Send t)) \<Longrightarrow> evolves P s s1 \<Longrightarrow> evolves P s (reply os n t s1)"
  by (simp add: reply_def evolves_say)

lemma evolves_update [evolve]:
  assumes "evolves P s s1"
  shows "evolves P s (s1\<lparr>prevstor := b\<rparr>)" "evolves P s (s1\<lparr>upload_xscript := x\<rparr>)"
    "evolves P s (s1\<lparr>zlib_on := b\<rparr>)" "evolves P s (s1\<lparr>sdbuf := x\<rparr>)" "evolves P s (s1\<lparr>password := p\<rparr>)"
    "evolves P s (s1\<lparr>user := u\<rparr>)"
  using assms by (simp_all add: evolves_def adds_def same_rights_def)

lemma decode_in_evolves: "decode_in t s1 = Ret (r, s2) \<Longrightarrow> evolves P s s1 \<Longrightarrow> evolves P s s2"
  by (auto simp: decode_in_def outcome_simps intro: evolves_update)

abbreviation ok_after :: "(call \<Rightarrow> bool) \<Rightarrow> server \<Rightarrow> ('a \<times> server) outcome \<Rightarrow> bool" where
  "ok_after P s m \<equiv> all_ret (\<lambda>(r, s'). evolves P s s') m"

lemma do_call_cases [all_ret_rules]:
  "(\<And>s'. do_call os c s = (None, s') \<Longrightarrow> all_ret P (f s')) \<Longrightarrow>
   (\<And>e s'. do_call os c s = (Some e, s') \<Longrightarrow> all_ret P (g e s')) \<Longrightarrow>
   all_ret P (case do_call os c s of (None, s') \<Rightarrow> f s' | (Some e, s') \<Rightarrow> g e s')"
  by (auto split: prod.splits option.splits)

text \<open>The same for functions that return a plain pair.\<close>

named_theorems pair_rules

lemma evolves_case_call [pair_rules]:
  assumes "\<And>s'. do_call os c s = (None, s') \<Longrightarrow> evolves P s0 (snd (f s'))"
    and "\<And>e s'. do_call os c s = (Some e, s') \<Longrightarrow> evolves P s0 (snd (g e s'))"
  shows "evolves P s0 (snd (case do_call os c s of (None, s') \<Rightarrow> f s' | (Some e, s') \<Rightarrow> g e s'))"
  using assms by (auto split: prod.splits option.splits)

lemma evolves_case_bool [pair_rules]:
  assumes "\<And>s'. p = (True, s') \<Longrightarrow> evolves P s0 (snd (f s'))" "\<And>s'. p = (False, s') \<Longrightarrow> evolves P s0 (snd (g s'))"
  shows "evolves P s0 (snd (case p of (True, s') \<Rightarrow> f s' | (False, s') \<Rightarrow> g s'))"
  using assms by (auto split: prod.splits bool.splits)

lemma evolves_case_sum [pair_rules]:
  assumes "\<And>a s'. p = (Inl a, s') \<Longrightarrow> evolves P s0 (snd (f a s'))"
    and "\<And>b s'. p = (Inr b, s') \<Longrightarrow> evolves P s0 (snd (g b s'))"
  shows "evolves P s0 (snd (case p of (Inl a, s') \<Rightarrow> f a s' | (Inr b, s') \<Rightarrow> g b s'))"
  using assms by (auto split: prod.splits sum.splits)

lemma evolves_case_prod [pair_rules]:
  "(\<And>a b. p = (a, b) \<Longrightarrow> evolves P s0 (snd (f a b))) \<Longrightarrow> evolves P s0 (snd (case p of (a, b) \<Rightarrow> f a b))"
  by (cases p) simp

lemma evolves_case_if [pair_rules]:
  "(b \<Longrightarrow> evolves P s0 (snd x)) \<Longrightarrow> (\<not> b \<Longrightarrow> evolves P s0 (snd y)) \<Longrightarrow> evolves P s0 (snd (if b then x else y))"
  by simp

lemma evolves_case_partial [pair_rules]:
  assumes "\<And>h. p = (None, h) \<Longrightarrow> evolves P s0 (snd (f h))" "\<And>e c h. p = (Some (e, c), h) \<Longrightarrow> evolves P s0 (snd (g e c h))"
  shows "evolves P s0 (snd (case p of (None, h) \<Rightarrow> f h | (Some (e, c), h) \<Rightarrow> g e c h))"
  using assms by (auto split: prod.splits option.splits)

lemma evolves_case_both [pair_rules]:
  assumes "\<And>a b. p = (Some a, Some b) \<Longrightarrow> evolves P s0 (snd (f a b))" "evolves P s0 (snd g)"
  shows "evolves P s0 (snd (case p of (Some a, Some b) \<Rightarrow> f a b | _ \<Rightarrow> g))"
  using assms by (auto split: prod.splits option.splits)

lemma evolves_snd_eq: "p = (r, s') \<Longrightarrow> evolves P s0 (snd p) \<Longrightarrow> evolves P s0 s'"
  by simp

section \<open>Handlers\<close>

definition is_send :: "call \<Rightarrow> bool" where
  "is_send c \<longleftrightarrow> (\<exists>t. c = Send t)"

lemma is_send_simps [simp]:
  "is_send (Send t)" "is_send c \<Longrightarrow> c \<noteq> Open p" "is_send c \<Longrightarrow> c \<noteq> Create p"
  by (auto simp: is_send_def)

text \<open>What a client may read: the contract of \<open>RETR\<close> and \<open>STAT\<close>.\<close>

definition granted :: "server \<Rightarrow> string \<Rightarrow> bool" where
  "granted s path \<longleftrightarrow>
     path = ''command/'' @ command_file s \<or>
     (\<exists>d. names_check (access_list s) d \<and> (path = ''command/'' @ d \<or> path = ''transcript/'' @ d)) \<or>
     (\<exists>d. path = special_dir s @ [SLASH] @ d) \<or>
     (\<exists>t d. names_check (access_list s) t \<and> path = ''file/'' @ t @ [SLASH] @ d)"

definition path_result :: "server \<Rightarrow> (hres + string) \<times> server \<Rightarrow> bool" where
  "path_result s r \<longleftrightarrow> evolves is_send s (snd r) \<and> (\<forall>p. fst r = Inr p \<longrightarrow> granted s p)"

lemma decode_in_rights:
  "decode_in t s = Ret (r, s') \<Longrightarrow>
     access_list s' = access_list s \<and> special_dir s' = special_dir s \<and> command_file s' = command_file s"
  by (auto simp: decode_in_def outcome_simps)

lemma listed_path_result:
  "dir = ''command/'' \<or> dir = ''transcript/'' \<Longrightarrow> all_ret (path_result s) (listed_path os dir arg s)"
  unfolding listed_path_def
  by (intro all_ret_rules)
    (auto simp: path_result_def granted_def dest: decode_in_rights
      intro!: evolve intro: decode_in_evolves split: option.splits)

lemma command_path_result: "all_ret (path_result s) (command_path os av s)"
  unfolding command_path_def
  by (intro all_ret_if listed_path_result all_ret_option)
    (auto simp: path_result_def granted_def intro!: evolve)

lemma special_path_result: "all_ret (path_result s) (special_path os av s)"
  unfolding special_path_def
  by (intro all_ret_rules)
    (auto simp: path_result_def granted_def dest: decode_in_rights
      intro!: evolve intro: decode_in_evolves)

lemma granted_file:
  assumes "decode_in a s = Ret (x, s1)" "decode_in b s1 = Ret (y, s2)" "names_check (access_list s2) t"
  shows "granted s (''file/'' @ t @ [SLASH] @ d)"
  using assms(3) decode_in_rights [OF assms(1)] decode_in_rights [OF assms(2)]
  by (auto simp: granted_def)

lemma file_path_result: "all_ret (path_result s) (file_path os av s)"
  unfolding file_path_def
  by (intro all_ret_rules)
    (auto simp: path_result_def intro: granted_file [simplified]
      intro!: evolve intro: decode_in_evolves)

text \<open>\<open>RETR\<close> makes its calls on one granted path.\<close>

definition reads :: "server \<Rightarrow> call \<Rightarrow> bool" where
  "reads s c \<longleftrightarrow> is_send c \<or> (\<exists>p. granted s p \<and> (c = Open p \<or> c = Fstat p \<or> c = Close p \<or> c = Stat p)) \<or>
     (\<exists>p. c = Fopen p \<or> c = Close p)"

lemma reads_simps [simp]:
  "reads s (Send t)" "reads s (Fopen p)" "reads s (Close p)" "reads s (Open p) \<longleftrightarrow> granted s p"
  "reads s (Fstat p) \<longleftrightarrow> granted s p" "reads s (Stat p) \<longleftrightarrow> granted s p"
  by (auto simp: reads_def is_send_def)

lemma reads_intros [evolve]:
  "reads s (Send t)" "reads s (Fopen p)" "reads s (Close p)" "granted s p \<Longrightarrow> reads s (Open p)"
  "granted s p \<Longrightarrow> reads s (Fstat p)" "granted s p \<Longrightarrow> reads s (Stat p)"
  by simp_all

lemma path_result_reads: "path_result s (r, s') \<Longrightarrow> evolves (reads s) s s'"
  unfolding path_result_def by (auto elim!: evolves_mono simp: reads_def)

lemma retr_loop_evolves [evolve]:
  "evolves (reads s0) s0 s \<Longrightarrow> evolves (reads s0) s0 (snd (retr_loop os rs s))"
proof (induction os rs s rule: retr_loop.induct)
  case (3 os bs rs s)
  show ?case
  proof (cases "do_call os (Send (chars_of bs)) s")
    case (Pair e s1)
    with 3 have "evolves (reads s0) s0 s1" by (auto elim: evolves_do_call)
    with 3 Pair show ?thesis by (auto split: option.splits)
  qed
qed simp_all

lemma retr_send_evolves [evolve]:
  assumes "granted s0 path" "evolves (reads s0) s0 s"
  shows "evolves (reads s0) s0 (snd (retr_send os path s))"
  unfolding retr_send_def Let_def using assms
  by - (intro pair_rules; (simp only: snd_conv)?;
    (assumption | rule evolve | erule evolves_do_call evolves_snd_eq)+)

lemma request_path_result: "all_ret (path_result s) (request_path os key av s)"
  unfolding request_path_def
  by (cases key) (simp_all add: command_path_result listed_path_result special_path_result file_path_result)

lemma with_path_evolves:
  assumes "all_ret (path_result s) m"
    and "\<And>p s'. granted s p \<Longrightarrow> evolves (reads s) s s' \<Longrightarrow> ok_after (reads s) s (f p s')"
  shows "ok_after (reads s) s (with_path m f)"
  unfolding with_path_def
proof (intro all_ret_bind all_ret_prod)
  fix x r s' assume "m = Ret x" "x = (r, s')"
  with assms(1) have pr: "path_result s (r, s')" by (auto dest: all_retD)
  note e = path_result_reads [OF pr]
  show "ok_after (reads s) s (case r of Inl e \<Rightarrow> Ret (e, s') | Inr path \<Rightarrow> f path s')"
    using pr e by (cases r) (auto simp: path_result_def intro: assms(2))
qed

lemma f_retr_evolves: "ok_after (reads s) s (f_retr os av s)"
  unfolding f_retr_def
  by (intro all_ret_option with_path_evolves request_path_result)
    (auto simp: split_beta intro!: evolve)

lemma special_t_evolves:
  "evolves (reads s0) s0 s \<Longrightarrow> ok_after (reads s0) s0 (special_t os ps rp s)"
proof (induction ps arbitrary: s)
  case (Cons p ps)
  show ?case unfolding special_t.simps Let_def
    by (intro all_ret_option do_call_cases all_ret_bind; (simp only: all_ret_Ret prod.case)?;
      (assumption | rule evolve Cons | erule evolves_do_call)+)
qed simp

lemma cksum_call_evolves [evolve]:
  "granted s0 path \<Longrightarrow> evolves (reads s0) s0 s \<Longrightarrow> evolves (reads s0) s0 (snd (cksum_call os md path s))"
  unfolding cksum_call_def Let_def
  by (intro pair_rules; (simp only: snd_conv)?;
    (assumption | rule evolve | erule evolves_do_call evolves_snd_eq)+)

lemma stat_reply_evolves:
  assumes "evolves (reads s0) s0 s"
  shows "ok_after (reads s0) s0 (stat_reply os key av path st b64 s)"
proof (cases key)
  case K_SPECIAL
  show ?thesis unfolding stat_reply_def K_SPECIAL Let_def key.case
  proof (intro all_ret_bind)
    fix r assume "special_t os (special_paths s path) (av ! 2) s = Ret r"
    with special_t_evolves [OF assms] have "evolves (reads s0) s0 (snd r)"
      by (fastforce dest: all_retD)
    then show "ok_after (reads s0) s0 (case r of
        (None, s) \<Rightarrow> Ret (Rc 0, say os (stat_default (av ! 2) st b64) s)
      | (Some av', s) \<Rightarrow> Ret (Rc 0, say os (stat_words (av' ! 0) (av ! 2) (av' ! 2) (av' ! 3) (av' ! 4) st b64) s))"
      by (cases r; cases "fst r") (simp_all add: evolve)
  qed
qed (use assms in \<open>simp_all add: stat_reply_def evolve\<close>)

lemma all_ret_mono: "all_ret P m \<Longrightarrow> (\<And>x. P x \<Longrightarrow> Q x) \<Longrightarrow> all_ret Q m"
  by (auto simp: all_ret_def)

lemma stat_send_evolves:
  "granted s0 path \<Longrightarrow> evolves (reads s0) s0 s \<Longrightarrow> ok_after (reads s0) s0 (stat_send cfg os key av path s)"
  unfolding stat_send_def Let_def
  by (intro do_call_cases all_ret_option all_ret_prod all_ret_if stat_reply_evolves;
    (simp only: all_ret_Ret prod.case)?;
    (assumption | rule evolve | erule evolves_do_call evolves_snd_eq)+)

lemma f_stat_evolves: "ok_after (reads s) s (f_stat cfg os av s)"
  unfolding f_stat_def Let_def
  by (intro all_ret_option all_ret_if with_path_evolves request_path_result stat_send_evolves)
    (auto intro: evolve)

section \<open>\<open>STOR\<close>\<close>

text \<open>What \<open>STOR\<close> creates, writes and removes lies under \<open>tmp\<close>.\<close>

definition under_tmp :: "string \<Rightarrow> bool" where
  "under_tmp p \<longleftrightarrow> (\<exists>r. p = ''tmp'' @ r)"

fun stores :: "call \<Rightarrow> bool" where
  "stores (Create p) = under_tmp p"
| "stores (Write p d) = under_tmp p"
| "stores (Mkdir p m) = under_tmp p"
| "stores (Unlink p) = under_tmp p"
| "stores (Close p) = under_tmp p"
| "stores (Send t) = True"
| "stores GetLine = True"
| "stores (Recv n) = True"
| "stores (SetNoDelay b) = True"
| "stores c = False"

lemma stores_intros [evolve]:
  "under_tmp p \<Longrightarrow> stores (Create p)" "under_tmp p \<Longrightarrow> stores (Write p d)" "under_tmp p \<Longrightarrow> stores (Mkdir p m)"
  "under_tmp p \<Longrightarrow> stores (Unlink p)" "under_tmp p \<Longrightarrow> stores (Close p)" "stores (Send t)" "stores GetLine"
  "stores (Recv n)" "stores (SetNoDelay b)" "under_tmp (''tmp/transcript/'' @ d)" "under_tmp (''tmp/file/'' @ d)"
  by (simp_all add: under_tmp_def)

lemma stor_loop_evolves:
  "under_tmp up \<Longrightarrow> evolves stores s0 s \<Longrightarrow> evolves stores s0 (snd (stor_loop os up len s))"
proof (induction os up len s rule: stor_loop.induct)
  case (1 os up len s)
  show ?case unfolding stor_loop.simps [of os up len s] Let_def
    by (intro pair_rules; (simp only: snd_conv)?;
      (assumption | rule evolve "1.prems" "1.IH" refl | erule evolves_do_call | simp only: not_le)+)
qed

lemma stor_receive_evolves:
  "under_tmp up \<Longrightarrow> evolves stores s0 s \<Longrightarrow> evolves stores s0 (snd (stor_receive os up s))"
  unfolding stor_receive_def Let_def
  by (intro pair_rules; (simp only: snd_conv)?;
    (assumption | rule evolve stor_loop_evolves | erule evolves_do_call evolves_snd_eq)+)

lemma stor_open_evolves:
  assumes up: "up = ''tmp/'' @ q" and e: "evolves stores s0 s"
  shows "evolves stores s0 (snd (stor_open os up s))"
proof -
  have u: "under_tmp up" using up by (simp add: under_tmp_def)
  have m: "evolves stores s0 (s1\<lparr>hist := h\<rparr>)" if "mkdirs os up (hist s1) = (r, h)" "evolves stores s0 s1" for s1 r h
  proof -
    have "under_tmp p" if "up = p @ SLASH # r" for p r
    proof -
      from up that have "p @ SLASH # r = ''tmp'' @ SLASH # q" by simp
      then show ?thesis by (auto simp: under_tmp_def append_eq_Cons_conv)
    qed
    then have "grows stores (hist s1) h" by (intro mkdirs_grows [OF that(1)]) auto
    with that(2) show ?thesis
      by (auto simp: evolves_def adds_def same_rights_def intro: grows_trans)
  qed
  show ?thesis unfolding stor_open_def
    by (intro pair_rules; (simp only: snd_conv)?;
      (assumption | rule evolve stor_receive_evolves u e | erule evolves_do_call m)+)
qed

definition stored_path :: "server \<Rightarrow> (hres + string) \<times> server \<Rightarrow> bool" where
  "stored_path s r \<longleftrightarrow> evolves stores s (snd r) \<and> (\<forall>p. fst r = Inr p \<longrightarrow> (\<exists>q. p = ''tmp/'' @ q))"

lemma stored_path_reply: "evolves stores s0 s \<Longrightarrow> stored_path s0 (Inl e, s)"
  by (simp add: stored_path_def)

lemma stor_transcript_evolves:
  "evolves stores s0 s \<Longrightarrow> evolves stores s0 (snd (stor_transcript os av d s))"
  unfolding stor_transcript_def
  by (intro pair_rules; (simp only: snd_conv snprintf_Some_iff prod.inject)?;
    (assumption | rule evolve | erule evolves_do_call conjE | hypsubst)+)

lemma stor_transcript_path: "evolves stores s0 s \<Longrightarrow> stored_path s0 (stor_transcript os av d s)"
  by (auto simp: stored_path_def stor_transcript_evolves)
    (auto simp: stor_transcript_def snprintf_def split: option.splits prod.splits if_splits)

lemma stor_file_path:
  "evolves stores s0 s \<Longrightarrow> all_ret (stored_path s0) (stor_file os av d s)"
  unfolding stor_file_def stored_path_def
  by (intro all_ret_rules) (auto intro!: evolve intro: decode_in_evolves)

lemma f_stor_evolves: "ok_after stores s (f_stor cfg os av s)"
proof -
  have w: "ok_after stores s (with_path m (\<lambda>upload s. Ret (stor_open os upload s)))" if "all_ret (stored_path s) m" for m
    unfolding with_path_def
  proof (intro all_ret_bind all_ret_prod)
    fix x r s' assume "m = Ret x" "x = (r, s')"
    with that have "stored_path s (r, s')" by (auto dest: all_retD)
    then show "ok_after stores s (case r of Inl e \<Rightarrow> Ret (e, s') | Inr up \<Rightarrow> Ret (stor_open os up s'))"
      by (cases r) (auto simp: stored_path_def split_beta intro: stor_open_evolves)
  qed
  have k: "all_ret (stored_path s) (case keyword s' av of
               Some K_TRANSCRIPT \<Rightarrow> Ret (stor_transcript os av d s')
             | Some K_FILE \<Rightarrow> stor_file os av d s'
             | _ \<Rightarrow> Ret (Inl (Quit 1), reply os 550 ''STOR Syntax error'' s'))"
    if "evolves stores s s'" for d s'
    using that
    by (auto simp: stor_transcript_path stor_file_path split: option.splits key.splits
      intro!: evolve stored_path_reply)
  have u: "evolves stores s s1 \<Longrightarrow> evolves stores s (s1\<lparr>prevstor := True\<rparr>)" for s1 by (rule evolve)
  have n: "evolves stores s s1" if "(if prevstor s then (None, s) else do_call os (SetNoDelay False) s) = (e, s1)" for e s1
    using that by (auto intro: evolve elim: evolves_do_call split: if_splits)
  show ?thesis unfolding f_stor_def Let_def
    by (intro all_ret_prod all_ret_option all_ret_if all_ret_bind w k all_ret_end;
      (simp only: all_ret_Ret prod.case)?;
      (assumption | rule evolve u | erule decode_in_evolves n)+)
qed

section \<open>The other handlers\<close>

text \<open>Calls that name no file.\<close>

fun no_file :: "call \<Rightarrow> bool" where
  "no_file (Send t) = True"
| "no_file GetLine = True"
| "no_file (SetNoDelay b) = True"
| "no_file Gethostname = True"
| "no_file (SetCompression n) = True"
| "no_file (Syslog t) = True"
| "no_file (PamStart u) = True"
| "no_file (PamAuth r) = True"
| "no_file (PamAcct r) = True"
| "no_file PamEnd = True"
| "no_file StartTls = True"
| "no_file c = False"

lemma no_file_intros [evolve]:
  "no_file (Send t)" "no_file GetLine" "no_file (SetNoDelay b)" "no_file Gethostname" "no_file (SetCompression n)"
  "no_file (Syslog t)" "no_file (PamStart u)" "no_file (PamAuth r)" "no_file (PamAcct r)" "no_file PamEnd"
  "no_file StartTls"
  by simp_all

lemma short_evolves:
  "ok_after no_file s (f_quit os av s)" "ok_after no_file s (f_noop os av s)" "ok_after no_file s (f_help os av s)"
  "ok_after no_file s (f_noauth os av s)" "ok_after no_file s (f_notls os av s)"
  by (auto simp: f_quit_def f_noop_def f_help_def f_noauth_def f_notls_def intro!: evolve)

lemma f_repo_evolves: "ok_after no_file s (f_repo os av s)"
  unfolding f_repo_def Let_def
  by (intro all_ret_rules; (simp only: all_ret_Ret prod.case)?;
    (assumption | rule evolve | erule decode_in_evolves)+)

lemma f_compress_evolves: "ok_after no_file s (f_compress cfg os av s)"
  unfolding f_compress_def Let_def
  by (intro do_call_cases all_ret_if; (simp only: all_ret_Ret prod.case)?;
    (assumption | rule evolve | erule evolves_do_call)+)

text \<open>\<open>LOGIN\<close> sets \<open>authorized\<close>, and only after every PAM call has succeeded.\<close>

definition logged_in :: "history \<Rightarrow> bool" where
  "logged_in h \<longleftrightarrow>
     (\<exists>r a. Did (PamAuth r) None \<in> set h \<and> Did (PamAcct a) None \<in> set h \<and> Did PamEnd None \<in> set h)"

lemma do_call_event: "do_call os c s = (e, s') \<Longrightarrow> hist s' = hist s @ [Did c e]"
  by (auto simp: do_call_def answer_split Let_def)

lemma hist_say: "\<exists>e. hist (say os t s) = hist s @ [Did (Send t) e]"
  by (auto simp: say_def do_call_def answer_split Let_def)

lemma hist_reply: "\<exists>t' e. hist (reply os n t s) = hist s @ [Did (Send t') e]"
  using hist_say by (fastforce simp: reply_def)

definition login_result :: "server \<Rightarrow> hres \<times> server \<Rightarrow> bool" where
  "login_result s r \<longleftrightarrow>
     evolves no_file s (snd r) \<or>
     (\<exists>s'. evolves no_file s s' \<and> logged_in (hist s') \<and> snd r = s'\<lparr>authorized := True\<rparr>)"

lemma login_failed_result: "evolves no_file s0 s \<Longrightarrow> all_ret (login_result s0) (login_failed os s)"
  by (simp add: login_failed_def login_result_def evolve)

lemma login_result_reply: "evolves no_file s0 s \<Longrightarrow> login_result s0 (r, s)"
  by (simp add: login_result_def)

lemma login_done:
  assumes "do_call os (PamAuth r) s1 = (None, s2)" "do_call os (PamAcct a) (s2\<lparr>password := p\<rparr>) = (None, s3)"
    "do_call os PamEnd s3 = (None, s4)" "evolves no_file s0 s1"
  shows "login_result s0 (Rc 0, (reply os n t s4)\<lparr>authorized := True\<rparr>)"
proof -
  have "evolves no_file s0 (reply os n t s4)"
    using assms by (intro evolve) (blast intro: evolves_do_call evolves_update(5) no_file_intros)+
  moreover have "logged_in (hist (reply os n t s4))"
    using assms(1-3) [THEN do_call_event] hist_reply [of os n t s4] unfolding logged_in_def by fastforce
  ultimately show ?thesis by (auto simp: login_result_def)
qed

lemma f_login_result: "all_ret (login_result s) (f_login cfg os av s)"
  unfolding f_login_def Let_def
  by (intro do_call_cases all_ret_if all_ret_bind all_ret_end login_failed_result; (simp only: all_ret_Ret)?;
    (assumption | erule login_done | rule evolve login_result_reply | erule evolves_do_call)+)

section \<open>The configuration\<close>

fun configures :: "call \<Rightarrow> bool" where
  "configures (SnetOpen p) = True"
| "configures (Fopen p) = True"
| "configures (Close p) = True"
| "configures (Send t) = True"
| "configures c = False"

text \<open>\<open>command_k\<close> and \<open>read_kfile\<close> leave the commands and the login alone.\<close>

definition config_ext :: "server \<Rightarrow> server \<Rightarrow> bool" where
  "config_ext s s' \<longleftrightarrow> adds configures s s' \<and> commands s' = commands s \<and> authorized s' = authorized s \<and>
     remote_host s' = remote_host s"

lemma config_ext_trans: "config_ext s1 s2 \<Longrightarrow> config_ext s2 s3 \<Longrightarrow> config_ext s1 s3"
  by (auto simp: config_ext_def intro: adds_trans)

lemma config_ext_do_call:
  "do_call os c s1 = (e, s2) \<Longrightarrow> configures c \<Longrightarrow> config_ext s s1 \<Longrightarrow> config_ext s s2"
  unfolding config_ext_def by (auto intro: adds_do_call dest: do_call_fields)

lemma config_ext_reply: "config_ext s s1 \<Longrightarrow> config_ext s (reply os n t s1)"
  unfolding reply_def say_def by (rule config_ext_do_call [OF surjective_pairing]) simp_all

lemma config_ext_intros [evolve]:
  "config_ext s s" "config_ext s s1 \<Longrightarrow> config_ext s (s1\<lparr>special_dir := x\<rparr>)"
  "config_ext s s1 \<Longrightarrow> config_ext s (s1\<lparr>command_file := x\<rparr>)" "config_ext s s1 \<Longrightarrow> config_ext s (s1\<lparr>access_list := l\<rparr>)"
  "config_ext s s1 \<Longrightarrow> config_ext s (not_available os s1)"
  "configures (SnetOpen p)" "configures (Fopen p)" "configures (Close p)" "configures (Send t)"
  by (simp_all add: config_ext_def adds_def not_available_def) (simp add: config_ext_reply [unfolded config_ext_def adds_def])

abbreviation config_ok :: "server \<Rightarrow> ('a \<times> server) outcome \<Rightarrow> bool" where
  "config_ok s m \<equiv> all_ret (\<lambda>(r, s'). config_ext s s') m"

lemma config_ok_bind:
  "config_ok s m \<Longrightarrow> (\<And>r s'. config_ext s s' \<Longrightarrow> m = Ret (r, s') \<Longrightarrow> config_ok s (f (r, s'))) \<Longrightarrow> config_ok s (obind m f)"
  by (intro all_ret_bind) (auto dest: all_retD)

lemma config_ok_trans: "config_ext s s1 \<Longrightarrow> config_ok s1 m \<Longrightarrow> config_ok s m"
  by (auto elim!: all_ret_mono intro: config_ext_trans)

lemma config_entry_ok: "config_ext s s1 \<Longrightarrow> config_ok s (config_entry av s1)"
  unfolding config_entry_def Let_def
  by (intro all_ret_rules; (simp only: all_ret_Ret prod.case)?; (assumption | rule evolve)+)

lemma command_lines_ok:
  assumes "\<And>f s1 path. rec = Some f \<Longrightarrow> config_ok s1 (f path s1)"
  shows "config_ext s s1 \<Longrightarrow> config_ok s (command_lines rec ls s1)"
proof (induction ls arbitrary: s1)
  case (Cons l ls)
  obtain av where a: "argcargv l = Ret av" using argcargv_defined by blast
  have R: "config_ok s (Ret (-1, s1))" and A: "config_ok s (command_lines rec ls s1)"
    using Cons by simp_all
  have E: "config_ok s (obind (config_entry av s1) (\<lambda>(found, s). if found then Ret (0, s) else command_lines rec ls s))"
    by (rule config_ok_bind [OF config_entry_ok [OF Cons.prems]]) (simp add: Cons.IH)
  have I: "config_ok s (obind (if length av = 3 then match_config_entry s1 (av ! 2) else Ret (Some [])) (\<lambda>v.
      if v = None then command_lines rec ls s1
      else obind (f (av ! 1) s1) (\<lambda>(n, s). if n \<noteq> 0 then command_lines rec ls s else Ret (0, s))))"
    if "rec = Some f" for f
  proof (rule all_ret_bind, rule all_ret_if [OF A])
    show "config_ok s (obind (f (av ! 1) s1) (\<lambda>(n, s). if n \<noteq> 0 then command_lines rec ls s else Ret (0, s)))"
      by (rule config_ok_bind [OF config_ok_trans [OF Cons.prems assms [OF that]]]) (simp add: Cons.IH)
  qed
  show ?case unfolding command_lines.simps a obind.simps
    by (intro all_ret_if all_ret_option; (rule A | rule R | rule E | rule I, assumption))
qed (simp add: evolve)

lemma command_at_ok: "config_ok s (command_at k os path s)"
proof (induction k arbitrary: path s)
  case 0
  show ?case unfolding command_at.simps
    by (intro do_call_cases command_lines_ok; (simp only: all_ret_Ret prod.case option.distinct)?;
      (assumption | rule evolve | erule config_ext_do_call)+)
next
  case (Suc k)
  show ?case unfolding command_at.simps
    by (intro do_call_cases command_lines_ok; (simp only: all_ret_Ret prod.case option.inject)?;
      (assumption | rule evolve | erule config_ext_do_call | hypsubst, rule Suc)+)
qed

lemma command_k_ok: "config_ok s (command_k os path d s)"
  by (simp add: command_k_def command_at_ok)

lemma access_add_ok: "config_ext s s1 \<Longrightarrow> config_ok s (access_add os name s1)"
  unfolding access_add_def Let_def
  by (intro all_ret_rules; (simp only: all_ret_Ret prod.case)?; (assumption | rule evolve)+)

lemma access_line_ok:
  assumes "\<And>s1 f. config_ok s1 (rec f s1)"
  shows "config_ext s s1 \<Longrightarrow> config_ok s (access_line os rec av s1)"
  unfolding access_line_def Let_def
  by (intro all_ret_if config_ok_bind access_add_ok;
    (simp only: all_ret_Ret prod.case)?;
    (assumption | rule evolve all_ret_if config_ok_bind | erule config_ok_trans, rule assms
      | simp only: all_ret_Ret prod.case)+)

lemma access_lines_ok:
  "(\<And>s1 f. config_ok s1 (rec f s1)) \<Longrightarrow> config_ext s s1 \<Longrightarrow> config_ok s (access_lines os rec inp s1)"
proof (induction os rec inp s1 rule: access_lines.induct)
  case (1 os rec inp s1)
  show ?case
  proof (cases "fgets MAXPATHLEN inp")
    case None
    with "1.prems" show ?thesis by (simp add: access_lines.simps [of os rec inp])
  next
    case (Some p)
    then obtain buf rest where f: "fgets MAXPATHLEN inp = Some (buf, rest)" by (cases p) simp
    obtain av where a: "argcargv (cstr buf) = Ret av" using argcargv_defined by blast
    note IH = "1.IH" [OF f refl a]
    have "config_ok s (obind (access_line os rec av s1) (\<lambda>(n, s). if n \<noteq> 0 then Ret (-1, s) else access_lines os rec rest s))"
      if "\<not> (av = [] \<or> char_at (av ! 0) 0 = CHR ''#'')"
      using that "1.prems"
      by (intro config_ok_bind [OF access_line_ok]) (auto intro!: IH(2) simp: all_ret_if)
    with IH(1) "1.prems" f a show ?thesis by (simp add: access_lines.simps [of os rec inp])
  qed
qed

lemma server_read_kfile_ok: "config_ok s (server_read_kfile k os kfile s)"
proof (induction k arbitrary: kfile s)
  case (Suc k)
  show ?case unfolding server_read_kfile.simps
    by (intro all_ret_option do_call_cases config_ok_bind [OF access_lines_ok] Suc all_ret_prod all_ret_if;
      (simp only: all_ret_Ret prod.case)?;
      (assumption | rule evolve | erule config_ext_do_call Pair_inject | hypsubst)+)
qed simp

section \<open>\<open>STARTTLS\<close>\<close>

text \<open>Nothing but the connection is touched, unless the handshake succeeds.\<close>

definition starttls_result :: "server \<Rightarrow> hres \<times> server \<Rightarrow> bool" where
  "starttls_result s r \<longleftrightarrow>
     evolves no_file s (snd r) \<or>
     (\<exists>s1. evolves no_file s s1 \<and> Did StartTls None \<in> set (hist s1) \<and> adds configures s1 (snd r) \<and>
        authorized (snd r) = authorized s)"

lemma starttls_failed: "evolves no_file s0 s \<Longrightarrow> starttls_result s0 (r, s)"
  by (simp add: starttls_result_def)

lemma starttls_done:
  assumes "do_call os StartTls s = (None, s1)" "evolves no_file s0 s"
    "adds configures s1 s2" "authorized s2 = authorized s1"
  shows "starttls_result s0 (r, s2)"
proof -
  have "evolves no_file s0 s1" by (rule evolves_do_call [OF assms(1) _ assms(2)]) simp
  moreover have "Did StartTls None \<in> set (hist s1)" using do_call_event [OF assms(1)] by simp
  ultimately show ?thesis
    using assms(3,4) by (auto simp: starttls_result_def evolves_def same_rights_def)
qed

definition client_ext :: "server \<Rightarrow> server \<Rightarrow> bool" where
  "client_ext s s' \<longleftrightarrow> adds configures s s' \<and> authorized s' = authorized s"

lemma config_client_ext: "config_ext s s' \<Longrightarrow> client_ext s s'"
  by (simp add: config_ext_def client_ext_def)

lemma client_ext_trans: "client_ext s1 s2 \<Longrightarrow> client_ext s2 s3 \<Longrightarrow> client_ext s1 s3"
  by (auto simp: client_ext_def intro: adds_trans)

lemma client_ext_commands [simp]:
  "client_ext s (s'\<lparr>commands := cs\<rparr>) = client_ext s s'" "client_ext (s\<lparr>commands := cs\<rparr>) s' = client_ext s s'"
  by (simp_all add: client_ext_def adds_def)

lemma find_client_ext: "all_ret (\<lambda>(r, s'). client_ext s s') (find_client depth os s)"
  unfolding find_client_def
proof (intro all_ret_bind all_ret_prod all_ret_if)
  fix x n s3 assume "command_k os ''config'' 0 s = Ret x" "x = (n, s3)"
  with command_k_ok [of s os "''config''" 0] have c: "client_ext s s3"
    by (auto dest: all_retD intro: config_client_ext)
  then show "all_ret (\<lambda>(r, s'). client_ext s s') (Ret (Rc 0, s3\<lparr>commands := noauth\<rparr>))" by simp
  fix y m s4 assume "server_read_kfile depth os (command_file s3) (s3\<lparr>commands := auth\<rparr>) = Ret y" "y = (m, s4)"
  with server_read_kfile_ok have "config_ext (s3\<lparr>commands := auth\<rparr>) s4" by (fastforce dest: all_retD)
  from config_client_ext [OF this] c
  show "all_ret (\<lambda>(r, s'). client_ext s s') (Ret (if m \<noteq> 0 then Quit 1 else Rc 0, s4))"
    by (auto intro: client_ext_trans)
qed

lemma starttls_client:
  assumes "do_call os StartTls s = (None, s1)" "evolves no_file s0 s" "peer_name cfg os s1 = Some s2"
  shows "all_ret (starttls_result s0) (find_client depth os s2)"
proof (rule all_ret_mono [OF find_client_ext], clarify)
  fix r s3 assume "client_ext s2 s3"
  moreover have "client_ext s1 s2"
    using assms(3) by (auto simp: peer_name_def client_ext_def adds_def split: if_splits option.splits)
  ultimately have "client_ext s1 s3" by (rule client_ext_trans [rotated])
  then show "starttls_result s0 (r, s3)"
    unfolding client_ext_def by (intro starttls_done [OF assms(1,2)]) simp_all
qed

lemma f_starttls_result: "all_ret (starttls_result s) (f_starttls depth cfg os av s)"
  unfolding f_starttls_def
  by (intro all_ret_if do_call_cases all_ret_option; (simp only: all_ret_Ret)?;
    (assumption | erule starttls_client | rule evolve starttls_failed | erule evolves_do_call)+)

end
