(* ===== verification/ServerSafety.thy ===== *)
theory ServerSafety
  imports ServerCalls
begin

text \<open>
  Invariants of a connection to the server, by rule induction over its steps: no file before TLS,
  no upload before a login, no path outside what is granted; also that reading the command files
  ends, and what the data loops of \<open>RETR\<close> and \<open>STOR\<close> transfer.
\<close>

section \<open>What comes before what\<close>

definition preceded :: "(history \<Rightarrow> bool) \<Rightarrow> (call \<Rightarrow> bool) \<Rightarrow> history \<Rightarrow> bool" where
  "preceded G P h \<longleftrightarrow> (\<forall>h1 c e h2. h = h1 @ Did c e # h2 \<longrightarrow> P c \<longrightarrow> G h1)"

definition tls_up :: "history \<Rightarrow> bool" where
  "tls_up h \<longleftrightarrow> Did StartTls None \<in> set h"

definition names_file :: "call \<Rightarrow> bool" where
  "names_file c \<longleftrightarrow> \<not> no_file c"

fun is_write :: "call \<Rightarrow> bool" where
  "is_write (Create p) = True"
| "is_write (Write p d) = True"
| "is_write (Mkdir p m) = True"
| "is_write (Unlink p) = True"
| "is_write c = False"

text \<open>The conditions are facts of the past, so they stay.\<close>

locale past =
  fixes G :: "history \<Rightarrow> bool"
  assumes stays: "G h \<Longrightarrow> G (h @ k)"
begin

lemma preceded_Nil: "preceded G P []"
  by (simp add: preceded_def)

lemma grows_stays: "grows Q h h' \<Longrightarrow> G h \<Longrightarrow> G h'"
  by (auto simp: grows_def stays)

lemma preceded_append:
  assumes "preceded G P h" "\<And>k1 c e k2. k = k1 @ Did c e # k2 \<Longrightarrow> P c \<Longrightarrow> G (h @ k1)"
  shows "preceded G P (h @ k)"
  unfolding preceded_def
proof (intro allI impI)
  fix h1 c e h2 assume eq: "h @ k = h1 @ Did c e # h2" and P: "P c"
  from eq consider (old) h3 where "h = h1 @ Did c e # h3" | (new) k1 where "k = k1 @ Did c e # h2" "h1 = h @ k1"
    by (auto simp: append_eq_append_conv2 append_eq_Cons_conv Cons_eq_append_conv)
  then show "G h1"
  proof cases
    case old
    with assms(1) P show ?thesis by (auto simp: preceded_def)
  next
    case new
    with assms(2) P show ?thesis by auto
  qed
qed

text \<open>Nothing that needs the condition is done, or it already holds.\<close>

lemma preceded_free:
  "preceded G P h \<Longrightarrow> grows Q h h' \<Longrightarrow> (\<And>c. Q c \<Longrightarrow> \<not> P c) \<Longrightarrow> preceded G P h'"
  by (fastforce simp: grows_def intro!: preceded_append)

lemma preceded_after: "preceded G P h \<Longrightarrow> grows Q h h' \<Longrightarrow> G h \<Longrightarrow> preceded G P h'"
  by (fastforce simp: grows_def intro!: preceded_append stays)

end

interpretation tls: past tls_up
  by unfold_locales (simp add: tls_up_def)

interpretation login: past logged_in
  by unfold_locales (auto simp: logged_in_def)

section \<open>One step\<close>

text \<open>A call of a handler reads what is granted, writes under \<open>tmp\<close>, or names no file of the client's.\<close>

definition permitted :: "server \<Rightarrow> call \<Rightarrow> bool" where
  "permitted s c \<longleftrightarrow> reads s c \<or> stores c \<or> no_file c \<or> configures c"

lemma permittedD:
  "permitted s (Open p) \<Longrightarrow> granted s p" "permitted s (Stat p) \<Longrightarrow> granted s p"
  "permitted s (Create p) \<Longrightarrow> under_tmp p" "permitted s (Write p d) \<Longrightarrow> under_tmp p"
  "permitted s (Mkdir p m) \<Longrightarrow> under_tmp p" "permitted s (Unlink p) \<Longrightarrow> under_tmp p"
  by (simp_all add: permitted_def reads_def is_send_def)

text \<open>What the result of a handler has in common for all of them.\<close>

definition handled :: "server \<Rightarrow> handler \<Rightarrow> hres \<times> server \<Rightarrow> bool" where
  "handled s f r \<longleftrightarrow>
     adds (permitted s) s (snd r) \<and>
     (f \<noteq> F_STARTTLS \<longrightarrow> commands (snd r) = commands s) \<and>
     (f \<noteq> F_LOGIN \<longrightarrow> authorized (snd r) = authorized s) \<and>
     (f \<in> {F_QUIT, F_NOOP, F_HELP, F_NOAUTH, F_NOTLS} \<longrightarrow> adds no_file s (snd r)) \<and>
     (f \<noteq> F_STOR \<longrightarrow> adds (\<lambda>c. \<not> is_write c) s (snd r)) \<and>
     (f = F_STARTTLS \<longrightarrow> starttls_result s r) \<and> (f = F_LOGIN \<longrightarrow> login_result s r)"

lemma no_writes:
  "reads s c \<Longrightarrow> \<not> is_write c" "no_file c \<Longrightarrow> \<not> is_write c" "configures c \<Longrightarrow> \<not> is_write c"
  by (auto simp: reads_def is_send_def elim: no_file.elims configures.elims)

lemma evolves_adds: "evolves P s s' \<Longrightarrow> (\<And>c. P c \<Longrightarrow> Q c) \<Longrightarrow> adds Q s s'"
  unfolding evolves_def by (blast intro: adds_mono)

lemma handled_evolves:
  assumes "evolves P s s'" "\<And>c. P c \<Longrightarrow> permitted s c" "f \<noteq> F_STARTTLS" "f \<noteq> F_LOGIN"
    "f \<noteq> F_STOR \<Longrightarrow> (\<And>c. P c \<Longrightarrow> \<not> is_write c)"
    "f \<in> {F_QUIT, F_NOOP, F_HELP, F_NOAUTH, F_NOTLS} \<Longrightarrow> P = no_file"
  shows "handled s f (r, s')"
  using assms(3,4) evolves_adds [OF assms(1)] assms(2,5,6) assms(1)
  by (auto simp: handled_def evolves_def same_rights_def)

lemma starttls_handled:
  assumes "starttls_result s r"
  shows "handled s F_STARTTLS r"
proof -
  have "adds (\<lambda>c. no_file c \<or> configures c) s (snd r) \<and> authorized (snd r) = authorized s"
    using assms unfolding starttls_result_def
  proof
    assume "evolves no_file s (snd r)"
    then show ?thesis by (auto intro: evolves_adds simp: evolves_def same_rights_def)
  next
    assume "\<exists>s1. evolves no_file s s1 \<and> Did StartTls None \<in> set (hist s1) \<and> adds configures s1 (snd r) \<and>
        authorized (snd r) = authorized s"
    then obtain s1 where s1: "evolves no_file s s1" "adds configures s1 (snd r)"
      "authorized (snd r) = authorized s" by blast
    have "adds (\<lambda>c. no_file c \<or> configures c) s s1" using s1(1) by (rule evolves_adds) simp
    moreover have "adds (\<lambda>c. no_file c \<or> configures c) s1 (snd r)" using s1(2) by (rule adds_mono) simp
    ultimately show ?thesis using s1(3) by (blast intro: adds_trans)
  qed
  with assms show ?thesis
    by (auto simp: handled_def permitted_def dest: no_writes elim!: adds_mono)
qed

lemma login_handled: "login_result s r \<Longrightarrow> handled s F_LOGIN r"
  unfolding handled_def login_result_def
  by (auto simp: evolves_def same_rights_def adds_def permitted_def dest: no_writes elim!: grows_mono)

lemma handled_no_file:
  "ok_after no_file s m \<Longrightarrow> f \<noteq> F_STARTTLS \<Longrightarrow> f \<noteq> F_LOGIN \<Longrightarrow> all_ret (handled s f) m"
  by (erule all_ret_mono) (auto intro!: handled_evolves [of no_file] simp: permitted_def dest: no_writes)

lemma handled_reads: "ok_after (reads s) s m \<Longrightarrow> f \<in> {F_STAT, F_RETR} \<Longrightarrow> all_ret (handled s f) m"
  by (erule all_ret_mono) (auto intro!: handled_evolves [of "reads s"] simp: permitted_def dest: no_writes)

lemma handled_stores: "ok_after stores s m \<Longrightarrow> all_ret (handled s F_STOR) m"
  by (erule all_ret_mono) (auto intro!: handled_evolves [of stores] simp: permitted_def)

lemmas handler_handled =
  short_evolves [THEN handled_no_file] f_repo_evolves [THEN handled_no_file] f_compress_evolves [THEN handled_no_file]
  f_retr_evolves [THEN handled_reads] f_stat_evolves [THEN handled_reads] f_stor_evolves [THEN handled_stores]
  f_starttls_result [THEN all_ret_mono, OF starttls_handled] f_login_result [THEN all_ret_mono, OF login_handled]

lemma run_handler_handled: "all_ret (handled s f) (run_handler depth cfg os f av s)"
  unfolding run_handler_def by (cases f) (simp_all add: handler_handled)

text \<open>A round of the loop: one line is read, at most one handler runs, and perhaps a reply is sent.\<close>

lemma after_handler_evolves: "evolves no_file (snd r) (snd (after_handler os r))"
  by (auto simp: after_handler_def evolve split: hres.split)

lemma cmd_step_cases:
  assumes "cmd_step depth cfg os s = Ret (r, s')"
  obtains (none) "evolves no_file s s'"
  | (run) s1 w f av q where "evolves no_file s s1" "find_command (commands s1) w = Some f"
      "run_handler depth cfg os (snd f) av s1 = Ret q" "evolves no_file (snd q) s'"
proof -
  obtain e s1 where c: "do_call os GetLine s = (e, s1)" by force
  have e1: "evolves no_file s s1" by (rule evolves_do_call [OF c]) (simp_all add: evolve)
  obtain av where av: "argcargv (os_line os (hist s1)) = Ret av" using argcargv_defined by blast
  show thesis
  proof (cases "e = None \<and> av \<noteq> [] \<and> find_command (commands s1) (av ! 0) \<noteq> None")
    case True
    then obtain f where f: "find_command (commands s1) (av ! 0) = Some f" by auto
    with assms True c av have "obind (run_handler depth cfg os (snd f) av s1) (\<lambda>r. Ret (after_handler os r)) = Ret (r, s')"
      by (simp add: cmd_step_def split_beta)
    then obtain q where "run_handler depth cfg os (snd f) av s1 = Ret q" "(r, s') = after_handler os q"
      unfolding obind_Ret_iff by auto
    with run [OF e1 f] after_handler_evolves [of q os] show thesis by (metis snd_conv)
  next
    case False
    with assms c av have "s' = s1 \<or> (\<exists>n t. s' = reply os n t s1)"
      by (auto simp: cmd_step_def split: option.splits if_splits)
    with e1 have "evolves no_file s s'" by (auto intro: evolve)
    then show thesis by (rule none)
  qed
qed

section \<open>Invariants\<close>

fun conn_state :: "conn \<Rightarrow> server" where
  "conn_state (Looping s) = s"
| "conn_state (Ended r s) = s"

text \<open>
  An invariant holds at the end of every connection if the start of \<open>cmdloop\<close> makes it true
  and every round keeps it.
\<close>

lemma connected_invariant:
  assumes "connected depth cfg os addr hname c"
    and "\<And>r s. cmdloop_start depth cfg os addr hname = Ret (r, s) \<Longrightarrow> I s"
    and "\<And>s r s'. I s \<Longrightarrow> cmd_step depth cfg os s = Ret (r, s') \<Longrightarrow> I s'"
  shows "I (conn_state c)"
  using assms(1)
proof (induction rule: connected.induct)
  case (step c c')
  from step.hyps(2) show ?case
    by (rule conn_stepE) (use step.IH assms(3) in auto)
qed (use assms(2) in auto)

definition tls_inv :: "server \<Rightarrow> bool" where
  "tls_inv s \<longleftrightarrow> preceded tls_up names_file (hist s) \<and> (commands s = notls \<or> tls_up (hist s))"

definition login_inv :: "server \<Rightarrow> bool" where
  "login_inv s \<longleftrightarrow> preceded logged_in is_write (hist s) \<and> (authorized s \<longrightarrow> logged_in (hist s))"

definition paths_inv :: "server \<Rightarrow> bool" where
  "paths_inv s \<longleftrightarrow> (\<forall>c e. Did c e \<in> set (hist s) \<longrightarrow> is_write c \<longrightarrow> stores c)"

lemma evolves_tls_inv: "evolves no_file s s' \<Longrightarrow> tls_inv s \<Longrightarrow> tls_inv s'"
  by (auto simp: tls_inv_def evolves_def adds_def same_rights_def names_file_def
      intro: tls.preceded_free tls.grows_stays)

lemma evolves_login_inv: "evolves P s s' \<Longrightarrow> (\<And>c. P c \<Longrightarrow> \<not> is_write c) \<Longrightarrow> login_inv s \<Longrightarrow> login_inv s'"
  by (auto simp: login_inv_def evolves_def adds_def same_rights_def
      intro: login.preceded_free login.grows_stays)

lemma find_command_in: "find_command cs w = Some f \<Longrightarrow> f \<in> set cs"
  unfolding find_command_def find_Some_iff by (elim exE conjE) simp

lemma handledD:
  assumes "handled s f r"
  shows "adds (permitted s) s (snd r)" "f \<noteq> F_STARTTLS \<Longrightarrow> commands (snd r) = commands s"
    "f \<noteq> F_LOGIN \<Longrightarrow> authorized (snd r) = authorized s"
    "f \<in> {F_QUIT, F_NOOP, F_HELP, F_NOAUTH, F_NOTLS} \<Longrightarrow> adds no_file s (snd r)"
    "f \<noteq> F_STOR \<Longrightarrow> adds (\<lambda>c. \<not> is_write c) s (snd r)"
    "f = F_STARTTLS \<Longrightarrow> starttls_result s r" "f = F_LOGIN \<Longrightarrow> login_result s r"
  using assms unfolding handled_def by blast+

lemma tls_inv_up: "tls_inv s \<Longrightarrow> tls_up (hist s) \<Longrightarrow> adds P s s' \<Longrightarrow> tls_inv s'"
  unfolding tls_inv_def adds_def using tls.preceded_after tls.grows_stays by blast

lemma starttls_tls_inv:
  assumes "starttls_result s r" "tls_inv s"
  shows "tls_inv (snd r)"
proof -
  from assms(1) consider "evolves no_file s (snd r)"
    | s1 where "evolves no_file s s1" "tls_up (hist s1)" "adds configures s1 (snd r)"
    unfolding starttls_result_def tls_up_def by blast
  then show ?thesis
  proof cases
    case 1
    then show ?thesis using assms(2) by (rule evolves_tls_inv)
  next
    case 2
    from tls_inv_up [OF evolves_tls_inv [OF 2(1) assms(2)] 2(2,3)] show ?thesis .
  qed
qed

lemma handled_tls_inv:
  assumes "handled s f r" "tls_inv s" "commands s = notls \<Longrightarrow> f \<in> {F_QUIT, F_NOOP, F_HELP, F_NOTLS, F_STARTTLS}"
  shows "tls_inv (snd r)"
proof (cases "tls_up (hist s) \<or> f = F_STARTTLS")
  case True
  with handledD [OF assms(1)] assms(2) show ?thesis by (blast intro: tls_inv_up starttls_tls_inv)
next
  case False
  with assms(2) have n: "commands s = notls" by (simp add: tls_inv_def)
  with assms(3) False have "f \<in> {F_QUIT, F_NOOP, F_HELP, F_NOAUTH, F_NOTLS}" by auto
  with handledD(2,4) [OF assms(1)] n False have "adds no_file s (snd r)" "commands (snd r) = notls" by auto
  moreover from this(1) have "preceded tls_up names_file (hist (snd r))"
    using assms(2) unfolding tls_inv_def adds_def names_file_def by (blast intro: tls.preceded_free)
  ultimately show ?thesis by (simp add: tls_inv_def)
qed

lemma notls_handlers: "(n, f) \<in> set notls \<Longrightarrow> f \<in> {F_QUIT, F_NOOP, F_HELP, F_NOTLS, F_STARTTLS}"
  by (auto simp: notls_def)

text \<open>Rounds keep an invariant that handlers and calls without files keep.\<close>

lemma cmd_step_keeps:
  assumes "I s" "cmd_step depth cfg os s = Ret (r, s')"
    and quiet: "\<And>s s'. evolves no_file s s' \<Longrightarrow> I s \<Longrightarrow> I s'"
    and handler: "\<And>s n f av q. run_handler depth cfg os f av s = Ret q \<Longrightarrow> handled s f q \<Longrightarrow>
      (n, f) \<in> set (commands s) \<Longrightarrow> I s \<Longrightarrow> I (snd q)"
  shows "I s'"
  using assms(2)
proof (cases rule: cmd_step_cases)
  case none
  then show ?thesis using assms(1) by (rule quiet)
next
  case (run s1 w f av q)
  have "I (snd q)"
    using handler [OF run(3) all_retD [OF run_handler_handled run(3)], of "fst f"] find_command_in [OF run(2)]
      quiet [OF run(1) assms(1)] by simp
  with run(4) show ?thesis by (rule quiet)
qed

lemma cmd_step_tls_inv:
  assumes "tls_inv s" "cmd_step depth cfg os s = Ret (r, s')"
  shows "tls_inv s'"
proof (rule cmd_step_keeps [where I = tls_inv, OF assms evolves_tls_inv])
  fix s n f av q assume h: "handled s f q" and f: "(n, f) \<in> set (commands s)" and i: "tls_inv s"
  show "tls_inv (snd q)"
    by (rule handled_tls_inv [OF h i], rule notls_handlers) (use f in simp)
qed

lemma greeting_evolves: "evolves no_file s s1 \<Longrightarrow> evolves no_file s (greeting cfg os s1)"
  unfolding greeting_def Let_def by (auto intro!: evolve)

text \<open>The start of a connection without TLS reads the configuration, the others nothing.\<close>

definition server_start :: "settings \<Rightarrow> string \<Rightarrow> string option \<Rightarrow> server" where
  "server_start cfg addr hname = (server0 addr hname)\<lparr>commands := (if authlevel cfg = 0 then noauth else notls)\<rparr>"

lemma greet_evolves: "evolves no_file (snd r) (snd (greet cfg os r))"
proof -
  obtain e s where c: "do_call os Gethostname (snd r) = (e, s)" by force
  have "evolves no_file (snd r) s" by (rule evolves_do_call [OF c]) (simp_all add: evolve)
  with c show ?thesis by (auto simp: greet_def evolve greeting_evolves split: option.split)
qed

lemma cmdloop_start_tls:
  assumes "authlevel cfg \<noteq> 0" "cmdloop_start depth cfg os addr hname = Ret (r, s)"
  shows "evolves no_file (server_start cfg addr hname) s"
proof -
  define s1 where "s1 = snd (do_call os (SetNoDelay True) (server_start cfg addr hname))"
  have e1: "evolves no_file (server_start cfg addr hname) s1" unfolding s1_def by (intro evolve)
  have "s = reply os 420 ''Server busy'' s1 \<or> s = snd (greet cfg os (Rc 0, s1))"
    using assms by (auto simp: cmdloop_start_def s1_def server_start_def Let_def split: if_splits dest: arg_cong [where f = snd])
  with e1 greet_evolves [of "(Rc 0, s1)" cfg os] show ?thesis by (auto intro: evolve evolves_trans)
qed

definition starts :: "server \<Rightarrow> server \<Rightarrow> bool" where
  "starts s s' \<longleftrightarrow> adds (\<lambda>c. no_file c \<or> configures c) s s' \<and> authorized s' = authorized s"

lemma starts_trans: "starts s1 s2 \<Longrightarrow> starts s2 s3 \<Longrightarrow> starts s1 s3"
  by (auto simp: starts_def intro: adds_trans)

lemma evolves_starts: "evolves no_file s s' \<Longrightarrow> starts s s'"
  by (auto simp: starts_def evolves_def same_rights_def elim: adds_mono)

lemma config_starts: "config_ext s s' \<Longrightarrow> starts s s'"
  by (auto simp: starts_def config_ext_def elim: adds_mono)

lemma admit_starts:
  assumes "admit depth os s = Ret (r, s')"
  shows "starts s s'"
proof -
  from assms obtain n s1 where k: "command_k os ''config'' 0 s = Ret (n, s1)" by (auto simp: admit_def obind_Ret_iff)
  have s1: "starts s s1" using all_retD [OF command_k_ok k] by (auto intro: config_starts)
  show ?thesis
  proof (cases "n < 0")
    case True
    with assms k have "s' = reply os 500 (''No access for '' @ remote_host s1) s1" by (simp add: admit_def)
    moreover have "starts s1 (reply os 500 t s1)" for t by (intro evolves_starts evolve)
    ultimately show ?thesis using s1 by (auto intro: starts_trans)
  next
    case False
    with assms k obtain m s2 where f: "server_read_kfile depth os (command_file s1) s1 = Ret (m, s2)"
      and s': "s' = s2 \<or> s' = s2\<lparr>commands := auth\<rparr>" by (auto simp: admit_def obind_Ret_iff split: if_splits)
    have "starts s1 s2" using all_retD [OF server_read_kfile_ok f] by (auto intro: config_starts)
    with s1 have "starts s s2" by (rule starts_trans)
    with s' show ?thesis by (auto simp: starts_def adds_def)
  qed
qed

lemma cmdloop_start_starts:
  assumes "cmdloop_start depth cfg os addr hname = Ret (r, s)"
  shows "starts (server_start cfg addr hname) s"
proof -
  define s1 where "s1 = snd (do_call os (SetNoDelay True) (server_start cfg addr hname))"
  have e1: "starts (server_start cfg addr hname) s1" unfolding s1_def by (intro evolves_starts evolve)
  define m where "m = (if authlevel cfg \<noteq> 0 then Ret (Rc 0, s1) else admit depth os s1)"
  have eq: "cmdloop_start depth cfg os addr hname =
      (if maxconnections cfg \<noteq> 0 \<and> maxconnections cfg < connections cfg
       then Ret (Quit 1, reply os 420 ''Server busy'' s1) else obind m (\<lambda>r. Ret (greet cfg os r)))"
    by (simp only: cmdloop_start_def Let_def s1_def m_def server_start_def)
  consider (busy) "s = reply os 420 ''Server busy'' s1" | (go) q where "m = Ret q" "(r, s) = greet cfg os q"
    using assms unfolding eq by (auto simp: obind_Ret_iff split: if_split_asm)
  then show ?thesis
  proof cases
    case busy
    have "starts s1 s" unfolding busy by (intro evolves_starts evolve)
    with e1 show ?thesis by (rule starts_trans)
  next
    case go
    then have "starts s1 (snd q)"
      using admit_starts [of depth os s1 "fst q" "snd q"] by (auto simp: m_def starts_def split: if_splits)
    moreover have "evolves no_file (snd q) s" using greet_evolves [of q cfg os] go(2) by (metis snd_conv)
    ultimately show ?thesis using e1 by (blast intro: starts_trans evolves_starts)
  qed
qed

lemma server_start_simps [simp]:
  "hist (server_start cfg addr hname) = []" "authorized (server_start cfg addr hname) = False"
  by (simp_all add: server_start_def server0_def)

text \<open>No call names a file before the TLS handshake has succeeded, when TLS is asked for.\<close>

lemma connected_tls:
  assumes "connected depth cfg os addr hname c" "authlevel cfg \<noteq> 0"
  shows "tls_inv (conn_state c)"
proof (rule connected_invariant [where I = tls_inv, OF assms(1)])
  fix r s assume "cmdloop_start depth cfg os addr hname = Ret (r, s)"
  from cmdloop_start_tls [OF assms(2) this] show "tls_inv s"
    by (rule evolves_tls_inv)
      (simp add: tls_inv_def tls.preceded_Nil, simp add: server_start_def assms(2))
qed (rule cmd_step_tls_inv)

text \<open>Nothing is uploaded without a login, when a login is asked for.\<close>

lemma f_stor_unauthorized:
  assumes "checkuser cfg" "\<not> authorized s"
  shows "ok_after no_file s (f_stor cfg os av s)"
proof -
  obtain e s1 where n: "(if prevstor s then (None, s) else do_call os (SetNoDelay False) s) = (e, s1)" by force
  have e1: "evolves no_file s s1"
    using n by (auto split: if_splits intro: evolve elim: evolves_do_call)
  then have "\<not> authorized s1" using assms by (simp add: evolves_def same_rights_def)
  with assms n e1 show ?thesis
    by (auto simp: f_stor_def Let_def intro!: evolve split: option.split)
qed

lemma login_inv_logged: "login_inv s \<Longrightarrow> logged_in (hist s) \<Longrightarrow> adds P s s' \<Longrightarrow> login_inv s'"
  unfolding login_inv_def adds_def using login.preceded_after login.grows_stays by blast

lemma adds_login_inv:
  "login_inv s \<Longrightarrow> adds P s s' \<Longrightarrow> (\<And>c. P c \<Longrightarrow> \<not> is_write c) \<Longrightarrow> authorized s' = authorized s \<Longrightarrow> login_inv s'"
  unfolding login_inv_def adds_def using login.preceded_free login.grows_stays by metis

lemma login_result_inv:
  assumes "login_result s r" "login_inv s"
  shows "login_inv (snd r)"
proof -
  have ev: "login_inv s'" if "evolves no_file s s'" for s'
    using that no_writes(2) assms(2) by (rule evolves_login_inv)
  from assms(1) show ?thesis unfolding login_result_def
  proof
    assume "\<exists>s'. evolves no_file s s' \<and> logged_in (hist s') \<and> snd r = s'\<lparr>authorized := True\<rparr>"
    then obtain s' where "evolves no_file s s'" "logged_in (hist s')" "snd r = s'\<lparr>authorized := True\<rparr>" by blast
    with ev show ?thesis by (simp add: login_inv_def)
  qed (rule ev)
qed

lemma cmd_step_login_inv:
  assumes "checkuser cfg" "login_inv s" "cmd_step depth cfg os s = Ret (r, s')"
  shows "login_inv s'"
proof (rule cmd_step_keeps [where I = login_inv, OF assms(2,3) evolves_login_inv [OF _ no_writes(2)]])
  fix s n f av q
  assume h: "run_handler depth cfg os f av s = Ret q" "handled s f q" and i: "login_inv s"
  show "login_inv (snd q)"
  proof (cases "logged_in (hist s)")
    case True
    with i handledD(1) [OF h(2)] show ?thesis by (blast intro: login_inv_logged)
  next
    case False
    with i have na: "\<not> authorized s" by (auto simp: login_inv_def)
    consider "f = F_LOGIN" | "f = F_STOR" | "f \<noteq> F_LOGIN" "f \<noteq> F_STOR" by blast
    then show ?thesis
    proof cases
      case 1
      with handledD(7) [OF h(2)] i show ?thesis by (blast intro: login_result_inv)
    next
      case 2
      with h(1) have "f_stor cfg os av s = Ret q" by (simp add: run_handler_def)
      with f_stor_unauthorized [OF assms(1) na] have "evolves no_file s (snd q)"
        by (fastforce dest: all_retD)
      then show ?thesis using no_writes(2) i by (rule evolves_login_inv)
    next
      case 3
      with adds_login_inv [OF i handledD(5) [OF h(2)]] handledD(3) [OF h(2)] show ?thesis by blast
    qed
  qed
qed

lemma connected_login:
  assumes "connected depth cfg os addr hname c" "checkuser cfg"
  shows "login_inv (conn_state c)"
proof (rule connected_invariant [where I = login_inv, OF assms(1)])
  fix r s assume "cmdloop_start depth cfg os addr hname = Ret (r, s)"
  then have a: "adds (\<lambda>c. no_file c \<or> configures c) (server_start cfg addr hname) s"
    and b: "authorized s = authorized (server_start cfg addr hname)"
    using cmdloop_start_starts by (auto simp: starts_def)
  show "login_inv s"
    by (rule adds_login_inv [OF _ a _ b]) (auto simp: login_inv_def login.preceded_Nil dest: no_writes)
qed (rule cmd_step_login_inv [OF assms(2)])

text \<open>Whatever a round does with a file is permitted.\<close>

lemma same_rights_granted: "same_rights s s' \<Longrightarrow> granted s' p = granted s p"
  by (simp add: same_rights_def granted_def)

lemma same_rights_permitted: "same_rights s s' \<Longrightarrow> permitted s' c = permitted s c"
  by (simp add: permitted_def reads_def same_rights_granted)

lemma cmd_step_permitted:
  assumes "cmd_step depth cfg os s = Ret (r, s')"
  shows "adds (permitted s) s s'"
  using assms
proof (cases rule: cmd_step_cases)
  case none
  then show ?thesis by (rule evolves_adds) (simp add: permitted_def)
next
  case (run s1 w f av q)
  have a: "adds (permitted s) s s1" "adds (permitted s) (snd q) s'"
    using run(1,4) by (auto elim!: evolves_adds simp: permitted_def)
  have "permitted s1 = permitted s"
    using run(1) by (intro ext same_rights_permitted) (simp add: evolves_def)
  with handledD(1) [OF all_retD [OF run_handler_handled run(3)]]
  have "adds (permitted s) s1 (snd q)" by simp
  with a show ?thesis by (blast intro: adds_trans)
qed

lemma adds_paths_inv:
  "paths_inv s \<Longrightarrow> adds P s s' \<Longrightarrow> (\<And>c. P c \<Longrightarrow> is_write c \<Longrightarrow> stores c) \<Longrightarrow> paths_inv s'"
  unfolding paths_inv_def adds_def grows_def by fastforce

lemma permitted_write: "permitted s c \<Longrightarrow> is_write c \<Longrightarrow> stores c"
  unfolding permitted_def using no_writes by blast

lemma connected_paths:
  assumes "connected depth cfg os addr hname c"
  shows "paths_inv (conn_state c)"
proof (rule connected_invariant [where I = paths_inv, OF assms])
  fix r s assume "cmdloop_start depth cfg os addr hname = Ret (r, s)"
  then have a: "adds (\<lambda>c. no_file c \<or> configures c) (server_start cfg addr hname) s"
    using cmdloop_start_starts by (auto simp: starts_def)
  show "paths_inv s" by (rule adds_paths_inv [OF _ a]) (auto simp: paths_inv_def dest: no_writes)
next
  fix s r s' assume "paths_inv s" "cmd_step depth cfg os s = Ret (r, s')"
  then show "paths_inv s'" using adds_paths_inv cmd_step_permitted permitted_write by blast
qed

section \<open>Reading the command files ends\<close>

text \<open>
  Every nested call of \<open>read_kfile\<close> follows the insertion of a name that was not in the
  access list, and there are only finitely many names shorter than \<open>MAXPATHLEN\<close>.
\<close>

definition short_names :: "string set" where
  "short_names = {n. length n < MAXPATHLEN}"

lemma finite_short_names: "finite short_names"
proof -
  have "short_names \<subseteq> (\<Union>k < MAXPATHLEN. {n. set n \<subseteq> UNIV \<and> length n = k})"
    by (auto simp: short_names_def)
  moreover have "finite {n :: string. set n \<subseteq> UNIV \<and> length n = k}" for k
    by (rule finite_lists_length_eq) simp
  ultimately show ?thesis by (auto intro: finite_subset)
qed

definition unlisted :: "server \<Rightarrow> nat" where
  "unlisted s = card (short_names - set (access_list s))"

lemma unlisted_mono: "set (access_list s) \<subseteq> set (access_list s') \<Longrightarrow> unlisted s' \<le> unlisted s"
  unfolding unlisted_def using finite_short_names by (intro card_mono) auto

lemma unlisted_add:
  assumes "n \<in> short_names" "n \<notin> set (access_list s)" "insert n (set (access_list s)) \<subseteq> set (access_list s')"
  shows "unlisted s' < unlisted s"
  unfolding unlisted_def using assms finite_short_names by (intro psubset_card_mono) auto

text \<open>\<open>read_kfile\<close> returns, and the access list only grows.\<close>

definition list_grows :: "server \<Rightarrow> (int \<times> server) outcome \<Rightarrow> bool" where
  "list_grows s m \<longleftrightarrow> (\<exists>n s'. m = Ret (n, s') \<and> set (access_list s) \<subseteq> set (access_list s'))"

lemma list_grows_bind:
  assumes "list_grows s m"
    and "\<And>n s'. set (access_list s) \<subseteq> set (access_list s') \<Longrightarrow> m = Ret (n, s') \<Longrightarrow> list_grows s' (f (n, s'))"
  shows "list_grows s (obind m f)"
  using assms unfolding list_grows_def by force

lemma access_list_reply [simp]: "access_list (reply os n t s) = access_list s"
  "access_list (not_available os s) = access_list s"
  by (simp_all add: reply_def say_def not_available_def do_call_def split: prod.split)

lemma access_add_grows: "list_grows s (access_add os name s)"
  by (auto simp: access_add_def names_insert_def list_grows_def Let_def split: if_splits)

lemma pathcmp_self: "pathcmp p p = 0"
  unfolding pathcmp_def by (induction p) (simp_all add: char_diff_def)

lemma access_line_grows:
  assumes "\<And>f s'. unlisted s' < unlisted s \<Longrightarrow> list_grows s' (rec f s')"
  shows "list_grows s (access_line os rec av s)"
proof -
  have k: "list_grows s (obind (access_add os (av ! 1) s) (\<lambda>(n, s).
             if n \<noteq> 0 then Ret (-1, s)
             else obind (rec (av ! 1) s) (\<lambda>(n, s). Ret (if n \<noteq> 0 then -1 else 0, s))))"
    if "\<not> names_check (access_list s) (av ! 1)"
  proof (rule list_grows_bind [OF access_add_grows])
    fix n s' assume a: "access_add os (av ! 1) s = Ret (n, s')"
    show "list_grows s' (case (n, s') of (n, s) \<Rightarrow>
             if n \<noteq> 0 then Ret (-1, s)
             else obind (rec (av ! 1) s) (\<lambda>(n, s). Ret (if n \<noteq> 0 then -1 else 0, s)))"
    proof (cases "n = 0")
      case True
      with a have l: "length (av ! 1) < MAXPATHLEN" and i: "set (access_list s') = insert (av ! 1) (set (access_list s))"
        by (auto simp: access_add_def names_insert_def Let_def split: if_splits)
      have "av ! 1 \<notin> set (access_list s)"
        using that by (auto simp: names_check_def list_ex_iff pathcmp_self)
      with l i have "unlisted s' < unlisted s" by (intro unlisted_add) (auto simp: short_names_def)
      then have "list_grows s' (obind (rec (av ! 1) s') (\<lambda>(n, s). Ret (if n \<noteq> 0 then -1 else 0, s)))"
        by (intro list_grows_bind assms) (simp_all add: list_grows_def)
      with True show ?thesis by simp
    qed (simp add: list_grows_def)
  qed
  show ?thesis unfolding access_line_def Let_def
    using k access_add_grows by (simp add: list_grows_def)
qed

lemma list_grows_trans:
  "set (access_list s) \<subseteq> set (access_list s') \<Longrightarrow> list_grows s' m \<Longrightarrow> list_grows s m"
  unfolding list_grows_def by blast

lemma access_lines_grows:
  "(\<And>f s'. unlisted s' < unlisted s \<Longrightarrow> list_grows s' (rec f s')) \<Longrightarrow> list_grows s (access_lines os rec inp s)"
proof (induction os rec inp s rule: access_lines.induct)
  case (1 os rec inp s)
  show ?case
  proof (cases "fgets MAXPATHLEN inp")
    case None
    then show ?thesis by (simp add: access_lines.simps [of os rec inp] list_grows_def)
  next
    case (Some p)
    then obtain buf rest where f: "fgets MAXPATHLEN inp = Some (buf, rest)" by (cases p) simp
    obtain av where a: "argcargv (cstr buf) = Ret av" using argcargv_defined by blast
    note IH = "1.IH" [OF f refl a]
    have "list_grows s (obind (access_line os rec av s) (\<lambda>(n, s). if n \<noteq> 0 then Ret (-1, s) else access_lines os rec rest s))"
      if nc: "\<not> (av = [] \<or> char_at (av ! 0) 0 = CHR ''#'')"
    proof (rule list_grows_bind [OF access_line_grows [OF "1.prems"]])
      fix n s' assume sub: "set (access_list s) \<subseteq> set (access_list s')" and l: "access_line os rec av s = Ret (n, s')"
      have "list_grows s'' (rec f s'')" if "unlisted s'' < unlisted s'" for f s''
        using "1.prems" unlisted_mono [OF sub] that by simp
      with IH(2) [OF nc l refl] show "list_grows s' (case (n, s') of (n, s) \<Rightarrow>
          if n \<noteq> 0 then Ret (-1, s) else access_lines os rec rest s)"
        by (simp add: list_grows_def)
    qed
    with IH(1) "1.prems" f a show ?thesis by (simp add: access_lines.simps [of os rec inp])
  qed
qed

lemma do_call_access: "do_call os c s = (e, s') \<Longrightarrow> access_list s' = access_list s"
  by (auto dest: do_call_fields)

lemma server_read_kfile_returns:
  "unlisted s < k \<Longrightarrow> list_grows s (server_read_kfile k os kfile s)"
proof (induction k arbitrary: kfile s)
  case (Suc k)
  show ?case
  proof (cases "snprintf MAXPATHLEN (''command/'' @ kfile)")
    case None
    then have "server_read_kfile (Suc k) os kfile s = Ret (-1, not_available os s)"
      by (simp only: server_read_kfile.simps option.case)
    then show ?thesis by (simp add: list_grows_def)
  next
    case (Some path)
    obtain e s1 where c: "do_call os (Fopen path) s = (e, s1)" by force
    note a = do_call_access [OF c]
    have u: "unlisted s1 = unlisted s" using a by (simp add: unlisted_def)
    have "list_grows s1 (obind (access_lines os (server_read_kfile k os) (os_text os (hist s1) path) s1) (\<lambda>(n, s).
       (case do_call os (Close path) s of
          (e, s) \<Rightarrow> if n \<noteq> 0 then Ret (-1, s) else if e \<noteq> None then Ret (-1, not_available os s) else Ret (0, s))))"
      using Suc u
      by (intro list_grows_bind access_lines_grows)
        (auto simp: list_grows_def split_beta do_call_access [OF surjective_pairing])
    from list_grows_trans [OF _ this, of s] a show ?thesis
      unfolding server_read_kfile.simps Some option.case c prod.case
      by (cases e) (simp_all add: list_grows_def)
  qed
qed simp

section \<open>What is transferred\<close>

fun read_all :: "read_result list \<Rightarrow> byte list" where
  "read_all [] = []"
| "read_all (ReadError # rs) = []"
| "read_all (Bytes bs # rs) = (if bs = [] then [] else bs @ read_all rs)"

text \<open>When \<open>RETR\<close>'s loop comes to the end of the file it has sent the bytes of the file.\<close>

lemma retr_loop_sent:
  "retr_loop os rs s = (True, s') \<Longrightarrow> sent (hist s') = sent (hist s) @ chars_of (read_all rs)"
proof (induction os rs s rule: retr_loop.induct)
  case (3 os bs rs s)
  show ?case
  proof (cases "bs = []")
    case False
    obtain e s1 where c: "do_call os (Send (chars_of bs)) s = (e, s1)" by force
    with 3(2) False have "e = None" "retr_loop os rs s1 = (True, s')" by (auto split: option.splits)
    with 3(1) [OF False c [symmetric]] do_call_event [OF c] False show ?thesis
      by (simp add: sent_append chars_of_def)
  qed (use 3 in \<open>simp add: chars_of_def\<close>)
qed (simp_all add: chars_of_def)

text \<open>When \<open>STOR\<close>'s loop uses up a length that is not negative it has written exactly so many bytes.\<close>

lemma stor_loop_written:
  "stor_loop os up len s = (Inr len', s') \<Longrightarrow> 0 \<le> len \<Longrightarrow>
     len' = 0 \<and> (\<exists>d. written up (hist s') = written up (hist s) @ d \<and> int (length d) = len)"
proof (induction os up len s rule: stor_loop.induct)
  case (1 os up len s)
  show ?case
  proof (cases "len \<le> 0")
    case True
    with 1(2,3) show ?thesis by (auto simp: stor_loop.simps [of os up len])
  next
    case False
    define n where "n = nat (min len 8192)"
    obtain e1 s1 where c1: "do_call os (Recv n) s = (e1, s1)" by force
    define buf where "buf = take n (os_recv os (hist s1))"
    obtain e2 s2 where c2: "do_call os (Write up buf) s1 = (e2, s2)" by force
    have l: "int (length buf) \<le> len" using False by (simp add: buf_def n_def)
    from 1(2) False c1 c2 have e: "e1 = None" "buf \<noteq> []" "e2 = None"
      and r: "stor_loop os up (len - int (length buf)) s2 = (Inr len', s')"
      by (auto simp: stor_loop.simps [of os up len] Let_def n_def buf_def split: option.splits if_splits)
    from 1(1) [OF False n_def c1 [symmetric] e(1) buf_def e(2) c2 [symmetric] e(3) r] l obtain d where
      "len' = 0" "written up (hist s') = written up (hist s2) @ d" "int (length d) = len - int (length buf)"
      by auto
    with do_call_event [OF c1] do_call_event [OF c2] e(1,3) show ?thesis
      by (intro conjI exI [of _ "buf @ d"]) (simp_all add: written_append)
  qed
qed

end
