(* ===== verification/ServerPaths.thy ===== *)
theory ServerPaths
  imports ServerSafety
begin

text \<open>
  The tests for \<open>../\<close> in \<open>keyword\<close> look at encoded names. On well-formed escapes they are enough;
  an unknown escape takes a character from the last decoded name and gets around them. Also the
  second \<open>LOGIN\<close> of a connection.
\<close>

section \<open>Well-formed names\<close>

text \<open>An escape never stands for a dot or a slash.\<close>

definition path_chars :: "string \<Rightarrow> bool" where
  "path_chars t \<longleftrightarrow> set t \<subseteq> {CHR ''.'', SLASH}"

lemma unescape_not_path: "known_escape e \<Longrightarrow> unescape e d \<noteq> CHR ''.'' \<and> unescape e d \<noteq> SLASH"
  by (auto simp: known_escape_def unescape_def)

lemma unescaped_start:
  "well_escaped s \<Longrightarrow> path_chars t \<Longrightarrow> take (length t) (unescaped s) = t \<Longrightarrow> take (length t) s = t"
proof (induction s arbitrary: t rule: well_escaped_induct)
  case (Esc e s)
  then show ?case using unescape_not_path [OF Esc.hyps(1), of NUL]
    by (cases t) (auto simp: path_chars_def)
next
  case (Plain c s)
  then show ?case by (cases t) (auto simp: path_chars_def)
qed simp

lemma unescaped_strstr:
  "well_escaped s \<Longrightarrow> path_chars t \<Longrightarrow> strstr (unescaped s) t \<Longrightarrow> strstr s t"
proof (induction s rule: well_escaped_induct)
  case (Esc e s)
  then have "strstr s t \<or> t = []"
    using unescape_not_path [OF Esc.hyps(1), of NUL] by (cases t) (auto simp: path_chars_def)
  then show ?case by (cases t) auto
next
  case (Plain c s)
  from Plain.prems(2) Plain.hyps(1) consider "take (length t) (c # unescaped s) = t" | "strstr (unescaped s) t" by auto
  then show ?case
  proof cases
    case 1
    with Plain.hyps Plain.prems(1) unescaped_start [of "c # s" t] show ?thesis by simp
  qed (use Plain in simp)
qed simp

lemma decode_in_well_escaped:
  assumes "well_escaped t" "c_string t" "length t < MAXPATHLEN" "length (sdbuf s) = MAXPATHLEN"
  shows "\<exists>b. decode_in t s = Ret (Some (unescaped t), s\<lparr>sdbuf := b\<rparr>) \<and> length b = MAXPATHLEN"
proof -
  have "length (unescaped t) < length (sdbuf s)" using length_unescaped [of t] assms(3,4) by simp
  from decode_well_escaped [OF assms(1,2) this] assms(3,4) show ?thesis
    by (auto simp: decode_in_def)
qed

text \<open>What \<open>keyword\<close> has tested for the two kinds of names a client chooses freely.\<close>

lemma keyword_special:
  "keyword s av = Some K_SPECIAL \<Longrightarrow> length av = 3 \<and> \<not> strstr (av ! 2) ''../'' \<and> length (av ! 2) < MAXPATHLEN"
  by (auto simp: keyword_def Let_def split: if_splits simp del: strstr.simps)

lemma keyword_file:
  "keyword s av = Some K_FILE \<Longrightarrow>
     length av = 4 \<and> \<not> strstr (av ! 2) ''../'' \<and> take 3 (av ! 3) \<noteq> ''../'' \<and> \<not> strstr (av ! 3) ''/../'' \<and>
     length (av ! 2) < MAXPATHLEN \<and> length (av ! 3) < MAXPATHLEN"
  by (auto simp: keyword_def Let_def strncmp_def split: if_splits simp del: strstr.simps)

theorem special_path_inside:
  assumes "keyword s av = Some K_SPECIAL" "well_escaped (av ! 2)" "c_string (av ! 2)"
    "length (sdbuf s) = MAXPATHLEN" "special_path os av s = Ret (Inr p, s')"
  shows "\<exists>d. p = special_dir s @ [SLASH] @ d \<and> \<not> strstr d ''../''"
proof -
  note k = keyword_special [OF assms(1)]
  from decode_in_well_escaped [OF assms(2,3) _ assms(4)] k obtain b where
    "decode_in (av ! 2) s = Ret (Some (unescaped (av ! 2)), s\<lparr>sdbuf := b\<rparr>)" by blast
  with assms(5) have "p = special_dir s @ [SLASH] @ unescaped (av ! 2)"
    by (auto simp: special_path_def split: option.splits)
  with k unescaped_strstr [OF assms(2), of "''../''"] show ?thesis by (auto simp: path_chars_def)
qed

theorem file_path_inside:
  assumes "keyword s av = Some K_FILE" "well_escaped (av ! 2)" "c_string (av ! 2)"
    "well_escaped (av ! 3)" "c_string (av ! 3)"
    "length (sdbuf s) = MAXPATHLEN" "file_path os av s = Ret (Inr p, s')"
  shows "\<exists>t d. p = ''file/'' @ t @ [SLASH] @ d \<and> names_check (access_list s) t \<and>
    \<not> strstr t ''../'' \<and> take 3 d \<noteq> ''../'' \<and> \<not> strstr d ''/../''"
proof -
  note k = keyword_file [OF assms(1)]
  from decode_in_well_escaped [OF assms(4,5) _ assms(6)] k obtain b where
    b: "decode_in (av ! 3) s = Ret (Some (unescaped (av ! 3)), s\<lparr>sdbuf := b\<rparr>)" "length b = MAXPATHLEN" by blast
  from decode_in_well_escaped [OF assms(2,3), of "s\<lparr>sdbuf := b\<rparr>"] k b(2) obtain b' where
    "decode_in (av ! 2) (s\<lparr>sdbuf := b\<rparr>) = Ret (Some (unescaped (av ! 2)), s\<lparr>sdbuf := b'\<rparr>)" by auto
  with assms(7) b(1) have "p = ''file/'' @ unescaped (av ! 2) @ [SLASH] @ unescaped (av ! 3)"
    "names_check (access_list s) (unescaped (av ! 2))"
    by (auto simp: file_path_def split: option.splits if_splits)
  moreover have "take 3 (unescaped (av ! 3)) \<noteq> ''../''"
    using unescaped_start [OF assms(4), of "''../''"] k by (auto simp: path_chars_def numeral_3_eq_3)
  ultimately show ?thesis
    using k unescaped_strstr [OF assms(2), of "''../''"] unescaped_strstr [OF assms(4), of "''/../''"]
    by (auto simp: path_chars_def simp del: strstr.simps)
qed

section \<open>An unknown escape\<close>

text \<open>
  After a request for \<open>aa/b\<close> the third byte of the buffer is a slash, and \<open>..\qetc\<close> becomes
  \<open>../etc\<close>: the special directory is left.
\<close>

lemma decode_stale:
  assumes "length buf = MAXPATHLEN"
  shows "\<exists>buf1 buf2. decode ''aa/b'' buf = Ret (Some ''aa/b'', buf1) \<and>
    decode (''..'' @ [BSL] @ ''qetc'') buf1 = Ret (Some ''../etc'', buf2)"
proof -
  obtain a b c d e f g rest where "buf = a # b # c # d # e # f # g # rest"
    using assms
    by (cases buf; cases "tl buf"; cases "tl (tl buf)"; cases "tl (tl (tl buf))"; cases "tl (tl (tl (tl buf)))";
        cases "tl (tl (tl (tl (tl buf))))"; cases "tl (tl (tl (tl (tl (tl buf)))))") (auto simp: MAXPATHLEN_def)
  then show ?thesis by (simp add: decode_def unescape_def cstr_def MAXPATHLEN_def)
qed

lemma special_path_escapes:
  assumes "length (sdbuf s) = MAXPATHLEN" "length (special_dir s) < 4000"
  shows "\<exists>s1 s2. special_path os [''RETR'', ''SPECIAL'', ''aa/b''] s = Ret (Inr (special_dir s @ ''/aa/b''), s1) \<and>
    special_path os [''RETR'', ''SPECIAL'', ''..'' @ [BSL] @ ''qetc''] s1 = Ret (Inr (special_dir s @ ''/../etc''), s2)"
  using decode_stale [OF assms(1)] assms(2)
  by (auto simp: special_path_def decode_in_def snprintf_def MAXPATHLEN_def)

section \<open>A second \<open>LOGIN\<close>\<close>

lemma login_frees:
  assumes "checkuser cfg" "length av = 3" "f_login cfg os av s = Ret (Rc 0, s')"
  shows "password s' = Freed"
proof -
  have p: "password s2 = password s1" if "do_call os c s1 = (e, s2)" for c e s1 s2
    using do_call_fields [OF that] by auto
  have r: "password (reply os n t s1) = password s1" for n t s1
    by (simp add: reply_def say_def p [OF surjective_pairing])
  have "all_ret (\<lambda>(q, s'). q = Rc 0 \<longrightarrow> password s' = Freed) (f_login cfg os av s)"
    unfolding f_login_def Let_def login_failed_def
    by (intro do_call_cases all_ret_if all_ret_bind all_ret_end) (use assms(1,2) in \<open>auto simp: r dest!: p\<close>)
  from all_retD [OF this assms(3)] show ?thesis by simp
qed

lemma login_twice:
  assumes "checkuser cfg" "length av = 3" "length av' = 3" "f_login cfg os av s = Ret (Rc 0, s')"
  shows "f_login cfg os' av' s' = UB"
  using login_frees [OF assms(1,2,4)] assms(1,3) by (simp add: f_login_def)

end
