(* ===== verification/Client.thy ===== *)
theory Client
  imports Trace Escape Argv Pathcmp
begin

text \<open>
  What the client programs share: \<open>mkprefix.c\<close>, \<open>retr.c\<close>, \<open>update.c\<close>, \<open>report.c\<close> and the talk with
  the server in \<open>connect.c\<close>. Every function takes the trace and gives it back. The build is not the
  one for macOS, and \<open>lchown\<close> and \<open>lchmod\<close> are not used, since \<open>configure\<close> never finds them. Standard
  output, the progress display and messages are left out.
\<close>

section \<open>Options\<close>

text \<open>\<open>checksum_md\<close> is \<open>None\<close> when checksums are off.\<close>

record 'c options =
  create_prefix :: bool
  checksum_md :: "'c digest option"
  pid :: int
  euid :: "32 word"

text \<open>\<open>radstat\<close> with its \<open>lstat\<close> in the trace.\<close>

definition lstat_call :: "os \<Rightarrow> string \<Rightarrow> history \<Rightarrow> (errno + stat) \<times> history" where
  "lstat_call os path h =
     (let r = os_lstat os h path
      in (r, h @ [Did (Lstat path) (case r of Inl e \<Rightarrow> Some e | Inr s \<Rightarrow> None)]))"

definition radstat_call ::
  "os \<Rightarrow> string \<Rightarrow> stat \<Rightarrow> char \<Rightarrow> history \<Rightarrow> (int \<times> stat \<times> char \<times> errno option) \<times> history" where
  "radstat_call os path st ty h =
     (case lstat_call os path h of (r, h) \<Rightarrow> (radstat (\<lambda>_. r) path st ty, h))"

text \<open>\<open>do_cksum\<close> with its calls in the trace.\<close>

definition c_cksum :: "'c digest \<Rightarrow> os \<Rightarrow> string \<Rightarrow> history \<Rightarrow> (int \<times> string option) \<times> history" where
  "c_cksum md os path h =
     (case answer os (Open path) h of
        (Some e, h) \<Rightarrow> (do_cksum md (\<lambda>p. None) path, h)
      | (None, h) \<Rightarrow>
          (case answer os (Close path) h of
             (e, h') \<Rightarrow> (do_cksum md (\<lambda>p. Some (os_bytes os h path, e = None)) path, h')))"

section \<open>\<open>mkprefix\<close>\<close>

text \<open>
  The information on the parent of the first directory that is made. A name of exactly \<open>MAXPATHLEN\<close>
  characters passes the test and is cut off.
\<close>

definition parent_stat :: "os \<Rightarrow> string \<Rightarrow> stat option \<Rightarrow> history \<Rightarrow> stat option \<times> history" where
  "parent_stat os d parent h =
     (case parent of
        Some st \<Rightarrow> (Some st, h)
      | None \<Rightarrow>
          if MAXPATHLEN < length (d @ ''/..'') then (None, h)
          else let p = take (MAXPATHLEN - 1) (d @ ''/..'') in
               case answer os (Stat p) h of
                 (Some e, h) \<Rightarrow> (None, h)
               | (None, h) \<Rightarrow> (Some (os_stat os h p), h))"

definition like_parent :: "os \<Rightarrow> 32 word \<Rightarrow> string \<Rightarrow> stat \<Rightarrow> history \<Rightarrow> bool \<times> history" where
  "like_parent os uid d st h =
     (case (if st_mode st \<noteq> 0x1FF then answer os (Chmod d (st_mode st)) h else (None, h)) of
        (Some e, h) \<Rightarrow> (False, h)
      | (None, h) \<Rightarrow>
          (case (if uid \<noteq> st_uid st then answer os (Chown d (st_uid st) (st_gid st)) h else (None, h)) of
             (Some e, h) \<Rightarrow> (False, h)
           | (None, h) \<Rightarrow> (True, h)))"

fun mkprefix_dirs :: "os \<Rightarrow> 32 word \<Rightarrow> string list \<Rightarrow> stat option \<Rightarrow> history \<Rightarrow> bool \<times> history" where
  "mkprefix_dirs os uid [] parent h = (True, h)"
| "mkprefix_dirs os uid (d # ds) parent h =
     (case answer os (Mkdir d 0x1FF) h of
        (Some e, h) \<Rightarrow>
          (case answer os (Stat d) h of
             (Some e, h) \<Rightarrow> (False, h)
           | (None, h) \<Rightarrow>
               if S_ISDIR (st_mode (os_stat os h d)) then mkprefix_dirs os uid ds parent h else (False, h))
      | (None, h) \<Rightarrow>
          (case parent_stat os d parent h of
             (None, h) \<Rightarrow> (False, h)
           | (Some st, h) \<Rightarrow>
               (case like_parent os uid d st h of
                  (False, h) \<Rightarrow> (False, h)
                | (True, h) \<Rightarrow> mkprefix_dirs os uid ds (Some st) h)))"

text \<open>The directories above the path, from the top, without those that are only slashes.\<close>

definition prefix_dirs :: "string \<Rightarrow> string list" where
  "prefix_dirs path = filter (list_ex (\<lambda>c. c \<noteq> SLASH)) (rev (prefixes path))"

definition mkprefix :: "os \<Rightarrow> 32 word \<Rightarrow> string \<Rightarrow> history \<Rightarrow> bool \<times> history" where
  "mkprefix os uid path h = mkprefix_dirs os uid (prefix_dirs path) None h"

text \<open>The way \<open>retr\<close> and \<open>update\<close> make an object: after \<open>mkprefix\<close> they try once more.\<close>

definition with_prefix :: "'c options \<Rightarrow> os \<Rightarrow> string \<Rightarrow> call \<Rightarrow> history \<Rightarrow> bool \<times> history" where
  "with_prefix opt os path c h =
     (case answer os c h of
        (None, h) \<Rightarrow> (True, h)
      | (Some e, h) \<Rightarrow>
          if create_prefix opt \<and> e = ENOENT
          then (case mkprefix os (euid opt) path h of
                  (False, h) \<Rightarrow> (False, h)
                | (True, h) \<Rightarrow> (case answer os c h of (e, h) \<Rightarrow> (e = None, h)))
          else (False, h))"

section \<open>\<open>retr\<close>\<close>

definition bytes_of :: "string \<Rightarrow> byte list" where
  "bytes_of s = map of_char s"

text \<open>
  The loop over the data of the file; the first component of the result is \<open>None\<close> after an error,
  otherwise the digest context.
\<close>

function retr_data :: "(byte list \<Rightarrow> 'c \<Rightarrow> 'c) \<Rightarrow> os \<Rightarrow> string \<Rightarrow> int \<Rightarrow> 'c \<Rightarrow> history \<Rightarrow> 'c option \<times> history" where
  "retr_data upd os temp sz ctx h =
     (if sz \<le> 0 then (Some ctx, h)
      else let n = nat (min 8192 sz) in
           case answer os (Recv n) h of
             (Some e, h1) \<Rightarrow> (None, h1)
           | (None, h1) \<Rightarrow>
               let buf = take n (os_recv os h1) in
               if buf = [] then (None, h1)
               else (case answer os (Write temp buf) h1 of
                       (Some e, h2) \<Rightarrow> (None, h2)
                     | (None, h2) \<Rightarrow> retr_data upd os temp (sz - int (length buf)) (upd (bytes_of buf) ctx) h2))"
  by pat_completeness auto
termination
  by (relation "measure (\<lambda>(_, _, _, sz, _). nat sz)") auto

declare retr_data.simps [simp del]

text \<open>After a failure the temporary file is removed, whether or not that works.\<close>

definition discard :: "os \<Rightarrow> string \<Rightarrow> int \<Rightarrow> history \<Rightarrow> (int \<times> string) \<times> history" where
  "discard os temp r h = ((r, temp), snd (answer os (Unlink temp) h))"

definition retr_end ::
  "os \<Rightarrow> string \<Rightarrow> string option \<Rightarrow> string \<Rightarrow> history \<Rightarrow> (int \<times> string) \<times> history" where
  "retr_end os temp b64 trancksum h =
     (case answer os (Close temp) h of
        (Some e, h) \<Rightarrow> discard os temp (-1) h
      | (None, h) \<Rightarrow>
     (case answer os GetLine h of
        (Some e, h) \<Rightarrow> discard os temp (-1) h
      | (None, h) \<Rightarrow>
          if strcmp (os_line os h) ''.'' \<noteq> 0 then discard os temp (-1) h
          else (case b64 of
                  None \<Rightarrow> ((0, temp), h)
                | Some c \<Rightarrow> if strcmp trancksum c \<noteq> 0 then discard os temp 1 h else ((0, temp), h))))"

definition retr_file ::
  "'c options \<Rightarrow> os \<Rightarrow> string \<Rightarrow> int \<Rightarrow> string \<Rightarrow> history \<Rightarrow> (int \<times> string) \<times> history" where
  "retr_file opt os temp sz trancksum h =
     (case with_prefix opt os temp (Create temp) h of
        (False, h) \<Rightarrow> ((-1, temp), h)
      | (True, h) \<Rightarrow>
          (case checksum_md opt of
             None \<Rightarrow>
               (case retr_data (\<lambda>bs c. c) os temp sz () h of
                  (None, h) \<Rightarrow> discard os temp (-1) (snd (answer os (Close temp) h))
                | (Some c, h) \<Rightarrow> retr_end os temp None trancksum h)
           | Some md \<Rightarrow>
               (case retr_data (\<lambda>bs c. d_update md c bs) os temp sz (d_init md) h of
                  (None, h) \<Rightarrow> discard os temp (-1) (snd (answer os (Close temp) h))
                | (Some c, h) \<Rightarrow> retr_end os temp (Some (base64_e (d_final md c))) trancksum h)))"

text \<open>
  The result: \<open>-1\<close> for an error after which the connection is not closed in order, \<open>1\<close> for
  another error, and the name of the temporary file.
\<close>

definition retr ::
  "'c options \<Rightarrow> os \<Rightarrow> string \<Rightarrow> string \<Rightarrow> int \<Rightarrow> string \<Rightarrow> history \<Rightarrow> (int \<times> string) \<times> history" where
  "retr opt os pathdesc path transize trancksum h =
     (if checksum_md opt \<noteq> None \<and> strcmp trancksum ''-'' = 0 then ((1, []), h)
      else
     (case answer os (Send (''RETR '' @ pathdesc @ [NL])) h of
        (Some e, h) \<Rightarrow> ((-1, []), h)
      | (None, h) \<Rightarrow>
     (case answer os GetLine h of
        (Some e, h) \<Rightarrow> ((-1, []), h)
      | (None, h) \<Rightarrow>
          if char_at (os_line os h) 0 \<noteq> CHR ''2'' then ((1, []), h)
          else
     (case answer os GetLine h of
        (Some e, h) \<Rightarrow> ((-1, []), h)
      | (None, h) \<Rightarrow>
          let sz = strtol 10 (os_line os h) in
          if 0 \<le> transize \<and> sz \<noteq> transize then ((-1, []), h)
          else (case snprintf MAXPATHLEN (path @ ''.radmind.'' @ print_int (pid opt)) of
                  None \<Rightarrow> ((-1, []), h)
                | Some temp \<Rightarrow> retr_file opt os temp sz trancksum h)))))"

text \<open>The stub for other systems than macOS.\<close>

definition retr_applefile :: "history \<Rightarrow> (int \<times> string) \<times> history" where
  "retr_applefile h = ((-1, []), h)"

end
