(* ===== verification/Update.thy ===== *)
theory Update
  imports Client
begin

unbundle bit_operations_syntax

text \<open>
  \<open>update.c\<close>: makes an object agree with the words of a transcript line. The first half depends on
  the type; it makes a missing object and gives the mode the object is to have. The second half
  sets owner, group and mode.
\<close>

section \<open>By type\<close>

text \<open>
  \<open>Inl r\<close> returns \<open>r\<close> at once, also for \<open>goto done\<close>; \<open>Inr mode\<close> goes on. \<open>st\<close> is what \<open>*st\<close> points to.
\<close>

type_synonym start_result = "(int + 32 word) \<times> stat \<times> history"

definition mode_of :: "string \<Rightarrow> 32 word" where
  "mode_of s = word_of_int (strtol 8 s)"

definition update_file :: "os \<Rightarrow> string \<Rightarrow> stat \<Rightarrow> string list \<Rightarrow> history \<Rightarrow> start_result" where
  "update_file os path st av h =
     (if length av \<noteq> 8 then (Inl 1, st, h)
      else let mode = mode_of (av ! 2); t = strtol 10 (av ! 5) in
           if t = st_mtime st then (Inr mode, st, h)
           else (case answer os (Utime path t) h of
                   (Some e, h) \<Rightarrow> (Inl 1, st, h)
                 | (None, h) \<Rightarrow> (Inr mode, st, h)))"

definition update_dir ::
  "'c options \<Rightarrow> os \<Rightarrow> string \<Rightarrow> bool \<Rightarrow> stat \<Rightarrow> string list \<Rightarrow> history \<Rightarrow> start_result" where
  "update_dir opt os path present st av h =
     (if length av \<noteq> 5 then (Inl 1, st, h)
      else let mode = mode_of (av ! 2) in
           if present then (Inr mode, st, h)
           else (case with_prefix opt os path (Mkdir path mode) h of
                   (False, h) \<Rightarrow> (Inl 1, st, h)
                 | (True, h) \<Rightarrow>
                     (case radstat_call os path st NUL h of
                        ((r, st, ty, e), h) \<Rightarrow> (if r < 0 then Inl 1 else Inr mode, st, h))))"

text \<open>Links are made and left as they are; their targets go through \<open>decode\<close> and its buffer.\<close>

definition update_hard ::
  "'c options \<Rightarrow> os \<Rightarrow> string \<Rightarrow> stat \<Rightarrow> string list \<Rightarrow> string \<Rightarrow> history \<Rightarrow> (start_result \<times> string) outcome" where
  "update_hard opt os path st av buf h =
     (if length av \<noteq> 3 then Ret ((Inl 1, st, h), buf)
      else obind (decode (av ! 2) buf) (\<lambda>(target, buf).
        case target of
          None \<Rightarrow> Ret ((Inl 1, st, h), buf)
        | Some t \<Rightarrow>
            (case with_prefix opt os path (Link t path) h of
               (ok, h) \<Rightarrow> Ret ((Inl (if ok then 0 else 1), st, h), buf))))"

definition update_link ::
  "'c options \<Rightarrow> os \<Rightarrow> string \<Rightarrow> bool \<Rightarrow> stat \<Rightarrow> string list \<Rightarrow> string \<Rightarrow> history \<Rightarrow>
    (start_result \<times> string) outcome" where
  "update_link opt os path present st av buf h =
     (if length av \<noteq> 3 \<and> length av \<noteq> 6 then Ret ((Inl 1, st, h), buf)
      else case (if present then answer os (Unlink path) h else (None, h)) of
        (Some e, h) \<Rightarrow> Ret ((Inl 1, st, h), buf)
      | (None, h) \<Rightarrow>
          obind (decode (av ! (length av - 1)) buf) (\<lambda>(target, buf).
            case target of
              None \<Rightarrow> Ret ((Inl 1, st, h), buf)
            | Some t \<Rightarrow>
                (case with_prefix opt os path (Symlink t path) h of
                   (ok, h) \<Rightarrow> Ret ((Inl (if ok then 0 else 1), st, h), buf))))"

text \<open>A special object is made and examined again.\<close>

definition make_special ::
  "'c options \<Rightarrow> os \<Rightarrow> string \<Rightarrow> call \<Rightarrow> 32 word \<Rightarrow> stat \<Rightarrow> history \<Rightarrow> start_result" where
  "make_special opt os path c mode st h =
     (case with_prefix opt os path c h of
        (False, h) \<Rightarrow> (Inl 1, st, h)
      | (True, h) \<Rightarrow>
          (case lstat_call os path h of
             (Inl e, h) \<Rightarrow> (Inl 1, st, h)
           | (Inr st, h) \<Rightarrow> (Inr mode, st, h)))"

definition update_fifo ::
  "'c options \<Rightarrow> os \<Rightarrow> string \<Rightarrow> bool \<Rightarrow> stat \<Rightarrow> string list \<Rightarrow> history \<Rightarrow> start_result" where
  "update_fifo opt os path present st av h =
     (if length av \<noteq> 5 then (Inl 1, st, h)
      else let mode = mode_of (av ! 2) OR S_IFIFO in
           if present then (Inr mode, st, h) else make_special opt os path (Mkfifo path mode) mode st h)"

definition update_device ::
  "'c options \<Rightarrow> os \<Rightarrow> string \<Rightarrow> bool \<Rightarrow> stat \<Rightarrow> string list \<Rightarrow> history \<Rightarrow> start_result" where
  "update_device opt os path present st av h =
     (if length av \<noteq> 7 then (Inl 1, st, h)
      else let mode = mode_of (av ! 2);
               dev = (atoi (av ! 5), atoi (av ! 6));
               other = (present \<and> st_rdev st \<noteq> dev)
           in case (if other then answer os (Unlink path) h else (None, h)) of
                (Some e, h) \<Rightarrow> (Inl 1, st, h)
              | (None, h) \<Rightarrow>
                  if present \<and> \<not> other then (Inr mode, st, h)
                  else let mode = mode OR (if char_at (av ! 0) 0 = CHR ''b'' then S_IFBLK else S_IFCHR)
                       in make_special opt os path (Mknod path mode dev) mode st h)"

definition update_door :: "bool \<Rightarrow> stat \<Rightarrow> string list \<Rightarrow> history \<Rightarrow> start_result" where
  "update_door present st av h =
     (if length av \<noteq> 5 then (Inl 1, st, h)
      else if present then (Inr (mode_of (av ! 2)), st, h) else (Inl 2, st, h))"

definition update_start ::
  "'c options \<Rightarrow> os \<Rightarrow> string \<Rightarrow> bool \<Rightarrow> stat \<Rightarrow> string list \<Rightarrow> string \<Rightarrow> history \<Rightarrow>
    (start_result \<times> string) outcome" where
  "update_start opt os path present st av buf h =
     (let c = char_at (av ! 0) 0 in
      if c = CHR ''a'' \<or> c = CHR ''f'' then Ret (update_file os path st av h, buf)
      else if c = CHR ''d'' then Ret (update_dir opt os path present st av h, buf)
      else if c = CHR ''h'' then update_hard opt os path st av buf h
      else if c = CHR ''l'' then update_link opt os path present st av buf h
      else if c = CHR ''p'' then Ret (update_fifo opt os path present st av h, buf)
      else if c = CHR ''b'' \<or> c = CHR ''c'' then Ret (update_device opt os path present st av h, buf)
      else if c = CHR ''s'' \<or> c = CHR ''D'' then Ret (update_door present st av h, buf)
      else Ret ((Inl 1, st, h), buf))"

section \<open>Owner and mode\<close>

text \<open>The bits \<open>S_ISUID\<close> and \<open>S_ISGID\<close>.\<close>

definition set_id :: "32 word" where
  "set_id = 0xC00"

definition update_owner :: "os \<Rightarrow> string \<Rightarrow> stat \<Rightarrow> 32 word \<Rightarrow> 32 word \<Rightarrow> 32 word \<Rightarrow> history \<Rightarrow> int \<times> history" where
  "update_owner os path st uid gid mode h =
     (let differ = (uid \<noteq> st_uid st \<or> gid \<noteq> st_gid st) in
      case (if differ then answer os (Chown path uid gid) h else (None, h)) of
        (Some e, h) \<Rightarrow> (1, h)
      | (None, h) \<Rightarrow>
          (case (if mode \<noteq> (T_MODE AND st_mode st) \<or> differ \<and> (mode AND set_id) \<noteq> 0
                 then answer os (Chmod path mode) h else (None, h)) of
             (Some e, h) \<Rightarrow> (1, h)
           | (None, h) \<Rightarrow> (0, h)))"

text \<open>The result: \<open>0\<close>, \<open>1\<close> for an error, \<open>2\<close> for a door or socket that cannot be made.\<close>

definition update ::
  "'c options \<Rightarrow> os \<Rightarrow> string \<Rightarrow> bool \<Rightarrow> stat \<Rightarrow> string list \<Rightarrow> string \<Rightarrow> history \<Rightarrow>
    ((int \<times> stat \<times> history) \<times> string) outcome" where
  "update opt os path present st av buf h =
     obind (update_start opt os path present st av buf h) (\<lambda>((r, st, h), buf).
       case r of
         Inl n \<Rightarrow> Ret ((n, st, h), buf)
       | Inr mode \<Rightarrow>
           (case update_owner os path st (atoi (av ! 3)) (atoi (av ! 4)) mode h of
              (n, h) \<Rightarrow> Ret ((n, st, h), buf)))"

end
