(* ===== verification/Connect.thy ===== *)
theory Connect
  imports Client
begin

text \<open>
  The client's part of the talk with the server: \<open>connect.c\<close> without opening the socket, and
  \<open>report.c\<close>. The functions of \<open>libsnet\<close> are calls: \<open>snet_getline\<close> and \<open>snet_getline_multi\<close> give a line
  or fail.
\<close>

section \<open>Closing\<close>

text \<open>\<open>Inl n\<close>: the process ends with status \<open>n\<close>.\<close>

definition closesn :: "os \<Rightarrow> history \<Rightarrow> (int + int) \<times> history" where
  "closesn os h =
     (case answer os (Send (''QUIT'' @ [CR, NL])) h of
        (Some e, h) \<Rightarrow> (Inl 2, h)
      | (None, h) \<Rightarrow>
     (case answer os GetLine h of
        (Some e, h) \<Rightarrow> (Inl 2, h)
      | (None, h) \<Rightarrow>
          if char_at (os_line os h) 0 \<noteq> CHR ''2'' then (Inr (-1), h)
          else (case answer os SnetClose h of
                  (Some e, h) \<Rightarrow> (Inl 2, h)
                | (None, h) \<Rightarrow> (Inr 0, h))))"

section \<open>Capabilities\<close>

text \<open>
  The lines of the greeting. The text from the fifth character on is copied into an array of
  \<open>MAXPATHLEN\<close> characters, however long the line is. The server decides how many lines there are, so the
  loop need not end.
\<close>

definition capability_words :: "string \<Rightarrow> string list option \<Rightarrow> string list option outcome" where
  "capability_words line capa =
     (if length line < 4 \<or> MAXPATHLEN \<le> length line - 4 then UB
      else obind (argcargv (drop 4 line)) (\<lambda>av.
        Ret (if av \<noteq> [] \<and> strncasecmp ''CAPAbilities'' (av ! 0) (min 12 (length (av ! 0))) = 0
             then Some (tl av) else capa)))"

partial_function (option) get_capabilities ::
  "os \<Rightarrow> string list option \<Rightarrow> history \<Rightarrow> (string list option \<times> history) outcome option" where
  "get_capabilities os capa h =
     (case answer os GetLine h of
        (Some e, h) \<Rightarrow> Some (Ret (None, h))
      | (None, h) \<Rightarrow>
          let line = os_line os h in
          if char_at line 0 \<noteq> CHR ''2'' then Some (Ret (None, h))
          else (case capability_words line capa of
                  UB \<Rightarrow> Some UB
                | Exit n \<Rightarrow> Some (Exit n)
                | Ret capa \<Rightarrow>
                    if char_at line 3 = SP then Some (Ret (Some (case capa of None \<Rightarrow> [] | Some c \<Rightarrow> c), h))
                    else if char_at line 3 = CHR ''-'' then get_capabilities os capa h
                    else Some (Ret (None, h))))"

definition check_capability :: "string \<Rightarrow> string list \<Rightarrow> bool" where
  "check_capability type capa \<longleftrightarrow> list_ex (\<lambda>p. strncasecmp type p (min 4 (length p)) = 0) capa"

text \<open>\<open>negotiate_compression\<close>, called with a level above 0. The result of \<open>snet_writef\<close> is not looked at.\<close>

definition negotiate_compression :: "os \<Rightarrow> int \<Rightarrow> string list \<Rightarrow> history \<Rightarrow> int \<times> history" where
  "negotiate_compression os level capa h =
     (if \<not> check_capability ''ZLIB'' capa then (0, h)
      else
     (case answer os (Send (''COMP ZLIB '' @ print_int level @ [CR, NL])) h of (e, h) \<Rightarrow>
     (case answer os GetLine h of
        (Some e, h) \<Rightarrow> (-1, h)
      | (None, h) \<Rightarrow>
          if char_at (os_line os h) 0 \<noteq> CHR ''3'' then (-1, h)
          else
     (case answer os (SetCompression level) h of
        (Some e, h) \<Rightarrow> (-1, h)
      | (None, h) \<Rightarrow>
     (case answer os GetLine h of
        (Some e, h) \<Rightarrow> (-1, h)
      | (None, h) \<Rightarrow> (if char_at (os_line os h) 0 \<noteq> CHR ''2'' then -1 else 0, h))))))"

section \<open>Reports\<close>

definition report_event :: "os \<Rightarrow> string \<Rightarrow> string \<Rightarrow> history \<Rightarrow> (int \<times> history) outcome" where
  "report_event os event repodata h =
     (if event = [] \<or> list_ex c_isspace event then Ret (1, h)
      else obind (encode repodata) (\<lambda>e.
        case e of
          None \<Rightarrow> Ret (1, h)
        | Some t \<Rightarrow>
            (case answer os (Send (''REPO '' @ event @ [SP] @ t @ [CR, NL])) h of
               (Some e, h) \<Rightarrow> Ret (1, h)
             | (None, h) \<Rightarrow>
                 (case answer os GetLine h of
                    (Some e, h) \<Rightarrow> Ret (1, h)
                  | (None, h) \<Rightarrow> Ret (if char_at (os_line os h) 0 \<noteq> CHR ''2'' then 1 else 0, h)))))"

end
