(* ===== verification/Lapply.thy ===== *)
theory Lapply
  imports Update Connect
begin

text \<open>
  \<open>lapply.c\<close>: applies a transcript of differences to the file system. Objects to be removed go at
  once, directories wait on a list until the lines have left them, since their contents are removed
  first. The model starts with the options read, the file open and the connection, if any, made.
\<close>

section \<open>State\<close>

text \<open>
  A waiting directory; \<open>dn_line\<close> is the line to be done after its removal, with its transcript.
\<close>

record dir_node =
  dn_path :: string
  dn_line :: "(string \<times> string) option"

definition node_create :: "string \<Rightarrow> (string \<times> string) option \<Rightarrow> dir_node" where
  [simp]: "node_create path line = \<lparr>dn_path = path, dn_line = line\<rparr>"

record 'c apply_options = "'c options" +
  o_case_sensitive :: bool
  o_force :: bool

text \<open>
  \<open>la_command\<close> is the pointer \<open>command\<close>, as a place in the array \<open>targvline\<close>; it is never taken back, so
  on a line without a sign it points into the new contents of the array. \<open>la_st\<close> and \<open>la_type\<close> are
  \<open>st\<close> and \<open>fstype\<close>, \<open>la_buf\<close> is the buffer of \<open>decode\<close>.
\<close>

record lapply =
  la_hist :: history
  la_buf :: string
  la_network :: bool
  la_change :: bool
  la_special :: bool
  la_prepath :: string
  la_transcript :: string
  la_command :: "nat option"
  la_targvline :: string
  la_head :: "dir_node list"
  la_st :: stat
  la_type :: char

definition lapply0 :: "bool \<Rightarrow> history \<Rightarrow> lapply" where
  "lapply0 net h =
     \<lparr>la_hist = h, la_buf = decode_buf0, la_network = net, la_change = False, la_special = False,
      la_prepath = [], la_transcript = [], la_command = None,
      la_targvline = replicate (2 * MAXPATHLEN) NUL, la_head = [], la_st = stat0, la_type = NUL\<rparr>"

definition la_call :: "os \<Rightarrow> call \<Rightarrow> lapply \<Rightarrow> errno option \<times> lapply" where
  "la_call os c s = (case answer os c (la_hist s) of (e, h) \<Rightarrow> (e, s\<lparr>la_hist := h\<rparr>))"

section \<open>\<open>do_line\<close>\<close>

text \<open>\<open>char cksum_b64[ SZ_BASE64_E( EVP_MAX_MD_SIZE ) ]\<close>\<close>

definition CKSUM_SIZE :: nat where
  "CKSUM_SIZE = 89"

definition path_description :: "bool \<Rightarrow> string \<Rightarrow> string \<Rightarrow> string option" where
  "path_description special tran name =
     snprintf (2 * MAXPATHLEN) (if special then ''SPECIAL '' @ name else ''FILE '' @ tran @ [SP] @ name)"

definition is_sign :: "char \<Rightarrow> bool" where
  "is_sign c \<longleftrightarrow> c = CHR ''+'' \<or> c = CHR ''-''"

text \<open>\<open>update\<close> on the state; the numbers \<open>0\<close> and \<open>2\<close> go on.\<close>

definition la_update ::
  "'c apply_options \<Rightarrow> os \<Rightarrow> string \<Rightarrow> bool \<Rightarrow> string list \<Rightarrow> lapply \<Rightarrow> (int \<times> lapply) outcome" where
  "la_update opt os path present av s =
     obind (update (options.truncate opt) os path present (la_st s) av (la_buf s) (la_hist s))
       (\<lambda>((n, st, h), buf). Ret (n, s\<lparr>la_st := st, la_hist := h, la_buf := buf\<rparr>))"

text \<open>What is done with the result of \<open>retr\<close>; after \<open>-1\<close> the connection is not used again.\<close>

definition install_download ::
  "'c apply_options \<Rightarrow> os \<Rightarrow> string \<Rightarrow> bool \<Rightarrow> string list \<Rightarrow> int \<times> string \<Rightarrow> lapply \<Rightarrow> (int \<times> lapply) outcome" where
  "install_download opt os path present av got s =
     (case got of (r, temp) \<Rightarrow>
        if r = -1 then Ret (1, s\<lparr>la_network := False\<rparr>)
        else if r = 1 then Ret (1, s)
        else (case radstat_call os temp (la_st s) NUL (la_hist s) of
                ((q, st, ty, e), h) \<Rightarrow>
                  let s = s\<lparr>la_st := st, la_hist := h\<rparr> in
                  if q < 0 then Ret (1, s)
                  else obind (la_update opt os temp present av s) (\<lambda>(n, s).
                    if n = 0 then
                      (case la_call os (Rename temp path) s of (e, s) \<Rightarrow> Ret (if e = None then 0 else 1, s))
                    else Ret (if n = 2 then 0 else 1, s))))"

definition do_download ::
  "'c apply_options \<Rightarrow> os \<Rightarrow> string \<Rightarrow> string \<Rightarrow> bool \<Rightarrow> string list \<Rightarrow> lapply \<Rightarrow> (int \<times> lapply) outcome" where
  "do_download opt os tran path present av s =
     (let c = char_at (av ! 0) 0 in
      if c \<noteq> CHR ''f'' \<and> c \<noteq> CHR ''a'' then Ret (1, s)
      else if length av < 8 \<or> CKSUM_SIZE \<le> length (av ! 7) then UB
      else case path_description (la_special s) tran (av ! 1) of
        None \<Rightarrow> Ret (1, s)
      | Some pathdesc \<Rightarrow>
          (case (if c = CHR ''a'' then retr_applefile (la_hist s)
                 else retr (options.truncate opt) os pathdesc path (strtol 10 (av ! 6)) (av ! 7) (la_hist s)) of
             (got, h) \<Rightarrow> install_download opt os path present av got (s\<lparr>la_hist := h\<rparr>)))"

definition do_update ::
  "'c apply_options \<Rightarrow> os \<Rightarrow> string \<Rightarrow> bool \<Rightarrow> string list \<Rightarrow> lapply \<Rightarrow> (int \<times> lapply) outcome" where
  "do_update opt os path present av s =
     (case (if present then radstat_call os path (la_st s) NUL (la_hist s)
            else ((0, la_st s, NUL, None), la_hist s)) of
        ((q, st, ty, e), h) \<Rightarrow>
          let s = s\<lparr>la_st := st, la_hist := h\<rparr> in
          if q < 0 then Ret (1, s)
          else obind (la_update opt os path present av s) (\<lambda>(n, s). Ret (if n = 0 \<or> n = 2 then 0 else 1, s)))"

text \<open>A line with fewer than two words after the sign makes \<open>decode\<close> read a null pointer.\<close>

definition do_line ::
  "'c apply_options \<Rightarrow> os \<Rightarrow> string \<Rightarrow> string \<Rightarrow> bool \<Rightarrow> lapply \<Rightarrow> (int \<times> lapply) outcome" where
  "do_line opt os tline tran present s =
     obind (argcargv tline) (\<lambda>ws.
       if ws = [] then UB
       else let sign = char_at (ws ! 0) 0; av = (if is_sign sign then tl ws else ws) in
            if length av < 2 then UB
            else obind (decode (av ! 1) (la_buf s)) (\<lambda>(d, buf).
              let s = s\<lparr>la_buf := buf\<rparr> in
              case d of
                None \<Rightarrow> Ret (1, s)
              | Some path \<Rightarrow>
                  if sign = CHR ''+'' then do_download opt os tran path present av s
                  else do_update opt os path present av s))"

section \<open>The list of directories\<close>

text \<open>
  The head of the list is removed, and its line done. The first component of the result is \<open>False\<close>
  after an error.
\<close>

definition remove_head :: "'c apply_options \<Rightarrow> os \<Rightarrow> dir_node \<Rightarrow> lapply \<Rightarrow> (bool \<times> lapply) outcome" where
  "remove_head opt os n s =
     (case la_call os (Rmdir (dn_path n)) s of
        (Some e, s) \<Rightarrow> Ret (False, s)
      | (None, s) \<Rightarrow>
          (case dn_line n of
             None \<Rightarrow> Ret (True, s)
           | Some (tline, tran) \<Rightarrow>
               obind (do_line opt os tline tran False s) (\<lambda>(r, s).
                 Ret (if r \<noteq> 0 then (False, s) else (True, s\<lparr>la_change := True\<rparr>)))))"

fun remove_heads ::
  "'c apply_options \<Rightarrow> os \<Rightarrow> (dir_node \<Rightarrow> bool) \<Rightarrow> dir_node list \<Rightarrow> lapply \<Rightarrow> (bool \<times> lapply) outcome" where
  "remove_heads opt os keep [] s = Ret (True, s\<lparr>la_head := []\<rparr>)"
| "remove_heads opt os keep (n # ns) s =
     (if keep n then Ret (True, s\<lparr>la_head := n # ns\<rparr>)
      else obind (remove_head opt os n s) (\<lambda>(ok, s).
        if ok then remove_heads opt os keep ns s else Ret (False, s)))"

definition leave_dirs :: "'c apply_options \<Rightarrow> os \<Rightarrow> string \<Rightarrow> lapply \<Rightarrow> (bool \<times> lapply) outcome" where
  "leave_dirs opt os path s =
     remove_heads opt os (\<lambda>n. ischildcase path (Some (dn_path n)) (o_case_sensitive opt)) (la_head s) s"

text \<open>
  An object that is in the way or to be removed. The result is \<open>None\<close> after an error, otherwise
  whether the loop continues with the next line at once, which it does after the first directory of a list.
\<close>

definition clear_object ::
  "'c apply_options \<Rightarrow> os \<Rightarrow> string \<Rightarrow> (string \<times> string) option \<Rightarrow> lapply \<Rightarrow> (bool option \<times> lapply) outcome" where
  "clear_object opt os path line s =
     obind (leave_dirs opt os path s) (\<lambda>(ok, s).
       if \<not> ok then Ret (None, s)
       else if la_type s = CHR ''d'' then
         Ret (Some (la_head s = []), s\<lparr>la_head := node_create path line # la_head s\<rparr>)
       else (case la_call os (Unlink path) s of
               (None, s) \<Rightarrow> Ret (Some False, s)
             | (Some e, s) \<Rightarrow> Ret (if o_force opt \<and> e = ENOENT then Some False else None, s)))"

section \<open>A line\<close>

datatype line_result = Continue | Error2 | Return1

definition apply_object ::
  "'c apply_options \<Rightarrow> os \<Rightarrow> string \<Rightarrow> char \<Rightarrow> string list \<Rightarrow> string \<Rightarrow> bool \<Rightarrow> lapply \<Rightarrow>
    (line_result \<times> lapply) outcome" where
  "apply_object opt os tline sign av path present s =
     (let differs = (present \<and> la_type s \<noteq> char_at (av ! 0) 0) in
      obind (if sign = CHR ''-'' \<or> differs
             then clear_object opt os path (if differs then Some (tline, la_transcript s) else None) s
             else Ret (Some False, s)) (\<lambda>(r, s).
        let present = (present \<and> \<not> (sign = CHR ''-'' \<or> differs)) in
        case r of
          None \<Rightarrow> Ret (Error2, s)
        | Some again \<Rightarrow>
            if again \<or> sign = CHR ''-'' then Ret (Continue, s)
            else obind (leave_dirs opt os path s) (\<lambda>(ok, s).
              if \<not> ok then Ret (Error2, s)
              else obind (do_line opt os tline (la_transcript s) present s) (\<lambda>(n, s).
                Ret (if n \<noteq> 0 then (Error2, s) else (Continue, s\<lparr>la_change := True\<rparr>))))))"

definition apply_path ::
  "'c apply_options \<Rightarrow> os \<Rightarrow> string \<Rightarrow> char \<Rightarrow> string list \<Rightarrow> string \<Rightarrow> lapply \<Rightarrow> (line_result \<times> lapply) outcome" where
  "apply_path opt os tline sign av path s =
     (if la_prepath s \<noteq> [] \<and> pathcasecmp path (la_prepath s) (o_case_sensitive opt) \<le> 0 then Ret (Error2, s)
      else if MAXPATHLEN \<le> length path then Ret (Error2, s)
      else
        (case radstat_call os path (la_st s) (la_type s) (la_hist s) of
           ((q, st, ty, e), h) \<Rightarrow>
             let s = s\<lparr>la_prepath := path, la_st := st, la_type := ty, la_hist := h\<rparr> in
             if q = 0 then apply_object opt os tline sign av path True s
             else if q \<noteq> 1 \<and> e = Some ENOENT then apply_object opt os tline sign av path False s
             else Ret (Error2, s)))"

definition transcript_line :: "string \<Rightarrow> lapply \<Rightarrow> line_result \<times> lapply" where
  "transcript_line w s =
     (if last w \<noteq> CHR '':'' then (Error2, s\<lparr>la_transcript := w\<rparr>)
      else (Continue, s\<lparr>la_transcript := butlast w, la_special := (strcmp (butlast w) ''special.T'' = 0)\<rparr>))"

text \<open>\<open>strcpy\<close> into \<open>targvline\<close>, split in place, and where its words are.\<close>

definition split_line :: "string \<Rightarrow> string \<Rightarrow> (string \<times> nat list \<times> string list) outcome" where
  "split_line line old =
     obind (acav_scan ACV_ARGC 0 False [] line) (\<lambda>(b, offs, k).
       Ret (b @ NUL # drop (Suc (length line)) old, offs, map (token_at b) offs))"

definition apply_line :: "'c apply_options \<Rightarrow> os \<Rightarrow> string \<Rightarrow> lapply \<Rightarrow> (line_result \<times> lapply) outcome" where
  "apply_line opt os tline s =
     (if tline = [] then UB
      else if last tline \<noteq> NL then Ret (Error2, s)
      else obind (split_line tline (la_targvline s)) (\<lambda>(b, offs, ws).
        let s = s\<lparr>la_targvline := b\<rparr> in
        if ws = [] \<or> char_at (ws ! 0) 0 = CHR ''#'' then Ret (Continue, s)
        else if length ws = 1 then Ret (transcript_line (ws ! 0) s)
        else let c = char_at (ws ! 0) 0; signed = is_sign c in
          if c = CHR ''+'' \<and> la_transcript s = [] then Ret (Error2, s)
          else let s = (if signed then s\<lparr>la_command := Some (hd offs)\<rparr> else s);
                   av = (if signed then tl ws else ws);
                   sign = (case la_command s of None \<Rightarrow> NUL | Some k \<Rightarrow> b ! k) in
            if sign = CHR ''+'' \<and> \<not> la_network s then Ret (Continue, s)
            else if length av < 2 then UB
            else obind (decode (av ! 1) (la_buf s)) (\<lambda>(d, buf).
              let s = s\<lparr>la_buf := buf\<rparr> in
              case d of
                None \<Rightarrow> Ret (Return1, s)
              | Some path \<Rightarrow> apply_path opt os tline sign av path s)))"

section \<open>The run\<close>

function apply_lines :: "'c apply_options \<Rightarrow> os \<Rightarrow> string \<Rightarrow> lapply \<Rightarrow> (line_result \<times> lapply) outcome" where
  "apply_lines opt os inp s =
     (case fgets MAXPATHLEN inp of
        None \<Rightarrow> Ret (Continue, s)
      | Some (buf, rest) \<Rightarrow>
          obind (apply_line opt os (cstr buf) s) (\<lambda>(r, s).
            if r = Continue then apply_lines opt os rest s else Ret (r, s)))"
  by pat_completeness auto
termination
  by (relation "measure (\<lambda>(_, _, inp, _). length inp)") (auto dest!: fgets_shrinks simp: MAXPATHLEN_def)

declare apply_lines.simps [simp del]

text \<open>The end with an error, from \<open>error1\<close> on. A failing \<open>closesn\<close> decides the status itself.\<close>

definition apply_failed :: "os \<Rightarrow> bool \<Rightarrow> string \<Rightarrow> lapply \<Rightarrow> (int \<times> lapply) outcome" where
  "apply_failed os report event s =
     (let status = (if la_change s then 1 else 2);
          note = (if la_change s then ''Error, changes made'' else ''Error, no changes made'') in
      if \<not> la_network s then Ret (status, s)
      else obind (if report then report_event os event note (la_hist s) else Ret (0, la_hist s)) (\<lambda>(r, h).
        case closesn os h of
          (Inl n, h) \<Rightarrow> Ret (n, s\<lparr>la_hist := h\<rparr>)
        | (Inr n, h) \<Rightarrow> Ret (status, s\<lparr>la_hist := h\<rparr>)))"

definition apply_done :: "os \<Rightarrow> bool \<Rightarrow> string \<Rightarrow> lapply \<Rightarrow> (int \<times> lapply) outcome" where
  "apply_done os report event s =
     (if \<not> la_network s then Ret (0, s)
      else obind (if report then report_event os event ''Changes applied successfully'' (la_hist s)
                  else Ret (0, la_hist s)) (\<lambda>(r, h).
        case closesn os h of
          (Inl n, h) \<Rightarrow> Ret (n, s\<lparr>la_hist := h\<rparr>)
        | (Inr n, h) \<Rightarrow> Ret (if n \<noteq> 0 then 2 else 0, s\<lparr>la_hist := h\<rparr>)))"

text \<open>
  The program from the loop on; \<open>file\<close> is the name it reads, \<open>inp\<close> what is in it. The result is the exit
  status.
\<close>

definition lapply_main ::
  "'c apply_options \<Rightarrow> os \<Rightarrow> bool \<Rightarrow> string \<Rightarrow> string \<Rightarrow> string \<Rightarrow> lapply \<Rightarrow> (int \<times> lapply) outcome" where
  "lapply_main opt os report event file inp s =
     obind (apply_lines opt os inp s) (\<lambda>(r, s).
     obind (if r = Continue then remove_heads opt os (\<lambda>n. False) (la_head s) s else Ret (False, s)) (\<lambda>(ok, s).
       if r = Return1 then Ret (1, s)
       else case la_call os (Close file) s of (e, s) \<Rightarrow>
         if ok \<and> e = None then apply_done os report event s else apply_failed os report event s))"

end
