(* ===== verification/ClientCalls.thy ===== *)
theory ClientCalls
  imports Lapply
begin

text \<open>
  Which calls the operations of the client programs make, as predicates on what they add to the
  trace, and what a download leaves behind.
\<close>

section \<open>Growing traces\<close>

lemma grows_append [simp]:
  assumes "grows P h0 h"
  shows "grows P h0 (h @ es) \<longleftrightarrow> (\<forall>c e. Did c e \<in> set es \<longrightarrow> P c)"
proof -
  obtain es0 where "h = h0 @ es0" "\<forall>c e. Did c e \<in> set es0 \<longrightarrow> P c" using assms by (auto simp: grows_def)
  then show ?thesis by (auto simp: grows_def)
qed

text \<open>
  A small calculus: each rule takes one call, one sub-operation or one choice from the goal. They are
  tried in this order.
\<close>

lemma grow_call:
  assumes "P c" "grows P h0 h" "\<And>h'. grows P h0 h' \<Longrightarrow> grows P h0 (snd (good h'))"
    "\<And>e h'. grows P h0 h' \<Longrightarrow> grows P h0 (snd (bad e h'))"
  shows "grows P h0 (snd (case answer os c h of (None, h) \<Rightarrow> good h | (Some e, h) \<Rightarrow> bad e h))"
  using assms by (auto simp: answer_split split: option.split)

lemma grow_call_if:
  assumes "b \<Longrightarrow> P c" "grows P h0 h" "\<And>h'. grows P h0 h' \<Longrightarrow> grows P h0 (snd (good h'))"
    "\<And>e h'. grows P h0 h' \<Longrightarrow> grows P h0 (snd (bad e h'))"
  shows "grows P h0 (snd (case (if b then answer os c h else (None, h)) of
    (None, h) \<Rightarrow> good h | (Some e, h) \<Rightarrow> bad e h))"
  using assms by (auto simp: answer_split split: option.split)

lemma grow_pair:
  assumes "grows P h0 (snd m)" "\<And>r h'. m = (r, h') \<Longrightarrow> grows P h0 h' \<Longrightarrow> grows P h0 (snd (g r h'))"
  shows "grows P h0 (snd (case m of (r, h) \<Rightarrow> g r h))"
  using assms by (cases m) auto

lemma grow_option:
  assumes "x = None \<Longrightarrow> grows P h0 (snd a)" "\<And>y. x = Some y \<Longrightarrow> grows P h0 (snd (b y))"
  shows "grows P h0 (snd (case x of None \<Rightarrow> a | Some y \<Rightarrow> b y))"
  using assms by (cases x) auto

lemma grow_sum:
  assumes "\<And>y. x = Inl y \<Longrightarrow> grows P h0 (snd (a y))" "\<And>y. x = Inr y \<Longrightarrow> grows P h0 (snd (b y))"
  shows "grows P h0 (snd (case x of Inl y \<Rightarrow> a y | Inr y \<Rightarrow> b y))"
  using assms by (cases x) auto

lemma grow_bool:
  assumes "x \<Longrightarrow> grows P h0 (snd a)" "\<not> x \<Longrightarrow> grows P h0 (snd b)"
  shows "grows P h0 (snd (case x of True \<Rightarrow> a | False \<Rightarrow> b))" "grows P h0 (snd (if x then a else b))"
  using assms by (cases x; simp)+

lemma grow_end: "grows P h0 h \<Longrightarrow> grows P h0 (snd (r, h))"
  "P c \<Longrightarrow> grows P h0 h \<Longrightarrow> grows P h0 (snd (answer os c h))"
  by (simp_all add: answer_split)

lemmas growing = grow_call grow_call_if grow_option grow_sum grow_bool grow_end

section \<open>\<open>mkprefix\<close>\<close>

fun prefix_call :: "string \<Rightarrow> call \<Rightarrow> bool" where
  "prefix_call path (Mkdir d m) = (\<exists>r. path = d @ SLASH # r)"
| "prefix_call path (Chmod d m) = (\<exists>r. path = d @ SLASH # r)"
| "prefix_call path (Chown d u g) = (\<exists>r. path = d @ SLASH # r)"
| "prefix_call path (Stat p) = (\<exists>d r. path = d @ SLASH # r \<and> (p = d \<or> p = take (MAXPATHLEN - 1) (d @ ''/..'')))"
| "prefix_call path c = False"

lemma mkprefix_dirs_grows:
  "\<forall>d \<in> set ds. \<exists>r. path = d @ SLASH # r \<Longrightarrow> grows (prefix_call path) h0 h \<Longrightarrow>
     grows (prefix_call path) h0 (snd (mkprefix_dirs os uid ds parent h))"
proof (induction ds arbitrary: parent h)
  case (Cons d ds)
  have step: "grows (prefix_call path) h0 (snd (mkprefix_dirs os uid ds parent h))"
    if "grows (prefix_call path) h0 h" for parent h using Cons.IH Cons.prems(1) that by simp
  from Cons.prems(1) obtain r where r: "path = d @ SLASH # r" by auto
  note h = Cons.prems(2)
  show ?case
    unfolding mkprefix_dirs.simps parent_stat_def like_parent_def Let_def
    by (rule growing grow_pair h step | assumption | (use r in \<open>auto; fail\<close>))+
qed simp

lemma prefix_dirs_above: "d \<in> set (prefix_dirs path) \<Longrightarrow> \<exists>r. path = d @ SLASH # r"
  by (auto simp: prefix_dirs_def dest: prefixes_prefix)

lemma mkprefix_grows:
  "grows (prefix_call path) h0 h \<Longrightarrow> grows (prefix_call path) h0 (snd (mkprefix os uid path h))"
  unfolding mkprefix_def by (intro mkprefix_dirs_grows) (auto dest: prefix_dirs_above)

lemma with_prefix_grows:
  assumes "\<And>c'. prefix_call path c' \<Longrightarrow> P c'" "P c" "grows P h0 h"
  shows "grows P h0 (snd (with_prefix opt os path c h))"
proof -
  have m: "grows P h0 (snd (mkprefix os (euid opt) path h'))" if "grows P h0 h'" for h'
    using mkprefix_grows [of path h' h' os "euid opt"] assms(1) that
    by (auto elim!: grows_trans grows_mono)
  show ?thesis unfolding with_prefix_def
    by (rule growing grow_pair m assms | assumption)+
qed

section \<open>Downloads and updates\<close>

text \<open>The calls that speak to the server, and those that work on one object.\<close>

fun talk :: "call \<Rightarrow> bool" where
  "talk (Send t) = True"
| "talk GetLine = True"
| "talk (Recv n) = True"
| "talk c = False"

fun object_call :: "string \<Rightarrow> call \<Rightarrow> bool" where
  "object_call p (Create q) = (q = p)"
| "object_call p (Write q d) = (q = p)"
| "object_call p (Close q) = (q = p)"
| "object_call p (Unlink q) = (q = p)"
| "object_call p (Mkdir q m) = (q = p)"
| "object_call p (Chmod q m) = (q = p)"
| "object_call p (Chown q u g) = (q = p)"
| "object_call p (Lstat q) = (q = p)"
| "object_call p (Utime q t) = (q = p)"
| "object_call p (Link t q) = (q = p)"
| "object_call p (Symlink t q) = (q = p)"
| "object_call p (Mknod q m d) = (q = p)"
| "object_call p (Mkfifo q m) = (q = p)"
| "object_call p c = False"

definition works_on :: "string \<Rightarrow> call \<Rightarrow> bool" where
  "works_on p c \<longleftrightarrow> object_call p c \<or> prefix_call p c"

definition fetches :: "string \<Rightarrow> call \<Rightarrow> bool" where
  "fetches temp c \<longleftrightarrow> talk c \<or> works_on temp c"

lemma works_on_intros:
  "works_on p (Create p)" "works_on p (Write p d)" "works_on p (Close p)" "works_on p (Unlink p)"
  "works_on p (Mkdir p m)" "works_on p (Chmod p m)" "works_on p (Chown p u g)" "works_on p (Lstat p)"
  "works_on p (Utime p t)" "works_on p (Link a p)" "works_on p (Symlink a p)" "works_on p (Mknod p m v)"
  "works_on p (Mkfifo p m)" "prefix_call p c \<Longrightarrow> works_on p c"
  by (simp_all add: works_on_def)

lemma fetches_intros:
  "fetches p (Send t)" "fetches p GetLine" "fetches p (Recv n)" "works_on p c \<Longrightarrow> fetches p c"
  by (simp_all add: fetches_def)

lemma retr_data_eq:
  assumes "\<not> sz \<le> 0" "answer os (Recv (nat (min 8192 sz))) h = (e1, h1)"
    "buf = take (nat (min 8192 sz)) (os_recv os h1)" "answer os (Write temp buf) h1 = (e2, h2)"
  shows "retr_data upd os temp sz ctx h =
    (if e1 = None \<and> buf \<noteq> [] \<and> e2 = None
     then retr_data upd os temp (sz - int (length buf)) (upd (bytes_of buf) ctx) h2
     else (None, if e1 = None \<and> buf \<noteq> [] then h2 else h1))"
  using assms by (subst retr_data.simps) (auto simp: Let_def split: option.split)

lemma retr_data_grows:
  "grows (fetches temp) h0 h \<Longrightarrow> grows (fetches temp) h0 (snd (retr_data upd os temp sz ctx h))"
proof (induction upd os temp sz ctx h rule: retr_data.induct)
  case (1 upd os temp sz ctx h)
  show ?case
  proof (cases "sz \<le> 0")
    case False
    obtain e1 h1 where a1: "answer os (Recv (nat (min 8192 sz))) h = (e1, h1)" by force
    define buf where "buf = take (nat (min 8192 sz)) (os_recv os h1)"
    obtain e2 h2 where a2: "answer os (Write temp buf) h1 = (e2, h2)" by force
    have g1: "grows (fetches temp) h0 h1"
      using grows_answer [OF a1] "1.prems" by (simp add: fetches_intros)
    then have g2: "grows (fetches temp) h0 h2"
      using grows_answer [OF a2] by (simp add: fetches_intros works_on_intros)
    note eq = retr_data_eq [OF False a1 buf_def a2]
    show ?thesis
    proof (cases "e1 = None \<and> buf \<noteq> [] \<and> e2 = None")
      case True
      then have a: "answer os (Recv (nat (min 8192 sz))) h = (None, h1)" "answer os (Write temp buf) h1 = (None, h2)"
        and n: "buf \<noteq> []" using a1 a2 by auto
      from "1.IH" [OF False refl a(1) [symmetric] _ buf_def n a(2) [symmetric] _ g2] True show ?thesis
        unfolding eq by simp
    next
      case no: False
      then show ?thesis unfolding eq using g1 g2 by (simp only: if_False snd_conv split: if_split) blast
    qed
  qed (use 1 in \<open>simp add: retr_data.simps\<close>)
qed

lemma discard_grows: "grows (fetches temp) h0 h \<Longrightarrow> grows (fetches temp) h0 (snd (discard os temp r h))"
  by (simp add: discard_def answer_split fetches_intros works_on_intros)

lemma retr_end_grows:
  assumes "grows (fetches temp) h0 h"
  shows "grows (fetches temp) h0 (snd (retr_end os temp b64 trancksum h))"
  unfolding retr_end_def
  by (rule growing discard_grows fetches_intros works_on_intros assms | assumption)+

lemma close_grows: "grows (fetches temp) h0 h \<Longrightarrow> grows (fetches temp) h0 (snd (answer os (Close temp) h))"
  by (intro growing fetches_intros works_on_intros)

lemma retr_file_grows:
  assumes "grows (fetches temp) h0 h"
  shows "grows (fetches temp) h0 (snd (retr_file opt os temp sz trancksum h))"
  unfolding retr_file_def
  by (rule growing grow_pair with_prefix_grows retr_data_grows discard_grows retr_end_grows close_grows assms
      fetches_intros(4) works_on_intros | assumption)+

definition temp_name :: "('c, 'b) options_scheme \<Rightarrow> string \<Rightarrow> string" where
  "temp_name opt path = path @ ''.radmind.'' @ print_int (pid opt)"

lemma retr_grows:
  assumes "grows (fetches (temp_name opt path)) h0 h"
  shows "grows (fetches (temp_name opt path)) h0 (snd (retr opt os pathdesc path transize trancksum h))"
proof -
  have f: "grows (fetches (temp_name opt path)) h0 (snd (case snprintf MAXPATHLEN (path @ ''.radmind.'' @ print_int (pid opt)) of
      None \<Rightarrow> ((-1, []), h) | Some temp \<Rightarrow> retr_file opt os temp sz trancksum h))"
    if "grows (fetches (temp_name opt path)) h0 h" for sz h
    using retr_file_grows [OF that] that by (auto simp: temp_name_def split: option.split)
  show ?thesis unfolding retr_def Let_def
    by (rule f growing assms fetches_intros | assumption)+
qed

lemma update_owner_grows:
  assumes "grows (works_on path) h0 h"
  shows "grows (works_on path) h0 (snd (update_owner os path st uid gid mode h))"
  unfolding update_owner_def Let_def
  by (rule growing works_on_intros assms | assumption)+

text \<open>The same for the first half of \<open>update\<close>, whose result has the information on the object in the middle.\<close>

definition started :: "string \<Rightarrow> history \<Rightarrow> start_result \<Rightarrow> bool" where
  "started path h0 r \<longleftrightarrow> grows (works_on path) h0 (snd (snd r))"

lemma with_prefix_started:
  assumes "works_on path c" "grows (works_on path) h0 h"
    "\<And>ok h'. grows (works_on path) h0 h' \<Longrightarrow> started path h0 (f ok h')"
  shows "started path h0 (case with_prefix opt os path c h of (ok, h) \<Rightarrow> f ok h)"
  using with_prefix_grows [of path "works_on path" c h0 h opt os] assms by (auto simp: works_on_intros split: prod.split)

lemma update_small_started:
  assumes "grows (works_on path) h0 h"
  shows "started path h0 (update_file os path st av h)" "started path h0 (update_door present st av h)"
  using assms by (auto simp: update_file_def update_door_def started_def Let_def answer_split works_on_intros
      split: option.split)

lemma update_dir_started:
  assumes "grows (works_on path) h0 h"
  shows "started path h0 (update_dir opt os path present st av h)"
proof -
  have "started path h0 (case with_prefix opt os path (Mkdir path (mode_of (av ! 2))) h of
      (False, h) \<Rightarrow> (Inl 1, st, h)
    | (True, h) \<Rightarrow> (case radstat_call os path st NUL h of ((r, st, ty, e), h) \<Rightarrow> (if r < 0 then Inl 1 else Inr (mode_of (av ! 2)), st, h)))"
    by (rule with_prefix_started)
      (use assms in \<open>auto simp: works_on_intros started_def radstat_call_def lstat_call_def Let_def split: bool.split prod.split\<close>)
  with assms show ?thesis by (simp add: update_dir_def started_def Let_def)
qed

lemma make_special_started:
  assumes "works_on path c" "grows (works_on path) h0 h"
  shows "started path h0 (make_special opt os path c mode st h)"
  unfolding make_special_def
  by (rule with_prefix_started)
    (use assms in \<open>auto simp: works_on_intros started_def lstat_call_def Let_def split: bool.split sum.split\<close>)

lemma update_fifo_started:
  "grows (works_on path) h0 h \<Longrightarrow> started path h0 (update_fifo opt os path present st av h)"
  by (auto simp: update_fifo_def Let_def started_def works_on_intros intro!: make_special_started [unfolded started_def])

lemma update_device_started:
  assumes "grows (works_on path) h0 h"
  shows "started path h0 (update_device opt os path present st av h)"
  using assms
  by (auto simp: update_device_def Let_def started_def works_on_intros answer_split split: option.split
      intro!: make_special_started [unfolded started_def])

lemma with_prefix_result:
  assumes "works_on path c" "grows (works_on path) h0 h" "with_prefix opt os path c h = (ok, h')"
  shows "grows (works_on path) h0 h'"
  using with_prefix_grows [of path "works_on path" c h0 h opt os] assms by (auto simp: works_on_intros)

lemma link_started:
  assumes "works_on path c" "grows (works_on path) h0 h"
  shows "all_ret (\<lambda>(r, b). started path h0 r)
    (case with_prefix opt os path c h of (ok, h) \<Rightarrow> Ret ((Inl (if ok then 0 else 1), st, h), buf))"
  using with_prefix_result [OF assms] by (auto simp: started_def split: prod.split)

lemma update_links_started:
  assumes "grows (works_on path) h0 h"
  shows "all_ret (\<lambda>(r, b). started path h0 r) (update_hard opt os path st av buf h)"
    "all_ret (\<lambda>(r, b). started path h0 r) (update_link opt os path present st av buf h)"
proof -
  have here: "all_ret (\<lambda>(r, b). started path h0 r) (Ret ((Inl n, st, h'), buf))"
    if "grows (works_on path) h0 h'" for n h' buf using that by (simp add: started_def)
  show "all_ret (\<lambda>(r, b). started path h0 r) (update_hard opt os path st av buf h)"
    unfolding update_hard_def by (intro all_ret_rules link_started here assms works_on_intros)
  have u: "grows (works_on path) h0 h'" if "(if present then answer os (Unlink path) h else (None, h)) = (e, h')" for e h'
    using that assms by (auto simp: answer_split works_on_intros split: if_splits)
  show "all_ret (\<lambda>(r, b). started path h0 r) (update_link opt os path present st av buf h)"
    unfolding update_link_def
    by (intro all_ret_rules link_started here assms works_on_intros) (assumption | erule u)+
qed

lemma update_start_started:
  assumes "grows (works_on path) h0 h"
  shows "all_ret (\<lambda>(r, b). started path h0 r) (update_start opt os path present st av buf h)"
  unfolding update_start_def Let_def
  by (simp add: update_links_started update_small_started assms update_dir_started update_fifo_started
      update_device_started) (simp add: started_def assms)

lemma update_grows:
  assumes "grows (works_on path) h0 h"
  shows "all_ret (\<lambda>((n, st, h'), b). grows (works_on path) h0 h') (update opt os path present st av buf h)"
proof -
  have "grows (works_on path) h0 h2"
    if "update_start opt os path present st av buf h = Ret ((r, st', h1), b)"
      "(case r of Inl n \<Rightarrow> Ret ((n, st', h1), b)
        | Inr mode \<Rightarrow> (case update_owner os path st' (atoi (av ! 3)) (atoi (av ! 4)) mode h1 of (n, h) \<Rightarrow> Ret ((n, st', h), b))) =
       Ret ((n, st'', h2), b')" for r st' h1 b n st'' h2 b'
  proof -
    have "grows (works_on path) h0 h1"
      using all_retD [OF update_start_started [OF assms] that(1)] by (simp add: started_def)
    from that(2) update_owner_grows [OF this] this show ?thesis
      by (auto split: sum.splits prod.splits) (metis snd_conv)
  qed
  then show ?thesis unfolding update_def all_ret_def by (auto simp: obind_Ret_iff)
qed

section \<open>\<open>lapply\<close>\<close>

text \<open>
  The calls made for a line with the path \<open>path\<close>: none of them removes a directory, and those that
  change something name the path, its temporary file or a directory above.
\<close>

definition line_call :: "string \<Rightarrow> string \<Rightarrow> call \<Rightarrow> bool" where
  "line_call path temp c \<longleftrightarrow> talk c \<or> works_on path c \<or> works_on temp c \<or> c = Rename temp path"

lemma grows_on: "grows Q h0 h \<Longrightarrow> grows P h h' \<Longrightarrow> (\<And>c. P c \<Longrightarrow> Q c) \<Longrightarrow> grows Q h0 h'"
  by (blast intro: grows_trans grows_mono)

lemma la_update_calls:
  "all_ret (\<lambda>(n, s'). grows (works_on path) (la_hist s) (la_hist s') \<and> la_head s' = la_head s \<and>
     la_prepath s' = la_prepath s \<and> la_network s' = la_network s \<and> la_change s' = la_change s \<and>
     la_type s' = la_type s)
   (la_update opt os path present av s)"
  using update_grows [OF grows_refl] unfolding la_update_def
  by (fastforce simp: all_ret_def obind_Ret_iff)

text \<open>What \<open>do_line\<close> keeps of the state.\<close>

definition line_done :: "string \<Rightarrow> string \<Rightarrow> lapply \<Rightarrow> int \<times> lapply \<Rightarrow> bool" where
  "line_done path temp s r \<longleftrightarrow>
     grows (line_call path temp) (la_hist s) (la_hist (snd r)) \<and> la_head (snd r) = la_head s \<and>
     la_prepath (snd r) = la_prepath s \<and> la_change (snd r) = la_change s \<and> la_type (snd r) = la_type s \<and>
     (la_network (snd r) \<longrightarrow> la_network s) \<and> (fst r = 0 \<longrightarrow> la_network (snd r) = la_network s)"

lemma line_call_intros:
  "works_on path c \<Longrightarrow> line_call path temp c" "works_on temp c \<Longrightarrow> line_call path temp c"
  "fetches temp c \<Longrightarrow> line_call path temp c" "talk c \<Longrightarrow> line_call path temp c" "line_call path temp (Rename temp path)"
  by (auto simp: line_call_def fetches_def)

lemma do_update_done:
  "all_ret (line_done path temp s) (do_update opt os path present av s)"
proof -
  obtain q st ty e h where r: "(if present then radstat_call os path (la_st s) NUL (la_hist s)
      else ((0, la_st s, NUL, None), la_hist s)) = ((q, st, ty, e), h)"
    by (metis prod.collapse)
  have g: "grows (line_call path temp) (la_hist s) h"
    using r by (auto simp: radstat_call_def lstat_call_def Let_def line_call_intros works_on_intros split: if_splits prod.splits)
  define s1 where "s1 = s\<lparr>la_st := st, la_hist := h\<rparr>"
  have "line_done path temp s (m, s2)" if "la_update opt os path present av s1 = Ret (n, s2)" for n s2 m
    using all_retD [OF la_update_calls that] g
    by (auto simp: line_done_def s1_def elim!: grows_on intro: line_call_intros)
  moreover have "line_done path temp s (m, s1)" for m using g by (simp add: line_done_def s1_def)
  ultimately show ?thesis
    unfolding do_update_def r prod.case Let_def s1_def [symmetric]
    by (auto simp: all_ret_def obind_Ret_iff)
qed

lemma retr_result:
  assumes "retr opt os pathdesc path transize trancksum h = ((r, temp), h')"
  shows "r \<in> {0, 1, -1} \<and> (r = 0 \<longrightarrow> temp = temp_name opt path)"
proof -
  have e: "fst (fst (retr_end os t b64 c h)) \<in> {0, 1, -1} \<and> snd (fst (retr_end os t b64 c h)) = t" for t b64 c h
    by (auto simp: retr_end_def discard_def answer_split split: option.split)
  have f: "fst (fst (retr_file opt os t sz c h)) \<in> {0, 1, -1} \<and> snd (fst (retr_file opt os t sz c h)) = t" for t sz c h
    using e by (auto simp: retr_file_def discard_def split: option.split prod.split bool.split)
  have g: "r \<in> {0, 1, -1} \<and> (r = 0 \<longrightarrow> temp = t)" if "retr_file opt os t sz c h = ((r, temp), h')" for t sz c h
    using f [of t sz c h] that by simp
  have "(\<exists>sz h3. retr_file opt os (temp_name opt path) sz trancksum h3 = ((r, temp), h')) \<or> r = 1 \<or> r = -1"
    using assms unfolding retr_def Let_def temp_name_def
    by (auto simp: answer_split split: if_splits option.splits)
  then show ?thesis by (elim disjE exE) (use g in auto)
qed

lemma install_download_done:
  assumes "line_done path (temp_name opt path) s (0, s1)" "r = 0 \<longrightarrow> temp = temp_name opt path" "r \<in> {0, 1, -1}"
  shows "all_ret (line_done path (temp_name opt path) s) (install_download opt os path present av (r, temp) s1)"
proof (cases "r = 0")
  case True
  let ?t = "temp_name opt path"
  let ?Q = "line_done path ?t s"
  obtain q st ty e h where rs: "radstat_call os ?t (la_st s1) NUL (la_hist s1) = ((q, st, ty, e), h)" by (metis prod.collapse)
  define s2 where "s2 = s1\<lparr>la_st := st, la_hist := h\<rparr>"
  have "grows (line_call path ?t) (la_hist s) h"
    using rs assms(1) by (auto simp: radstat_call_def lstat_call_def Let_def line_done_def line_call_intros works_on_intros)
  with assms(1) have q: "?Q (0, s2)" by (simp add: line_done_def s2_def)
  have upd: "?Q (m, s3)" "?Q (0, s3)" if "la_update opt os ?t present av s2 = Ret (n, s3)" for n s3 m
    using all_retD [OF la_update_calls that] q
    by (auto simp: line_done_def elim!: grows_on intro: line_call_intros)
  have ren: "?Q (m, s4)" if "la_update opt os ?t present av s2 = Ret (n, s3)" "la_call os (Rename ?t path) s3 = (e, s4)"
    for m n s3 e s4
    using upd(2) [OF that(1)] that(2) by (auto simp: line_done_def la_call_def answer_split line_call_intros)
  have "install_download opt os path present av (r, temp) s1 =
      (if q < 0 then Ret (1, s2)
       else obind (la_update opt os ?t present av s2) (\<lambda>(n, s).
         if n = 0 then (case la_call os (Rename ?t path) s of (e, s) \<Rightarrow> Ret (if e = None then 0 else 1, s))
         else Ret (if n = 2 then 0 else 1, s)))"
    using True assms(2) rs by (simp add: install_download_def s2_def Let_def)
  moreover have "?Q (1, s2)" using q by (simp add: line_done_def)
  ultimately show ?thesis
    using upd ren by (auto intro!: all_ret_bind split: prod.split)
next
  case False
  with assms show ?thesis by (auto simp: install_download_def line_done_def)
qed

lemma do_download_done:
  "all_ret (line_done path (temp_name opt path) s) (do_download opt os tran path present av s)"
proof -
  let ?t = "temp_name opt path"
  have tn: "temp_name (options.truncate opt) path = ?t" by (simp add: temp_name_def options.defs)
  have i: "all_ret (line_done path ?t s) (case (if char_at (av ! 0) 0 = CHR ''a'' then retr_applefile (la_hist s)
        else retr (options.truncate opt) os pathdesc path z c (la_hist s)) of
      (got, h) \<Rightarrow> install_download opt os path present av got (s\<lparr>la_hist := h\<rparr>))" for pathdesc z c
  proof -
    obtain r temp h where m: "(if char_at (av ! 0) 0 = CHR ''a'' then retr_applefile (la_hist s)
        else retr (options.truncate opt) os pathdesc path z c (la_hist s)) = ((r, temp), h)"
      by (metis prod.collapse)
    have "grows (line_call path ?t) (la_hist s) h"
      using m retr_grows [OF grows_refl, of "options.truncate opt" path "la_hist s" os pathdesc z c]
      unfolding tn by (auto simp: retr_applefile_def split: if_splits elim: grows_mono intro: line_call_intros)
    then have "line_done path ?t s (0, s\<lparr>la_hist := h\<rparr>)" by (simp add: line_done_def)
    moreover have "r \<in> {0, 1, -1} \<and> (r = 0 \<longrightarrow> temp = ?t)"
      using m retr_result [of "options.truncate opt" os pathdesc path z c "la_hist s" r temp h]
      unfolding tn by (auto simp: retr_applefile_def split: if_splits)
    ultimately show ?thesis unfolding m prod.case by (intro install_download_done) auto
  qed
  have "line_done path ?t s (1, s)" by (simp add: line_done_def)
  with i show ?thesis unfolding do_download_def Let_def by (auto split: option.split)
qed

lemma do_line_done:
  assumes "do_line opt os tline tran present s = Ret (r, s')"
  shows "\<exists>path. line_done path (temp_name opt path) s (r, s')"
proof -
  obtain ws where ws: "argcargv tline = Ret ws" using argcargv_defined by blast
  define av where "av = (if is_sign (char_at (ws ! 0) 0) then tl ws else ws)"
  from assms ws obtain d buf where d: "decode (av ! 1) (la_buf s) = Ret (d, buf)"
    by (auto simp: do_line_def Let_def av_def [symmetric] obind_Ret_iff split: if_splits)
  show ?thesis
  proof (cases d)
    case None
    with assms ws d show ?thesis
      by (auto simp: do_line_def Let_def av_def [symmetric] line_done_def split: if_splits)
  next
    case (Some path)
    with assms ws d have "(if char_at (ws ! 0) 0 = CHR ''+'' then do_download opt os tran path present av (s\<lparr>la_buf := buf\<rparr>)
        else do_update opt os path present av (s\<lparr>la_buf := buf\<rparr>)) = Ret (r, s')"
      by (auto simp: do_line_def Let_def av_def split: if_splits)
    then have "line_done path (temp_name opt path) (s\<lparr>la_buf := buf\<rparr>) (r, s')"
      using all_retD [OF do_download_done] all_retD [OF do_update_done] by (metis (full_types))
    then show ?thesis by (auto simp: line_done_def)
  qed
qed

end
