(* ===== verification/LapplyOrder.thy ===== *)
theory LapplyOrder
  imports ClientCalls NameSet
begin

text \<open>
  What \<open>lapply\<close> does over a whole run: directories are removed bottom up, without a connection nothing is
  sent, and a removal is not counted as a change.
\<close>

section \<open>Paths below one another\<close>

lemma ischild_longer:
  assumes "c_string a" "c_string b" "ischild a (Some b)" "a \<noteq> b"
  shows "length b < length a"
  using assms by (auto simp: ischild_iff split: if_splits)

lemma ischild_trans:
  assumes "c_string a" "c_string b" "c_string c" "ischild a (Some b)" "ischild b (Some c)"
  shows "ischild a (Some c)"
  using assms by (auto simp: ischild_iff Cons_eq_append_conv split: if_splits)

lemma ischild_self [simp]: "c_string a \<Longrightarrow> ischild a (Some a)"
  by (simp add: ischild_iff)

lemma not_below_later:
  assumes "c_string a" "c_string p" "c_string q" "pathcmp a p < 0" "pathcmp p q \<le> 0" "\<not> ischild p (Some a)"
  shows "pathcmp a q < 0" "\<not> ischild q (Some a)"
  using children_contiguous [of a a p q] pcmp.cmp_less_le_trans [of a p q] assms by auto

section \<open>The directories removed\<close>

fun removed_dirs :: "history \<Rightarrow> string list" where
  "removed_dirs [] = []"
| "removed_dirs (Did (Rmdir d) None # h) = d # removed_dirs h"
| "removed_dirs (x # h) = removed_dirs h"

lemma removed_append: "removed_dirs (h @ k) = removed_dirs h @ removed_dirs k"
  by (induction h rule: removed_dirs.induct) simp_all

lemma removed_dirs_event: "d \<in> set (removed_dirs h) \<Longrightarrow> Did (Rmdir d) None \<in> set h"
  by (induction h rule: removed_dirs.induct) auto

fun is_rmdir :: "call \<Rightarrow> bool" where
  "is_rmdir (Rmdir d) = True"
| "is_rmdir c = False"

lemma removed_none: "(\<And>c e. Did c e \<in> set k \<Longrightarrow> \<not> is_rmdir c) \<Longrightarrow> removed_dirs k = []"
  by (induction k rule: removed_dirs.induct) fastforce+

lemma removed_grows:
  assumes "grows P h h'" "\<And>c. P c \<Longrightarrow> \<not> is_rmdir c"
  shows "removed_dirs h' = removed_dirs h"
proof -
  obtain k where k: "h' = h @ k" "\<forall>c e. Did c e \<in> set k \<longrightarrow> P c" using assms(1) by (auto simp: grows_def)
  have "removed_dirs k = []" by (rule removed_none) (use k(2) assms(2) in blast)
  with k(1) show ?thesis by (simp add: removed_append)
qed

lemma line_call_no_rmdir: "line_call path temp c \<Longrightarrow> \<not> is_rmdir c"
  by (cases c) (auto simp: line_call_def works_on_def)

section \<open>The list of waiting directories\<close>

text \<open>Later ones are never below earlier ones; waiting directories lie inside one another, the innermost first.\<close>

definition bottom_up :: "string list \<Rightarrow> bool" where
  "bottom_up ds \<longleftrightarrow> sorted_wrt (\<lambda>a b. \<not> (ischild b (Some a) \<and> b \<noteq> a)) ds"

definition nested :: "string list \<Rightarrow> bool" where
  "nested ds \<longleftrightarrow> sorted_wrt (\<lambda>a b. ischild a (Some b) \<and> a \<noteq> b) ds"

definition waiting :: "lapply \<Rightarrow> string list" where
  "waiting s = map dn_path (la_head s)"

text \<open>The invariant at a path \<open>p\<close>: everything removed lies before \<open>p\<close> and \<open>p\<close> is not below it.\<close>

definition in_order :: "string \<Rightarrow> string list \<Rightarrow> string list \<Rightarrow> bool" where
  "in_order p done wait \<longleftrightarrow> c_string p \<and> bottom_up done \<and> nested wait \<and>
     (\<forall>d \<in> set wait. c_string d \<and> pathcmp d p \<le> 0) \<and>
     (\<forall>a \<in> set done. c_string a \<and> pathcmp a p < 0 \<and> \<not> ischild p (Some a) \<and> (\<forall>d \<in> set wait. \<not> ischild d (Some a)))"

lemma in_order_later:
  assumes "in_order p done wait" "c_string q" "pathcmp p q \<le> 0"
  shows "in_order q done wait"
  using assms not_below_later [OF _ _ assms(2) _ assms(3)] pcmp.cmp_trans [of _ p q]
  unfolding in_order_def by blast

lemma in_order_pop:
  assumes "in_order p done (d # wait)" "\<not> ischild p (Some d)"
  shows "in_order p (done @ [d]) wait"
proof -
  from assms(1) have d: "c_string d" "c_string p" "pathcmp d p \<le> 0" and n: "nested (d # wait)"
    and w: "\<forall>x \<in> set wait. c_string x" by (auto simp: in_order_def)
  have "d \<noteq> p" using assms(2) d by auto
  then have "pathcmp d p < 0" using d pathcmp_0_iff [of d p] by force
  moreover have "\<not> ischild x (Some d)" if "x \<in> set wait" for x
    using that n w d(1) ischild_longer [of x d] ischild_longer [of d x] by (fastforce simp: nested_def)
  moreover have "\<not> ischild d (Some a)" if "a \<in> set done" for a using assms(1) that by (auto simp: in_order_def)
  ultimately show ?thesis
    using assms d by (auto simp: in_order_def bottom_up_def nested_def sorted_wrt_append)
qed

lemma in_order_push:
  assumes "in_order p done wait" "p \<notin> set wait" "wait = [] \<or> ischild p (Some (hd wait))"
  shows "in_order p done (p # wait)"
proof -
  have "ischild p (Some d)" if "d \<in> set wait" for d
  proof -
    from that obtain x xs where w: "wait = x # xs" by (cases wait) auto
    with assms(1) that have "d = x \<or> ischild x (Some d)" "c_string d" "c_string x" "c_string p"
      by (auto simp: in_order_def nested_def)
    moreover have "ischild p (Some x)" using assms(3) w by simp
    ultimately show ?thesis using ischild_trans by blast
  qed
  moreover have "pathcmp p p = 0" using assms(1) by (simp add: in_order_def pcmp.cmp_refl)
  ultimately show ?thesis using assms(1,2) by (auto simp: in_order_def nested_def)
qed

text \<open>At the end all waiting directories are removed.\<close>

lemma in_order_all:
  assumes "in_order p done wait"
  shows "bottom_up (done @ wait)"
proof -
  have "sorted_wrt (\<lambda>a b. \<not> (ischild b (Some a) \<and> b \<noteq> a)) wait"
    using assms
  proof (induction wait)
    case (Cons d wait)
    then have "in_order p done wait" by (auto simp: in_order_def nested_def)
    moreover have "\<not> (ischild x (Some d) \<and> x \<noteq> d)" if "x \<in> set wait" for x
      using Cons.prems that ischild_longer [of x d] ischild_longer [of d x]
      by (fastforce simp: in_order_def nested_def)
    ultimately show ?case using Cons.IH by simp
  qed simp
  with assms show ?thesis by (auto simp: bottom_up_def sorted_wrt_append in_order_def)
qed

section \<open>Line by line\<close>

abbreviation done_dirs :: "lapply \<Rightarrow> string list" where
  "done_dirs s \<equiv> removed_dirs (la_hist s)"

lemma do_line_keeps:
  assumes "do_line opt os tline tran present s = Ret (r, s')"
  shows "done_dirs s' = done_dirs s" "la_head s' = la_head s" "la_prepath s' = la_prepath s"
    "la_type s' = la_type s" "la_network s' \<longrightarrow> la_network s" "r = 0 \<longrightarrow> la_network s' = la_network s"
  using do_line_done [OF assms] removed_grows [OF _ line_call_no_rmdir]
  by (auto simp: line_done_def)

lemma remove_head_dirs:
  assumes "remove_head opt os n s = Ret (ok, s')"
  shows "la_prepath s' = la_prepath s" "ok \<Longrightarrow> done_dirs s' = done_dirs s @ [dn_path n]"
    "\<not> ok \<Longrightarrow> done_dirs s' = done_dirs s \<or> done_dirs s' = done_dirs s @ [dn_path n]"
proof -
  obtain e s1 where c: "la_call os (Rmdir (dn_path n)) s = (e, s1)" by force
  have s1: "la_prepath s1 = la_prepath s" "done_dirs s1 = done_dirs s @ (if e = None then [dn_path n] else [])"
    using c by (auto simp: la_call_def answer_split removed_append split: option.split_asm)
  from assms c s1 do_line_keeps(1,3)
  have "la_prepath s' = la_prepath s \<and> (if ok then done_dirs s' = done_dirs s @ [dn_path n]
      else done_dirs s' = done_dirs s \<or> done_dirs s' = done_dirs s @ [dn_path n])"
    by (fastforce simp: remove_head_def obind_Ret_iff split: option.splits if_splits prod.splits)
  then show "la_prepath s' = la_prepath s" "ok \<Longrightarrow> done_dirs s' = done_dirs s @ [dn_path n]"
    "\<not> ok \<Longrightarrow> done_dirs s' = done_dirs s \<or> done_dirs s' = done_dirs s @ [dn_path n]" by auto
qed

lemma remove_head_type: "remove_head opt os n s = Ret (ok, s') \<Longrightarrow> la_type s' = la_type s"
  by (auto simp: remove_head_def obind_Ret_iff la_call_def answer_split dest!: do_line_keeps(4)
      split: option.splits if_splits)

lemma remove_heads_type: "remove_heads opt os keep ns s = Ret (ok, s') \<Longrightarrow> la_type s' = la_type s"
  by (induction ns arbitrary: s) (auto simp: obind_Ret_iff dest!: remove_head_type split: if_splits)

lemma in_order_bottom_up: "in_order p done wait \<Longrightarrow> bottom_up done"
  by (simp add: in_order_def)

lemma remove_heads_prefix:
  "remove_heads opt os keep ns s = Ret (ok, s') \<Longrightarrow>
     la_prepath s' = la_prepath s \<and> (\<exists>k. done_dirs s' = done_dirs s @ take k (map dn_path ns) \<and>
       (ok \<longrightarrow> waiting s' = drop k (map dn_path ns)))"
proof (induction ns arbitrary: s)
  case Nil
  then show ?case by (auto simp: waiting_def)
next
  case (Cons n ns)
  show ?case
  proof (cases "keep n")
    case True
    with Cons.prems show ?thesis by (auto simp: waiting_def intro: exI [of _ 0])
  next
    case False
    with Cons.prems obtain b s1 where r: "remove_head opt os n s = Ret (b, s1)"
      "(if b then remove_heads opt os keep ns s1 else Ret (False, s1)) = Ret (ok, s')"
      by (auto simp: obind_Ret_iff)
    note h = remove_head_dirs [OF r(1)]
    show ?thesis
    proof (cases b)
      case True
      with r(2) Cons.IH [of s1] h obtain k where "la_prepath s' = la_prepath s"
        "done_dirs s' = done_dirs s @ dn_path n # take k (map dn_path ns)"
        "ok \<longrightarrow> waiting s' = drop k (map dn_path ns)" by auto
      then show ?thesis by (intro conjI exI [of _ "Suc k"]) simp_all
    next
      case False
      with r(2) h(3) have "done_dirs s' = done_dirs s @ take 0 (map dn_path (n # ns)) \<or>
          done_dirs s' = done_dirs s @ take 1 (map dn_path (n # ns))" by auto
      moreover have "\<not> ok" "la_prepath s' = la_prepath s" using False r(2) h(1) by auto
      ultimately show ?thesis by blast
    qed
  qed
qed

lemma bottom_up_prefix: "bottom_up (xs @ ys) \<Longrightarrow> bottom_up (xs @ take k ys)"
  unfolding bottom_up_def sorted_wrt_append by (auto dest: in_set_takeD intro: sorted_wrt_take)

text \<open>Stopping at the first directory that holds \<open>p\<close>.\<close>

lemma remove_heads_order:
  assumes "remove_heads opt os (\<lambda>n. ischild p (Some (dn_path n))) ns s = Ret (True, s')"
    "in_order p (done_dirs s) (map dn_path ns)"
  shows "in_order p (done_dirs s') (waiting s') \<and> (waiting s' = [] \<or> ischild p (Some (hd (waiting s')))) \<and>
    set (waiting s') \<subseteq> set (map dn_path ns)"
  using assms
proof (induction ns arbitrary: s)
  case (Cons n ns)
  show ?case
  proof (cases "ischild p (Some (dn_path n))")
    case True
    with Cons.prems show ?thesis by (auto simp: waiting_def)
  next
    case False
    with Cons.prems(1) obtain s1 where r: "remove_head opt os n s = Ret (True, s1)"
      "remove_heads opt os (\<lambda>n. ischild p (Some (dn_path n))) ns s1 = Ret (True, s')"
      by (auto simp: obind_Ret_iff split: if_splits)
    have "in_order p (done_dirs s1) (map dn_path ns)"
      using in_order_pop [of p "done_dirs s" "dn_path n"] Cons.prems(2) False remove_head_dirs(2) [OF r(1)] by simp
    from Cons.IH [OF r(2) this] show ?thesis by auto
  qed
qed (auto simp: waiting_def)

text \<open>
  What a step leaves: either the order at the path, or after an error at least the order of what has
  been removed.
\<close>

definition leaves :: "string \<Rightarrow> bool \<Rightarrow> lapply \<Rightarrow> bool" where
  "leaves p ok s \<longleftrightarrow> bottom_up (done_dirs s) \<and> (ok \<longrightarrow> in_order p (done_dirs s) (waiting s))"

lemma leaves_okD: "leaves p True s \<Longrightarrow> in_order p (done_dirs s) (waiting s)"
  by (simp add: leaves_def)

lemma leaves_in_order: "in_order p (done_dirs s) (waiting s) \<Longrightarrow> leaves p ok s"
  by (simp add: leaves_def in_order_bottom_up)

lemma leave_dirs_order:
  assumes "leave_dirs opt os p s = Ret (ok, s')" "o_case_sensitive opt" "in_order p (done_dirs s) (waiting s)"
  shows "leaves p ok s'" "la_prepath s' = la_prepath s"
    "ok \<Longrightarrow> waiting s' = [] \<or> ischild p (Some (hd (waiting s')))" "ok \<Longrightarrow> set (waiting s') \<subseteq> set (waiting s)"
proof -
  have c: "remove_heads opt os (\<lambda>n. ischild p (Some (dn_path n))) (la_head s) s = Ret (ok, s')"
    using assms(1,2) by (simp add: leave_dirs_def ischild_def)
  have w: "map dn_path (la_head s) = waiting s" by (simp add: waiting_def)
  from remove_heads_prefix [OF c] in_order_all [OF assms(3)] bottom_up_prefix
  have b: "bottom_up (done_dirs s')" "la_prepath s' = la_prepath s" unfolding w by auto
  note o = remove_heads_order [of opt os p "la_head s" s s', unfolded w]
  show "leaves p ok s'" using b(1) o c assms(3) by (auto simp: leaves_def)
  show "la_prepath s' = la_prepath s" by (fact b(2))
  show "waiting s' = [] \<or> ischild p (Some (hd (waiting s')))" "set (waiting s') \<subseteq> set (waiting s)" if ok
    using o c assms(3) that by auto
qed

lemma clear_object_order:
  assumes "clear_object opt os p line s = Ret (r, s')" "o_case_sensitive opt" "in_order p (done_dirs s) (waiting s)"
    "la_type s = CHR ''d'' \<Longrightarrow> p \<notin> set (waiting s)"
  shows "leaves p (r \<noteq> None) s' \<and> la_prepath s' = la_prepath s"
proof -
  from assms(1) obtain ok s1 where l: "leave_dirs opt os p s = Ret (ok, s1)"
    by (auto simp: clear_object_def obind_Ret_iff)
  note d = leave_dirs_order [OF l assms(2,3)]
  show ?thesis
  proof (cases ok)
    case False
    with assms(1) l d show ?thesis by (auto simp: clear_object_def leaves_def)
  next
    case ok: True
    show ?thesis
    proof (cases "la_type s1 = CHR ''d''")
      case True
      have "la_type s1 = la_type s" using l by (auto simp: leave_dirs_def dest: remove_heads_type)
      with True have "p \<notin> set (waiting s1)" using d(4) assms(4) ok by auto
      with in_order_push [of p "done_dirs s1" "waiting s1"] d ok
      have "in_order p (done_dirs s1) (p # waiting s1)" by (simp add: leaves_def)
      with assms(1) l d ok True show ?thesis
        by (auto simp: clear_object_def leaves_def waiting_def in_order_bottom_up)
    next
      case False
      obtain e s2 where u: "la_call os (Unlink p) s1 = (e, s2)" by force
      then have "done_dirs s2 = done_dirs s1" "waiting s2 = waiting s1" "la_prepath s2 = la_prepath s1"
        by (auto simp: la_call_def answer_split removed_append waiting_def)
      moreover have "s' = s2" using assms(1) l ok False u by (auto simp: clear_object_def split: option.splits)
      ultimately show ?thesis using d ok by (simp add: leaves_def)
    qed
  qed
qed

text \<open>What \<open>apply_object\<close> does: the removal, then the directories that are left, then the line.\<close>

definition object_done :: "'c apply_options \<Rightarrow> os \<Rightarrow> string \<Rightarrow> bool option \<Rightarrow> lapply \<Rightarrow> line_result \<Rightarrow> lapply \<Rightarrow> bool" where
  "object_done opt os p again s1 r s' \<longleftrightarrow>
     (s' = s1 \<and> (r = Continue \<longrightarrow> again \<noteq> None)) \<or>
     (again \<noteq> None \<and> (\<exists>s2. leave_dirs opt os p s1 = Ret (False, s2) \<and> s' = s2 \<and> r \<noteq> Continue)) \<or>
     (again \<noteq> None \<and> (\<exists>s2 s3 n tline tran present. leave_dirs opt os p s1 = Ret (True, s2) \<and>
        do_line opt os tline tran present s2 = Ret (n, s3) \<and> s' \<in> {s3, s3\<lparr>la_change := True\<rparr>}))"

lemma apply_object_split:
  assumes "apply_object opt os tline sign av p present s = Ret (r, s')"
  shows "\<exists>again s1. (s1 = s \<and> again = Some False \<or> (\<exists>line. clear_object opt os p line s = Ret (again, s1))) \<and>
    object_done opt os p again s1 r s'"
proof -
  define differs where "differs = (present \<and> la_type s \<noteq> char_at (av ! 0) 0)"
  define last where "last again s1 = (if again \<or> sign = CHR ''-'' then Ret (Continue, s1)
      else obind (leave_dirs opt os p s1) (\<lambda>(ok, s). if \<not> ok then Ret (Error2, s)
        else obind (do_line opt os tline (la_transcript s) (present \<and> \<not> (sign = CHR ''-'' \<or> differs)) s)
          (\<lambda>(n, s). Ret (if n \<noteq> 0 then (Error2, s) else (Continue, s\<lparr>la_change := True\<rparr>)))))" for again s1
  have a: "apply_object opt os tline sign av p present s =
      obind (if sign = CHR ''-'' \<or> differs
        then clear_object opt os p (if differs then Some (tline, la_transcript s) else None) s
        else Ret (Some False, s)) (\<lambda>(r, s). case r of None \<Rightarrow> Ret (Error2, s) | Some again \<Rightarrow> last again s)"
    unfolding apply_object_def Let_def differs_def [symmetric] last_def ..
  from assms obtain again s1 where c: "(if sign = CHR ''-'' \<or> differs
      then clear_object opt os p (if differs then Some (tline, la_transcript s) else None) s
      else Ret (Some False, s)) = Ret (again, s1)"
    and l: "(case again of None \<Rightarrow> Ret (Error2, s1) | Some again \<Rightarrow> last again s1) = Ret (r, s')"
    unfolding a by (auto simp: obind_Ret_iff)
  have "s1 = s \<and> again = Some False \<or> (\<exists>line. clear_object opt os p line s = Ret (again, s1))"
    using c by (auto split: if_split_asm)
  moreover have "object_done opt os p again s1 r s'"
    using l unfolding last_def object_done_def
    by (auto simp: obind_Ret_iff split: option.split_asm if_split_asm) blast+
  ultimately show ?thesis by blast
qed

lemma apply_object_order:
  assumes "apply_object opt os tline sign av p present s = Ret (r, s')" "o_case_sensitive opt"
    "in_order p (done_dirs s) (waiting s)" "la_type s = CHR ''d'' \<Longrightarrow> p \<notin> set (waiting s)"
  shows "leaves p (r = Continue) s' \<and> la_prepath s' = la_prepath s"
proof -
  from apply_object_split [OF assms(1)] obtain again s1
    where c: "s1 = s \<and> again = Some False \<or> (\<exists>line. clear_object opt os p line s = Ret (again, s1))"
    and o: "object_done opt os p again s1 r s'" by blast
  have c1: "leaves p (again \<noteq> None) s1 \<and> la_prepath s1 = la_prepath s"
    using c clear_object_order [OF _ assms(2-4)] assms(3) by (auto simp: leaves_in_order)
  have i: "in_order p (done_dirs s1) (waiting s1)" if "again \<noteq> None" using c1 that by (simp add: leaves_def)
  from o show ?thesis unfolding object_done_def
  proof (elim disjE conjE exE)
    assume "s' = s1" "r = Continue \<longrightarrow> again \<noteq> None"
    with c1 show ?thesis by (auto simp: leaves_def)
  next
    fix s2 assume "again \<noteq> None" "leave_dirs opt os p s1 = Ret (False, s2)" "s' = s2" "r \<noteq> Continue"
    with leave_dirs_order(1,2) [OF _ assms(2) i] c1 show ?thesis by (auto simp: leaves_def)
  next
    fix s2 s3 n tline tran present
    assume a: "again \<noteq> None" "leave_dirs opt os p s1 = Ret (True, s2)"
      "do_line opt os tline tran present s2 = Ret (n, s3)" and s': "s' \<in> {s3, s3\<lparr>la_change := True\<rparr>}"
    with leave_dirs_order(1,2) [OF _ assms(2) i] c1 do_line_keeps(1-3) [OF a(3)] show ?thesis
      by (auto simp: leaves_def waiting_def)
  qed
qed

text \<open>Only a directory is put on the list.\<close>

definition dirs_added :: "string set \<Rightarrow> lapply \<Rightarrow> lapply \<Rightarrow> bool" where
  "dirs_added ps s s' \<longleftrightarrow> set (waiting s') \<subseteq> set (waiting s) \<union> ps"

lemma waiting_simps [simp]:
  "waiting (s\<lparr>la_head := ns\<rparr>) = map dn_path ns" "waiting (s\<lparr>la_change := b\<rparr>) = waiting s"
  "waiting (s\<lparr>la_hist := h\<rparr>) = waiting s" "waiting (s\<lparr>la_buf := buf\<rparr>) = waiting s"
  "waiting (s\<lparr>la_st := st\<rparr>) = waiting s" "waiting (s\<lparr>la_type := c\<rparr>) = waiting s"
  "waiting (s\<lparr>la_prepath := p\<rparr>) = waiting s" "waiting (s\<lparr>la_targvline := t\<rparr>) = waiting s"
  "waiting (s\<lparr>la_command := k\<rparr>) = waiting s" "waiting (s\<lparr>la_transcript := p\<rparr>) = waiting s"
  "waiting (s\<lparr>la_special := b\<rparr>) = waiting s"
  by (simp_all add: waiting_def)

lemma do_line_waiting: "do_line opt os tline tran present s = Ret (r, s') \<Longrightarrow> waiting s' = waiting s"
  by (simp add: waiting_def do_line_keeps(2))

lemma la_call_keeps:
  "la_call os c s = (e, s') \<Longrightarrow> waiting s' = waiting s \<and> la_prepath s' = la_prepath s \<and> la_type s' = la_type s"
  by (auto simp: la_call_def answer_split waiting_def)

lemma remove_heads_added:
  "remove_heads opt os keep ns s = Ret (ok, s') \<Longrightarrow> dirs_added (set (map dn_path ns)) s s'"
proof (induction ns arbitrary: s)
  case (Cons n ns)
  show ?case
  proof (cases "keep n")
    case False
    with Cons.prems obtain b s1 where r: "remove_head opt os n s = Ret (b, s1)"
      "(if b then remove_heads opt os keep ns s1 else Ret (False, s1)) = Ret (ok, s')"
      by (auto simp: obind_Ret_iff)
    have "waiting s1 = waiting s"
      using r(1) by (auto simp: remove_head_def obind_Ret_iff dest!: do_line_waiting la_call_keeps
          split: option.splits if_splits prod.splits)
    with r(2) Cons.IH [of s1] show ?thesis by (auto simp: dirs_added_def split: if_splits)
  qed (use Cons.prems in \<open>auto simp: dirs_added_def\<close>)
qed (auto simp: dirs_added_def)

lemma leave_dirs_added: "leave_dirs opt os p s = Ret (ok, s') \<Longrightarrow> dirs_added {} s s'"
  using remove_heads_added [of opt os _ "la_head s" s ok s'] by (auto simp: leave_dirs_def dirs_added_def waiting_def)

lemma clear_object_added:
  assumes "clear_object opt os p line s = Ret (r, s')" "la_type s \<noteq> CHR ''d''"
  shows "dirs_added {} s s'"
proof -
  from assms(1) obtain ok s1 where l: "leave_dirs opt os p s = Ret (ok, s1)"
    by (auto simp: clear_object_def obind_Ret_iff)
  have "la_type s1 = la_type s" using l by (auto simp: leave_dirs_def dest: remove_heads_type)
  with assms l leave_dirs_added [OF l] show ?thesis
    by (auto simp: clear_object_def dirs_added_def dest!: la_call_keeps split: if_splits option.splits prod.splits)
qed

lemma apply_object_added:
  assumes "apply_object opt os tline sign av p present s = Ret (r, s')" "la_type s \<noteq> CHR ''d''"
  shows "dirs_added {} s s'"
proof -
  from apply_object_split [OF assms(1)] obtain again s1
    where c: "s1 = s \<and> again = Some False \<or> (\<exists>line. clear_object opt os p line s = Ret (again, s1))"
    and o: "object_done opt os p again s1 r s'" by blast
  have "dirs_added {} s s1" using c by (auto simp: dirs_added_def dest!: clear_object_added [OF _ assms(2)])
  moreover have "dirs_added {} s1 s'"
    using o unfolding object_done_def
    by (auto simp: dirs_added_def dest!: do_line_waiting leave_dirs_added)
  ultimately show ?thesis by (auto simp: dirs_added_def)
qed

text \<open>
  The invariant between two lines. An empty name passes the order check again and again, but no such
  object exists.
\<close>

definition line_inv :: "lapply \<Rightarrow> bool" where
  "line_inv s \<longleftrightarrow> in_order (la_prepath s) (done_dirs s) (waiting s) \<and>
     (la_prepath s = [] \<longrightarrow> waiting s = [] \<and> done_dirs s = [])"

definition no_empty_name :: "os \<Rightarrow> bool" where
  "no_empty_name os \<longleftrightarrow> (\<forall>h. \<exists>e. os_lstat os h [] = Inl e)"

lemma pathcmp_empty: "c_string d \<Longrightarrow> pathcmp d [] \<le> 0 \<Longrightarrow> d = []"
  using uchar_range(1) [of "hd d"] by (cases d) (auto simp: pathcmp_def char_diff_def)

lemma in_order_empty:
  assumes "in_order [] done wait" "[] \<notin> set wait"
  shows "wait = []" "done = []"
proof -
  from assms show "wait = []" using pathcmp_empty by (cases wait) (auto simp: in_order_def)
  show "done = []"
    using assms(1) pathcmp_empty pcmp.cmp_refl [of "[]"] by (cases "done") (force simp: in_order_def)+
qed

lemma in_order_nothing [simp]: "in_order p [] [] \<longleftrightarrow> c_string p"
  by (simp add: in_order_def bottom_up_def nested_def)

lemma in_order_next:
  assumes "line_inv s" "c_string q" "la_prepath s = [] \<or> 0 < pathcmp q (la_prepath s)"
  shows "in_order q (done_dirs s) (waiting s)" "la_prepath s = [] \<or> q \<noteq> []" "q \<notin> set (waiting s)"
proof -
  have p: "c_string (la_prepath s)" using assms(1) by (simp add: line_inv_def in_order_def)
  have lt: "pathcmp (la_prepath s) q < 0" if "la_prepath s \<noteq> []"
    using assms(2,3) p that pcmp.cmp_flip by blast
  show "in_order q (done_dirs s) (waiting s)"
    using assms(1,2) lt in_order_later [of "la_prepath s" _ _ q] by (cases "la_prepath s = []") (auto simp: line_inv_def)
  show "la_prepath s = [] \<or> q \<noteq> []" using lt pathcmp_empty p by fastforce
  show "q \<notin> set (waiting s)"
  proof (cases "la_prepath s = []")
    case False
    have "pathcmp q (la_prepath s) \<le> 0" if "q \<in> set (waiting s)"
      using assms(1) that by (auto simp: line_inv_def in_order_def)
    with False assms(3) show ?thesis by fastforce
  qed (use assms(1) in \<open>simp add: line_inv_def\<close>)
qed

definition run_inv :: "line_result \<Rightarrow> lapply \<Rightarrow> bool" where
  "run_inv r s \<longleftrightarrow> bottom_up (done_dirs s) \<and> (r = Continue \<longrightarrow> line_inv s)"

lemma line_inv_run: "line_inv s \<Longrightarrow> run_inv r s"
  by (auto simp: run_inv_def line_inv_def dest: in_order_bottom_up)

lemma apply_object_inv:
  assumes "apply_object opt os tline sign av p present s = Ret (r, s')" "o_case_sensitive opt"
    "in_order p (done_dirs s) (waiting s)" "p \<notin> set (waiting s)" "la_prepath s = p"
    "p = [] \<Longrightarrow> la_type s \<noteq> CHR ''d''"
  shows "run_inv r s'"
proof -
  from apply_object_order [OF assms(1-3)] assms(4,5)
  have o: "leaves p (r = Continue) s'" "la_prepath s' = p" by auto
  have "waiting s' = [] \<and> done_dirs s' = []" if "p = []" "r = Continue"
  proof -
    have "[] \<notin> set (waiting s')"
      using apply_object_added [OF assms(1) assms(6)] assms(4) that by (auto simp: dirs_added_def)
    with o that in_order_empty show ?thesis by (auto simp: leaves_def)
  qed
  with o show ?thesis by (auto simp: run_inv_def line_inv_def leaves_def)
qed

lemma apply_path_inv:
  assumes "apply_path opt os tline sign av p s = Ret (r, s')" "o_case_sensitive opt" "no_empty_name os"
    "line_inv s" "c_string p"
  shows "run_inv r s'"
proof (cases "la_prepath s \<noteq> [] \<and> pathcasecmp p (la_prepath s) (o_case_sensitive opt) \<le> 0 \<or> MAXPATHLEN \<le> length p")
  case True
  with assms(1,4) show ?thesis by (auto simp: apply_path_def line_inv_run split: if_splits)
next
  case False
  obtain q st ty e h where c: "radstat_call os p (la_st s) (la_type s) (la_hist s) = ((q, st, ty, e), h)"
    by (metis prod.collapse)
  let ?s = "s\<lparr>la_prepath := p, la_st := st, la_type := ty, la_hist := h\<rparr>"
  have "apply_path opt os tline sign av p s = (if q = 0 then apply_object opt os tline sign av p True ?s
      else if q \<noteq> 1 \<and> e = Some ENOENT then apply_object opt os tline sign av p False ?s
      else Ret (Error2, ?s))"
    using False by (auto simp: apply_path_def c Let_def)
  note a = this [unfolded assms(1), symmetric]
  have n: "la_prepath s = [] \<or> 0 < pathcmp p (la_prepath s)"
    using False assms(2) by (auto simp: pathcmp_def)
  note i = in_order_next [OF assms(4,5) n]
  have h: "done_dirs ?s = done_dirs s" "waiting ?s = waiting s" "la_prepath ?s = p" "la_type ?s = ty"
    using c by (auto simp: radstat_call_def lstat_call_def Let_def removed_append waiting_def split: prod.splits)
  have x: "ty \<noteq> CHR ''d''" if "p = []" "q = 0 \<or> e = Some ENOENT"
  proof -
    obtain x where "os_lstat os (la_hist s) [] = Inl x" using assms(3) unfolding no_empty_name_def by blast
    with c that show ?thesis by (auto simp: radstat_call_def lstat_call_def radstat_def split: if_splits)
  qed
  have obj: "run_inv r s'" if "apply_object opt os tline sign av p b ?s = Ret (r, s')" "q = 0 \<or> e = Some ENOENT" for b
    using apply_object_inv [OF that(1) assms(2)] i x that(2) unfolding h by simp
  show ?thesis using a obj i(1) h
    by (auto simp: run_inv_def dest: in_order_bottom_up split: if_splits)
qed

lemma run_inv_same:
  assumes "line_inv s" "la_hist s1 = la_hist s" "la_head s1 = la_head s" "la_prepath s1 = la_prepath s"
  shows "line_inv s1" "run_inv r s1"
proof -
  show "line_inv s1" using assms by (simp add: line_inv_def waiting_def)
  then show "run_inv r s1" by (rule line_inv_run)
qed

lemma apply_line_inv:
  assumes "o_case_sensitive opt" "no_empty_name os" "line_inv s"
  shows "all_ret (\<lambda>(r, s'). run_inv r s') (apply_line opt os tline s)"
proof -
  have path: "all_ret (\<lambda>(r, s'). run_inv r s') (apply_path opt os tline sign av p s1)"
    if "decode w buf = Ret x" "x = (d, buf')" "d = Some p" "la_hist s1 = la_hist s" "la_head s1 = la_head s"
      "la_prepath s1 = la_prepath s" for sign av p s1 w buf buf' x d
    using apply_path_inv [OF _ assms(1,2) run_inv_same(1) [OF assms(3) that(4-6)]] decode_c_string that(1-3)
    by (auto simp: all_ret_def)
  have here: "all_ret (\<lambda>(r, s'). run_inv r s') (Ret (r, s1))"
    if "la_hist s1 = la_hist s" "la_head s1 = la_head s" "la_prepath s1 = la_prepath s" for r s1
    using run_inv_same(2) [OF assms(3) that] by simp
  have tran: "all_ret (\<lambda>(r, s'). run_inv r s') (Ret (transcript_line w s1))"
    if "la_hist s1 = la_hist s" "la_head s1 = la_head s" "la_prepath s1 = la_prepath s" for w s1
    using run_inv_same(2) [OF assms(3)] that by (auto simp: transcript_line_def)
  show ?thesis unfolding apply_line_def Let_def
    by (rule all_ret_rules here tran | (erule (2) path; simp) | simp (no_asm); fail)+
qed

lemma apply_lines_inv:
  "apply_lines opt os inp s = Ret (r, s') \<Longrightarrow> o_case_sensitive opt \<Longrightarrow> no_empty_name os \<Longrightarrow> line_inv s \<Longrightarrow>
     run_inv r s'"
proof (induction opt os inp s rule: apply_lines.induct)
  case (1 opt os inp s)
  show ?case
  proof (cases "fgets MAXPATHLEN inp")
    case None
    with "1.prems" show ?thesis by (auto simp: apply_lines.simps [of _ _ inp] line_inv_run)
  next
    case (Some p)
    obtain buf rest where p: "p = (buf, rest)" by force
    note f = Some [unfolded p]
    with "1.prems"(1) obtain r1 s1 where l: "apply_line opt os (cstr buf) s = Ret (r1, s1)"
      and rest: "(if r1 = Continue then apply_lines opt os rest s1 else Ret (r1, s1)) = Ret (r, s')"
      by (auto simp: apply_lines.simps [of _ _ inp] obind_Ret_iff)
    have i: "run_inv r1 s1" using all_retD [OF apply_line_inv l] "1.prems"(2-4) by simp
    show ?thesis
    proof (cases "r1 = Continue")
      case True
      with rest i show ?thesis
        by (intro "1.IH" [OF f refl l refl]) (auto simp: run_inv_def "1.prems")
    qed (use rest i in simp)
  qed
qed

section \<open>The whole run\<close>

lemma closesn_removed: "closesn os h = (r, h') \<Longrightarrow> removed_dirs h' = removed_dirs h"
  by (auto simp: closesn_def answer_split removed_append Let_def split: option.splits if_splits)

lemma answer_removed: "answer os c h = (e, h') \<Longrightarrow> \<not> is_rmdir c \<Longrightarrow> removed_dirs h' = removed_dirs h"
  by (cases c) (auto simp: answer_split removed_append)

lemma report_event_removed:
  "all_ret (\<lambda>(r, h'). removed_dirs h' = removed_dirs h) (report_event os event d h)"
  unfolding report_event_def
  by (intro all_ret_rules) (auto dest!: answer_removed)

definition same_dirs :: "lapply \<Rightarrow> int \<times> lapply \<Rightarrow> bool" where
  "same_dirs s r \<longleftrightarrow> done_dirs (snd r) = done_dirs s \<and> la_head (snd r) = la_head s"

lemma all_ret_sum:
  "(\<And>y. v = Inl y \<Longrightarrow> all_ret P (f y)) \<Longrightarrow> (\<And>y. v = Inr y \<Longrightarrow> all_ret P (g y)) \<Longrightarrow>
     all_ret P (case v of Inl y \<Rightarrow> f y | Inr y \<Rightarrow> g y)"
  by (cases v) auto

lemma maybe_report: "(if b then report_event os event d h else Ret (0, h)) = Ret x \<Longrightarrow> removed_dirs (snd x) = removed_dirs h"
  by (auto dest!: all_retD [OF report_event_removed] split: if_splits)

lemma apply_end_removed:
  "all_ret (same_dirs s) (apply_done os report event s)" "all_ret (same_dirs s) (apply_failed os report event s)"
  unfolding apply_done_def apply_failed_def Let_def
  by (intro all_ret_rules all_ret_sum; auto simp: same_dirs_def dest!: closesn_removed maybe_report)+

lemma lapply_main_split:
  assumes "lapply_main opt os report event file inp s = Ret (n, s')"
  shows "\<exists>r s1 ok s2. apply_lines opt os inp s = Ret (r, s1) \<and>
    (if r = Continue then remove_heads opt os (\<lambda>n. False) (la_head s1) s1 = Ret (ok, s2) else \<not> ok \<and> s2 = s1) \<and>
    done_dirs s' = done_dirs s2 \<and> (\<not> ok \<longrightarrow> n \<noteq> 0)"
proof -
  from assms obtain r s1 ok s2 where c: "apply_lines opt os inp s = Ret (r, s1)"
    "(if r = Continue then remove_heads opt os (\<lambda>n. False) (la_head s1) s1 else Ret (False, s1)) = Ret (ok, s2)"
    and e: "(if r = Return1 then Ret (1, s2) else case la_call os (Close file) s2 of (e, s) \<Rightarrow>
      if ok \<and> e = None then apply_done os report event s else apply_failed os report event s) = Ret (n, s')"
    by (auto simp: lapply_main_def obind_Ret_iff)
  have l: "done_dirs s3 = done_dirs s2" if "la_call os (Close file) s2 = (x, s3)" for x s3
    using that by (auto simp: la_call_def answer_split removed_append)
  have f: "n \<noteq> 0" if "apply_failed os report event s3 = Ret (n, s')" for s3
    using that by (auto simp: apply_failed_def Let_def obind_Ret_iff closesn_def answer_split
        split: if_splits option.splits)
  have "done_dirs s' = done_dirs s2 \<and> (\<not> ok \<longrightarrow> n \<noteq> 0)"
    using e l f by (fastforce simp: same_dirs_def dest!: all_retD [OF apply_end_removed(1)]
        all_retD [OF apply_end_removed(2)] split: if_splits prod.splits)
  with c show ?thesis by (metis outcome.inject(1) prod.inject)
qed

lemma lapply_bottom_up:
  assumes "lapply_main opt os report event file inp (lapply0 net h) = Ret (n, s')" "o_case_sensitive opt"
    "no_empty_name os" "removed_dirs h = []"
  shows "bottom_up (removed_dirs (la_hist s'))"
proof -
  from lapply_main_split [OF assms(1)] obtain r s1 ok s2 where l: "apply_lines opt os inp (lapply0 net h) = Ret (r, s1)"
    and m: "if r = Continue then remove_heads opt os (\<lambda>n. False) (la_head s1) s1 = Ret (ok, s2) else \<not> ok \<and> s2 = s1"
    and d: "done_dirs s' = done_dirs s2" by blast
  have "line_inv (lapply0 net h)" using assms(4) by (simp add: line_inv_def lapply0_def waiting_def)
  then have i: "run_inv r s1" by (rule apply_lines_inv [OF l assms(2,3)])
  show ?thesis
  proof (cases "r = Continue")
    case True
    with m have h: "remove_heads opt os (\<lambda>n. False) (la_head s1) s1 = Ret (ok, s2)" by simp
    have b: "bottom_up (done_dirs s1 @ waiting s1)"
      using i True in_order_all by (auto simp: run_inv_def line_inv_def)
    from remove_heads_prefix [OF h] bottom_up_prefix [OF b] show ?thesis by (auto simp: d waiting_def)
  next
    case False
    with m i d show ?thesis by (simp add: run_inv_def)
  qed
qed

section \<open>What waits is removed\<close>

text \<open>A directory on the list stays there until it is removed.\<close>

definition kept :: "lapply \<Rightarrow> lapply \<Rightarrow> bool" where
  "kept s s' \<longleftrightarrow> set (waiting s) \<union> set (done_dirs s) \<subseteq> set (waiting s') \<union> set (done_dirs s')"

lemma kept_refl [simp]: "kept s s" and kept_trans: "kept s s1 \<Longrightarrow> kept s1 s2 \<Longrightarrow> kept s s2"
  by (auto simp: kept_def)

lemma kept_same: "waiting s' = waiting s \<Longrightarrow> done_dirs s' = done_dirs s \<Longrightarrow> kept s s'"
  by (simp add: kept_def)

lemma do_line_kept: "do_line opt os tline tran present s = Ret (r, s') \<Longrightarrow> kept s s'"
  using do_line_keeps(1) do_line_waiting by (blast intro: kept_same)

lemma remove_heads_kept:
  assumes "remove_heads opt os keep (la_head s) s = Ret (True, s')"
  shows "kept s s'"
proof -
  from remove_heads_prefix [OF assms] obtain k where k: "done_dirs s' = done_dirs s @ take k (waiting s)"
    "waiting s' = drop k (waiting s)" by (auto simp: waiting_def)
  have "set (waiting s) = set (take k (waiting s)) \<union> set (drop k (waiting s))"
    by (metis append_take_drop_id set_append)
  with k show ?thesis by (auto simp: kept_def)
qed

lemma leave_dirs_kept: "leave_dirs opt os p s = Ret (True, s') \<Longrightarrow> kept s s'"
  unfolding leave_dirs_def by (rule remove_heads_kept)

lemma la_call_kept: "la_call os (Unlink p) s = (e, s') \<Longrightarrow> kept s s'"
  by (auto simp: la_call_def answer_split kept_def removed_append)

lemma clear_object_kept:
  assumes "clear_object opt os p line s = Ret (Some b, s')"
  shows "kept s s'"
proof -
  from assms obtain ok s1 where l: "leave_dirs opt os p s = Ret (ok, s1)"
    by (auto simp: clear_object_def obind_Ret_iff)
  with assms have ok: "leave_dirs opt os p s = Ret (True, s1)" by (cases ok) (auto simp: clear_object_def)
  have "kept s1 s'"
    using assms ok by (auto simp: clear_object_def dest!: la_call_kept split: if_splits option.splits prod.splits)
      (auto simp: kept_def waiting_def)
  with leave_dirs_kept [OF ok] show ?thesis by (rule kept_trans)
qed

lemma apply_object_kept:
  assumes "apply_object opt os tline sign av p present s = Ret (Continue, s')"
  shows "kept s s'"
proof -
  from apply_object_split [OF assms] obtain again s1
    where c: "s1 = s \<and> again = Some False \<or> (\<exists>line. clear_object opt os p line s = Ret (again, s1))"
    and o: "object_done opt os p again s1 Continue s'" by blast
  have a: "again \<noteq> None" using o by (auto simp: object_done_def)
  have "kept s s1" using c a clear_object_kept by (auto split: option.splits)
  moreover have "kept s1 s'"
    using o by (auto simp: object_done_def dest!: do_line_kept leave_dirs_kept intro: kept_trans)
      (auto simp: kept_def)
  ultimately show ?thesis by (rule kept_trans)
qed

definition went_on :: "lapply \<Rightarrow> line_result \<times> lapply \<Rightarrow> bool" where
  "went_on s r \<longleftrightarrow> (fst r = Continue \<longrightarrow> kept s (snd r))"

lemma apply_path_kept: "all_ret (went_on s) (apply_path opt os tline sign av p s)"
proof -
  have obj: "all_ret (went_on s) (apply_object opt os tline sign av p present s1)" if "kept s s1" for present s1
    using apply_object_kept kept_trans [OF that] by (fastforce simp: all_ret_def went_on_def)
  have look: "kept s (s\<lparr>la_prepath := p, la_st := st, la_type := ty, la_hist := h\<rparr>)"
    if "radstat_call os p (la_st s) (la_type s) (la_hist s) = (x, h)" for st ty h x
    using that by (auto simp: radstat_call_def lstat_call_def Let_def kept_def removed_append waiting_def split: prod.splits)
  show ?thesis unfolding apply_path_def Let_def
    by (rule all_ret_rules obj | erule look | simp add: went_on_def; fail)+
qed

lemma apply_line_kept: "all_ret (went_on s) (apply_line opt os tline s)"
proof -
  have same: "kept s s1" if "la_hist s1 = la_hist s" "la_head s1 = la_head s" for s1
    using that by (simp add: kept_def waiting_def)
  have path: "all_ret (went_on s) (apply_path opt os tline sign av p s1)"
    if "la_hist s1 = la_hist s" "la_head s1 = la_head s" for sign av p s1
    using apply_path_kept [of s1] kept_trans [OF same [OF that]] by (force simp: all_ret_def went_on_def)
  have here: "all_ret (went_on s) (Ret (r, s1))" if "la_hist s1 = la_hist s" "la_head s1 = la_head s" for r s1
    using same [OF that] by (simp add: went_on_def)
  have tran: "all_ret (went_on s) (Ret (transcript_line w s1))"
    if "la_hist s1 = la_hist s" "la_head s1 = la_head s" for w s1
    using same that by (auto simp: transcript_line_def went_on_def)
  show ?thesis unfolding apply_line_def Let_def
    by (rule all_ret_rules here tran path | simp (no_asm); fail)+
qed

lemma apply_lines_kept: "apply_lines opt os inp s = Ret (Continue, s') \<Longrightarrow> kept s s'"
proof (induction opt os inp s rule: apply_lines.induct)
  case (1 opt os inp s)
  show ?case
  proof (cases "fgets MAXPATHLEN inp")
    case None
    with "1.prems" show ?thesis by (auto simp: apply_lines.simps [of _ _ inp])
  next
    case (Some p)
    obtain buf rest where p: "p = (buf, rest)" by force
    note f = Some [unfolded p]
    with "1.prems"(1) obtain s1 where l: "apply_line opt os (cstr buf) s = Ret (Continue, s1)"
      and rest: "apply_lines opt os rest s1 = Ret (Continue, s')"
      by (auto simp: apply_lines.simps [of _ _ inp] obind_Ret_iff split: if_splits)
    have "kept s s1" using all_retD [OF apply_line_kept l] by (simp add: went_on_def)
    moreover have "kept s1 s'" by (rule "1.IH" [OF f refl l refl refl rest])
    ultimately show ?thesis by (rule kept_trans)
  qed
qed

lemma remove_heads_all: "remove_heads opt os (\<lambda>n. False) ns s = Ret (True, s') \<Longrightarrow> la_head s' = []"
  by (induction ns arbitrary: s) (auto simp: obind_Ret_iff split: if_splits)

lemma lapply_removes_waiting:
  assumes "lapply_main opt os report event file inp s = Ret (0, s')" "p \<in> set (waiting s)"
  shows "p \<in> set (removed_dirs (la_hist s'))"
proof -
  from lapply_main_split [OF assms(1)] obtain r s1 ok s2 where l: "apply_lines opt os inp s = Ret (r, s1)"
    and m: "if r = Continue then remove_heads opt os (\<lambda>n. False) (la_head s1) s1 = Ret (ok, s2) else \<not> ok \<and> s2 = s1"
    and d: "done_dirs s' = done_dirs s2" and ok: "ok" by auto
  from m ok have r: "r = Continue" "remove_heads opt os (\<lambda>n. False) (la_head s1) s1 = Ret (True, s2)"
    by (auto split: if_splits)
  have "kept s s2" using apply_lines_kept l remove_heads_kept r kept_trans by metis
  moreover have "waiting s2 = []" using remove_heads_all [OF r(2)] by (simp add: waiting_def)
  ultimately show ?thesis using assms(2) d by (auto simp: kept_def)
qed

text \<open>A line that takes a directory away puts it on the list.\<close>

lemma remove_line_waits:
  assumes "apply_object opt os tline CHR ''-'' av p True s = Ret (Continue, s')" "la_type s = CHR ''d''"
  shows "p \<in> set (waiting s')"
proof -
  from assms(1) obtain b s1 line where c: "clear_object opt os p line s = Ret (Some b, s1)" "s' = s1"
    by (auto simp: apply_object_def Let_def obind_Ret_iff split: option.splits)
  from c(1) obtain ok s2 where l: "leave_dirs opt os p s = Ret (ok, s2)"
    by (auto simp: clear_object_def obind_Ret_iff)
  have "la_type s2 = CHR ''d''" using l assms(2) by (auto simp: leave_dirs_def dest: remove_heads_type)
  with c l show ?thesis by (cases ok) (auto simp: clear_object_def)
qed

end
