(* ===== verification/Upload.thy ===== *)
theory Upload
  imports Connect Server
begin

text \<open>
  Uploads: \<open>stor.c\<close> in the build without macOS, and \<open>lcreate.c\<close> from the place where the connection, if
  any, is made, TLS is set up and the user has logged in. \<open>Exit 2\<close> is \<open>exit( 2 )\<close>.
\<close>

section \<open>Responses\<close>

text \<open>
  The server's responses are read when they come. \<open>os_ready\<close> before the call \<open>Select\<close> is \<open>snet_hasdata\<close>, after it
  \<open>FD_ISSET\<close>. The first component of the result is \<open>False\<close> for \<open>-1\<close>, the second the responses that are left.
\<close>

definition response_ok :: "nat \<Rightarrow> string \<Rightarrow> bool" where
  "response_ok respcount line \<longleftrightarrow>
     (if odd respcount then char_at line 0 = CHR ''2'' else char_at line 0 = CHR ''3'')"

fun stor_response :: "os \<Rightarrow> nat \<Rightarrow> history \<Rightarrow> (bool \<times> nat) \<times> history" where
  "stor_response os 0 h = ((True, 0), h)"
| "stor_response os (Suc n) h =
     (case (if os_ready os h then (None, h) else answer os Select h) of
        (Some e, h1) \<Rightarrow> ((False, Suc n), h1)
      | (None, h1) \<Rightarrow>
          if \<not> os_ready os h1 then ((True, Suc n), h1)
          else (case answer os GetLine h1 of
                  (Some e, h2) \<Rightarrow> ((False, Suc n), h2)
                | (None, h2) \<Rightarrow>
                    if response_ok (Suc n) (os_line os h2) then stor_response os n h2
                    else ((False, Suc n), h2)))"

text \<open>\<open>while ( respcount > 0 )\<close> around it, which runs as long as the server is silent.\<close>

partial_function (option) stor_wait :: "os \<Rightarrow> nat \<Rightarrow> history \<Rightarrow> (bool \<times> history) option" where
  "stor_wait os n h =
     (if n = 0 then Some (True, h)
      else (case stor_response os n h of
              ((ok, n'), h') \<Rightarrow> if ok then stor_wait os n' h' else Some (False, h')))"

section \<open>Files\<close>

record 'c upload_options =
  u_network :: bool
  u_negative :: bool
  u_tran_only :: bool
  u_force :: bool
  u_md :: "'c digest option"

definition n_stor_file :: "os \<Rightarrow> string \<Rightarrow> history \<Rightarrow> history outcome" where
  "n_stor_file os pathdesc h =
     (case answer os (Send (pathdesc @ CRLF)) h of
        (Some e, h) \<Rightarrow> Exit 2
      | (None, h) \<Rightarrow>
     (case answer os (Send (''0'' @ CRLF @ ''.'' @ CRLF)) h of
        (Some e, h) \<Rightarrow> Exit 2
      | (None, h) \<Rightarrow> Ret h))"

text \<open>
  The loop over the file: what is left of the announced size, and the digest context; \<open>None\<close> when
  \<open>snet_write\<close> fails.
\<close>

fun stor_data ::
  "(byte list \<Rightarrow> 'c \<Rightarrow> 'c) \<Rightarrow> os \<Rightarrow> read_result list \<Rightarrow> int \<Rightarrow> 'c \<Rightarrow> history \<Rightarrow> ((int \<times> 'c) option \<times> history) outcome" where
  "stor_data feed os [] sz c h = Ret (Some (sz, c), h)"
| "stor_data feed os (ReadError # rs) sz c h = Exit 2"
| "stor_data feed os (Bytes bs # rs) sz c h =
     (if bs = [] then Ret (Some (sz, c), h)
      else (case answer os (Send (chars_of bs)) h of
              (Some e, h) \<Rightarrow> Ret (None, h)
            | (None, h) \<Rightarrow> stor_data feed os rs (sz - int (length bs)) (feed bs c) h))"

text \<open>The end: \<open>b64\<close> is the checksum of what was sent. The result is \<open>0\<close> or \<open>-1\<close>.\<close>

definition stor_end ::
  "'c upload_options \<Rightarrow> os \<Rightarrow> string \<Rightarrow> string \<Rightarrow> string option \<Rightarrow> int \<Rightarrow> history \<Rightarrow> (int \<times> history) outcome" where
  "stor_end opt os path trancksum b64 sz h =
     (if sz \<noteq> 0 then Exit 2
      else
     (case answer os (Send (''.'' @ CRLF)) h of
        (Some e, h) \<Rightarrow> Ret (-1, h)
      | (None, h) \<Rightarrow>
     (case answer os (Close path) h of
        (Some e, h) \<Rightarrow> Exit 2
      | (None, h) \<Rightarrow>
          (case b64 of
             None \<Rightarrow> Ret (0, h)
           | Some c \<Rightarrow> if strcmp trancksum c \<noteq> 0 \<and> \<not> u_force opt then Exit 2 else Ret (0, h)))))"

definition send_file ::
  "'c upload_options \<Rightarrow> os \<Rightarrow> string \<Rightarrow> string \<Rightarrow> int \<Rightarrow> history \<Rightarrow> (int \<times> history) outcome" where
  "send_file opt os path trancksum sz h =
     (case u_md opt of
        None \<Rightarrow>
          obind (stor_data (\<lambda>bs c. c) os (os_bytes os h path) sz () h) (\<lambda>(r, h).
            case r of
              None \<Rightarrow> Ret (-1, h)
            | Some (left, c) \<Rightarrow> stor_end opt os path trancksum None left h)
      | Some md \<Rightarrow>
          obind (stor_data (\<lambda>bs c. d_update md c bs) os (os_bytes os h path) sz (d_init md) h) (\<lambda>(r, h).
            case r of
              None \<Rightarrow> Ret (-1, h)
            | Some (left, c) \<Rightarrow> stor_end opt os path trancksum (Some (base64_e (d_final md c))) left h))"

text \<open>\<open>stor_file\<close> of \<open>stor.c\<close>; the server has a function of the same name.\<close>

definition c_stor_file ::
  "'c upload_options \<Rightarrow> os \<Rightarrow> string \<Rightarrow> string \<Rightarrow> int \<Rightarrow> string \<Rightarrow> history \<Rightarrow> (int \<times> history) outcome" where
  "c_stor_file opt os pathdesc path transize trancksum h =
     (if u_md opt \<noteq> None \<and> strcmp trancksum ''-'' = 0 then Exit 2
      else
     (case answer os (Open path) h of
        (Some e, h) \<Rightarrow> Exit 2
      | (None, h) \<Rightarrow>
     (case answer os (Fstat path) h of
        (Some e, h) \<Rightarrow> Exit 2
      | (None, h) \<Rightarrow>
          let sz = st_size (os_stat os h path) in
          if sz \<noteq> transize \<and> \<not> u_force opt then Exit 2
          else
     (case answer os (Send (pathdesc @ CRLF)) h of
        (Some e, h) \<Rightarrow> Exit 2
      | (None, h) \<Rightarrow>
     (case answer os (Send (print_int sz @ CRLF)) h of
        (Some e, h) \<Rightarrow> Exit 2
      | (None, h) \<Rightarrow> send_file opt os path trancksum sz h)))))"

text \<open>The stubs for other systems than macOS.\<close>

definition stor_applefile :: "history \<Rightarrow> (int \<times> history) outcome" where
  "stor_applefile h = Exit 2"

definition n_stor_applefile :: "history \<Rightarrow> history outcome" where
  "n_stor_applefile h = Exit 2"

section \<open>\<open>lcreate\<close>\<close>

record lcreate =
  lc_hist :: history
  lc_buf :: string
  lc_resp :: nat

text \<open>What a line leads to: the next one, \<open>stor_failed\<close>, or the end of \<open>main\<close> with a status.\<close>

datatype lc_result = Go | Stor_failed | Main int

definition sent_result :: "lcreate \<Rightarrow> int \<times> history \<Rightarrow> (lc_result \<times> lcreate) outcome" where
  "sent_result s r = Ret (if fst r < 0 then Stor_failed else Go, s\<lparr>lc_hist := snd r, lc_resp := lc_resp s + 2\<rparr>)"

text \<open>Without a connection the transcript is only checked.\<close>

definition check_object ::
  "'c upload_options \<Rightarrow> os \<Rightarrow> string list \<Rightarrow> string \<Rightarrow> lcreate \<Rightarrow> (lc_result \<times> lcreate) outcome" where
  "check_object opt os av path s =
     (case radstat_call os path stat0 NUL (lc_hist s) of
        ((q, st, ty, e), h) \<Rightarrow>
          if q \<noteq> 0 then Exit 2
          else if st_size st \<noteq> strtol 10 (av ! 6) then Exit 2
          else (case u_md opt of
                  None \<Rightarrow>
                    (case answer os (Access path) h of
                       (Some e, h) \<Rightarrow> Exit 2
                     | (None, h) \<Rightarrow> Ret (Go, s\<lparr>lc_hist := h\<rparr>))
                | Some md \<Rightarrow>
                    if char_at (av ! 0) 0 \<noteq> CHR ''f'' then Exit 2
                    else (case c_cksum md os path h of
                            ((n, b64), h) \<Rightarrow>
                              if n < 0 then Exit 2
                              else (case b64 of
                                      None \<Rightarrow> UB
                                    | Some c \<Rightarrow>
                                        Ret (if strcmp c (av ! 7) \<noteq> 0 then Main (-1) else Go, s\<lparr>lc_hist := h\<rparr>)))))"

definition send_object ::
  "'c upload_options \<Rightarrow> os \<Rightarrow> string \<Rightarrow> string list \<Rightarrow> string \<Rightarrow> lcreate \<Rightarrow> (lc_result \<times> lcreate) outcome" where
  "send_object opt os tname av path s =
     (case snprintf (2 * MAXPATHLEN) (''STOR FILE '' @ tname @ [SP] @ av ! 1) of
        None \<Rightarrow> Exit 2
      | Some pathdesc \<Rightarrow>
          let apple = (char_at (av ! 0) 0 = CHR ''a'') in
          if u_negative opt
          then obind (if apple then n_stor_applefile (lc_hist s) else n_stor_file os pathdesc (lc_hist s)) (\<lambda>h.
                 sent_result s (0, h))
          else obind (if apple then stor_applefile (lc_hist s)
                      else c_stor_file opt os pathdesc path (strtol 10 (av ! 6)) (av ! 7) (lc_hist s)) (sent_result s))"

definition lcreate_object ::
  "'c upload_options \<Rightarrow> os \<Rightarrow> string \<Rightarrow> string list \<Rightarrow> lcreate \<Rightarrow> (lc_result \<times> lcreate) outcome" where
  "lcreate_object opt os tname av s =
     (if length av \<noteq> 8 then Exit 2
      else obind (decode (av ! 1) (lc_buf s)) (\<lambda>(d, buf).
        let s = s\<lparr>lc_buf := buf\<rparr> in
        case d of
          None \<Rightarrow> Ret (Main 1, s)
        | Some path \<Rightarrow>
            (case (if u_negative opt then ((0, stat0, char_at (av ! 0) 0, None), lc_hist s)
                   else radstat_call os path stat0 NUL (lc_hist s)) of
               ((q, st, ty, e), h) \<Rightarrow>
                 let s = s\<lparr>lc_hist := h\<rparr> in
                 if q \<noteq> 0 \<or> char_at (av ! 0) 0 \<noteq> ty then Exit 2
                 else if u_network opt then send_object opt os tname av path s
                 else check_object opt os av path s)))"

definition is_upload :: "string list \<Rightarrow> bool" where
  "is_upload av \<longleftrightarrow> char_at (av ! 0) 0 = CHR ''f'' \<or> char_at (av ! 0) 0 = CHR ''a''"

definition lcreate_line ::
  "'c upload_options \<Rightarrow> os \<Rightarrow> string \<Rightarrow> string \<Rightarrow> lcreate \<Rightarrow> (lc_result \<times> lcreate) outcome" where
  "lcreate_line opt os tname tline s =
     (case (if u_network opt then stor_response os (lc_resp s) (lc_hist s) else ((True, lc_resp s), lc_hist s)) of
        ((ok, n), h) \<Rightarrow>
          let s = s\<lparr>lc_resp := n, lc_hist := h\<rparr> in
          if \<not> ok then Exit 2
          else if tline = [] then UB
          else if last tline \<noteq> NL then Exit 2
          else obind (argcargv tline) (\<lambda>av.
            if av = [] \<or> char_at (av ! 0) 0 = CHR ''#'' then Ret (Go, s)
            else if length av = 1 then Exit 2
            else if is_upload av then lcreate_object opt os tname av s
            else Ret (Go, s)))"

function lcreate_lines ::
  "'c upload_options \<Rightarrow> os \<Rightarrow> string \<Rightarrow> string \<Rightarrow> lcreate \<Rightarrow> (lc_result \<times> lcreate) outcome" where
  "lcreate_lines opt os tname inp s =
     (case fgets MAXPATHLEN inp of
        None \<Rightarrow> Ret (Go, s)
      | Some (buf, rest) \<Rightarrow>
          obind (lcreate_line opt os tname (cstr buf) s) (\<lambda>(r, s).
            if r = Go then lcreate_lines opt os tname rest s else Ret (r, s)))"
  by pat_completeness auto
termination
  by (relation "measure (\<lambda>(_, _, _, inp, _). length inp)") (auto dest!: fgets_shrinks simp: MAXPATHLEN_def)

declare lcreate_lines.simps [simp del]

text \<open>
  The transcript itself goes first. A name that is too long is only reported, and the description cut
  off. Without \<open>cksum\<close> the checksum is not looked at.
\<close>

definition send_transcript ::
  "'c upload_options \<Rightarrow> os \<Rightarrow> string \<Rightarrow> string \<Rightarrow> lcreate \<Rightarrow> (lc_result \<times> lcreate) outcome" where
  "send_transcript opt os tname file s =
     (case (case u_md opt of None \<Rightarrow> ((0, Some []), lc_hist s) | Some md \<Rightarrow> c_cksum md os file (lc_hist s)) of
        ((n, b64), h) \<Rightarrow>
          if n < 0 then Exit 2
          else
     (case answer os (Stat file) h of
        (Some e, h) \<Rightarrow> Exit 2
      | (None, h) \<Rightarrow>
          (case b64 of
             None \<Rightarrow> UB
           | Some c \<Rightarrow>
               obind (c_stor_file opt os (take (2 * MAXPATHLEN - 1) (''STOR TRANSCRIPT '' @ tname)) file
                   (st_size (os_stat os h file)) c h) (sent_result s))))"

text \<open>The ends of \<open>main\<close>; \<open>None\<close> if the program waits for ever.\<close>

definition lcreate_done :: "'c upload_options \<Rightarrow> os \<Rightarrow> lcreate \<Rightarrow> (int \<times> lcreate) outcome option" where
  "lcreate_done opt os s =
     (if \<not> u_network opt then Some (Ret (0, s))
      else (case stor_wait os (lc_resp s) (lc_hist s) of
              None \<Rightarrow> None
            | Some (False, h) \<Rightarrow> Some (Exit 2)
            | Some (True, h) \<Rightarrow>
                (case closesn os h of
                   (Inl n, h) \<Rightarrow> Some (Exit n)
                 | (Inr n, h) \<Rightarrow> Some (if n \<noteq> 0 then Exit 2 else Ret (0, s\<lparr>lc_resp := 0, lc_hist := h\<rparr>)))))"

definition lcreate_failed :: "os \<Rightarrow> lcreate \<Rightarrow> (int \<times> lcreate) outcome option" where
  "lcreate_failed os s =
     (case stor_wait os (lc_resp s) (lc_hist s) of None \<Rightarrow> None | Some _ \<Rightarrow> Some (Exit 2))"

text \<open>\<open>inp\<close> is the text of the transcript \<open>file\<close>; with \<open>-T\<close> and \<open>-n\<close> together it is not open.\<close>

definition lcreate_main ::
  "'c upload_options \<Rightarrow> os \<Rightarrow> string \<Rightarrow> string \<Rightarrow> string \<Rightarrow> lcreate \<Rightarrow> (int \<times> lcreate) outcome option" where
  "lcreate_main opt os tname file inp s =
     (if u_tran_only opt \<and> \<not> u_network opt then Some UB
      else
        (case obind (if u_network opt then send_transcript opt os tname file s else Ret (Go, s)) (\<lambda>(r, s).
                if r = Go \<and> \<not> u_tran_only opt then lcreate_lines opt os tname inp s else Ret (r, s)) of
           Ret (Go, s) \<Rightarrow> lcreate_done opt os s
         | Ret (Stor_failed, s) \<Rightarrow> lcreate_failed os s
         | Ret (Main n, s) \<Rightarrow> Some (Ret (n, s))
         | Exit n \<Rightarrow> Some (Exit n)
         | UB \<Rightarrow> Some UB))"

end
