(* ===== verification/Download.thy ===== *)
theory Download
  imports ClientCalls
begin

text \<open>
  What a call of \<open>retr\<close> leaves behind: after a success the temporary file holds exactly the
  announced bytes, after an error it is removed.
\<close>

section \<open>Traces without writes\<close>

fun writes :: "string \<Rightarrow> call \<Rightarrow> bool" where
  "writes p (Write q d) = (q = p)"
| "writes p c = False"

lemma written_nothing: "\<forall>c e. Did c e \<in> set k \<longrightarrow> \<not> writes p c \<Longrightarrow> written p k = []"
  by (induction p k rule: written.induct) fastforce+

text \<open>
  The trace of a sub-operation, with all that is said about it in this theory: it goes on from \<open>h\<close>
  by \<open>k\<close>.
\<close>

definition goes :: "(history \<Rightarrow> bool) \<Rightarrow> history \<Rightarrow> history \<Rightarrow> bool" where
  "goes P h h' \<longleftrightarrow> (\<exists>k. h' = h @ k \<and> P k)"

lemma goes_nil: "P [] \<Longrightarrow> goes P h h"
  by (simp add: goes_def)

lemma goes_append: "goes P h h1 \<Longrightarrow> goes Q h1 h2 \<Longrightarrow> (\<And>k l. P k \<Longrightarrow> Q l \<Longrightarrow> R (k @ l)) \<Longrightarrow> goes R h h2"
  by (auto simp: goes_def)

lemma goes_answer: "answer os c h = (e, h') \<Longrightarrow> P [Did c e] \<Longrightarrow> goes P h h'"
  by (auto simp: goes_def answer_split)

lemma grows_goes: "grows Q h h' \<Longrightarrow> goes (\<lambda>k. \<forall>c e. Did c e \<in> set k \<longrightarrow> Q c) h h'"
  by (auto simp: goes_def grows_def)

lemma goes_mono: "goes P h h' \<Longrightarrow> (\<And>k. P k \<Longrightarrow> Q k) \<Longrightarrow> goes Q h h'"
  by (auto simp: goes_def)

text \<open>Nothing is written to \<open>t\<close>.\<close>

abbreviation quiet :: "string \<Rightarrow> history \<Rightarrow> history \<Rightarrow> bool" where
  "quiet t \<equiv> goes (\<lambda>k. written t k = [])"

lemma quiet_answer: "answer os c h = (e, h') \<Longrightarrow> \<not> writes t c \<Longrightarrow> quiet t h h'"
  by (erule goes_answer) (simp add: written_nothing)

lemma quiet_trans: "quiet t h h1 \<Longrightarrow> quiet t h1 h2 \<Longrightarrow> quiet t h h2"
  by (erule (1) goes_append) (simp add: written_append)

lemma prefix_call_quiet: "prefix_call p c \<Longrightarrow> \<not> writes t c"
  by (cases c) auto

lemma with_prefix_quiet:
  assumes "with_prefix opt os t (Create t) h = (ok, h')"
  shows "quiet t h h'"
proof -
  have "grows (\<lambda>c. \<not> writes t c) h (snd (with_prefix opt os t (Create t) h))"
    by (rule with_prefix_grows) (auto dest: prefix_call_quiet)
  then have "goes (\<lambda>k. \<forall>c e. Did c e \<in> set k \<longrightarrow> \<not> writes t c) h h'"
    using assms by (auto dest: grows_goes)
  then show ?thesis by (rule goes_mono) (rule written_nothing)
qed

section \<open>The data\<close>

text \<open>The laws of a digest: data may come in pieces.\<close>

definition chunked :: "(byte list \<Rightarrow> 'c \<Rightarrow> 'c) \<Rightarrow> bool" where
  "chunked upd \<longleftrightarrow> (\<forall>a b c. upd b (upd a c) = upd (a @ b) c) \<and> (\<forall>c. upd [] c = c)"

lemma retr_data_step:
  assumes "\<not> sz \<le> 0" "retr_data upd os t sz c h = (Some c', h')"
  obtains buf h1 h2 where "answer os (Recv (nat (min 8192 sz))) h = (None, h1)"
    "buf = take (nat (min 8192 sz)) (os_recv os h1)" "buf \<noteq> []"
    "answer os (Write t buf) h1 = (None, h2)"
    "retr_data upd os t (sz - int (length buf)) (upd (bytes_of buf) c) h2 = (Some c', h')"
proof -
  obtain e1 h1 where a1: "answer os (Recv (nat (min 8192 sz))) h = (e1, h1)" by force
  define buf where "buf = take (nat (min 8192 sz)) (os_recv os h1)"
  obtain e2 h2 where a2: "answer os (Write t buf) h1 = (e2, h2)" by force
  from retr_data_eq [OF assms(1) a1 buf_def a2, of upd c] assms(2) a1 a2 that show thesis
    by (auto simp: buf_def split: if_splits)
qed

lemma retr_data_written:
  assumes "retr_data upd os t sz c h = (Some c', h')" "chunked upd"
  shows "\<exists>d. goes (\<lambda>k. written t k = d) h h' \<and> int (length d) = max 0 sz \<and> c' = upd (bytes_of d) c"
  using assms(1)
proof (induction "nat sz" arbitrary: sz c h rule: less_induct)
  case less
  show ?case
  proof (cases "sz \<le> 0")
    case True
    with less.prems assms(2) show ?thesis
      by (intro exI [of _ "[]"]) (simp add: retr_data.simps goes_nil bytes_of_def chunked_def)
  next
    case False
    from retr_data_step [OF False less.prems(1)] obtain buf h1 h2
      where a1: "answer os (Recv (nat (min 8192 sz))) h = (None, h1)"
      and buf: "buf = take (nat (min 8192 sz)) (os_recv os h1)" "buf \<noteq> []"
      and a2: "answer os (Write t buf) h1 = (None, h2)"
      and r: "retr_data upd os t (sz - int (length buf)) (upd (bytes_of buf) c) h2 = (Some c', h')" .
    have l: "0 < length buf" "int (length buf) \<le> sz" using buf False by auto
    then obtain d where d: "goes (\<lambda>k. written t k = d) h2 h'" "int (length d) = sz - int (length buf)"
      "c' = upd (bytes_of d) (upd (bytes_of buf) c)"
      using less.hyps [OF _ r] False by auto
    have "goes (\<lambda>k. written t k = buf) h h2"
      by (rule goes_append [OF quiet_answer [OF a1] goes_answer [OF a2, of "\<lambda>k. written t k = buf"]])
        (auto simp: written_append)
    from goes_append [OF this d(1)] have "goes (\<lambda>k. written t k = buf @ d) h h'" by (auto simp: written_append)
    with d assms(2) show ?thesis by (intro exI [of _ "buf @ d"]) (auto simp: chunked_def bytes_of_def)
  qed
qed

section \<open>A successful download\<close>

definition checksum_ok :: "'c options \<Rightarrow> string \<Rightarrow> string \<Rightarrow> bool" where
  "checksum_ok opt trancksum d \<longleftrightarrow>
     (case checksum_md opt of
        None \<Rightarrow> True
      | Some md \<Rightarrow> trancksum \<noteq> ''-'' \<and> trancksum = base64_e (d_final md (d_update md (d_init md) (bytes_of d))))"

definition digest_fine :: "'c options \<Rightarrow> bool" where
  "digest_fine opt \<longleftrightarrow> (\<forall>md. checksum_md opt = Some md \<longrightarrow> chunked (\<lambda>bs c. d_update md c bs))"

lemma c_string_base64: "c_string (base64_e d)"
proof -
  have "list_all (\<lambda>c. c \<noteq> NUL) alphabet" by code_simp
  moreover have "x mod 64 < length alphabet" for x by (simp add: alphabet_def)
  ultimately have "group n k \<noteq> NUL" for n k by (auto simp: group_def list_all_length)
  then have "c_string (base64_ref d)" by (induction d rule: base64_ref.induct) (simp_all add: Let_def)
  then show ?thesis by (simp add: base64_e_ref)
qed

lemma retr_end_ok:
  assumes "retr_end os t b64 tc h = ((0, t'), h')"
  shows "t' = t \<and> quiet t h h' \<and> (\<forall>c. b64 = Some c \<longrightarrow> strcmp tc c = 0)"
proof -
  obtain e1 h1 where a1: "answer os (Close t) h = (e1, h1)" by force
  obtain e2 h2 where a2: "answer os GetLine h1 = (e2, h2)" by force
  have r: "t' = t" "h' = h2" "\<forall>c. b64 = Some c \<longrightarrow> strcmp tc c = 0"
    using assms a1 a2 by (auto simp: retr_end_def discard_def split: option.splits if_splits)
  with quiet_trans [OF quiet_answer [OF a1] quiet_answer [OF a2]] show ?thesis by simp
qed

lemma retr_file_ok:
  assumes "retr_file opt os t sz tc h = ((0, t'), h')" "digest_fine opt" "tc \<noteq> ''-'' \<or> checksum_md opt = None"
    "c_string tc"
  shows "\<exists>d. t' = t \<and> goes (\<lambda>k. written t k = d) h h' \<and> int (length d) = max 0 sz \<and> checksum_ok opt tc d"
proof -
  obtain h1 where w: "with_prefix opt os t (Create t) h = (True, h1)"
    using assms(1) by (auto simp: retr_file_def split: prod.splits bool.splits)
  have whole: ?thesis if r: "retr_data upd os t sz c h1 = (Some c', h2)" and u: "chunked upd"
    and e: "retr_end os t b64 tc h2 = ((0, t'), h')"
    and b: "\<And>d. c' = upd (bytes_of d) c \<Longrightarrow> \<forall>x. b64 = Some x \<longrightarrow> strcmp tc x = 0 \<Longrightarrow> checksum_ok opt tc d"
  for upd :: "byte list \<Rightarrow> 'x \<Rightarrow> 'x" and c c' h2 b64
  proof -
    from retr_data_written [OF r u] obtain d where d: "goes (\<lambda>k. written t k = d) h1 h2"
      "int (length d) = max 0 sz" "c' = upd (bytes_of d) c" by blast
    note e' = retr_end_ok [OF e]
    have "goes (\<lambda>k. written t k = d) h h2"
      using goes_append [OF with_prefix_quiet [OF w] d(1)] by (auto simp: written_append)
    from goes_append [OF this] e' have "goes (\<lambda>k. written t k = d) h h'" by (auto simp: written_append)
    with d e' b show ?thesis by auto
  qed
  show ?thesis
  proof (cases "checksum_md opt")
    case None
    with assms(1) w obtain h2 where "retr_data (\<lambda>bs c. c) os t sz () h1 = (Some (), h2)"
      "retr_end os t None tc h2 = ((0, t'), h')"
      by (auto simp: retr_file_def discard_def split: prod.splits option.splits)
    from whole [OF this(1) _ this(2)] None show ?thesis by (simp add: chunked_def checksum_ok_def)
  next
    case (Some md)
    with assms(1) w obtain c h2 where r: "retr_data (\<lambda>bs c. d_update md c bs) os t sz (d_init md) h1 = (Some c, h2)"
      and e: "retr_end os t (Some (base64_e (d_final md c))) tc h2 = ((0, t'), h')"
      by (auto simp: retr_file_def discard_def split: prod.splits option.splits)
    have u: "chunked (\<lambda>bs c. d_update md c bs)" using assms(2) Some by (simp add: digest_fine_def)
    show ?thesis
      by (rule whole [OF r u e]) (use assms(3,4) Some in \<open>auto simp: checksum_ok_def strcmp_0 c_string_base64\<close>)
  qed
qed


lemma retr_ok:
  assumes "retr opt os pathdesc path transize tc h = ((0, t), h')" "digest_fine opt" "c_string tc"
  shows "\<exists>d. t = temp_name opt path \<and> goes (\<lambda>k. written t k = d) h h' \<and> checksum_ok opt tc d \<and>
    (0 \<le> transize \<longrightarrow> int (length d) = transize)"
proof -
  obtain e1 h1 where a1: "answer os (Send (''RETR '' @ pathdesc @ [NL])) h = (e1, h1)" by force
  obtain e2 h2 where a2: "answer os GetLine h1 = (e2, h2)" by force
  obtain e3 h3 where a3: "answer os GetLine h2 = (e3, h3)" by force
  have "retr opt os pathdesc path transize tc h = ((0, t), h') \<Longrightarrow>
      (checksum_md opt = None \<or> strcmp tc ''-'' \<noteq> 0) \<and>
      (0 \<le> transize \<longrightarrow> strtol 10 (os_line os h3) = transize) \<and>
      retr_file opt os (temp_name opt path) (strtol 10 (os_line os h3)) tc h3 = ((0, t), h')"
    using a1 a2 a3 by (auto simp: retr_def Let_def temp_name_def split: option.splits if_splits)
  with assms(1) have m: "checksum_md opt = None \<or> tc \<noteq> ''-''"
    and sz: "0 \<le> transize \<longrightarrow> strtol 10 (os_line os h3) = transize"
    and f: "retr_file opt os (temp_name opt path) (strtol 10 (os_line os h3)) tc h3 = ((0, t), h')"
    by (auto simp: strcmp_0)
  have q: "quiet t h h3"
    by (rule quiet_trans [OF quiet_trans [OF quiet_answer [OF a1] quiet_answer [OF a2]] quiet_answer [OF a3]]) simp_all
  from retr_file_ok [OF f assms(2) _ assms(3)] m obtain d where d: "t = temp_name opt path"
    "goes (\<lambda>k. written t k = d) h3 h'" "int (length d) = max 0 (strtol 10 (os_line os h3))" "checksum_ok opt tc d"
    by blast
  have "goes (\<lambda>k. written t k = d) h h'" using goes_append [OF q d(2)] by (auto simp: written_append)
  with d sz show ?thesis by auto
qed


section \<open>A failed download\<close>

text \<open>Either the temporary file was never opened, or its removal is the last call.\<close>

definition opened :: "string \<Rightarrow> history \<Rightarrow> bool" where
  "opened t k \<longleftrightarrow> Did (Create t) None \<in> set k"

definition cleaned :: "string \<Rightarrow> history \<Rightarrow> bool" where
  "cleaned t k \<longleftrightarrow> \<not> opened t k \<or> (\<exists>k' e. k = k' @ [Did (Unlink t) e])"

lemma cleaned_append: "\<not> opened t k \<Longrightarrow> cleaned t l \<Longrightarrow> cleaned t (k @ l)"
  by (auto simp: cleaned_def opened_def)

lemma cleaned_discard:
  assumes "discard os t r h1 = (x, h')" "goes P h h1"
  shows "goes (cleaned t) h h'"
proof -
  have u: "goes (\<lambda>k. \<exists>e. k = [Did (Unlink t) e]) h1 h'"
    using assms(1) by (auto simp: discard_def answer_split goes_def)
  show ?thesis by (rule goes_append [OF assms(2) u]) (auto simp: cleaned_def)
qed

lemma mkprefix_opens_nothing: "mkprefix os uid t h = (ok, h') \<Longrightarrow> goes (\<lambda>k. \<not> opened p k) h h'"
proof -
  assume "mkprefix os uid t h = (ok, h')"
  with mkprefix_grows [of t h h os uid] have "grows (prefix_call t) h h'" by simp
  then have "goes (\<lambda>k. \<forall>c e. Did c e \<in> set k \<longrightarrow> prefix_call t c) h h'" by (rule grows_goes)
  then show ?thesis by (rule goes_mono) (auto simp: opened_def)
qed

lemma with_prefix_opens:
  assumes "with_prefix opt os t (Create t) h = (False, h')"
  shows "goes (\<lambda>k. \<not> opened t k) h h'"
proof -
  obtain e1 h1 where a1: "answer os (Create t) h = (e1, h1)" by force
  have one: "goes (\<lambda>k. \<not> opened t k) h h1" using assms a1
    by (auto simp: with_prefix_def opened_def intro!: goes_answer split: option.splits)
  show ?thesis
  proof (cases "create_prefix opt \<and> e1 = Some ENOENT")
    case True
    obtain ok h2 where m: "mkprefix os (euid opt) t h1 = (ok, h2)" by force
    have two: "goes (\<lambda>k. \<not> opened t k) h h2"
      by (rule goes_append [OF one mkprefix_opens_nothing [OF m]]) (simp add: opened_def)
    show ?thesis
    proof (cases ok)
      case ok: True
      obtain e3 h3 where a3: "answer os (Create t) h2 = (e3, h3)" by force
      with assms True a1 m ok have "h' = h3" "e3 \<noteq> None" by (auto simp: with_prefix_def)
      with a3 have "goes (\<lambda>k. \<not> opened t k) h2 h'" by (auto simp: opened_def intro: goes_answer)
      then show ?thesis by (rule goes_append [OF two]) (simp add: opened_def)
    qed (use assms True a1 m two in \<open>simp add: with_prefix_def\<close>)
  next
    case False
    with assms a1 have "h' = h1" by (auto simp: with_prefix_def split: option.splits if_splits)
    with one show ?thesis by simp
  qed
qed

lemma grows_any: "grows P h h' \<Longrightarrow> goes (\<lambda>k. True) h h'"
  by (auto simp: grows_def goes_def)

lemma retr_end_failed:
  assumes "retr_end os t b64 tc h1 = ((r, t'), h')" "r \<noteq> 0" "goes P h h1"
  shows "goes (cleaned t) h h'"
proof -
  have any: "goes (\<lambda>k. True) h h2" if "answer os c h1 = (e, h2)" for c e h2
    by (rule goes_append [OF assms(3) goes_answer [OF that, of "\<lambda>k. True"]]) simp_all
  have any2: "goes (\<lambda>k. True) h h3" if "answer os c h1 = (e, h2)" "answer os c' h2 = (e', h3)" for c e h2 c' e' h3
    by (rule goes_append [OF any [OF that(1)] goes_answer [OF that(2), of "\<lambda>k. True"]]) simp_all
  show ?thesis
    using assms(1,2) cleaned_discard [OF _ any] cleaned_discard [OF _ any2]
    by (auto simp: retr_end_def split: option.splits if_splits prod.splits)
qed

lemma retr_file_failed:
  assumes "retr_file opt os t sz tc h = ((r, t'), h')" "r \<noteq> 0"
  shows "goes (cleaned t) h h'"
proof -
  obtain ok h1 where w: "with_prefix opt os t (Create t) h = (ok, h1)" by force
  show ?thesis
  proof (cases ok)
    case False
    with w assms(1) with_prefix_opens have "goes (\<lambda>k. \<not> opened t k) h h'" by (auto simp: retr_file_def)
    then show ?thesis by (rule goes_mono) (simp add: cleaned_def)
  next
    case ok: True
    have g1: "goes (\<lambda>k. True) h h1" using goes_mono [OF with_prefix_quiet [OF w]] by simp
    have data: "goes (\<lambda>k. True) h h2" if "retr_data upd os t sz c h1 = (x, h2)"
      for upd :: "byte list \<Rightarrow> 'x \<Rightarrow> 'x" and c x h2
      using goes_append [OF g1 grows_any, of "fetches t" h2 "\<lambda>k. True"] retr_data_grows [OF grows_refl, of t h1 upd os sz c] that
      by simp
    have fail: "goes (cleaned t) h h'" if "retr_data upd os t sz c h1 = (x, h2)"
      "discard os t (-1) (snd (answer os (Close t) h2)) = ((r, t'), h')"
      for upd :: "byte list \<Rightarrow> 'x \<Rightarrow> 'x" and c x h2
    proof -
      have "goes (\<lambda>k. True) h (snd (answer os (Close t) h2))"
        by (rule goes_append [OF data [OF that(1)] goes_answer [of os "Close t" h2 _ _ "\<lambda>k. True"]])
          (simp_all add: answer_split)
      with that(2) show ?thesis by (rule cleaned_discard)
    qed
    show ?thesis
    proof (cases "checksum_md opt")
      case None
      obtain c h2 where d: "retr_data (\<lambda>bs c. c) os t sz () h1 = (c, h2)" by force
      from None d assms(1) w ok have "case c of
          None \<Rightarrow> discard os t (-1) (snd (answer os (Close t) h2)) = ((r, t'), h')
        | Some x \<Rightarrow> retr_end os t None tc h2 = ((r, t'), h')"
        by (simp add: retr_file_def split: option.splits)
      with fail [OF d] retr_end_failed [OF _ assms(2) data [OF d]] show ?thesis by (auto split: option.splits)
    next
      case (Some md)
      obtain c h2 where d: "retr_data (\<lambda>bs c. d_update md c bs) os t sz (d_init md) h1 = (c, h2)" by force
      show ?thesis
      proof (cases c)
        case None
        with d Some assms w ok have "discard os t (-1) (snd (answer os (Close t) h2)) = ((r, t'), h')"
          by (simp add: retr_file_def)
        with fail [OF d] show ?thesis by simp
      next
        case (Some x)
        with d \<open>checksum_md opt = _\<close> assms w ok have "retr_end os t (Some (base64_e (d_final md x))) tc h2 = ((r, t'), h')"
          by (simp add: retr_file_def)
        from retr_end_failed [OF this assms(2) data [OF d]] show ?thesis .
      qed
    qed
  qed
qed

lemma retr_failed:
  assumes "retr opt os pathdesc path transize tc h = ((r, t), h')" "r \<noteq> 0"
  shows "goes (cleaned (temp_name opt path)) h h'"
proof -
  let ?t = "temp_name opt path"
  obtain e1 h1 where a1: "answer os (Send (''RETR '' @ pathdesc @ [NL])) h = (e1, h1)" by force
  obtain e2 h2 where a2: "answer os GetLine h1 = (e2, h2)" by force
  obtain e3 h3 where a3: "answer os GetLine h2 = (e3, h3)" by force
  let ?o = "goes (\<lambda>k. \<not> opened ?t k)"
  have o1: "?o h h1" by (rule goes_answer [OF a1]) (simp add: opened_def)
  have o2: "?o h h2" by (rule goes_append [OF o1 goes_answer [OF a2, of "\<lambda>k. \<not> opened ?t k"]]) (simp_all add: opened_def)
  have o3: "?o h h3" by (rule goes_append [OF o2 goes_answer [OF a3, of "\<lambda>k. \<not> opened ?t k"]]) (simp_all add: opened_def)
  have "h' \<in> {h, h1, h2, h3} \<or> retr_file opt os ?t (strtol 10 (os_line os h3)) tc h3 = ((r, t), h')"
    using assms(1) a1 a2 a3 unfolding retr_def Let_def temp_name_def
    by (auto split: option.splits if_splits)
  then show ?thesis
  proof
    assume "h' \<in> {h, h1, h2, h3}"
    with o1 o2 o3 goes_nil [of "\<lambda>k. \<not> opened ?t k" h] have "?o h h'" by (auto simp: opened_def)
    then show ?thesis by (rule goes_mono) (simp add: cleaned_def)
  next
    assume "retr_file opt os ?t (strtol 10 (os_line os h3)) tc h3 = ((r, t), h')"
    from retr_file_failed [OF this assms(2)] show ?thesis by (rule goes_append [OF o3]) (rule cleaned_append)
  qed
qed

end
