(* ===== verification/Stream.thy ===== *)
theory Stream
  imports Download ServerSafety
begin

text \<open>
  Client and server together: what \<open>retr\<close> makes of the bytes that \<open>RETR\<close> of the server has sent. The
  connection between them is the interface \<open>byte_stream\<close>; a stream that is known from the start
  provides it.
\<close>

section \<open>The interface\<close>

fun reads_peer :: "call \<Rightarrow> bool" where
  "reads_peer GetLine = True"
| "reads_peer (Recv n) = True"
| "reads_peer c = False"

definition one_line :: "string \<Rightarrow> bool" where
  "one_line l \<longleftrightarrow> CR \<notin> set l \<and> NL \<notin> set l"

text \<open>\<open>pending h s\<close>: after the calls \<open>h\<close> the bytes \<open>s\<close> of the peer are still to be read.\<close>

locale byte_stream =
  fixes os :: os and pending :: "history \<Rightarrow> string \<Rightarrow> bool"
  assumes get_line: "pending h (l @ CRLF @ r) \<Longrightarrow> one_line l \<Longrightarrow> answer os GetLine h = (None, h1) \<Longrightarrow>
      os_line os h1 = l \<and> pending h1 r"
    and recv: "pending h s \<Longrightarrow> answer os (Recv n) h = (None, h1) \<Longrightarrow>
      \<exists>r. s = take n (os_recv os h1) @ r \<and> pending h1 r \<and> (0 < n \<longrightarrow> s \<noteq> [] \<longrightarrow> os_recv os h1 \<noteq> [])"
    and other: "pending h s \<Longrightarrow> \<not> reads_peer c \<Longrightarrow> answer os c h = (e, h1) \<Longrightarrow> pending h1 s"

text \<open>No call failed.\<close>

definition calm :: "history \<Rightarrow> bool" where
  "calm k \<longleftrightarrow> list_all (\<lambda>x. case x of Did c e \<Rightarrow> e = None) k"

lemma calm_step:
  assumes "goes calm h h'" "answer os c h = (e, h1)" "goes (\<lambda>k. True) h1 h'"
  shows "e = None \<and> goes calm h1 h'"
proof -
  from assms obtain k l where k: "h' = h @ k" "calm k" and h1: "h1 = h @ [Did c e]" and l: "h' = h1 @ l"
    by (auto simp: goes_def answer_split)
  then have "k = Did c e # l" by simp
  with k(2) l show ?thesis by (auto simp: calm_def goes_def)
qed

lemma goes_any_trans: "goes P h h1 \<Longrightarrow> goes Q h1 h2 \<Longrightarrow> goes (\<lambda>k. True) h h2"
  by (auto simp: goes_def)

lemma any_answer: "answer os c h = (e, h') \<Longrightarrow> goes (\<lambda>k. True) h h'"
  by (erule goes_answer) simp

lemma retr_data_any: "retr_data feed os t sz c h = (x, h') \<Longrightarrow> goes (\<lambda>k. True) h h'"
  using retr_data_grows [OF grows_refl, of t h feed os sz c] by (auto dest: grows_any)

lemma discard_any: "discard os t r h = (x, h') \<Longrightarrow> goes (\<lambda>k. True) h h'"
  by (auto simp: discard_def goes_def answer_split)

lemma retr_end_any: "retr_end os t b64 tc h = (x, h') \<Longrightarrow> goes (\<lambda>k. True) h h'"
  using retr_end_grows [OF grows_refl, of t h os b64 tc] by (auto dest: grows_any)

lemma close_any: "discard os t r (snd (answer os (Close t) h)) = (x, h') \<Longrightarrow> goes (\<lambda>k. True) h h'"
  by (auto simp: discard_def goes_def answer_split)

lemma retr_file_rest:
  assumes "retr_file opt os t sz tc h = (x, h')" "with_prefix opt os t (Create t) h = (ok, h2)"
  shows "goes (\<lambda>k. True) h2 h'"
proof -
  have fin: "goes (\<lambda>k. True) h2 h'" if "retr_data feed os t sz c h2 = (y, h3)"
    "(case y of None \<Rightarrow> discard os t (-1) (snd (answer os (Close t) h3))
       | Some c \<Rightarrow> retr_end os t (b64 c) tc h3) = (x, h')"
    for feed :: "byte list \<Rightarrow> 'x \<Rightarrow> 'x" and c y h3 b64
  proof -
    have "goes (\<lambda>k. True) h3 h'" using that(2) by (auto dest: close_any retr_end_any split: option.splits)
    with retr_data_any [OF that(1)] show ?thesis by (rule goes_any_trans)
  qed
  show ?thesis
  proof (cases "ok")
    case True
    show ?thesis
    proof (cases "checksum_md opt")
      case None
      obtain y h3 where d: "retr_data (\<lambda>bs c. c) os t sz () h2 = (y, h3)" by force
      show ?thesis by (rule fin [OF d, of "\<lambda>c. None"])
        (use assms True None d in \<open>simp add: retr_file_def split: option.splits\<close>)
    next
      case (Some md)
      obtain y h3 where d: "retr_data (\<lambda>bs c. d_update md c bs) os t sz (d_init md) h2 = (y, h3)" by force
      show ?thesis by (rule fin [OF d, of "\<lambda>c. Some (base64_e (d_final md c))"])
        (use assms True Some d in \<open>simp add: retr_file_def split: option.splits\<close>)
    qed
  qed (use assms in \<open>simp add: retr_file_def goes_nil\<close>)
qed

lemma retr_file_any:
  assumes "retr_file opt os t sz tc h = (x, h')"
  shows "goes (\<lambda>k. True) h h'"
proof -
  obtain ok h2 where w: "with_prefix opt os t (Create t) h = (ok, h2)" by force
  from with_prefix_quiet [OF w] retr_file_rest [OF assms w] show ?thesis by (rule goes_any_trans)
qed

lemma one_line_print_int: "one_line (print_int (int n))"
proof -
  have "\<not> c_isdigit CR" "\<not> c_isdigit NL" by (simp_all add: c_isdigit_def)
  with digits_isdigit [of n] show ?thesis by (auto simp: one_line_def print_int_def)
qed

section \<open>The client on a stream\<close>

context byte_stream
begin

lemma data_of_stream:
  assumes "retr_data feed os t sz c h = (x, h')" "goes calm h h'" "pending h (d @ rest)" "int (length d) = sz"
    "chunked feed"
  shows "x = Some (feed (bytes_of d) c) \<and> goes (\<lambda>k. written t k = d) h h' \<and> pending h' rest"
  using assms(1-4)
proof (induction "length d" arbitrary: sz c h d rule: less_induct)
  case less
  show ?case
  proof (cases "sz \<le> 0")
    case True
    then have "d = []" using less.prems(4) by (cases d) auto
    with True less.prems assms(5) show ?thesis by (auto simp: retr_data.simps goes_nil bytes_of_def chunked_def)
  next
    case False
    define n where "n = nat (min 8192 sz)"
    obtain e1 h1 where a1: "answer os (Recv n) h = (e1, h1)" by force
    define buf where "buf = take n (os_recv os h1)"
    obtain e2 h2 where a2: "answer os (Write t buf) h1 = (e2, h2)" by force
    note eq = retr_data_eq [OF False a1 [unfolded n_def] buf_def [unfolded n_def] a2, of feed c]
    have any2: "goes (\<lambda>k. True) h2 h'" if "e1 = None" "buf \<noteq> []"
      using less.prems(1) that retr_data_any [of feed os t "sz - int (length buf)" "feed (bytes_of buf) c" h2 x h']
      unfolding eq by (auto intro: goes_nil split: if_splits)
    have any1: "goes (\<lambda>k. True) h1 h'"
    proof (cases "e1 = None \<and> buf \<noteq> []")
      case True
      with any2 any_answer [OF a2] goes_any_trans show ?thesis by blast
    next
      case False
      with less.prems(1) have "h' = h1" unfolding eq by auto
      then show ?thesis by (simp add: goes_nil)
    qed
    from calm_step [OF less.prems(2) a1 any1] have e1: "e1 = None" "goes calm h1 h'" by auto
    have n: "0 < n" "int n \<le> sz" using False by (auto simp: n_def)
    from recv [OF less.prems(3) a1 [unfolded e1]] obtain r where r: "d @ rest = buf @ r" "pending h1 r" and b: "os_recv os h1 \<noteq> []"
      using n False less.prems(4) by (auto simp: buf_def)
    have buf: "buf \<noteq> []" "length buf \<le> n" using b n by (auto simp: buf_def)
    from calm_step [OF e1(2) a2 any2 [OF e1(1) buf(1)]] have e2: "e2 = None" "goes calm h2 h'" by auto
    have "length buf \<le> length d" using buf n less.prems(4) by linarith
    with r(1) obtain d' where d': "d = buf @ d'" "r = d' @ rest" by (auto simp: append_eq_append_conv2)
    have "pending h2 (d' @ rest)" using other [OF r(2) _ a2] d' by simp
    moreover have "retr_data feed os t (sz - int (length buf)) (feed (bytes_of buf) c) h2 = (x, h')"
      using less.prems(1) e1 e2 buf unfolding eq by simp
    moreover have "length d' < length d" "int (length d') = sz - int (length buf)"
      using d' buf(1) less.prems(4) by auto
    ultimately have i: "x = Some (feed (bytes_of d') (feed (bytes_of buf) c))" "goes (\<lambda>k. written t k = d') h2 h'"
      "pending h' rest" using less.hyps [OF _ _ e2(2)] by blast+
    have "goes (\<lambda>k. written t k = buf) h h2"
      by (rule goes_append [OF quiet_answer [OF a1] goes_answer [OF a2, of "\<lambda>k. written t k = buf"]])
        (auto simp: written_append e2)
    from goes_append [OF this i(2)] have "goes (\<lambda>k. written t k = d) h h'" by (auto simp: written_append d')
    with i assms(5) show ?thesis by (simp add: chunked_def bytes_of_def d')
  qed
qed

lemma end_of_stream:
  assumes "retr_end os t b64 tc h = ((r, t'), h')" "goes calm h h'" "pending h (''.'' @ CRLF @ rest)"
    "b64 = None \<or> b64 = Some tc"
  shows "r = 0 \<and> t' = t \<and> quiet t h h'"
proof -
  obtain e1 h1 where a1: "answer os (Close t) h = (e1, h1)" by force
  obtain e2 h2 where a2: "answer os GetLine h1 = (e2, h2)" by force
  have eq: "((r, t'), h') = (if e1 \<noteq> None then discard os t (-1) h1 else if e2 \<noteq> None then discard os t (-1) h2
      else if strcmp (os_line os h2) ''.'' \<noteq> 0 then discard os t (-1) h2 else ((0, t), h2))"
    using assms(1,4) a1 a2 by (auto simp: retr_end_def split: option.splits)
  have any2: "goes (\<lambda>k. True) h2 h'" if "e1 = None"
    using eq that by (auto intro: goes_nil dest!: sym [of "((r, t'), h')"] discard_any split: if_splits)
  have any1: "goes (\<lambda>k. True) h1 h'"
    using eq any2 any_answer [OF a2] goes_any_trans discard_any [of os t "-1" h1 "(r, t')" h'] by (cases e1) auto
  from calm_step [OF assms(2) a1 any1] have e1: "e1 = None" "goes calm h1 h'" by auto
  have p1: "pending h1 (''.'' @ CRLF @ rest)" using other [OF assms(3) _ a1] by simp
  from calm_step [OF e1(2) a2 any2 [OF e1(1)]] have e2: "e2 = None" by auto
  from get_line [OF p1 _ a2 [unfolded e2]] have "os_line os h2 = ''.''" by (simp add: one_line_def)
  with eq e1 e2 quiet_trans [OF quiet_answer [OF a1] quiet_answer [OF a2]] show ?thesis by simp
qed

lemma file_of_stream:
  assumes "retr_file opt os t sz tc h = ((r, t'), h')" "goes calm h h'"
    "pending h (d @ ''.'' @ CRLF @ rest)" "int (length d) = sz" "digest_fine opt" "checksum_ok opt tc d"
  shows "r = 0 \<and> t' = t \<and> goes (\<lambda>k. written t k = d) h h'"
proof -
  obtain e1 h1 where a1: "answer os (Create t) h = (e1, h1)" by force
  obtain ok h2 where w: "with_prefix opt os t (Create t) h = (ok, h2)" by force
  have wany: "goes (\<lambda>k. True) h1 h2"
  proof (cases "create_prefix opt \<and> e1 = Some ENOENT")
    case True
    obtain b h3 where m: "mkprefix os (euid opt) t h1 = (b, h3)" by force
    have "goes (\<lambda>k. True) h1 h3" using goes_mono [OF mkprefix_opens_nothing [OF m]] by simp
    with w a1 True m show ?thesis
      by (auto simp: with_prefix_def split: bool.splits prod.splits intro: any_answer goes_any_trans)
  qed (use w a1 in \<open>auto simp: with_prefix_def goes_nil split: option.splits if_splits\<close>)
  note any2 = retr_file_rest [OF assms(1) w]
  from calm_step [OF assms(2) a1 goes_any_trans [OF wany any2]] have e1: "e1 = None" "goes calm h1 h'" by auto
  with w a1 have ok: "ok" "h2 = h1" by (auto simp: with_prefix_def)
  have p1: "pending h1 (d @ ''.'' @ CRLF @ rest)" using other [OF assms(3) _ a1] by simp
  have q1: "quiet t h h1" using quiet_answer [OF a1] by simp
  have whole: ?thesis
    if dt: "retr_data feed os t sz c h1 = (x, h3)" "chunked feed"
      and e: "(case x of None \<Rightarrow> discard os t (-1) (snd (answer os (Close t) h3))
        | Some c \<Rightarrow> retr_end os t (b64 c) tc h3) = ((r, t'), h')"
      and b: "b64 (feed (bytes_of d) c) = None \<or> b64 (feed (bytes_of d) c) = Some tc"
    for feed :: "byte list \<Rightarrow> 'x \<Rightarrow> 'x" and c x h3 b64
  proof -
    have any3: "goes (\<lambda>k. True) h3 h'" using e by (auto dest: close_any retr_end_any split: option.splits)
    obtain k1 k2 where k: "h3 = h1 @ k1" "h' = h3 @ k2"
      using any3 retr_data_any [OF dt(1)] by (auto simp: goes_def)
    have c3: "goes calm h1 h3" "goes calm h3 h'"
      using e1(2) k by (auto simp: goes_def calm_def)
    from data_of_stream [OF dt(1) c3(1) p1 assms(4) dt(2)] have x: "x = Some (feed (bytes_of d) c)"
      "goes (\<lambda>k. written t k = d) h1 h3" "pending h3 (''.'' @ CRLF @ rest)" by auto
    with e have "retr_end os t (b64 (feed (bytes_of d) c)) tc h3 = ((r, t'), h')" by simp
    from end_of_stream [OF this c3(2) x(3) b] have z: "r = 0" "t' = t" "quiet t h3 h'" by auto
    have "goes (\<lambda>k. written t k = d) h h3" using goes_append [OF q1 x(2)] by (auto simp: written_append)
    from goes_append [OF this z(3)] have "goes (\<lambda>k. written t k = d) h h'" by (auto simp: written_append)
    with z show ?thesis by simp
  qed
  show ?thesis
  proof (cases "checksum_md opt")
    case None
    obtain x h3 where dt: "retr_data (\<lambda>bs c. c) os t sz () h1 = (x, h3)" by force
    show ?thesis
      by (rule whole [OF dt, of "\<lambda>c. None"])
        (use assms(1) None w ok dt in \<open>simp_all add: chunked_def retr_file_def split: option.splits\<close>)
  next
    case (Some md)
    obtain x h3 where dt: "retr_data (\<lambda>bs c. d_update md c bs) os t sz (d_init md) h1 = (x, h3)" by force
    show ?thesis
      by (rule whole [OF dt, of "\<lambda>c. Some (base64_e (d_final md c))"])
        (use assms(1,5,6) Some w ok dt in \<open>simp_all add: digest_fine_def checksum_ok_def retr_file_def split: option.splits\<close>)
  qed
qed

lemma retr_of_stream:
  assumes "retr opt os pathdesc path transize tc h = ((r, t), h')" "goes calm h h'"
    and p: "pending h (l @ CRLF @ print_int (int (length d)) @ CRLF @ d @ ''.'' @ CRLF @ rest)"
    and l: "one_line l" "char_at l 0 = CHR ''2''" and d: "int (length d) < 2 ^ 63"
    and c: "digest_fine opt" "checksum_ok opt tc d" and sz: "transize < 0 \<or> transize = int (length d)"
    and n: "length (temp_name opt path) < MAXPATHLEN"
  shows "r = 0 \<and> t = temp_name opt path \<and> goes (\<lambda>k. written t k = d) h h'"
proof -
  let ?t = "temp_name opt path"
  obtain e1 h1 where a1: "answer os (Send (''RETR '' @ pathdesc @ [NL])) h = (e1, h1)" by force
  obtain e2 h2 where a2: "answer os GetLine h1 = (e2, h2)" by force
  obtain e3 h3 where a3: "answer os GetLine h2 = (e3, h3)" by force
  have tc: "\<not> (checksum_md opt \<noteq> None \<and> strcmp tc ''-'' = 0)"
    using c(2) by (auto simp: checksum_ok_def strcmp_0 c_string_base64 split: option.splits)
  have sn: "snprintf MAXPATHLEN (path @ ''.radmind.'' @ print_int (pid opt)) = Some ?t"
    using n by (simp add: temp_name_def)
  define last where "last = (if 0 \<le> transize \<and> strtol 10 (os_line os h3) \<noteq> transize then ((-1, []), h3)
      else retr_file opt os ?t (strtol 10 (os_line os h3)) tc h3)"
  have "retr opt os pathdesc path transize tc h = (if e1 \<noteq> None then ((-1, []), h1) else if e2 \<noteq> None then ((-1, []), h2)
      else if char_at (os_line os h2) 0 \<noteq> CHR ''2'' then ((1, []), h2)
      else if e3 \<noteq> None then ((-1, []), h3) else last)"
    unfolding retr_def if_not_P [OF tc] last_def a1 a2 a3 prod.case Let_def sn option.case
    by (cases e1; cases e2; cases e3) (simp_all only: option.case option.simps if_False if_True a2 a3 prod.case sn simp_thms)
  note eq = this [unfolded assms(1), symmetric]
  have any3: "goes (\<lambda>k. True) h3 h'" if "last = ((r, t), h')"
    using that retr_file_any unfolding last_def by (auto intro: goes_nil split: if_splits)
  have any2: "goes (\<lambda>k. True) h2 h'" if "e1 = None" "e2 = None"
  proof (cases "last = ((r, t), h')")
    case True
    from any_answer [OF a3] any3 [OF True] show ?thesis by (rule goes_any_trans)
  qed (use eq that any_answer [OF a3] in \<open>auto intro: goes_nil split: if_splits\<close>)
  have any1: "goes (\<lambda>k. True) h1 h'"
  proof (cases "e1 = None \<and> e2 = None")
    case True
    with any2 have "goes (\<lambda>k. True) h2 h'" by simp
    with any_answer [OF a2] show ?thesis by (rule goes_any_trans)
  qed (use eq any_answer [OF a2] in \<open>auto intro: goes_nil split: if_splits\<close>)
  from calm_step [OF assms(2) a1 any1] have e1: "e1 = None" "goes calm h1 h'" by auto
  have p1: "pending h1 (l @ CRLF @ print_int (int (length d)) @ CRLF @ d @ ''.'' @ CRLF @ rest)"
    using other [OF p _ a1] by simp
  have any2': "goes (\<lambda>k. True) h2 h'"
    using eq e1 any2 by (cases e2) (auto intro: goes_nil)
  from calm_step [OF e1(2) a2 any2'] have e2: "e2 = None" "goes calm h2 h'" by auto
  from get_line [OF p1 l(1) a2 [unfolded e2]] have l2: "os_line os h2 = l"
    and p2: "pending h2 (print_int (int (length d)) @ CRLF @ d @ ''.'' @ CRLF @ rest)" by auto
  have any3': "goes (\<lambda>k. True) h3 h'"
    using eq e1 e2 l2 l(2) any3 by (cases e3) (simp_all add: goes_nil)
  from calm_step [OF e2(2) a3 any3'] have e3: "e3 = None" "goes calm h3 h'" by auto
  from get_line [OF p2 one_line_print_int a3 [unfolded e3]] have l3: "os_line os h3 = print_int (int (length d))"
    and p3: "pending h3 (d @ ''.'' @ CRLF @ rest)" by auto
  have z: "strtol 10 (os_line os h3) = int (length d)" using d by (simp add: l3 strtol_print_int)
  with eq e1 e2 e3 l2 l(2) sz have f: "retr_file opt os ?t (int (length d)) tc h3 = ((r, t), h')"
    by (auto simp: last_def)
  have q: "quiet ?t h h3"
    by (rule quiet_trans [OF quiet_trans [OF quiet_answer [OF a1] quiet_answer [OF a2]] quiet_answer [OF a3]]) simp_all
  from file_of_stream [OF f e3(2) p3 refl c] have w: "r = 0" "t = ?t" "goes (\<lambda>k. written ?t k = d) h3 h'" by auto
  have "goes (\<lambda>k. written ?t k = d) h h'" using goes_append [OF q w(3)] by (auto simp: written_append)
  with w show ?thesis by simp
qed

end

section \<open>A stream known from the start\<close>

text \<open>
  The peer of this system has sent the bytes \<open>s\<close> once the calls \<open>h0\<close> are made; lines end in \<open>CRLF\<close>. All
  other answers are those of the system \<open>os\<close>.
\<close>

definition first_line :: "string \<Rightarrow> string" where
  "first_line s = takeWhile (\<lambda>c. c \<noteq> CR \<and> c \<noteq> NL) s"

fun unread :: "string \<Rightarrow> history \<Rightarrow> string" where
  "unread s [] = s"
| "unread s (Did GetLine None # k) = unread (drop (length (first_line s) + 2) s) k"
| "unread s (Did (Recv n) None # k) = unread (drop n s) k"
| "unread s (x # k) = unread s k"

definition stream_os :: "os \<Rightarrow> history \<Rightarrow> string \<Rightarrow> os" where
  "stream_os os h0 s = os\<lparr>os_line := \<lambda>h. first_line (unread s (butlast (drop (length h0) h))),
     os_recv := \<lambda>h. unread s (butlast (drop (length h0) h))\<rparr>"

definition unread_after :: "history \<Rightarrow> string \<Rightarrow> history \<Rightarrow> string \<Rightarrow> bool" where
  "unread_after h0 s h r \<longleftrightarrow> (\<exists>k. h = h0 @ k \<and> r = unread s k)"

lemma unread_append: "unread s (k @ l) = unread (unread s k) l"
  by (induction s k rule: unread.induct) simp_all

lemma unread_other: "\<not> reads_peer c \<Longrightarrow> unread s [Did c e] = s"
  by (cases c) auto

lemma first_line_app: "one_line l \<Longrightarrow> first_line (l @ CRLF @ r) = l"
  by (auto simp: first_line_def one_line_def takeWhile_tail)

interpretation sent_stream: byte_stream "stream_os os h0 s" "unread_after h0 s" for os h0 s
proof
  fix h l r h1
  assume a: "unread_after h0 s h (l @ CRLF @ r)" "one_line l" "answer (stream_os os h0 s) GetLine h = (None, h1)"
  then obtain k where k: "h = h0 @ k" "unread s k = l @ CRLF @ r" by (auto simp: unread_after_def)
  from a(3) k have h1: "h1 = h0 @ (k @ [Did GetLine None])" by (auto simp: answer_split)
  have "unread s (k @ [Did GetLine None]) = r"
    unfolding unread_append k(2) using first_line_app [OF a(2), of r] by simp
  moreover have "os_line (stream_os os h0 s) h1 = l"
    using first_line_app [OF a(2), of r] k(2) by (simp add: stream_os_def h1 butlast_append)
  ultimately show "os_line (stream_os os h0 s) h1 = l \<and> unread_after h0 s h1 r"
    using h1 by (auto simp: unread_after_def)
next
  fix h r n h1
  assume a: "unread_after h0 s h r" "answer (stream_os os h0 s) (Recv n) h = (None, h1)"
  then obtain k where k: "h = h0 @ k" "unread s k = r" by (auto simp: unread_after_def)
  from a(2) k have h1: "h1 = h0 @ (k @ [Did (Recv n) None])" by (auto simp: answer_split)
  have "os_recv (stream_os os h0 s) h1 = r" using k(2) by (simp add: stream_os_def h1 butlast_append)
  moreover have "unread_after h0 s h1 (drop n r)" using h1 k(2) by (auto simp: unread_after_def unread_append)
  ultimately show "\<exists>q. r = take n (os_recv (stream_os os h0 s) h1) @ q \<and> unread_after h0 s h1 q \<and>
      (0 < n \<longrightarrow> r \<noteq> [] \<longrightarrow> os_recv (stream_os os h0 s) h1 \<noteq> [])"
    by (intro exI [of _ "drop n r"]) simp
next
  fix h r c e h1
  assume a: "unread_after h0 s h r" "\<not> reads_peer c" "answer (stream_os os h0 s) c h = (e, h1)"
  then obtain k where k: "h = h0 @ k" "unread s k = r" by (auto simp: unread_after_def)
  with a(3) have "h1 = h0 @ (k @ [Did c e])" by (auto simp: answer_split)
  moreover have "unread s (k @ [Did c e]) = r" by (simp add: unread_append k(2) unread_other [OF a(2)])
  ultimately show "unread_after h0 s h1 r" by (auto simp: unread_after_def)
qed

section \<open>What the server sends\<close>

lemma retr_send_sent:
  assumes "retr_send os path s = (Rc 0, s')"
  shows "\<exists>h1 h2. sent (hist s') = sent (hist s) @ ''240 Retrieving file'' @ CRLF @
    print_int (st_size (os_stat os h1 path)) @ CRLF @ chars_of (read_all (os_bytes os h2 path)) @ ''.'' @ CRLF \<and>
    h1 = hist s @ [Did (Open path) None, Did (Fstat path) None]"
proof -
  obtain e1 s1 where c1: "do_call os (Open path) s = (e1, s1)" by force
  obtain e2 s2 where c2: "do_call os (Fstat path) s1 = (e2, s2)" by force
  define line where "line = ''240 Retrieving file'' @ CRLF @ print_int (st_size (os_stat os (hist s2) path)) @ CRLF"
  define s3 where "s3 = say os line s2"
  obtain r s4 where l: "retr_loop os (os_bytes os (hist s3) path) s3 = (r, s4)" by force
  obtain e5 s5 where c5: "do_call os (Close path) (say os (''.'' @ CRLF) s4) = (e5, s5)" by force
  from assms c1 c2 l c5 have "e1 = None" "e2 = None" "r" "s' = s5"
    by (auto simp: retr_send_def Let_def s3_def line_def split: option.splits bool.splits prod.splits)
  moreover from this retr_loop_sent [of os "os_bytes os (hist s3) path" s3 s4] l
  have "sent (hist s4) = sent (hist s3) @ chars_of (read_all (os_bytes os (hist s3) path))" by simp
  moreover obtain a where "hist s3 = hist s2 @ [Did (Send line) a]" using hist_say [of os line s2] by (auto simp: s3_def)
  moreover obtain b where "hist (say os (''.'' @ CRLF) s4) = hist s4 @ [Did (Send (''.'' @ CRLF)) b]"
    using hist_say [of os "''.'' @ CRLF" s4] by auto
  ultimately show ?thesis
    using do_call_event [OF c1] do_call_event [OF c2] do_call_event [OF c5]
    by (intro exI [of _ "hist s2"] exI [of _ "hist s3"]) (simp add: sent_append line_def)
qed

text \<open>Both ends of a download.\<close>

lemma download_whole:
  assumes "retr_send sos file s = (Rc 0, s')" "sent (hist s') = sent (hist s) @ stream"
    and data: "\<forall>h. chars_of (read_all (os_bytes sos h file)) = d" "\<forall>h. st_size (os_stat sos h file) = int (length d)"
    and client: "retr opt (stream_os os h stream) pathdesc path transize tc h = ((r, t), h @ k)" "calm k"
    and opt: "digest_fine opt" "checksum_ok opt tc d" "transize < 0 \<or> transize = int (length d)"
    and len: "length (temp_name opt path) < MAXPATHLEN" "int (length d) < 2 ^ 63"
  shows "r = 0 \<and> t = temp_name opt path \<and> written t k = d"
proof -
  from retr_send_sent [OF assms(1)] assms(2) data have
    x: "stream = ''240 Retrieving file'' @ CRLF @ print_int (int (length d)) @ CRLF @ d @ ''.'' @ CRLF"
    by auto
  have p: "unread_after h stream h (''240 Retrieving file'' @ CRLF @ print_int (int (length d)) @ CRLF @ d @ ''.'' @ CRLF @ [])"
    unfolding x unread_after_def by simp
  have g: "goes calm h (h @ k)" using client(2) by (auto simp: goes_def)
  have l: "one_line ''240 Retrieving file''" "char_at ''240 Retrieving file'' 0 = CHR ''2''" by code_simp+
  from sent_stream.retr_of_stream [OF client(1) g p l len(2) opt len(1)] show ?thesis by (auto simp: goes_def)
qed

end
