(* ===== verification/UploadReplies.thy ===== *)
theory UploadReplies
  imports Upload Stream
begin

text \<open>
  What an upload sends, what the server makes of it, and in which order \<open>lcreate\<close> gets its answers.
\<close>

section \<open>What \<open>stor_file\<close> sends\<close>

lemma all_ret_option_pair:
  "(\<And>h1. m = (None, h1) \<Longrightarrow> all_ret P (f h1)) \<Longrightarrow> (\<And>e h1. m = (Some e, h1) \<Longrightarrow> all_ret P (g e h1)) \<Longrightarrow>
     all_ret P (case m of (None, h) \<Rightarrow> f h | (Some e, h) \<Rightarrow> g e h)"
  by (auto split: prod.split option.split)

lemma goes_sent: "answer os (Send t) h = (e, h') \<Longrightarrow> goes (\<lambda>k. sent k = t) h h'"
  by (erule goes_answer) simp

lemma sent_nothing:
  assumes "answer os c h = (e, h')" "\<And>t. c \<noteq> Send t"
  shows "goes (\<lambda>k. sent k = []) h h'"
  using goes_answer [OF assms(1), of "\<lambda>k. sent k = []"] assms(2) by (cases c) auto

lemma goes_sent_append:
  "goes (\<lambda>k. sent k = t) h h1 \<Longrightarrow> goes (\<lambda>k. sent k = u) h1 h2 \<Longrightarrow> goes (\<lambda>k. sent k = t @ u) h h2"
  by (erule (1) goes_append) (simp add: sent_append)

lemma stor_data_sent:
  assumes "stor_data feed os rs n c h = Ret (Some (left, c'), h')" "chunked feed"
  shows "goes (\<lambda>k. sent k = chars_of (read_all rs)) h h' \<and> left = n - int (length (read_all rs)) \<and>
    c' = feed (read_all rs) c"
  using assms(1)
proof (induction rs arbitrary: n c h)
  case Nil
  with assms(2) show ?case by (simp add: goes_nil chunked_def chars_of_def)
next
  case (Cons r rs)
  show ?case
  proof (cases r)
    case (Bytes bs)
    show ?thesis
    proof (cases "bs = []")
      case True
      with Bytes Cons.prems assms(2) show ?thesis by (simp add: goes_nil chunked_def chars_of_def)
    next
      case False
      with Bytes Cons.prems obtain h1 where a: "answer os (Send (chars_of bs)) h = (None, h1)"
        and d: "stor_data feed os rs (n - int (length bs)) (feed bs c) h1 = Ret (Some (left, c'), h')"
        by (auto split: option.splits prod.splits)
      from Cons.IH [OF d] have i: "goes (\<lambda>k. sent k = chars_of (read_all rs)) h1 h'"
        "left = n - int (length bs) - int (length (read_all rs))" "c' = feed (read_all rs) (feed bs c)" by auto
      have "goes (\<lambda>k. sent k = chars_of bs @ chars_of (read_all rs)) h h'"
        by (rule goes_sent_append [OF goes_sent [OF a] i(1)])
      with i False Bytes assms(2) show ?thesis by (simp add: chunked_def chars_of_def)
    qed
  qed (use Cons.prems in simp)
qed

lemma stor_end_sent:
  assumes "stor_end opt os path tc b64 n h = Ret (0, h')"
  shows "n = 0 \<and> goes (\<lambda>k. sent k = ''.'' @ CRLF) h h' \<and> (\<forall>c. b64 = Some c \<longrightarrow> u_force opt \<or> strcmp tc c = 0)"
proof -
  obtain e1 h1 where a1: "answer os (Send (''.'' @ CRLF)) h = (e1, h1)" by force
  obtain e2 h2 where a2: "answer os (Close path) h1 = (e2, h2)" by force
  have r: "n = 0" "h' = h2" "\<forall>c. b64 = Some c \<longrightarrow> u_force opt \<or> strcmp tc c = 0"
    using assms a1 a2 by (auto simp: stor_end_def split: option.splits if_splits)
  have "goes (\<lambda>k. sent k = (''.'' @ CRLF) @ []) h h2"
    by (rule goes_sent_append [OF goes_sent [OF a1] sent_nothing [OF a2]]) simp
  with r show ?thesis by simp
qed

definition upload_ok :: "'c upload_options \<Rightarrow> string \<Rightarrow> byte list \<Rightarrow> bool" where
  "upload_ok opt tc d \<longleftrightarrow>
     (case u_md opt of
        None \<Rightarrow> True
      | Some md \<Rightarrow> u_force opt \<or> tc = base64_e (d_final md (d_update md (d_init md) d)))"

definition u_digest_fine :: "'c upload_options \<Rightarrow> bool" where
  "u_digest_fine opt \<longleftrightarrow> (\<forall>md. u_md opt = Some md \<longrightarrow> chunked (\<lambda>bs c. d_update md c bs))"

lemma send_file_sent:
  assumes "send_file opt os path tc n h = Ret (0, h')" "u_digest_fine opt" "c_string tc"
  defines "d \<equiv> read_all (os_bytes os h path)"
  shows "goes (\<lambda>k. sent k = chars_of d @ ''.'' @ CRLF) h h' \<and> n = int (length d) \<and> upload_ok opt tc d"
proof -
  have whole: ?thesis if "stor_data feed os (os_bytes os h path) n c h = Ret (Some (left, c'), h1)" "chunked feed"
    "stor_end opt os path tc b64 left h1 = Ret (0, h')"
    "c' = feed d c \<Longrightarrow> \<forall>x. b64 = Some x \<longrightarrow> u_force opt \<or> strcmp tc x = 0 \<Longrightarrow> upload_ok opt tc d"
    for feed :: "byte list \<Rightarrow> 'x \<Rightarrow> 'x" and c left c' h1 b64
  proof -
    from stor_data_sent [OF that(1,2)] have x: "goes (\<lambda>k. sent k = chars_of d) h h1"
      "left = n - int (length d)" "c' = feed d c" by (auto simp: d_def)
    from stor_end_sent [OF that(3)] have y: "left = 0" "goes (\<lambda>k. sent k = ''.'' @ CRLF) h1 h'"
      "\<forall>x. b64 = Some x \<longrightarrow> u_force opt \<or> strcmp tc x = 0" by auto
    from goes_sent_append [OF x(1) y(2)] x y that(4) show ?thesis by simp
  qed
  show ?thesis
  proof (cases "u_md opt")
    case None
    with assms(1) obtain left c h1 where "stor_data (\<lambda>bs c. c) os (os_bytes os h path) n () h = Ret (Some (left, c), h1)"
      "stor_end opt os path tc None left h1 = Ret (0, h')"
      by (auto simp: send_file_def obind_Ret_iff split: option.splits)
    from whole [OF this(1) _ this(2)] None show ?thesis by (simp add: chunked_def upload_ok_def)
  next
    case (Some md)
    with assms(1) obtain left c h1 where r: "stor_data (\<lambda>bs c. d_update md c bs) os (os_bytes os h path) n (d_init md) h = Ret (Some (left, c), h1)"
      and e: "stor_end opt os path tc (Some (base64_e (d_final md c))) left h1 = Ret (0, h')"
      by (auto simp: send_file_def obind_Ret_iff split: option.splits)
    have u: "chunked (\<lambda>bs c. d_update md c bs)" using assms(2) Some by (simp add: u_digest_fine_def)
    show ?thesis
      by (rule whole [OF r u e]) (use assms(3) Some in \<open>auto simp: upload_ok_def strcmp_0 c_string_base64\<close>)
  qed
qed

text \<open>A successful \<open>stor_file\<close>: the request, the size and the contents of the file.\<close>

lemma stor_file_sent:
  assumes "c_stor_file opt os pathdesc path transize tc h = Ret (0, h')" "u_digest_fine opt" "c_string tc"
  shows "\<exists>h1. let d = read_all (os_bytes os h1 path) in
    goes (\<lambda>k. sent k = pathdesc @ CRLF @ print_int (int (length d)) @ CRLF @ chars_of d @ ''.'' @ CRLF) h h' \<and>
    upload_ok opt tc d \<and> (u_force opt \<or> int (length d) = transize)"
proof -
  obtain e1 h1 where a1: "answer os (Open path) h = (e1, h1)" by force
  obtain e2 h2 where a2: "answer os (Fstat path) h1 = (e2, h2)" by force
  define n where "n = st_size (os_stat os h2 path)"
  obtain e3 h3 where a3: "answer os (Send (pathdesc @ CRLF)) h2 = (e3, h3)" by force
  obtain e4 h4 where a4: "answer os (Send (print_int n @ CRLF)) h3 = (e4, h4)" by force
  have "n = transize \<or> u_force opt" and f: "send_file opt os path tc n h4 = Ret (0, h')"
    using assms(1) a1 a2 a3 a4 by (auto simp: c_stor_file_def Let_def n_def split: option.splits if_splits)
  moreover from send_file_sent [OF f assms(2,3)] have s: "n = int (length (read_all (os_bytes os h4 path)))"
    "goes (\<lambda>k. sent k = chars_of (read_all (os_bytes os h4 path)) @ ''.'' @ CRLF) h4 h'"
    "upload_ok opt tc (read_all (os_bytes os h4 path))" by auto
  moreover have "goes (\<lambda>k. sent k = ([] @ [] @ (pathdesc @ CRLF) @ (print_int n @ CRLF)) @
      chars_of (read_all (os_bytes os h4 path)) @ ''.'' @ CRLF) h h'"
    by (intro goes_sent_append [OF _ s(2)] goes_sent_append [OF sent_nothing [OF a1]]
        goes_sent_append [OF sent_nothing [OF a2]] goes_sent_append [OF goes_sent [OF a3]] goes_sent [OF a4]) simp_all
  ultimately show ?thesis by (intro exI [of _ h4]) (auto simp: Let_def)
qed

section \<open>What the server makes of it\<close>

lemma do_call_answer: "do_call os c s = (e, s1) \<Longrightarrow> answer os c (hist s) = (e, hist s1)"
  by (auto simp: do_call_def split: prod.splits)

lemma say_answer: "answer os (Send t) (hist s) = (fst (do_call os (Send t) s), hist (say os t s))"
  by (cases "do_call os (Send t) s") (auto simp: say_def dest: do_call_answer)

lemma stor_loop_eq:
  assumes "\<not> n \<le> 0" "do_call os (Recv (nat (min n 8192))) s = (e1, s1)"
    "buf = take (nat (min n 8192)) (os_recv os (hist s1))" "do_call os (Write up buf) s1 = (e2, s2)"
  shows "stor_loop os up n s = (if e1 \<noteq> None \<or> buf = [] then (Inl (Rc (-1)), s1)
    else case e2 of Some e \<Rightarrow> (Inl (Quit 1), reply os 555 (up @ '': '' @ os_strerror os e) s2)
      | None \<Rightarrow> stor_loop os up (n - int (length buf)) s2)"
  using assms by (subst stor_loop.simps) (auto simp: Let_def split: option.split)

lemma stor_loop_any: "stor_loop os up n s = (r, s') \<Longrightarrow> goes (\<lambda>k. True) (hist s) (hist s')"
proof (induction os up n s rule: stor_loop.induct)
  case (1 os up n s)
  show ?case
  proof (cases "n \<le> 0")
    case True
    with "1.prems" show ?thesis by (simp add: stor_loop.simps [of os up n] goes_nil)
  next
    case False
    define m where "m = nat (min n 8192)"
    obtain e1 s1 where c1: "do_call os (Recv m) s = (e1, s1)" by force
    define buf where "buf = take m (os_recv os (hist s1))"
    obtain e2 s2 where c2: "do_call os (Write up buf) s1 = (e2, s2)" by force
    have g1: "goes (\<lambda>k. True) (hist s) (hist s1)" by (rule any_answer [OF do_call_answer [OF c1]])
    have g2: "goes (\<lambda>k. True) (hist s) (hist s2)"
      by (rule goes_any_trans [OF g1 any_answer [OF do_call_answer [OF c2]]])
    have eq: "(r, s') = (if e1 \<noteq> None \<or> buf = [] then (Inl (Rc (-1)), s1)
        else case e2 of Some e \<Rightarrow> (Inl (Quit 1), reply os 555 (up @ '': '' @ os_strerror os e) s2)
          | None \<Rightarrow> stor_loop os up (n - int (length buf)) s2)"
      using stor_loop_eq [OF False c1 [unfolded m_def] buf_def [unfolded m_def] c2] "1.prems" by simp
    show ?thesis
    proof (cases "e1 \<noteq> None \<or> buf = []")
      case True
      with eq g1 show ?thesis by simp
    next
      case b: False
      show ?thesis
      proof (cases e2)
        case None
        with eq b have "stor_loop os up (n - int (length buf)) s2 = (r, s')" by simp
        from "1.IH" [OF False m_def c1 [symmetric] _ buf_def _ c2 [symmetric] None this] b
        have "goes (\<lambda>k. True) (hist s2) (hist s')" by simp
        with g2 show ?thesis by (rule goes_any_trans)
      next
        case (Some e)
        with eq b have "s' = reply os 555 (up @ '': '' @ os_strerror os e) s2" by simp
        with goes_any_trans [OF g2 any_answer [OF say_answer]] show ?thesis by (simp add: reply_def)
      qed
    qed
  qed
qed

context byte_stream
begin

lemma loop_of_stream:
  assumes "stor_loop os up n s = (r, s')" "goes calm (hist s) (hist s')" "pending (hist s) (d @ rest)" "int (length d) = n"
  shows "r = Inr 0 \<and> goes (\<lambda>k. written up k = d) (hist s) (hist s') \<and> pending (hist s') rest"
  using assms
proof (induction "length d" arbitrary: n s d rule: less_induct)
  case less
  show ?case
  proof (cases "n \<le> 0")
    case True
    then have "d = []" using less.prems(4) by (cases d) auto
    with True less.prems show ?thesis by (auto simp: stor_loop.simps goes_nil)
  next
    case False
    define m where "m = nat (min n 8192)"
    obtain e1 s1 where c1: "do_call os (Recv m) s = (e1, s1)" by force
    define buf where "buf = take m (os_recv os (hist s1))"
    obtain e2 s2 where c2: "do_call os (Write up buf) s1 = (e2, s2)" by force
    note a1 = do_call_answer [OF c1] and a2 = do_call_answer [OF c2]
    have eq: "(r, s') = (if e1 \<noteq> None \<or> buf = [] then (Inl (Rc (-1)), s1)
        else case e2 of Some e \<Rightarrow> (Inl (Quit 1), reply os 555 (up @ '': '' @ os_strerror os e) s2)
          | None \<Rightarrow> stor_loop os up (n - int (length buf)) s2)"
      using stor_loop_eq [OF False c1 [unfolded m_def] buf_def [unfolded m_def] c2] less.prems(1) by simp
    have any2: "goes (\<lambda>k. True) (hist s2) (hist s')" if "\<not> (e1 \<noteq> None \<or> buf = [])"
      using eq that stor_loop_any [OF sym] any_answer [OF say_answer [of os _ s2]] by (cases e2) (auto simp: reply_def)
    have any1: "goes (\<lambda>k. True) (hist s1) (hist s')"
      using eq any2 any_answer [OF a2] by (cases "e1 \<noteq> None \<or> buf = []") (auto intro: goes_nil goes_any_trans)
    from calm_step [OF less.prems(2) a1 any1] have e1: "e1 = None" "goes calm (hist s1) (hist s')" by auto
    have m: "0 < m" "int m \<le> n" using False by (auto simp: m_def)
    from recv [OF less.prems(3) a1 [unfolded e1]] obtain q where q: "d @ rest = buf @ q" "pending (hist s1) q"
      and b: "os_recv os (hist s1) \<noteq> []"
      using m False less.prems(4) by (auto simp: buf_def)
    have buf: "buf \<noteq> []" "length buf \<le> m" using b m by (auto simp: buf_def)
    from calm_step [OF e1(2) a2 any2] e1 buf have e2: "e2 = None" "goes calm (hist s2) (hist s')" by auto
    have "length buf \<le> length d" using buf m less.prems(4) by linarith
    with q(1) obtain d' where d': "d = buf @ d'" "q = d' @ rest" by (auto simp: append_eq_append_conv2)
    have "pending (hist s2) (d' @ rest)" using other [OF q(2) _ a2] d' by simp
    moreover have "stor_loop os up (n - int (length buf)) s2 = (r, s')" using eq e1 e2 buf by simp
    moreover have "length d' < length d" "int (length d') = n - int (length buf)"
      using d' buf(1) less.prems(4) by auto
    ultimately have i: "r = Inr 0" "goes (\<lambda>k. written up k = d') (hist s2) (hist s')" "pending (hist s') rest"
      using less.hyps [OF _ _ e2(2)] by blast+
    have "goes (\<lambda>k. written up k = buf) (hist s) (hist s2)"
      by (rule goes_append [OF quiet_answer [OF a1] goes_answer [OF a2, of "\<lambda>k. written up k = buf"]])
        (auto simp: written_append e2)
    from goes_append [OF this i(2)] have "goes (\<lambda>k. written up k = d) (hist s) (hist s')" by (auto simp: written_append d')
    with i show ?thesis by simp
  qed
qed

lemma receive_of_stream:
  assumes "stor_receive os up s = (r, s')" "goes calm (hist s) (hist s')"
    and p: "pending (hist s) (print_int (int (length d)) @ CRLF @ d @ ''.'' @ CRLF @ rest)" and d: "int (length d) < 2 ^ 63"
  shows "r = Rc 0 \<and> goes (\<lambda>k. written up k = d) (hist s) (hist s')"
proof -
  define s1 where "s1 = reply os 350 ''Storing file'' s"
  obtain e1 where a1: "answer os (Send (print_int 350 @ [SP] @ ''Storing file'' @ CRLF)) (hist s) = (e1, hist s1)"
    using say_answer by (fastforce simp: s1_def reply_def)
  obtain e2 s2 where c2: "do_call os GetLine s1 = (e2, s2)" by force
  obtain r3 s3 where c3: "stor_loop os up (strtol 10 (os_line os (hist s2))) s2 = (r3, s3)" by force
  obtain e4 s4 where c4: "do_call os (Close up) s3 = (e4, s4)" by force
  obtain e5 s5 where c5: "do_call os GetLine s4 = (e5, s5)" by force
  note a2 = do_call_answer [OF c2] and a4 = do_call_answer [OF c4] and a5 = do_call_answer [OF c5]
  let ?fail = "\<lambda>t s. (Quit 1, reply os 555 t s)"
  have eq: "(r, s') = (if e2 \<noteq> None then (Rc (-1), s2) else case r3 of Inl x \<Rightarrow> (x, s3) | Inr len \<Rightarrow>
      if len \<noteq> 0 then ?fail (up @ '': internal error!'') s3 else
      case e4 of Some e \<Rightarrow> ?fail (up @ '': '' @ os_strerror os e) s4 | None \<Rightarrow>
      if e5 \<noteq> None then (Rc (-1), s5)
      else if strcmp (os_line os (hist s5)) ''.'' \<noteq> 0
        then (Quit 1, snd (do_call os (Unlink up) (reply os 555 (''Length doesn't match sent data '' @ up) s5)))
      else (Rc 0, reply os 250 ''File stored'' s5))"
    using assms(1) c2 c3 c4 c5 unfolding stor_receive_def s1_def [symmetric] Let_def
    by (cases e2; cases r3; cases e4; cases e5) (simp_all only: prod.case option.case sum.case option.simps if_True if_False simp_thms)
  have say: "goes (\<lambda>k. True) (hist t) (hist (reply os n x t))" for n x t
    by (simp only: reply_def) (rule any_answer [OF say_answer])
  have unl: "goes (\<lambda>k. True) (hist t) (hist (snd (do_call os (Unlink up) t)))" for t
    by (cases "do_call os (Unlink up) t") (auto dest: do_call_answer any_answer)
  have any5: "goes (\<lambda>k. True) (hist s5) (hist s')" if "e2 = None" "r3 = Inr 0" "e4 = None"
    using eq that say goes_any_trans [OF say unl] by (auto intro: goes_nil split: if_splits)
  have any3: "goes (\<lambda>k. True) (hist s3) (hist s')" if "e2 = None"
    using eq that say any5 goes_any_trans [OF any_answer [OF a4] say] goes_any_trans [OF any_answer [OF a4] any_answer [OF a5]]
      goes_any_trans
    by (cases r3; cases e4) (auto intro: goes_nil split: if_splits)
  have any2: "goes (\<lambda>k. True) (hist s2) (hist s')"
    using eq any3 goes_any_trans [OF stor_loop_any [OF c3]] by (cases e2) (auto intro: goes_nil)
  have any1: "goes (\<lambda>k. True) (hist s1) (hist s')" by (rule goes_any_trans [OF any_answer [OF a2] any2])
  from calm_step [OF assms(2) a1 any1] have k1: "goes calm (hist s1) (hist s')" by simp
  have p1: "pending (hist s1) (print_int (int (length d)) @ CRLF @ d @ ''.'' @ CRLF @ rest)" using other [OF p _ a1] by simp
  from calm_step [OF k1 a2 any2] have e2: "e2 = None" "goes calm (hist s2) (hist s')" by auto
  from get_line [OF p1 one_line_print_int a2 [unfolded e2]] have l: "os_line os (hist s2) = print_int (int (length d))"
    and p2: "pending (hist s2) (d @ ''.'' @ CRLF @ rest)" by auto
  have n: "strtol 10 (os_line os (hist s2)) = int (length d)" using d by (simp add: l strtol_print_int)
  obtain ka kb where k: "hist s3 = hist s2 @ ka" "hist s' = hist s3 @ kb"
    using stor_loop_any [OF c3] any3 [OF e2(1)] by (auto simp: goes_def)
  have cc: "goes calm (hist s2) (hist s3)" "goes calm (hist s3) (hist s')"
    using e2(2) k by (auto simp: goes_def calm_def)
  from loop_of_stream [OF c3 [unfolded n] cc(1) p2 refl] have r3: "r3 = Inr 0"
    "goes (\<lambda>k. written up k = d) (hist s2) (hist s3)" and p3: "pending (hist s3) (''.'' @ CRLF @ rest)" by auto
  have any4: "goes (\<lambda>k. True) (hist s4) (hist s')"
    using eq e2(1) r3(1) say any5 goes_any_trans [OF any_answer [OF a5]] by (cases e4) auto
  from calm_step [OF cc(2) a4 any4] have e4: "e4 = None" "goes calm (hist s4) (hist s')" by auto
  have p4: "pending (hist s4) (''.'' @ CRLF @ rest)" using other [OF p3 _ a4] by simp
  from calm_step [OF e4(2) a5 any5 [OF e2(1) r3(1) e4(1)]] have e5: "e5 = None" by simp
  from get_line [OF p4 _ a5 [unfolded e5]] have l5: "os_line os (hist s5) = ''.''" by (simp add: one_line_def)
  have f: "(r, s') = (Rc 0, reply os 250 ''File stored'' s5)" using eq e2 r3 e4 e5 l5 by simp
  have q1: "quiet up (hist s) (hist s2)" by (rule quiet_trans [OF quiet_answer [OF a1] quiet_answer [OF a2]]) simp_all
  have q2: "quiet up (hist s3) (hist s5)" by (rule quiet_trans [OF quiet_answer [OF a4] quiet_answer [OF a5]]) simp_all
  have q3: "quiet up (hist s5) (hist s')"
    using f by (auto simp: reply_def intro!: quiet_answer [OF say_answer])
  have "goes (\<lambda>k. written up k = [] @ d @ [] @ []) (hist s) (hist s')"
    by (rule goes_append [OF q1 goes_append [OF r3(2) goes_append [OF q2 q3]]]) (auto simp: written_append)
  with f show ?thesis by simp
qed

end

lemma evolves_any: "evolves P s s' \<Longrightarrow> goes (\<lambda>k. True) (hist s) (hist s')"
  by (auto simp: evolves_def adds_def grows_any)

text \<open>The whole upload of a file: the client's bytes after the request are what the server reads.\<close>

lemma upload_whole:
  assumes "c_stor_file opt cos pathdesc path transize tc h = Ret (0, h')" "u_digest_fine opt" "c_string tc"
    and sent: "sent h' = sent h @ pathdesc @ CRLF @ stream"
    and d: "\<forall>h. read_all (os_bytes cos h path) = d" "int (length d) < 2 ^ 63"
    and server: "stor_open (stream_os os (hist s) stream) up s = (r, s')" "hist s' = hist s @ k" "calm k" "under_tmp up"
  shows "r = Rc 0 \<and> written up k = chars_of d"
proof -
  let ?os = "stream_os os (hist s) stream"
  from stor_file_sent [OF assms(1-3)] obtain h1 where
    "goes (\<lambda>k. sent k = pathdesc @ CRLF @ print_int (int (length d)) @ CRLF @ chars_of d @ ''.'' @ CRLF) h h'"
    using d(1) by (auto simp: Let_def)
  with sent have x: "stream = print_int (int (length d)) @ CRLF @ chars_of d @ ''.'' @ CRLF"
    by (auto simp: goes_def sent_append)
  have l: "length (chars_of d) = length d" by (simp add: chars_of_def)
  have p0: "unread_after (hist s) stream (hist s) (print_int (int (length (chars_of d))) @ CRLF @ chars_of d @ ''.'' @ CRLF @ [])"
    unfolding x l unread_after_def by simp
  have g0: "goes calm (hist s) (hist s')" using server(2,3) by (auto simp: goes_def)
  obtain e1 s1 where c1: "do_call ?os (Create up) s = (e1, s1)" by force
  note a1 = do_call_answer [OF c1]
  have rec: "goes (\<lambda>k. True) (hist t) (hist t')" if "stor_receive ?os up t = (x, t')" for t x t'
    using evolves_any stor_receive_evolves [OF server(4), of t t ?os] that by (fastforce simp: evolves_def adds_def same_rights_def)
  have any1: "goes (\<lambda>k. True) (hist s1) (hist s')"
  proof (cases e1)
    case None
    with server(1) c1 rec show ?thesis by (auto simp: stor_open_def)
  next
    case (Some e)
    obtain x h2 where m: "mkdirs ?os up (hist s1) = (x, h2)" by force
    have g2: "goes (\<lambda>k. True) (hist s1) h2" using mkdirs_grows [OF m, of "\<lambda>c. True"] grows_any by auto
    obtain e3 s3 where c3: "do_call ?os (Create up) (s1\<lparr>hist := h2\<rparr>) = (e3, s3)" by force
    have g3: "goes (\<lambda>k. True) (hist s1) (hist s3)"
      using goes_any_trans [OF g2 any_answer] do_call_answer [OF c3] by simp
    have "s' = reply ?os 555 (snd (the x) @ '': '' @ os_strerror ?os (fst (the x))) (s1\<lparr>hist := h2\<rparr>) \<or>
        (\<exists>t. s' = reply ?os 555 t s3) \<or> stor_receive ?os up s3 = (r, s')"
      using server(1) c1 Some m c3 by (auto simp: stor_open_def split: option.splits)
    then show ?thesis
    proof (elim disjE exE)
      assume s': "s' = reply ?os 555 (snd (the x) @ '': '' @ os_strerror ?os (fst (the x))) (s1\<lparr>hist := h2\<rparr>)"
      have "goes (\<lambda>k. True) (hist (s1\<lparr>hist := h2\<rparr>)) (hist s')"
        unfolding s' reply_def by (rule any_answer [OF say_answer])
      with g2 show ?thesis by (auto intro: goes_any_trans)
    next
      fix t assume s': "s' = reply ?os 555 t s3"
      show ?thesis unfolding s' reply_def by (rule goes_any_trans [OF g3 any_answer [OF say_answer]])
    next
      assume "stor_receive ?os up s3 = (r, s')"
      with g3 rec show ?thesis by (blast intro: goes_any_trans)
    qed
  qed
  from calm_step [OF g0 a1 any1] have e1: "e1 = None" "goes calm (hist s1) (hist s')" by auto
  have p1: "unread_after (hist s) stream (hist s1) (print_int (int (length (chars_of d))) @ CRLF @ chars_of d @ ''.'' @ CRLF @ [])"
    using sent_stream.other [OF p0 _ a1] by simp
  have "stor_receive ?os up s1 = (r, s')" using server(1) c1 e1 by (simp add: stor_open_def)
  from sent_stream.receive_of_stream [OF this e1(2) p1] d(2) have z: "r = Rc 0"
    "goes (\<lambda>k. written up k = chars_of d) (hist s1) (hist s')" by (auto simp: l)
  have "goes (\<lambda>k. written up k = [] @ chars_of d) (hist s) (hist s')"
    by (rule goes_append [OF quiet_answer [OF a1] z(2)]) (auto simp: written_append)
  with z(1) server(2) show ?thesis by (auto simp: goes_def)
qed

section \<open>The server's answers to \<open>lcreate\<close>\<close>

text \<open>The first characters of the lines read in a piece of trace that goes on from \<open>h\<close>.\<close>

fun replies :: "os \<Rightarrow> history \<Rightarrow> history \<Rightarrow> string" where
  "replies os h [] = []"
| "replies os h (Did c e # k) =
     (if c = GetLine \<and> e = None then [char_at (os_line os (h @ [Did c e])) 0] else []) @ replies os (h @ [Did c e]) k"

definition answers :: "os \<Rightarrow> history \<Rightarrow> history \<Rightarrow> string \<Rightarrow> bool" where
  "answers os h h' x \<longleftrightarrow> goes (\<lambda>k. replies os h k = x) h h'"

lemma replies_append: "replies os h (k @ l) = replies os h k @ replies os (h @ k) l"
  by (induction os h k rule: replies.induct) simp_all

lemma answers_refl [simp]: "answers os h h []"
  by (simp add: answers_def goes_nil)

lemma answers_trans: "answers os h h1 x \<Longrightarrow> answers os h1 h2 y \<Longrightarrow> answers os h h2 (x @ y)"
  by (auto simp: answers_def goes_def replies_append)

lemma answers_call: "answer os c h = (e, h') \<Longrightarrow> c \<noteq> GetLine \<or> e \<noteq> None \<Longrightarrow> answers os h h' []"
  by (auto simp: answers_def goes_def answer_split)

lemma answers_line: "answer os GetLine h = (None, h') \<Longrightarrow> answers os h h' [char_at (os_line os h') 0]"
  by (auto simp: answers_def goes_def answer_split)

text \<open>What is to come when \<open>n\<close> responses are left.\<close>

fun expected :: "nat \<Rightarrow> string" where
  "expected 0 = []"
| "expected (Suc n) = (if odd (Suc n) then CHR ''2'' else CHR ''3'') # expected n"

lemma expected_more: "expected (Suc (Suc n)) = expected n @ ''32''"
proof (induction n)
  case (Suc n)
  have "expected (Suc (Suc (Suc n))) = (if odd (Suc n) then CHR ''2'' else CHR ''3'') # expected (Suc (Suc n))"
    by (subst expected.simps(2)) simp
  with Suc show ?case by simp
qed simp

lemma stor_response_answers:
  "stor_response os n h = ((True, n'), h') \<Longrightarrow> \<exists>x. answers os h h' x \<and> x @ expected n' = expected n"
proof (induction os n h rule: stor_response.induct)
  case (1 os h)
  then show ?case by (auto intro: exI [of _ "[]"])
next
  case (2 os n h)
  obtain e1 h1 where a1: "(if os_ready os h then (None, h) else answer os Select h) = (e1, h1)" by force
  have s1: "answers os h h1 []" using a1 by (auto simp: answers_call split: if_splits)
  obtain e2 h2 where a2: "answer os GetLine h1 = (e2, h2)" by force
  have eq: "((True, n'), h') = (if e1 \<noteq> None then ((False, Suc n), h1)
      else if \<not> os_ready os h1 then ((True, Suc n), h1)
      else if e2 = None \<and> response_ok (Suc n) (os_line os h2) then stor_response os n h2 else ((False, Suc n), h2))"
    using "2.prems" a1 a2 by (auto split: option.splits if_split_asm)
  show ?case
  proof (cases "e1 = None \<and> os_ready os h1")
    case False
    with eq s1 show ?thesis by (auto intro!: exI [of _ "[]"] split: if_splits)
  next
    case True
    with eq have b: "e2 = None" "response_ok (Suc n) (os_line os h2)" "stor_response os n h2 = ((True, n'), h')"
      by (auto split: if_splits)
    have a1': "(None, h1) = (if os_ready os h then (None, h) else answer os Select h)" using a1 True by simp
    from "2.IH" [OF a1' _ _ a2 [unfolded b(1), symmetric] _ b(2,3)] True obtain x
      where x: "answers os h2 h' x" "x @ expected n' = expected n" by auto
    have c: "char_at (os_line os h2) 0 # expected n = expected (Suc n)" using b(2) by (auto simp: response_ok_def)
    have "answers os h h' ([] @ [char_at (os_line os h2) 0] @ x)"
      by (rule answers_trans [OF s1 answers_trans [OF answers_line x(1)]]) (use a2 b(1) in simp)
    with x(2) c show ?thesis by (intro exI [of _ "char_at (os_line os h2) 0 # x"]) auto
  qed
qed

text \<open>A run of \<open>stor_wait\<close> that ends has read all responses.\<close>

lemma stor_wait_answers:
  assumes "stor_wait os n h = Some r"
  shows "fst r \<longrightarrow> answers os h (snd r) (expected n)"
proof (rule stor_wait.raw_induct [where P = "\<lambda>os n h r. fst r \<longrightarrow> answers os h (snd r) (expected n)", OF _ assms])
  fix wait os n h r
  assume IH: "\<And>os n h r. wait os n h = Some r \<Longrightarrow> fst r \<longrightarrow> answers os h (snd r) (expected n)"
    and body: "(if n = 0 then Some (True, h) else (case stor_response os n h of
      ((ok, n'), h') \<Rightarrow> if ok then wait os n' h' else Some (False, h'))) = Some r"
  show "fst r \<longrightarrow> answers os h (snd r) (expected n)"
  proof (cases "n = 0")
    case True
    with body show ?thesis by auto
  next
    case False
    obtain ok n' h' where s: "stor_response os n h = ((ok, n'), h')" by (metis prod.collapse)
    show ?thesis
    proof (cases ok)
      case True
      with s False body have "wait os n' h' = Some r" by simp
      with IH have r: "fst r \<longrightarrow> answers os h' (snd r) (expected n')" by blast
      from s True stor_response_answers [of os n h n' h'] obtain x where "answers os h h' x" "x @ expected n' = expected n" by auto
      with r answers_trans [of os h h' x "snd r" "expected n'"] show ?thesis by auto
    qed (use s False body in auto)
  qed
qed

text \<open>What is sent to the server reads no line.\<close>

lemma stor_data_answers: "stor_data feed os rs n c h = Ret (x, h') \<Longrightarrow> answers os h h' []"
proof (induction feed os rs n c h rule: stor_data.induct)
  case (3 feed os bs rs n c h)
  show ?case
  proof (cases "bs = []")
    case False
    obtain e h1 where a: "answer os (Send (chars_of bs)) h = (e, h1)" by force
    have s: "answers os h h1 []" by (rule answers_call [OF a]) simp
    show ?thesis
    proof (cases e)
      case None
      with False a 3 have "answers os h1 h' []" by simp
      with answers_trans [OF s] show ?thesis by fastforce
    qed (use False a s "3.prems" in simp)
  qed (use 3 in simp)
qed simp_all

lemma silent_trans: "answers os h h1 [] \<Longrightarrow> answers os h1 h2 [] \<Longrightarrow> answers os h h2 []"
  using answers_trans by fastforce

lemma stor_end_answers: "stor_end opt os path tc b64 n h = Ret (x, h') \<Longrightarrow> answers os h h' []"
proof -
  assume r: "stor_end opt os path tc b64 n h = Ret (x, h')"
  obtain e1 h1 where a1: "answer os (Send (''.'' @ CRLF)) h = (e1, h1)" by force
  obtain e2 h2 where a2: "answer os (Close path) h1 = (e2, h2)" by force
  have "h' = h1 \<or> h' = h2" using r a1 a2 by (auto simp: stor_end_def split: option.splits if_splits)
  with answers_call [OF a1] silent_trans [OF answers_call [OF a1] answers_call [OF a2]] show ?thesis by auto
qed

lemma send_file_answers: "send_file opt os path tc n h = Ret (x, h') \<Longrightarrow> answers os h h' []"
  by (auto simp: send_file_def obind_Ret_iff split: option.splits
      intro: stor_data_answers silent_trans [OF stor_data_answers stor_end_answers])

lemma c_stor_file_answers:
  assumes "c_stor_file opt os pathdesc path transize tc h = Ret (x, h')"
  shows "answers os h h' []"
proof -
  obtain e1 h1 where a1: "answer os (Open path) h = (e1, h1)" by force
  obtain e2 h2 where a2: "answer os (Fstat path) h1 = (e2, h2)" by force
  define n where "n = st_size (os_stat os h2 path)"
  obtain e3 h3 where a3: "answer os (Send (pathdesc @ CRLF)) h2 = (e3, h3)" by force
  obtain e4 h4 where a4: "answer os (Send (print_int n @ CRLF)) h3 = (e4, h4)" by force
  have "send_file opt os path tc n h4 = Ret (x, h')"
    using assms a1 a2 a3 a4 by (auto simp: c_stor_file_def Let_def n_def split: option.splits if_splits)
  from send_file_answers [OF this] show ?thesis
    by (intro silent_trans [OF answers_call [OF a1] silent_trans [OF answers_call [OF a2]
          silent_trans [OF answers_call [OF a3] silent_trans [OF answers_call [OF a4]]]]]) simp_all
qed

lemma n_stor_file_answers:
  assumes "n_stor_file os pathdesc h = Ret h'"
  shows "answers os h h' []"
proof -
  obtain e1 h1 where a1: "answer os (Send (pathdesc @ CRLF)) h = (e1, h1)" by force
  obtain e2 h2 where a2: "answer os (Send (''0'' @ CRLF @ ''.'' @ CRLF)) h1 = (e2, h2)" by force
  from assms a1 a2 have "h' = h2" by (auto simp: n_stor_file_def split: option.splits)
  with silent_trans [OF answers_call [OF a1] answers_call [OF a2]] show ?thesis by simp
qed

lemma radstat_answers: "radstat_call os path st ty h = (x, h') \<Longrightarrow> answers os h h' []"
  by (auto simp: radstat_call_def lstat_call_def Let_def answers_def goes_def)

lemma c_cksum_answers: "c_cksum md os path h = (x, h') \<Longrightarrow> answers os h h' []"
  by (auto simp: c_cksum_def answer_split answers_def goes_def split: option.splits)

section \<open>A run of \<open>lcreate\<close>\<close>

text \<open>After \<open>m\<close> uploads the lines read so far and those still to come are \<open>m\<close> pairs.\<close>

definition lc_inv :: "os \<Rightarrow> history \<Rightarrow> nat \<Rightarrow> lcreate \<Rightarrow> bool" where
  "lc_inv os h0 m s \<longleftrightarrow> (\<exists>x. answers os h0 (lc_hist s) x \<and> x @ expected (lc_resp s) = expected (2 * m))"

lemma lc_inv_silent:
  "lc_inv os h0 m s \<Longrightarrow> answers os (lc_hist s) h [] \<Longrightarrow> lc_resp s' = lc_resp s \<Longrightarrow> lc_hist s' = h \<Longrightarrow> lc_inv os h0 m s'"
  unfolding lc_inv_def using answers_trans by fastforce

lemma lc_inv_sent:
  assumes "lc_inv os h0 m s" "sent_result s (n, h) = Ret (Go, s')" "answers os (lc_hist s) h []"
  shows "lc_inv os h0 (Suc m) s'"
proof -
  from assms(2) have s': "lc_hist s' = h" "lc_resp s' = Suc (Suc (lc_resp s))"
    by (auto simp: sent_result_def split: if_splits)
  from assms(1) obtain x where x: "answers os h0 (lc_hist s) x" "x @ expected (lc_resp s) = expected (2 * m)"
    by (auto simp: lc_inv_def)
  have "answers os h0 h x" using answers_trans [OF x(1) assms(3)] by simp
  moreover have "x @ expected (lc_resp s') = expected (2 * Suc m)"
  proof -
    have "2 * Suc m = Suc (Suc (2 * m))" by simp
    with x(2) show ?thesis unfolding s' by (metis append_assoc expected_more)
  qed
  ultimately show ?thesis using s' by (auto simp: lc_inv_def)
qed

lemma send_object_inv:
  assumes "send_object opt os tname av path s = Ret (r, s')" "lc_inv os h0 m s"
  shows "r = Go \<longrightarrow> lc_inv os h0 (Suc m) s'" "r \<noteq> Main 0"
proof -
  have m: "r \<noteq> Main 0" if "sent_result s x = Ret (r, s')" for x using that by (auto simp: sent_result_def split: if_splits)
  from assms(1) obtain pathdesc where
    c: "(if u_negative opt
       then obind (if char_at (av ! 0) 0 = CHR ''a'' then n_stor_applefile (lc_hist s) else n_stor_file os pathdesc (lc_hist s))
          (\<lambda>h. sent_result s (0, h))
       else obind (if char_at (av ! 0) 0 = CHR ''a'' then stor_applefile (lc_hist s)
          else c_stor_file opt os pathdesc path (strtol 10 (av ! 6)) (av ! 7) (lc_hist s)) (sent_result s)) = Ret (r, s')"
    by (auto simp: send_object_def Let_def split: option.splits)
  from c obtain n h where x: "sent_result s (n, h) = Ret (r, s')" "answers os (lc_hist s) h []"
    by (auto simp: obind_Ret_iff n_stor_applefile_def stor_applefile_def
        dest: n_stor_file_answers c_stor_file_answers split: if_splits)
  then show "r = Go \<longrightarrow> lc_inv os h0 (Suc m) s'" using lc_inv_sent [OF assms(2)] by blast
  show "r \<noteq> Main 0" by (rule m [OF x(1)])
qed

lemma lcreate_object_inv:
  assumes "lcreate_object opt os tname av s = Ret (r, s')" "lc_inv os h0 m s" "u_network opt"
  shows "(r = Go \<longrightarrow> lc_inv os h0 (Suc m) s') \<and> r \<noteq> Main 0"
proof -
  from assms(1) obtain d buf where d: "decode (av ! 1) (lc_buf s) = Ret (d, buf)"
    by (auto simp: lcreate_object_def obind_Ret_iff split: if_splits)
  show ?thesis
  proof (cases d)
    case None
    with assms(1) d show ?thesis by (auto simp: lcreate_object_def split: if_splits)
  next
    case (Some path)
    obtain q st ty e h where l: "(if u_negative opt then ((0, stat0, char_at (av ! 0) 0, None), lc_hist s)
        else radstat_call os path stat0 NUL (lc_hist s)) = ((q, st, ty, e), h)" by (metis prod.collapse)
    define s1 where "s1 = s\<lparr>lc_buf := buf, lc_hist := h\<rparr>"
    have "answers os (lc_hist s) h []" using l by (auto dest: radstat_answers split: if_splits)
    with assms(2) have i: "lc_inv os h0 m s1" by (rule lc_inv_silent) (simp_all add: s1_def)
    have "send_object opt os tname av path s1 = Ret (r, s')"
      using assms(1,3) d Some l by (auto simp: lcreate_object_def Let_def s1_def split: if_splits)
    with send_object_inv [OF this i] show ?thesis by blast
  qed
qed

text \<open>How many lines of a transcript stand for an upload.\<close>

definition upload_line :: "string \<Rightarrow> nat" where
  "upload_line tline = (case argcargv tline of
     Ret av \<Rightarrow> if av \<noteq> [] \<and> char_at (av ! 0) 0 \<noteq> CHR ''#'' \<and> is_upload av then 1 else 0 | _ \<Rightarrow> 0)"

function uploads :: "string \<Rightarrow> nat" where
  "uploads inp = (case fgets MAXPATHLEN inp of None \<Rightarrow> 0 | Some (buf, rest) \<Rightarrow> upload_line (cstr buf) + uploads rest)"
  by pat_completeness auto
termination
  by (relation "measure length") (auto dest!: fgets_shrinks simp: MAXPATHLEN_def)

declare uploads.simps [simp del]

lemma lcreate_line_inv:
  assumes "lcreate_line opt os tname tline s = Ret (r, s')" "lc_inv os h0 m s" "u_network opt"
  shows "(r = Go \<longrightarrow> lc_inv os h0 (upload_line tline + m) s') \<and> r \<noteq> Main 0"
proof -
  obtain n h where a: "stor_response os (lc_resp s) (lc_hist s) = ((True, n), h)"
    using assms(1,3) by (cases "stor_response os (lc_resp s) (lc_hist s)") (auto simp: lcreate_line_def Let_def split: if_splits)
  from stor_response_answers [OF a] obtain x where x: "answers os (lc_hist s) h x" "x @ expected n = expected (lc_resp s)" by blast
  from assms(2) obtain y where y: "answers os h0 (lc_hist s) y" "y @ expected (lc_resp s) = expected (2 * m)"
    by (auto simp: lc_inv_def)
  define s1 where "s1 = s\<lparr>lc_resp := n, lc_hist := h\<rparr>"
  have i: "lc_inv os h0 m s1"
    using answers_trans [OF y(1) x(1)] x(2) y(2) by (auto simp: lc_inv_def s1_def intro!: exI [of _ "y @ x"])
  from assms(1,3) a obtain av where av: "argcargv tline = Ret av"
    by (auto simp: lcreate_line_def Let_def obind_Ret_iff split: if_splits)
  have c: "(if av = [] \<or> char_at (av ! 0) 0 = CHR ''#'' then Ret (Go, s1) else if length av = 1 then Exit 2
      else if is_upload av then lcreate_object opt os tname av s1 else Ret (Go, s1)) = Ret (r, s')"
    using assms(1,3) a av by (auto simp: lcreate_line_def Let_def s1_def split: if_splits)
  show ?thesis
  proof (cases "av \<noteq> [] \<and> char_at (av ! 0) 0 \<noteq> CHR ''#'' \<and> is_upload av")
    case True
    with c have "lcreate_object opt os tname av s1 = Ret (r, s')" by (auto split: if_splits)
    from lcreate_object_inv [OF this i assms(3)] True av show ?thesis by (simp add: upload_line_def)
  next
    case False
    with c have "r = Go" "s' = s1" by (auto split: if_splits)
    with i False av show ?thesis by (auto simp: upload_line_def)
  qed
qed

lemma lcreate_lines_inv:
  "lcreate_lines opt os tname inp s = Ret (r, s') \<Longrightarrow> lc_inv os h0 m s \<Longrightarrow> u_network opt \<Longrightarrow>
     (r = Go \<longrightarrow> lc_inv os h0 (uploads inp + m) s') \<and> r \<noteq> Main 0"
proof (induction opt os tname inp s arbitrary: m rule: lcreate_lines.induct)
  case (1 opt os tname inp s)
  show ?case
  proof (cases "fgets MAXPATHLEN inp")
    case None
    with "1.prems" show ?thesis by (auto simp: lcreate_lines.simps [of _ _ _ inp] uploads.simps [of inp])
  next
    case (Some p)
    obtain buf rest where p: "p = (buf, rest)" by force
    note f = Some [unfolded p]
    from f "1.prems"(1) obtain r1 s1 where l: "lcreate_line opt os tname (cstr buf) s = Ret (r1, s1)"
      and c: "(if r1 = Go then lcreate_lines opt os tname rest s1 else Ret (r1, s1)) = Ret (r, s')"
      by (auto simp: lcreate_lines.simps [of _ _ _ inp] obind_Ret_iff)
    note i = lcreate_line_inv [OF l "1.prems"(2,3)]
    show ?thesis
    proof (cases "r1 = Go")
      case True
      with c i have "lcreate_lines opt os tname rest s1 = Ret (r, s')" "lc_inv os h0 (upload_line (cstr buf) + m) s1" by auto
      from "1.IH" [OF f refl l refl True this "1.prems"(3)] f show ?thesis by (simp add: uploads.simps [of inp] ac_simps)
    qed (use c i in auto)
  qed
qed

lemma closesn_answers:
  assumes "closesn os h = (Inr 0, h')"
  shows "answers os h h' ''2''"
proof -
  obtain e1 h1 where a1: "answer os (Send (''QUIT'' @ [CR, NL])) h = (e1, h1)" by force
  obtain e2 h2 where a2: "answer os GetLine h1 = (e2, h2)" by force
  obtain e3 h3 where a3: "answer os SnetClose h2 = (e3, h3)" by force
  have r: "e2 = None" "char_at (os_line os h2) 0 = CHR ''2''" "h' = h3"
    using assms a1 a2 a3 by (auto simp: closesn_def split: option.splits if_splits)
  have "answers os h h3 ([] @ [char_at (os_line os h2) 0] @ [])"
    by (rule answers_trans [OF answers_call [OF a1] answers_trans [OF answers_line answers_call [OF a3]]])
      (use a2 r in simp_all)
  with r show ?thesis by simp
qed

lemma send_transcript_inv:
  assumes "send_transcript opt os tname file s = Ret (r, s')" "lc_inv os h0 m s"
  shows "(r = Go \<longrightarrow> lc_inv os h0 (Suc m) s') \<and> r \<noteq> Main 0"
proof -
  obtain n b64 h where k: "(case u_md opt of None \<Rightarrow> ((0, Some []), lc_hist s) | Some md \<Rightarrow> c_cksum md os file (lc_hist s)) =
      ((n, b64), h)" by (metis prod.collapse)
  have a0: "answers os (lc_hist s) h []" using k by (auto dest: c_cksum_answers split: option.splits)
  obtain e1 h1 where a1: "answer os (Stat file) h = (e1, h1)" by force
  from assms(1) k a1 obtain c x h2 where x: "c_stor_file opt os (take (2 * MAXPATHLEN - 1) (''STOR TRANSCRIPT '' @ tname)) file
      (st_size (os_stat os h1 file)) c h1 = Ret (x, h2)" "sent_result s (x, h2) = Ret (r, s')"
    by (auto simp: send_transcript_def obind_Ret_iff split: option.splits if_splits)
  have a: "answers os (lc_hist s) h2 []"
    by (rule silent_trans [OF a0 silent_trans [OF answers_call [OF a1] c_stor_file_answers [OF x(1)]]]) simp
  have "r \<noteq> Main 0" using x(2) by (auto simp: sent_result_def split: if_splits)
  with lc_inv_sent [OF assms(2), of x h2 s'] x(2) a show ?thesis by auto
qed

lemma lcreate_replies:
  assumes "lcreate_main opt os tname file inp s = Some (Ret (0, s'))" "u_network opt" "\<not> u_tran_only opt" "lc_resp s = 0"
  shows "answers os (lc_hist s) (lc_hist s') (expected (2 * Suc (uploads inp)) @ ''2'')"
proof -
  have i0: "lc_inv os (lc_hist s) 0 s" using assms(4) by (auto simp: lc_inv_def intro!: exI [of _ "[]"])
  from assms(1-3) obtain r0 s0 r s1 where t: "send_transcript opt os tname file s = Ret (r0, s0)"
    and l: "(if r0 = Go then lcreate_lines opt os tname inp s0 else Ret (r0, s0)) = Ret (r, s1)"
    and d: "(case r of Go \<Rightarrow> lcreate_done opt os s1 | Stor_failed \<Rightarrow> lcreate_failed os s1 | Main n \<Rightarrow> Some (Ret (n, s1))) =
      Some (Ret (0, s'))"
    by (auto simp: lcreate_main_def obind_Ret_iff split: outcome.splits lc_result.splits)
  have i1: "(r0 = Go \<longrightarrow> lc_inv os (lc_hist s) 1 s0) \<and> r0 \<noteq> Main 0"
    using send_transcript_inv [OF t i0] by simp
  have i2: "(r = Go \<longrightarrow> lc_inv os (lc_hist s) (Suc (uploads inp)) s1) \<and> r \<noteq> Main 0"
    using l i1 lcreate_lines_inv [OF _ _ assms(2), of os tname inp s0 r s1 "lc_hist s" 1] by (auto split: if_splits)
  have g: "r = Go" "lcreate_done opt os s1 = Some (Ret (0, s'))"
    using d i2 by (auto simp: lcreate_failed_def split: lc_result.splits option.splits)
  obtain h1 h2 where w: "stor_wait os (lc_resp s1) (lc_hist s1) = Some (True, h1)"
    and c: "closesn os h1 = (Inr 0, h2)" and s': "lc_hist s' = h2"
    using g(2) assms(2) by (auto simp: lcreate_done_def split: option.splits prod.splits bool.splits sum.splits if_splits)
  from i2 g(1) obtain x where x: "answers os (lc_hist s) (lc_hist s1) x" "x @ expected (lc_resp s1) = expected (2 * Suc (uploads inp))"
    by (auto simp: lc_inv_def)
  have "answers os (lc_hist s1) h1 (expected (lc_resp s1))" using stor_wait_answers [OF w] by simp
  from answers_trans [OF answers_trans [OF x(1) this] closesn_answers [OF c]] show ?thesis unfolding x(2) s' .
qed

end
