(* ===== verification/Rmdirs.thy ===== *)
theory Rmdirs
  imports Client
begin

text \<open>
  \<open>rmdirs.c\<close>: removes a directory with all it holds. Whether it ends is up to the file system, so it is
  a partial function. Code that may wait for ever and may end the process has the type \<open>outcome option\<close>,
  where \<open>None\<close> is a run without end.
\<close>

section \<open>Runs that need not end\<close>

definition dbind :: "'a outcome option \<Rightarrow> ('a \<Rightarrow> 'b outcome option) \<Rightarrow> 'b outcome option" where
  "dbind m f = Option.bind m (\<lambda>r. case r of Ret x \<Rightarrow> f x | Exit n \<Rightarrow> Some (Exit n) | UB \<Rightarrow> Some UB)"

lemma dbind_mono [partial_function_mono]:
  assumes "mono_option B" "\<And>y. mono_option (\<lambda>f. C y f)"
  shows "mono_option (\<lambda>f. dbind (B f) (\<lambda>y. C y f))"
  unfolding dbind_def
proof (rule bind_mono [OF assms(1)])
  fix r
  show "mono_option (\<lambda>f. case r of Ret x \<Rightarrow> C x f | Exit n \<Rightarrow> Some (Exit n) | UB \<Rightarrow> Some UB)"
    by (cases r) (simp_all add: assms(2) option.const_mono)
qed

lemma dbind_simps [simp]:
  "dbind (Some (Ret x)) f = f x" "dbind (Some (Exit n)) f = Some (Exit n)" "dbind (Some UB) f = Some UB" "dbind None f = None"
  by (simp_all add: dbind_def)

lemma dbind_Ret_iff [outcome_simps]:
  "dbind m f = Some (Ret y) \<longleftrightarrow> (\<exists>x. m = Some (Ret x) \<and> f x = Some (Ret y))"
  by (cases m) (auto simp: dbind_def split: outcome.splits)

section \<open>\<open>rmdirs\<close>\<close>

text \<open>
  A job is either a directory still to be opened or, for the open directory \<open>path\<close>, the entries still to be
  read and the flag \<open>unlinkedfiles\<close>. \<open>rewinddir\<close> reads the directory anew. \<open>opendir\<close> fails for the empty path.
\<close>

definition entry_path :: "string \<Rightarrow> string \<Rightarrow> string option" where
  "entry_path path d =
     (if MAXPATHLEN < length path + length d + 2 then None
      else if path \<noteq> [] \<and> last path = SLASH then snprintf MAXPATHLEN (path @ d)
      else snprintf MAXPATHLEN (path @ [SLASH] @ d))"

definition rmdirs_error :: "os \<Rightarrow> string \<Rightarrow> history \<Rightarrow> bool \<times> history" where
  "rmdirs_error os path h = (False, snd (answer os (Close path) h))"

definition rmdirs_end :: "os \<Rightarrow> string \<Rightarrow> history \<Rightarrow> bool \<times> history" where
  "rmdirs_end os path h =
     (case answer os (Close path) h of
        (Some e, h) \<Rightarrow> (False, h)
      | (None, h) \<Rightarrow> (case answer os (Rmdir path) h of (e, h) \<Rightarrow> (e = None, h)))"

partial_function (option) rmdirs_job ::
  "os \<Rightarrow> string \<Rightarrow> (string list \<times> bool) option \<Rightarrow> history \<Rightarrow> (bool \<times> history) option" where
  "rmdirs_job os path job h =
     (case job of
        None \<Rightarrow>
          (case answer os (Opendir path) h of
             (Some e, h) \<Rightarrow> Some (False, h)
           | (None, h) \<Rightarrow> rmdirs_job os path (Some (os_dir os h path, False)) h)
      | Some ([], unlinked) \<Rightarrow>
          if unlinked then rmdirs_job os path (Some ([], False)) h else Some (rmdirs_end os path h)
      | Some (d # ds, unlinked) \<Rightarrow>
          if d = ''.'' \<or> d = ''..'' then rmdirs_job os path (Some (ds, unlinked)) h
          else (case entry_path path d of
             None \<Rightarrow> Some (rmdirs_error os path h)
           | Some temp \<Rightarrow>
               (case lstat_call os temp h of
                  (Inl e, h) \<Rightarrow> Some (rmdirs_error os path h)
                | (Inr st, h) \<Rightarrow>
                    if S_ISDIR (st_mode st)
                    then Option.bind (rmdirs_job os temp None h) (\<lambda>(ok, h).
                      if \<not> ok then Some (rmdirs_error os path h)
                      else rmdirs_job os path (Some (if unlinked then os_dir os h path else ds, unlinked)) h)
                    else (case answer os (Unlink temp) h of
                       (Some e, h) \<Rightarrow> Some (rmdirs_error os path h)
                     | (None, h) \<Rightarrow> rmdirs_job os path (Some (os_dir os h path, True)) h))))"

definition rmdirs :: "os \<Rightarrow> string \<Rightarrow> history \<Rightarrow> (bool \<times> history) option" where
  "rmdirs os path h = rmdirs_job os path None h"

end
