(* ===== verification/Ktcheck.thy ===== *)
theory Ktcheck
  imports Rmdirs Connect LList
begin

text \<open>
  \<open>ktcheck.c\<close>: brings the command files and transcripts of a client up to date. The model starts when the
  connection is made, the capabilities are known and TLS is set up. \<open>k_kdir\<close> is \<open>kdir\<close>, the directory of the base
  command file with its slash; \<open>k_update\<close> is off with \<open>-n\<close>. Text files are read without an error once they are open.
\<close>

section \<open>State\<close>

record 'c kt_options = "'c options" +
  k_update :: bool
  k_case :: bool
  k_clean :: bool
  k_base :: string
  k_kdir :: string

definition kdir_of :: "string \<Rightarrow> string" where
  "kdir_of base = (case strrchr base SLASH of None \<Rightarrow> ''./'' | Some (pre, _) \<Rightarrow> pre @ [SLASH])"

record kt =
  kt_hist :: history
  kt_change :: nat
  kt_special :: "string list"
  kt_seen :: "string list"

definition kt0 :: "history \<Rightarrow> kt" where
  "kt0 h = \<lparr>kt_hist = h, kt_change = 0, kt_special = [], kt_seen = []\<rparr>"

text \<open>\<open>list_insert_case\<close> on the special list.\<close>

fun names_add_case :: "bool \<Rightarrow> string list \<Rightarrow> string \<Rightarrow> string list" where
  "names_add_case cs [] p = [p]"
| "names_add_case cs (q # qs) p =
     (if 0 < pathcasecmp q p cs then p # q # qs else q # names_add_case cs qs p)"

section \<open>\<open>STAT\<close>\<close>

text \<open>The line of the server; \<open>None\<close> is \<open>-1\<close>.\<close>

definition getstat :: "os \<Rightarrow> string \<Rightarrow> history \<Rightarrow> (string option \<times> history) outcome" where
  "getstat os description h =
     (case answer os (Send (''STAT '' @ description @ [NL])) h of
        (Some e, h) \<Rightarrow> Ret (None, h)
      | (None, h) \<Rightarrow>
     (case answer os GetLine h of
        (Some e, h) \<Rightarrow> Ret (None, h)
      | (None, h) \<Rightarrow>
          if char_at (os_line os h) 0 \<noteq> CHR ''2'' then Exit 2
          else
     (case answer os GetLine h of
        (Some e, h) \<Rightarrow> Ret (None, h)
      | (None, h) \<Rightarrow>
          Ret (if MAXPATHLEN \<le> length (os_line os h) then None else Some (os_line os h), h))))"

section \<open>The special transcript\<close>

text \<open>The lines of the special files go to a new file; \<open>False\<close> is the result \<open>1\<close>.\<close>

fun special_stats :: "os \<Rightarrow> string \<Rightarrow> string list \<Rightarrow> history \<Rightarrow> (bool \<times> history) outcome" where
  "special_stats os path [] h = Ret (True, h)"
| "special_stats os path (p # ps) h =
     (case snprintf (2 * MAXPATHLEN) (''SPECIAL '' @ p) of
        None \<Rightarrow> Ret (False, h)
      | Some filedesc \<Rightarrow>
          obind (getstat os filedesc h) (\<lambda>(stats, h).
            case stats of
              None \<Rightarrow> Ret (False, h)
            | Some line \<Rightarrow>
                (case answer os (Write path line) h of
                   (Some e, h) \<Rightarrow> Ret (False, h)
                 | (None, h) \<Rightarrow>
                     (case answer os (Write path [NL]) h of
                        (Some e, h) \<Rightarrow> Ret (False, h)
                      | (None, h) \<Rightarrow> special_stats os path ps h))))"

definition special_temp :: "'c kt_options \<Rightarrow> string option" where
  "special_temp opt = snprintf MAXPATHLEN (k_kdir opt @ ''special.T.'' @ print_int (pid opt))"

definition createspecial :: "'c kt_options \<Rightarrow> os \<Rightarrow> string list \<Rightarrow> history \<Rightarrow> (bool \<times> history) outcome" where
  "createspecial opt os special h =
     (case special_temp opt of
        None \<Rightarrow> Exit 2
      | Some path \<Rightarrow>
          (case answer os (Create path) h of
             (Some e, h) \<Rightarrow> Ret (False, h)
           | (None, h) \<Rightarrow>
               obind (special_stats os path special h) (\<lambda>(ok, h).
                 if \<not> ok then Ret (False, h)
                 else (case answer os (Close path) h of (e, h) \<Rightarrow> Ret (e = None, h)))))"

section \<open>\<open>check\<close>\<close>

text \<open>The directories of a file whose name has slashes, from the top.\<close>

fun check_dirs :: "os \<Rightarrow> string \<Rightarrow> string list \<Rightarrow> history \<Rightarrow> bool \<times> history" where
  "check_dirs os kdir [] h = (True, h)"
| "check_dirs os kdir (p # ps) h =
     (case snprintf MAXPATHLEN (kdir @ p) of
        None \<Rightarrow> (False, h)
      | Some dir \<Rightarrow>
          (case answer os (Stat dir) h of
             (Some e, h) \<Rightarrow>
               if e \<noteq> ENOENT then (False, h)
               else (case answer os (Mkdir dir 0x1FF) h of
                       (Some e, h) \<Rightarrow> (False, h)
                     | (None, h) \<Rightarrow> check_dirs os kdir ps h)
           | (None, h) \<Rightarrow>
               if S_ISDIR (st_mode (os_stat os h dir)) then check_dirs os kdir ps h
               else (case answer os (Unlink dir) h of
                       (Some e, h) \<Rightarrow> (False, h)
                     | (None, h) \<Rightarrow>
                         (case answer os (Mkdir dir 0x1FF) h of
                            (Some e, h) \<Rightarrow> (False, h)
                          | (None, h) \<Rightarrow> check_dirs os kdir ps h))))"

text \<open>A directory at the place of the file is removed.\<close>

definition check_place :: "os \<Rightarrow> string \<Rightarrow> history \<Rightarrow> (bool \<times> history) option" where
  "check_place os path h =
     (case answer os (Stat path) h of
        (Some e, h) \<Rightarrow> Some (e = ENOENT, h)
      | (None, h) \<Rightarrow> if S_ISDIR (st_mode (os_stat os h path)) then rmdirs os path h else Some (True, h))"

text \<open>The name for the server and the path; \<open>None\<close> is the result \<open>2\<close>.\<close>

definition check_names ::
  "'c kt_options \<Rightarrow> os \<Rightarrow> string \<Rightarrow> string option \<Rightarrow> history \<Rightarrow> ((string \<times> string) option \<times> history) option" where
  "check_names opt os type file h =
     (case file of
        Some f \<Rightarrow>
          (case (snprintf (2 * MAXPATHLEN) (type @ [SP] @ f), snprintf MAXPATHLEN (k_kdir opt @ f)) of
             (Some pathdesc, Some path) \<Rightarrow>
               (case check_dirs os (k_kdir opt) (rev (prefixes f)) h of
                  (False, h) \<Rightarrow> Some (None, h)
                | (True, h) \<Rightarrow>
                    map_option (\<lambda>(ok, h). (if ok then Some (pathdesc, path) else None, h)) (check_place os path h))
           | _ \<Rightarrow> Some (None, h))
      | None \<Rightarrow>
          if 2 * MAXPATHLEN \<le> length type then Some (None, h)
          else if MAXPATHLEN \<le> length (k_base opt) then Some (None, h)
          else Some (Some (type, k_base opt), h))"

text \<open>
  The file is fetched, gets its time and is renamed. When \<open>utime\<close> fails the result is \<open>1\<close>, as after an update.
\<close>

definition check_install ::
  "'c kt_options \<Rightarrow> os \<Rightarrow> string \<Rightarrow> string \<Rightarrow> string list \<Rightarrow> history \<Rightarrow> int \<times> history" where
  "check_install opt os pathdesc path av h =
     (case retr (options.truncate opt) os pathdesc path (strtol 10 (av ! 6)) (av ! 7) h of
        ((r, tempfile), h) \<Rightarrow>
          if r \<noteq> 0 then (2, h)
          else (case answer os (Utime tempfile (strtol 10 (av ! 5))) h of
                  (Some e, h) \<Rightarrow> (1, h)
                | (None, h) \<Rightarrow>
                    (case answer os (Rename tempfile path) h of
                       (Some e, h) \<Rightarrow> (2, h)
                     | (None, h) \<Rightarrow> (1, h))))"

text \<open>
  With checksums only checksum and size count, without them only time and size. \<open>None\<close> is a checksum
  that cannot be made.
\<close>

definition out_of_date ::
  "'c kt_options \<Rightarrow> os \<Rightarrow> string \<Rightarrow> string list \<Rightarrow> stat \<Rightarrow> history \<Rightarrow> bool option \<times> history" where
  "out_of_date opt os path av st h =
     (if strtol 10 (av ! 6) \<noteq> st_size st then (Some True, h)
      else (case checksum_md opt of
              None \<Rightarrow> (Some (strtol 10 (av ! 5) \<noteq> st_mtime st), h)
            | Some md \<Rightarrow>
                (case c_cksum md os path h of
                   ((n, b64), h) \<Rightarrow>
                     (if n < 0 then None else map_option (\<lambda>c. strcmp (av ! 7) c \<noteq> 0) b64, h))))"

definition check_file ::
  "'c kt_options \<Rightarrow> os \<Rightarrow> string \<Rightarrow> string \<Rightarrow> string list \<Rightarrow> history \<Rightarrow> int \<times> history" where
  "check_file opt os pathdesc path av h =
     (case answer os (Stat path) h of
        (Some e, h) \<Rightarrow>
          if e \<noteq> ENOENT then (2, h)
          else if k_update opt then check_install opt os pathdesc path av h
          else (1, h)
      | (None, h) \<Rightarrow>
          (case out_of_date opt os path av (os_stat os h path) h of
             (None, h) \<Rightarrow> (2, h)
           | (Some False, h) \<Rightarrow> (0, h)
           | (Some True, h) \<Rightarrow>
               if \<not> k_update opt then (1, h)
               else (case answer os (Unlink path) h of
                       (Some e, h) \<Rightarrow> (2, h)
                     | (None, h) \<Rightarrow> check_install opt os pathdesc path av h)))"

text \<open>Result: \<open>0\<close> if the file is as on the server, \<open>1\<close> after an update, \<open>2\<close> for an error.\<close>

definition check ::
  "'c kt_options \<Rightarrow> os \<Rightarrow> string \<Rightarrow> string option \<Rightarrow> history \<Rightarrow> (int \<times> history) outcome option" where
  "check opt os type file h =
     Option.bind (check_names opt os type file h) (\<lambda>(names, h).
       case names of
         None \<Rightarrow> Some (Ret (2, h))
       | Some (pathdesc, path) \<Rightarrow>
           Some (obind (getstat os pathdesc h) (\<lambda>(stats, h).
             case stats of
               None \<Rightarrow> Ret (2, h)
             | Some line \<Rightarrow>
                 obind (argcargv line) (\<lambda>av.
                   Ret (if length av \<noteq> 8 then (2, h) else check_file opt os pathdesc path av h)))))"

section \<open>Command files\<close>

definition maybe_event :: "bool \<Rightarrow> os \<Rightarrow> string \<Rightarrow> string \<Rightarrow> kt \<Rightarrow> kt outcome" where
  "maybe_event report os event text s =
     (if report then obind (report_event os event text (kt_hist s)) (\<lambda>(n, h). Ret (s\<lparr>kt_hist := h\<rparr>)) else Ret s)"

text \<open>A line leads to the next one, to another command file first, to \<open>done\<close> or to \<open>error\<close>.\<close>

datatype kt_next = Next | Nested string | KDone | Failed

definition checked ::
  "'c kt_options \<Rightarrow> os \<Rightarrow> bool \<Rightarrow> string \<Rightarrow> string \<Rightarrow> string \<Rightarrow> kt_next \<Rightarrow> kt \<Rightarrow> (kt_next \<times> kt) outcome option" where
  "checked opt os report event type file next s =
     dbind (check opt os type (Some file) (kt_hist s)) (\<lambda>(n, h).
       let s = s\<lparr>kt_hist := h\<rparr> in
       if n = 0 then Some (Ret (next, s))
       else if n = 1 then
         (let s = s\<lparr>kt_change := Suc (kt_change s)\<rparr> in Some (Ret (if k_update opt then next else KDone, s)))
       else Some (obind (maybe_event report os event ''Error'' s) (\<lambda>s.
         if type = ''COMMAND'' then Ret (Failed, s) else Exit 2)))"

definition special_line :: "'c kt_options \<Rightarrow> bool \<Rightarrow> string \<Rightarrow> kt \<Rightarrow> (kt_next \<times> kt) outcome" where
  "special_line opt dash name s =
     (if dash
      then obind (if names_check (kt_special s) name then names_remove (kt_special s) name else Ret (kt_special s))
             (\<lambda>ns. Ret (Next, s\<lparr>kt_special := ns\<rparr>))
      else if names_check (kt_special s) name then Ret (Next, s)
      else if MAXPATHLEN \<le> length name then Exit 2
      else Ret (Next, s\<lparr>kt_special := names_add_case (k_case opt) (kt_special s) name\<rparr>))"

definition kfile_words ::
  "'c kt_options \<Rightarrow> os \<Rightarrow> bool \<Rightarrow> string \<Rightarrow> bool \<Rightarrow> string list \<Rightarrow> kt \<Rightarrow> (kt_next \<times> kt) outcome option" where
  "kfile_words opt os report event dash av s =
     (if length av \<noteq> 2 then Some (Ret (Failed, s))
      else let c = char_at (av ! 0) 0 in
        if c = CHR ''k'' then
          (case snprintf MAXPATHLEN (k_kdir opt @ av ! 1) of
             None \<Rightarrow> Some (Ret (Failed, s))
           | Some path \<Rightarrow>
               if names_check (kt_seen s) path then Some (Ret (Failed, s))
               else checked opt os report event ''COMMAND'' (av ! 1) (Nested path) (s\<lparr>kt_seen := kt_seen s @ [path]\<rparr>))
        else if c = CHR ''s'' then Some (special_line opt dash (av ! 1) s)
        else if c = CHR ''p'' \<or> c = CHR ''n'' then checked opt os report event ''TRANSCRIPT'' (av ! 1) Next s
        else Some (Ret (Next, s)))"

definition kt_line ::
  "'c kt_options \<Rightarrow> os \<Rightarrow> bool \<Rightarrow> string \<Rightarrow> string \<Rightarrow> kt \<Rightarrow> (kt_next \<times> kt) outcome option" where
  "kt_line opt os report event line s =
     dbind (Some (argcargv line)) (\<lambda>av.
       if av = [] \<or> char_at (av ! 0) 0 = CHR ''#'' then Some (Ret (Next, s))
       else if char_at (av ! 0) 0 \<noteq> CHR ''-'' then kfile_words opt os report event False av s
       else if length av \<noteq> 3 then Some (Ret (Failed, s))
       else if char_at (av ! 1) 0 \<noteq> CHR ''s'' then Some (Ret (Next, s))
       else kfile_words opt os report event True (tl av) s)"

definition kfile_done ::
  "'c kt_options \<Rightarrow> os \<Rightarrow> bool \<Rightarrow> string \<Rightarrow> string \<Rightarrow> kt \<Rightarrow> (int \<times> kt) outcome" where
  "kfile_done opt os report event kfile s =
     (case answer os (Close kfile) (kt_hist s) of
        (Some e, h) \<Rightarrow> Ret (-1, s\<lparr>kt_hist := h\<rparr>)
      | (None, h) \<Rightarrow>
          let s = s\<lparr>kt_hist := h\<rparr> in
          if \<not> k_update opt \<and> 0 < kt_change s
          then obind (maybe_event report os event ''Updates available'' s) (\<lambda>s. Exit 1)
          else Ret (0, s))"

text \<open>The job is a file still to be opened or, for the open file \<open>kfile\<close>, the rest of its text.\<close>

partial_function (option) read_kfile_job ::
  "'c kt_options \<Rightarrow> os \<Rightarrow> bool \<Rightarrow> string \<Rightarrow> string \<Rightarrow> string option \<Rightarrow> kt \<Rightarrow> (int \<times> kt) outcome option" where
  "read_kfile_job opt os report event kfile job s =
     (case job of
        None \<Rightarrow>
          (case answer os (Fopen kfile) (kt_hist s) of
             (Some e, h) \<Rightarrow> Some (Ret (-1, s\<lparr>kt_hist := h\<rparr>))
           | (None, h) \<Rightarrow> read_kfile_job opt os report event kfile (Some (os_text os h kfile)) (s\<lparr>kt_hist := h\<rparr>))
      | Some inp \<Rightarrow>
          (case fgets MAXPATHLEN inp of
             None \<Rightarrow> Some (kfile_done opt os report event kfile s)
           | Some (buf, rest) \<Rightarrow>
               dbind (kt_line opt os report event (cstr buf) s) (\<lambda>(r, s).
                 case r of
                   Next \<Rightarrow> read_kfile_job opt os report event kfile (Some rest) s
                 | Nested path \<Rightarrow>
                     dbind (read_kfile_job opt os report event path None s) (\<lambda>(n, s).
                       if n \<noteq> 0 then Some (Exit 2) else read_kfile_job opt os report event kfile (Some rest) s)
                 | KDone \<Rightarrow> Some (kfile_done opt os report event kfile s)
                 | Failed \<Rightarrow> Some (Ret (-1, s\<lparr>kt_hist := snd (answer os (Close kfile) (kt_hist s))\<rparr>)))))"

definition k_read_kfile ::
  "'c kt_options \<Rightarrow> os \<Rightarrow> bool \<Rightarrow> string \<Rightarrow> string \<Rightarrow> kt \<Rightarrow> (int \<times> kt) outcome option" where
  "k_read_kfile opt os report event kfile s = read_kfile_job opt os report event kfile None s"

section \<open>Cleaning up\<close>

text \<open>The names in a command file; a line with one word only makes \<open>printf\<close> read a null pointer.\<close>

function expand_lines :: "'c kt_options \<Rightarrow> string \<Rightarrow> string list \<Rightarrow> string list outcome" where
  "expand_lines opt inp khead =
     (case fgets MAXPATHLEN inp of
        None \<Rightarrow> Ret khead
      | Some (buf, rest) \<Rightarrow>
          let line = cstr buf; c = char_at line 0 in
          if line = [] then UB
          else if last line \<noteq> NL then Exit 2
          else if c = CHR ''#'' \<or> c = CHR ''s'' \<or> c = CHR ''-'' then expand_lines opt rest khead
          else obind (argcargv line) (\<lambda>av.
            if av = [] then expand_lines opt rest khead
            else if length av = 1 then UB
            else (case snprintf MAXPATHLEN (k_kdir opt @ av ! 1) of
                    None \<Rightarrow> Exit 2
                  | Some path \<Rightarrow> obind (ll_allocate path) (\<lambda>new. expand_lines opt rest (ll_insert khead new)))))"
  by pat_completeness auto
termination
  by (relation "measure (\<lambda>(_, inp, _). length inp)") (auto dest!: fgets_shrinks simp: MAXPATHLEN_def)

declare expand_lines.simps [simp del]

definition expand_kfile :: "'c kt_options \<Rightarrow> os \<Rightarrow> string \<Rightarrow> string list \<Rightarrow> history \<Rightarrow> (string list \<times> history) outcome" where
  "expand_kfile opt os kfile khead h =
     (case answer os (Fopen kfile) h of
        (Some e, h) \<Rightarrow> Exit 2
      | (None, h) \<Rightarrow>
          obind (expand_lines opt (os_text os h kfile) khead) (\<lambda>khead.
            case answer os (Close kfile) h of
              (Some e, h) \<Rightarrow> Exit 2
            | (None, h) \<Rightarrow> Ret (khead, h)))"

fun expand_kfiles ::
  "'c kt_options \<Rightarrow> os \<Rightarrow> string list \<Rightarrow> string list \<Rightarrow> history \<Rightarrow> (string list \<times> history) outcome" where
  "expand_kfiles opt os [] khead h = Ret (khead, h)"
| "expand_kfiles opt os (k # ks) khead h =
     obind (expand_kfile opt os k khead h) (\<lambda>(khead, h). expand_kfiles opt os ks khead h)"

text \<open>
  The entries of a directory that are looked at, in order of their names: no dot files, not the special transcript
  and not the base command file. \<open>None\<close> if a path is too long.
\<close>

fun clean_entries :: "'c kt_options \<Rightarrow> string \<Rightarrow> string list \<Rightarrow> string list \<Rightarrow> string list option" where
  "clean_entries opt path [] items = Some items"
| "clean_entries opt path (d # ds) items =
     (if char_at d 0 = CHR ''.'' \<or> strcmp d ''special.T'' = 0 then clean_entries opt path ds items
      else (case snprintf MAXPATHLEN (path @ [SLASH] @ d) of
              None \<Rightarrow> None
            | Some fsitem \<Rightarrow>
                if strcmp fsitem (k_base opt) = 0 \<or>
                   strncmp (k_kdir opt) path (length path) = 0 \<and> strcmp (k_base opt) d = 0
                then clean_entries opt path ds items
                else clean_entries opt path ds (ll_insert items fsitem)))"

definition clean_match :: "'c kt_options \<Rightarrow> string list \<Rightarrow> string \<Rightarrow> bool" where
  "clean_match opt khead cur \<longleftrightarrow>
     list_ex (\<lambda>k. k_case opt \<and> strcmp cur k = 0 \<or> \<not> k_case opt \<and> strcasecmp cur k = 0 \<or>
       ischildcase k (Some cur) (k_case opt)) khead"

text \<open>A job is a directory to be cleaned or the rest of the entries of one. \<open>False\<close> is \<open>-1\<close>.\<close>

partial_function (option) cleandirs_job ::
  "'c kt_options \<Rightarrow> os \<Rightarrow> string list \<Rightarrow> string + string list \<Rightarrow> history \<Rightarrow> (bool \<times> history) option" where
  "cleandirs_job opt os khead job h =
     (case job of
        Inl path \<Rightarrow>
          (case answer os (Opendir path) h of
             (Some e, h) \<Rightarrow> Some (False, h)
           | (None, h) \<Rightarrow>
               (case clean_entries opt path (os_dir os h path) [] of
                  None \<Rightarrow> Some (False, h)
                | Some items \<Rightarrow>
                    (case answer os (Close path) h of
                       (Some e, h) \<Rightarrow> Some (False, h)
                     | (None, h) \<Rightarrow> cleandirs_job opt os khead (Inr items) h)))
      | Inr items \<Rightarrow>
          (case items of
             [] \<Rightarrow> Some (True, h)
           | cur # items \<Rightarrow>
               (case lstat_call os cur h of
                  (Inl e, h) \<Rightarrow> Some (False, h)
                | (Inr st, h) \<Rightarrow>
                    if \<not> clean_match opt khead cur then
                      (if S_ISDIR (st_mode st)
                       then Option.bind (rmdirs os cur h) (\<lambda>(ok, h). cleandirs_job opt os khead (Inr items) h)
                       else (case answer os (Unlink cur) h of
                               (Some e, h) \<Rightarrow> Some (False, h)
                             | (None, h) \<Rightarrow> cleandirs_job opt os khead (Inr items) h))
                    else if S_ISDIR (st_mode st)
                    then Option.bind (cleandirs_job opt os khead (Inl cur) h) (\<lambda>(ok, h).
                           cleandirs_job opt os khead (Inr items) h)
                    else cleandirs_job opt os khead (Inr items) h)))"

definition cleandirs :: "'c kt_options \<Rightarrow> os \<Rightarrow> string \<Rightarrow> string list \<Rightarrow> history \<Rightarrow> (bool \<times> history) option" where
  "cleandirs opt os path khead h = cleandirs_job opt os khead (Inl path) h"

definition clean_client_dir :: "'c kt_options \<Rightarrow> os \<Rightarrow> kt \<Rightarrow> kt outcome option" where
  "clean_client_dir opt os s =
     dbind (Some (expand_kfiles opt os (k_base opt # kt_seen s) [] (kt_hist s))) (\<lambda>(khead, h).
       map_option (\<lambda>(ok, h). Ret (s\<lparr>kt_hist := h, kt_seen := []\<rparr>))
         (cleandirs opt os (case strrchr (k_kdir opt) SLASH of None \<Rightarrow> k_kdir opt | Some (pre, _) \<Rightarrow> pre) khead h))"

section \<open>\<open>main\<close>\<close>

text \<open>
  The new special transcript against the old one: \<open>None\<close> if a checksum cannot be made. Without
  checksums it always counts as changed.
\<close>

definition special_differs ::
  "'c kt_options \<Rightarrow> os \<Rightarrow> string \<Rightarrow> string \<Rightarrow> int \<Rightarrow> int \<Rightarrow> history \<Rightarrow> bool option \<times> history" where
  "special_differs opt os path temp lsz tsz h =
     (case checksum_md opt of
        None \<Rightarrow> (Some True, h)
      | Some md \<Rightarrow>
          (case c_cksum md os path h of
             ((n, l), h) \<Rightarrow>
               if n < 0 then (None, h)
               else (case c_cksum md os temp h of
                       ((n, t), h) \<Rightarrow> (if n < 0 then None else Some (tsz \<noteq> lsz \<or> strcmp (the t) (the l) \<noteq> 0), h))))"

definition special_call :: "os \<Rightarrow> call \<Rightarrow> kt \<Rightarrow> kt outcome" where
  "special_call os c s =
     (case answer os c (kt_hist s) of (Some e, h) \<Rightarrow> Exit 2 | (None, h) \<Rightarrow> Ret (s\<lparr>kt_hist := h\<rparr>))"

definition special_install :: "'c kt_options \<Rightarrow> os \<Rightarrow> string \<Rightarrow> string \<Rightarrow> kt \<Rightarrow> kt outcome" where
  "special_install opt os path temp s =
     (case answer os (Stat path) (kt_hist s) of
        (Some e, h) \<Rightarrow>
          let s = s\<lparr>kt_hist := h\<rparr> in
          if e \<noteq> ENOENT then Exit 2
          else obind (special_call os (if k_update opt then Rename temp path else Unlink temp) s) (\<lambda>s.
            Ret (s\<lparr>kt_change := Suc (kt_change s)\<rparr>))
      | (None, h) \<Rightarrow>
     (case answer os (Stat temp) h of
        (Some e, h') \<Rightarrow> Exit 2
      | (None, h') \<Rightarrow>
          (case special_differs opt os path temp (st_size (os_stat os h path)) (st_size (os_stat os h' temp)) h' of
             (None, h) \<Rightarrow> Exit 2
           | (Some d, h) \<Rightarrow>
               let s = s\<lparr>kt_hist := h, kt_change := (if d then Suc (kt_change s) else kt_change s)\<rparr> in
               special_call os (if d \<and> k_update opt then Rename temp path else Unlink temp) s)))"

definition special_update :: "'c kt_options \<Rightarrow> os \<Rightarrow> kt \<Rightarrow> kt outcome" where
  "special_update opt os s =
     (if kt_special s = [] then Ret s
      else obind (createspecial opt os (kt_special s) (kt_hist s)) (\<lambda>(ok, h).
        let s = s\<lparr>kt_hist := h, kt_special := []\<rparr> in
        if \<not> ok then Exit 2
        else (case (snprintf MAXPATHLEN (k_kdir opt @ ''special.T''), special_temp opt) of
                (Some path, Some temp) \<Rightarrow> special_install opt os path temp s
              | _ \<Rightarrow> Exit 2)))"

definition kt_done :: "'c kt_options \<Rightarrow> os \<Rightarrow> bool \<Rightarrow> string \<Rightarrow> kt \<Rightarrow> (int \<times> kt) outcome option" where
  "kt_done opt os report event s =
     dbind (if k_clean opt \<and> k_update opt then clean_client_dir opt os s else Some (Ret s)) (\<lambda>s.
       let text = (if 0 < kt_change s then (if k_update opt then ''Updates retrieved'' else ''Updates available'')
                   else ''No updates needed'') in
       Some (obind (maybe_event report os event text s) (\<lambda>s.
         case closesn os (kt_hist s) of
           (Inl n, h) \<Rightarrow> Exit n
         | (Inr n, h) \<Rightarrow>
             if n \<noteq> 0 then Exit 2 else Ret (if 0 < kt_change s then 1 else 0, s\<lparr>kt_hist := h\<rparr>))))"

text \<open>
  The result is the exit status at the end of \<open>main\<close>; \<open>Exit\<close> is any other end of the program. \<open>report\<close> is off
  when the server cannot take reports.
\<close>

definition kt_main :: "'c kt_options \<Rightarrow> os \<Rightarrow> bool \<Rightarrow> string \<Rightarrow> history \<Rightarrow> (int \<times> kt) outcome option" where
  "kt_main opt os report event h =
     dbind (check opt os ''COMMAND'' None h) (\<lambda>(n, h).
       let s = (kt0 h)\<lparr>kt_change := (if n = 1 then 1 else 0)\<rparr> in
       if n = 2 then Some (obind (maybe_event report os event ''Error'' s) (\<lambda>s. Exit 2))
       else if n = 1 \<and> \<not> k_update opt then kt_done opt os report event s
       else dbind (k_read_kfile opt os report event (k_base opt) s) (\<lambda>(n, s).
         if n \<noteq> 0 then Some (Exit 2)
         else if \<not> k_update opt \<and> 0 < kt_change s then Some (Exit 1)
         else dbind (Some (special_update opt os s)) (kt_done opt os report event)))"

end
