(* ===== verification/KtcheckClean.thy ===== *)
theory KtcheckClean
  imports Ktcheck Download
begin

text \<open>
  What the cleaning of \<open>ktcheck\<close> removes: only objects in the directory of the command files, and nothing that
  a command file names. The names that \<open>readdir\<close> gives have no slash.
\<close>

section \<open>Removals\<close>

definition plain_name :: "string \<Rightarrow> bool" where
  "plain_name d \<longleftrightarrow> d \<noteq> [] \<and> SLASH \<notin> set d \<and> c_string d"

definition plain_dirs :: "os \<Rightarrow> bool" where
  "plain_dirs os \<longleftrightarrow> (\<forall>h p. \<forall>d \<in> set (os_dir os h p). plain_name d)"

text \<open>At a path or below it.\<close>

definition under :: "string \<Rightarrow> string \<Rightarrow> bool" where
  "under path p \<longleftrightarrow> p = path \<or> (\<exists>r. p = path @ SLASH # r)"

fun removes :: "(string \<Rightarrow> bool) \<Rightarrow> call \<Rightarrow> bool" where
  "removes P (Unlink p) = P p"
| "removes P (Rmdir p) = P p"
| "removes P c = True"

lemma under_trans: "under a b \<Longrightarrow> under b c \<Longrightarrow> under a c"
  by (auto simp: under_def)

lemma under_self [simp]: "under a a"
  by (simp add: under_def)

lemma removes_mono: "removes P c \<Longrightarrow> (\<And>p. P p \<Longrightarrow> Q p) \<Longrightarrow> removes Q c"
  by (cases c) auto

lemma grows_call: "P c \<Longrightarrow> grows P h (snd (answer os c h))" "P c \<Longrightarrow> answer os c h = (e, h') \<Longrightarrow> grows P h h'"
  by (auto simp: answer_split)

lemma lstat_grows: "P (Lstat p) \<Longrightarrow> lstat_call os p h = (r, h') \<Longrightarrow> grows P h h'"
  by (auto simp: lstat_call_def Let_def)

text \<open>The path of an entry.\<close>

definition dir_path :: "string \<Rightarrow> bool" where
  "dir_path path \<longleftrightarrow> path \<noteq> [] \<and> last path \<noteq> SLASH \<and> c_string path"

lemma entry_path_plain:
  assumes "entry_path path d = Some t" "dir_path path" "plain_name d"
  shows "dir_path t \<and> under path t"
proof -
  have "last d \<noteq> SLASH" using assms(3) unfolding plain_name_def by (metis last_in_set)
  with assms show ?thesis by (auto simp: entry_path_def dir_path_def plain_name_def under_def split: if_splits)
qed

lemma rmdirs_end_grows: "grows (removes (under path)) h (snd (rmdirs_end os path h))"
  by (auto simp: rmdirs_end_def answer_split split: option.split)

lemma rmdirs_error_grows: "grows (removes (under path)) h (snd (rmdirs_error os path h))"
  by (auto simp: rmdirs_error_def answer_split)

lemma rmdirs_job_grows:
  assumes "rmdirs_job os path job h = Some r"
  shows "plain_dirs os \<longrightarrow> dir_path path \<longrightarrow> (\<forall>ds u. job = Some (ds, u) \<longrightarrow> (\<forall>d \<in> set ds. plain_name d)) \<longrightarrow>
    grows (removes (under path)) h (snd r)"
proof (rule rmdirs_job.raw_induct [where P = "\<lambda>os path job h r. plain_dirs os \<longrightarrow> dir_path path \<longrightarrow>
    (\<forall>ds u. job = Some (ds, u) \<longrightarrow> (\<forall>d \<in> set ds. plain_name d)) \<longrightarrow> grows (removes (under path)) h (snd r)", OF _ assms],
    intro impI)
  fix rec os path job h r
  assume IH: "\<And>os path job h r. rec os path job h = Some r \<Longrightarrow> plain_dirs os \<longrightarrow> dir_path path \<longrightarrow>
      (\<forall>ds u. job = Some (ds, u) \<longrightarrow> (\<forall>d \<in> set ds. plain_name d)) \<longrightarrow> grows (removes (under path)) h (snd r)"
    and body: "(case job of
        None \<Rightarrow>
          (case answer os (Opendir path) h of
             (Some e, h) \<Rightarrow> Some (False, h)
           | (None, h) \<Rightarrow> rec os path (Some (os_dir os h path, False)) h)
      | Some ([], unlinked) \<Rightarrow>
          if unlinked then rec os path (Some ([], False)) h else Some (rmdirs_end os path h)
      | Some (d # ds, unlinked) \<Rightarrow>
          if d = ''.'' \<or> d = ''..'' then rec os path (Some (ds, unlinked)) h
          else (case entry_path path d of
             None \<Rightarrow> Some (rmdirs_error os path h)
           | Some temp \<Rightarrow>
               (case lstat_call os temp h of
                  (Inl e, h) \<Rightarrow> Some (rmdirs_error os path h)
                | (Inr st, h) \<Rightarrow>
                    if S_ISDIR (st_mode st)
                    then Option.bind (rec os temp None h) (\<lambda>(ok, h).
                      if \<not> ok then Some (rmdirs_error os path h)
                      else rec os path (Some (if unlinked then os_dir os h path else ds, unlinked)) h)
                    else (case answer os (Unlink temp) h of
                       (Some e, h) \<Rightarrow> Some (rmdirs_error os path h)
                     | (None, h) \<Rightarrow> rec os path (Some (os_dir os h path, True)) h)))) = Some r"
    and pl: "plain_dirs os" and dp: "dir_path path" and jn: "\<forall>ds u. job = Some (ds, u) \<longrightarrow> (\<forall>d \<in> set ds. plain_name d)"
  let ?P = "removes (under path)"
  have more: "grows ?P h0 (snd r)" if "rec os path (Some (ds, u)) h1 = Some r" "grows ?P h0 h1" "\<forall>d \<in> set ds. plain_name d"
    for ds u h0 h1 using IH [OF that(1)] that(2,3) pl dp by (blast intro: grows_trans)
  have err: "grows ?P h0 (snd r)" if "Some (rmdirs_error os path h1) = Some r" "grows ?P h0 h1" for h0 h1
    using rmdirs_error_grows [of path h1 os] that by (auto intro: grows_trans)
  have names: "\<forall>d \<in> set (os_dir os h p). plain_name d" for h p using pl by (simp add: plain_dirs_def)
  show "grows ?P h (snd r)"
  proof (cases job)
    case None
    obtain e h1 where a: "answer os (Opendir path) h = (e, h1)" by force
    have g: "grows ?P h h1" by (rule grows_call(2) [OF _ a]) simp
    show ?thesis
    proof (cases e)
      case None
      with body \<open>job = None\<close> a have "rec os path (Some (os_dir os h1 path, False)) h1 = Some r" by simp
      from more [OF this g names] show ?thesis .
    qed (use body None a g in auto)
  next
    case (Some p)
    obtain ds u where p: "p = (ds, u)" by force
    show ?thesis
    proof (cases ds)
      case Nil
      with body Some p more [of "[]" False h h] rmdirs_end_grows [of path h os] show ?thesis by (auto split: if_splits)
    next
      case (Cons d ds')
      have n: "plain_name d" "\<forall>d \<in> set ds'. plain_name d" using jn Some p Cons by auto
      show ?thesis
      proof (cases "d = ''.'' \<or> d = ''..''")
        case True
        with body Some p Cons have "rec os path (Some (ds', u)) h = Some r" by auto
        from more [OF this _ n(2)] show ?thesis by simp
      next
        case nodot: False
        show ?thesis
        proof (cases "entry_path path d")
          case None
          with body Some p Cons nodot err [of h h] show ?thesis by simp
        next
          case temp: (Some temp)
          from entry_path_plain [OF temp dp n(1)] have t: "dir_path temp" "under path temp" by auto
          obtain x h1 where l: "lstat_call os temp h = (x, h1)" by force
          have g1: "grows ?P h h1" by (rule lstat_grows [OF _ l]) simp
          show ?thesis
          proof (cases x)
            case (Inl e)
            with body Some p Cons nodot temp l err [of h1 h, OF _ g1] show ?thesis by simp
          next
            case (Inr st)
            show ?thesis
            proof (cases "S_ISDIR (st_mode st)")
              case True
              with body Some p Cons nodot temp l Inr obtain ok h2 where sub: "rec os temp None h1 = Some (ok, h2)"
                and rest: "(if \<not> ok then Some (rmdirs_error os path h2)
                      else rec os path (Some (if u then os_dir os h2 path else ds', u)) h2) = Some r"
                by (auto simp: Option.bind_eq_Some_conv)
              have "grows (removes (under temp)) h1 h2" using IH [OF sub] pl t(1) by simp
              then have "grows ?P h1 h2" by (rule grows_mono) (use t(2) in \<open>auto elim!: removes_mono intro: under_trans\<close>)
              with g1 have g2: "grows ?P h h2" by (rule grows_trans)
              show ?thesis
              proof (cases ok)
                case True
                then show ?thesis using more [OF _ g2, of "if u then os_dir os h2 path else ds'" u] rest names n(2) by auto
              qed (use rest err [of h2 h, OF _ g2] in simp)
            next
              case False
              obtain e h2 where a: "answer os (Unlink temp) h1 = (e, h2)" by force
              have "grows ?P h1 h2" by (rule grows_call(2) [OF _ a]) (simp add: t)
              with g1 have g2: "grows ?P h h2" by (rule grows_trans)
              show ?thesis
              proof (cases e)
                case None
                with body Some p Cons nodot temp l Inr False a
                have "rec os path (Some (os_dir os h2 path, True)) h2 = Some r" by simp
                from more [OF this g2 names] show ?thesis .
              qed (use body Some p Cons nodot temp l Inr False a err [of h2 h, OF _ g2] in simp)
            qed
          qed
        qed
      qed
    qed
  qed
qed

lemma rmdirs_grows:
  assumes "rmdirs os path h = Some (ok, h')" "plain_dirs os" "dir_path path"
  shows "grows (removes (under path)) h h'"
  using rmdirs_job_grows [OF assms(1) [unfolded rmdirs_def]] assms(2,3) by simp

section \<open>Cleaning\<close>

lemma set_ll_insert [simp]: "set (ll_insert cs n) = insert n (set cs)"
  by (induction cs) auto

text \<open>The entries that are looked at lie in the directory.\<close>

definition item_of :: "string \<Rightarrow> string \<Rightarrow> bool" where
  "item_of path cur \<longleftrightarrow> (\<exists>d. cur = path @ SLASH # d \<and> plain_name d)"

lemma clean_entries_items:
  "clean_entries opt path ds items = Some items' \<Longrightarrow> \<forall>d \<in> set ds. plain_name d \<Longrightarrow> \<forall>i \<in> set items. item_of path i \<Longrightarrow>
     \<forall>i \<in> set items'. item_of path i"
  by (induction opt path ds items rule: clean_entries.induct)
    (auto simp: item_of_def split: if_splits option.splits)

lemma item_of_dir_path: "item_of path cur \<Longrightarrow> c_string path \<Longrightarrow> dir_path cur"
  using last_in_set by (fastforce simp: item_of_def dir_path_def plain_name_def)

lemma item_of_under: "item_of path cur \<Longrightarrow> under path cur"
  by (auto simp: item_of_def under_def)

lemma strcasecmp_refl [simp]: "strcasecmp s s = 0"
  by (induction s) auto

text \<open>An item without a match is neither the path of a listed name nor a directory above it.\<close>

lemma clean_match_under:
  assumes "k \<in> set khead" "under cur k" "c_string cur" "c_string k" "1 < length cur"
  shows "clean_match opt khead cur"
proof (cases "k = cur")
  case True
  then have "strcmp cur k = 0" "strcasecmp cur k = 0" by simp_all
  with assms(1) show ?thesis by (auto simp: clean_match_def list_ex_iff)
next
  case False
  with assms(2) obtain r where k: "k = cur @ SLASH # r" by (auto simp: under_def)
  have "ischildcase k (Some cur) cs" for cs
    using assms(5) by (simp add: ischildcase_def k strncmp_def strncasecmp_def char_at_def)
  with assms(1) show ?thesis by (auto simp: clean_match_def list_ex_iff)
qed

text \<open>What may go: an object at or below an item of the directory that has no match.\<close>

definition cleaned_away :: "'c kt_options \<Rightarrow> string list \<Rightarrow> string \<Rightarrow> string \<Rightarrow> bool" where
  "cleaned_away opt khead dir p \<longleftrightarrow>
     (\<exists>cur. dir_path cur \<and> (\<exists>d r. cur = dir @ SLASH # d # r) \<and> \<not> clean_match opt khead cur \<and> under cur p)"

lemma cleaned_away_item:
  assumes "item_of dir cur" "c_string dir" "\<not> clean_match opt khead cur" "under cur p"
  shows "cleaned_away opt khead dir p"
proof -
  from assms(1) obtain d r where "cur = dir @ SLASH # d # r" unfolding item_of_def plain_name_def by (metis neq_Nil_conv)
  with assms item_of_dir_path [OF assms(1,2)] show ?thesis unfolding cleaned_away_def by blast
qed

lemma cleaned_away_below:
  "cleaned_away opt khead cur p \<Longrightarrow> item_of dir cur \<Longrightarrow> cleaned_away opt khead dir p"
  unfolding cleaned_away_def item_of_def plain_name_def by (elim exE conjE, rename_tac c d e r) (case_tac d; fastforce)

lemma cleandirs_job_grows:
  assumes "cleandirs_job opt os khead job h = Some r"
  shows "plain_dirs os \<longrightarrow> (\<forall>dir. c_string dir \<longrightarrow>
      (case job of Inl path \<Rightarrow> path = dir | Inr items \<Rightarrow> \<forall>i \<in> set items. item_of dir i) \<longrightarrow>
      grows (removes (cleaned_away opt khead dir)) h (snd r))"
proof (rule cleandirs_job.raw_induct [where P = "\<lambda>opt os khead job h r. plain_dirs os \<longrightarrow> (\<forall>dir. c_string dir \<longrightarrow>
      (case job of Inl path \<Rightarrow> path = dir | Inr items \<Rightarrow> \<forall>i \<in> set items. item_of dir i) \<longrightarrow>
      grows (removes (cleaned_away opt khead dir)) h (snd r))", OF _ assms], intro impI allI)
  fix rec opt os khead job h r dir
  assume IH: "\<And>opt os khead job h r. rec opt os khead job h = Some r \<Longrightarrow> plain_dirs os \<longrightarrow> (\<forall>dir. c_string dir \<longrightarrow>
      (case job of Inl path \<Rightarrow> path = dir | Inr items \<Rightarrow> \<forall>i \<in> set items. item_of dir i) \<longrightarrow>
      grows (removes (cleaned_away opt khead dir)) h (snd r))"
    and body: "(case job of
        Inl path \<Rightarrow>
          (case answer os (Opendir path) h of
             (Some e, h) \<Rightarrow> Some (False, h)
           | (None, h) \<Rightarrow>
               (case clean_entries opt path (os_dir os h path) [] of
                  None \<Rightarrow> Some (False, h)
                | Some items \<Rightarrow>
                    (case answer os (Close path) h of
                       (Some e, h) \<Rightarrow> Some (False, h)
                     | (None, h) \<Rightarrow> rec opt os khead (Inr items) h)))
      | Inr items \<Rightarrow>
          (case items of
             [] \<Rightarrow> Some (True, h)
           | cur # items \<Rightarrow>
               (case lstat_call os cur h of
                  (Inl e, h) \<Rightarrow> Some (False, h)
                | (Inr st, h) \<Rightarrow>
                    if \<not> clean_match opt khead cur then
                      (if S_ISDIR (st_mode st)
                       then Option.bind (rmdirs os cur h) (\<lambda>(ok, h). rec opt os khead (Inr items) h)
                       else (case answer os (Unlink cur) h of
                               (Some e, h) \<Rightarrow> Some (False, h)
                             | (None, h) \<Rightarrow> rec opt os khead (Inr items) h))
                    else if S_ISDIR (st_mode st)
                    then Option.bind (rec opt os khead (Inl cur) h) (\<lambda>(ok, h). rec opt os khead (Inr items) h)
                    else rec opt os khead (Inr items) h))) = Some r"
    and pl: "plain_dirs os" and cd: "c_string dir"
    and j: "case job of Inl path \<Rightarrow> path = dir | Inr items \<Rightarrow> \<forall>i \<in> set items. item_of dir i"
  let ?P = "removes (cleaned_away opt khead dir)"
  have more: "grows ?P h0 (snd r)" if "rec opt os khead (Inr items) h1 = Some r" "grows ?P h0 h1" "\<forall>i \<in> set items. item_of dir i"
    for items h0 h1 using IH [OF that(1)] that(2,3) pl cd by (auto intro: grows_trans)
  show "grows ?P h (snd r)"
  proof (cases job)
    case (Inl path)
    with j have [simp]: "path = dir" by simp
    obtain e h1 where a1: "answer os (Opendir dir) h = (e, h1)" by force
    have g1: "grows ?P h h1" by (rule grows_call(2) [OF _ a1]) simp
    show ?thesis
    proof (cases "e = None \<and> clean_entries opt dir (os_dir os h1 dir) [] \<noteq> None")
      case True
      then obtain items where i: "e = None" "clean_entries opt dir (os_dir os h1 dir) [] = Some items" by auto
      have it: "\<forall>i \<in> set items. item_of dir i"
        using clean_entries_items [OF i(2)] pl by (simp add: plain_dirs_def)
      obtain e2 h2 where a2: "answer os (Close dir) h1 = (e2, h2)" by force
      have g2: "grows ?P h h2" by (rule grows_trans [OF g1 grows_call(2) [OF _ a2]]) simp
      show ?thesis
      proof (cases e2)
        case None
        with body Inl a1 i a2 have "rec opt os khead (Inr items) h2 = Some r" by simp
        from more [OF this g2 it] show ?thesis .
      qed (use body Inl a1 i a2 g2 in auto)
    qed (use body Inl a1 g1 in \<open>auto split: option.splits\<close>)
  next
    case (Inr items0)
    show ?thesis
    proof (cases items0)
      case (Cons cur items)
      have it: "item_of dir cur" "\<forall>i \<in> set items. item_of dir i" using j Inr Cons by auto
      obtain x h1 where l: "lstat_call os cur h = (x, h1)" by force
      have g1: "grows ?P h h1" by (rule lstat_grows [OF _ l]) simp
      show ?thesis
      proof (cases x)
        case (Inl e)
        with body Inr Cons l g1 show ?thesis by auto
      next
        case x: (Inr st)
        show ?thesis
        proof (cases "clean_match opt khead cur")
          case False
          note away = cleaned_away_item [OF it(1) cd False]
          show ?thesis
          proof (cases "S_ISDIR (st_mode st)")
            case True
            with body Inr Cons l x False obtain ok h2 where s: "rmdirs os cur h1 = Some (ok, h2)"
              and rest: "rec opt os khead (Inr items) h2 = Some r" by (auto simp: Option.bind_eq_Some_conv)
            have "grows ?P h1 h2"
              by (rule grows_mono [OF rmdirs_grows [OF s pl item_of_dir_path [OF it(1) cd]]]) (auto elim!: removes_mono intro: away)
            from more [OF rest grows_trans [OF g1 this] it(2)] show ?thesis .
          next
            case nodir: False
            obtain e h2 where a: "answer os (Unlink cur) h1 = (e, h2)" by force
            have g2: "grows ?P h h2" by (rule grows_trans [OF g1 grows_call(2) [OF _ a]]) (simp add: away)
            show ?thesis
            proof (cases e)
              case None
              with body Inr Cons l x False nodir a have "rec opt os khead (Inr items) h2 = Some r" by simp
              from more [OF this g2 it(2)] show ?thesis .
            qed (use body Inr Cons l x False nodir a g2 in auto)
          qed
        next
          case True
          show ?thesis
          proof (cases "S_ISDIR (st_mode st)")
            case dir: True
            with body Inr Cons l x True obtain ok h2 where s: "rec opt os khead (Inl cur) h1 = Some (ok, h2)"
              and rest: "rec opt os khead (Inr items) h2 = Some r" by (auto simp: Option.bind_eq_Some_conv)
            have "c_string cur" using item_of_dir_path [OF it(1) cd] by (simp add: dir_path_def)
            with IH [OF s] pl have "grows (removes (cleaned_away opt khead cur)) h1 h2" by simp
            then have "grows ?P h1 h2" by (rule grows_mono) (auto elim!: removes_mono intro: cleaned_away_below [OF _ it(1)])
            from more [OF rest grows_trans [OF g1 this] it(2)] show ?thesis .
          qed (use body Inr Cons l x True more [OF _ g1 it(2)] in simp)
        qed
      qed
    qed (use body Inr in auto)
  qed
qed

text \<open>A run of the cleaning.\<close>

lemma cleandirs_keeps:
  assumes "cleandirs opt os dir khead h = Some (ok, h')" "plain_dirs os" "c_string dir" "\<forall>k \<in> set khead. c_string k"
  shows "grows (removes (\<lambda>p. (\<exists>r. p = dir @ SLASH # r) \<and> p \<notin> set khead)) h h'"
proof -
  have "grows (removes (cleaned_away opt khead dir)) h h'"
    using cleandirs_job_grows [OF assms(1) [unfolded cleandirs_def]] assms(2,3) by simp
  then show ?thesis
  proof (rule grows_mono, elim removes_mono)
    fix c p
    assume "cleaned_away opt khead dir p"
    then obtain cur d r where c: "dir_path cur" "cur = dir @ SLASH # d # r" "\<not> clean_match opt khead cur" "under cur p"
      unfolding cleaned_away_def by blast
    have "p \<notin> set khead" using clean_match_under [OF _ c(4)] c(1-3) assms(4) by (fastforce simp: dir_path_def)
    with c(2,4) show "(\<exists>r. p = dir @ SLASH # r) \<and> p \<notin> set khead" by (auto simp: under_def)
  qed
qed

section \<open>The names in the command files\<close>

lemma expand_lines_strings:
  "expand_lines opt inp khead = Ret khead' \<Longrightarrow> c_string (k_kdir opt) \<Longrightarrow> \<forall>k \<in> set khead. c_string k \<Longrightarrow>
     \<forall>k \<in> set khead'. c_string k"
proof (induction opt inp khead rule: expand_lines.induct)
  case (1 opt inp khead)
  show ?case
  proof (cases "fgets MAXPATHLEN inp")
    case None
    with "1.prems" show ?thesis by (simp add: expand_lines.simps [of opt inp])
  next
    case (Some p)
    obtain buf rest where p: "p = (buf, rest)" by force
    note f = Some [unfolded p]
    let ?line = "cstr buf"
    let ?c = "char_at ?line 0"
    from "1.prems"(1) f have l: "?line \<noteq> []" "last ?line = NL" by (auto simp: expand_lines.simps [of opt inp] Let_def split: if_splits)
    show ?thesis
    proof (cases "?c = CHR ''#'' \<or> ?c = CHR ''s'' \<or> ?c = CHR ''-''")
      case True
      with "1.prems" f l have "expand_lines opt rest khead = Ret khead'" by (auto simp: expand_lines.simps [of opt inp] Let_def)
      from "1.IH"(1) [OF f refl refl refl _ _ True this] l "1.prems" show ?thesis by simp
    next
      case False
      obtain av where av: "argcargv ?line = Ret av" using argcargv_defined by blast
      show ?thesis
      proof (cases "av = []")
        case True
        with "1.prems" f l False av have "expand_lines opt rest khead = Ret khead'"
          by (auto simp: expand_lines.simps [of opt inp] Let_def)
        from "1.IH"(2) [OF f refl refl refl _ _ False av True this] l "1.prems" show ?thesis by simp
      next
        case words: False
        with "1.prems"(1) f l False av have n: "length av \<noteq> 1" "length (k_kdir opt @ av ! 1) < MAXPATHLEN"
          and e: "expand_lines opt rest (ll_insert khead (k_kdir opt @ av ! 1)) = Ret khead'"
          by (auto simp: expand_lines.simps [of opt inp] Let_def ll_allocate_def obind_Ret_iff split: if_splits option.splits)
        have s: "snprintf MAXPATHLEN (k_kdir opt @ av ! 1) = Some (k_kdir opt @ av ! 1)" using n by simp
        have a: "ll_allocate (k_kdir opt @ av ! 1) = Ret (k_kdir opt @ av ! 1)" using n by (simp add: ll_allocate_def)
        have "1 < length av" using words n(1) by (cases av) auto
        then have "c_string (k_kdir opt @ av ! 1)" using argcargv_words [OF av, of "av ! 1"] "1.prems"(2) by simp
        with "1.IH"(3) [OF f refl refl refl _ _ False av words n(1) s a e] l "1.prems" show ?thesis by auto
      qed
    qed
  qed
qed

lemma expand_kfiles_strings:
  "expand_kfiles opt os ks khead h = Ret (khead', h') \<Longrightarrow> c_string (k_kdir opt) \<Longrightarrow> \<forall>k \<in> set khead. c_string k \<Longrightarrow>
     (\<forall>k \<in> set khead'. c_string k) \<and> grows (\<lambda>c. \<forall>P. removes P c) h h'"
proof (induction opt os ks khead h rule: expand_kfiles.induct)
  case (2 opt os k ks khead h)
  from "2.prems"(1) obtain khead1 h1 where e: "expand_kfile opt os k khead h = Ret (khead1, h1)"
    and rest: "expand_kfiles opt os ks khead1 h1 = Ret (khead', h')" by (auto simp: obind_Ret_iff)
  obtain e1 x where a1: "answer os (Fopen k) h = (e1, x)" by force
  obtain e2 z where a2: "answer os (Close k) x = (e2, z)" by force
  have o: "e1 = None" "expand_lines opt (os_text os x k) khead = Ret khead1" "e2 = None" "h1 = z"
    using e a1 a2 by (auto simp: expand_kfile_def obind_Ret_iff split: option.splits)
  have g: "grows (\<lambda>c. \<forall>P. removes P c) h h1"
    using grows_trans [OF grows_call(2) [OF _ a1] grows_call(2) [OF _ a2], of "\<lambda>c. \<forall>P. removes P c"] o(4) by simp
  have "\<forall>k \<in> set khead1. c_string k" using expand_lines_strings [OF o(2)] "2.prems" by simp
  with "2.IH" [OF e _ rest] "2.prems" g show ?case by (auto intro: grows_trans)
qed simp

text \<open>A whole cleaning. The directory is \<open>kdir\<close> without its slash.\<close>

lemma client_dir_keeps:
  assumes "clean_client_dir opt os s = Some (Ret s')" "plain_dirs os" "c_string (k_kdir opt)" "k_kdir opt = dir @ [SLASH]"
    "expand_kfiles opt os (k_base opt # kt_seen s) [] (kt_hist s) = Ret (named, h)"
  shows "grows (removes (\<lambda>p. (\<exists>r. p = k_kdir opt @ r) \<and> p \<notin> set named)) (kt_hist s) (kt_hist s')"
proof -
  let ?P = "removes (\<lambda>p. (\<exists>r. p = k_kdir opt @ r) \<and> p \<notin> set named)"
  have d: "strrchr (dir @ [SLASH]) SLASH = Some (dir, [])" by (induction dir) simp_all
  from assms(1,5) obtain ok h' where c: "cleandirs opt os dir named h = Some (ok, h')" "kt_hist s' = h'"
    by (auto simp: clean_client_dir_def d assms(4) split: prod.splits)
  have e: "\<forall>k \<in> set named. c_string k" "grows (\<lambda>c. \<forall>P. removes P c) (kt_hist s) h"
    using expand_kfiles_strings [OF assms(5,3)] by simp_all
  have "c_string dir" using assms(3,4) by (simp add: c_string_def)
  from cleandirs_keeps [OF c(1) assms(2) this e(1)] have "grows ?P h h'"
    by (rule grows_mono) (auto elim!: removes_mono simp: assms(4))
  moreover have "grows ?P (kt_hist s) h" by (rule grows_mono [OF e(2)]) blast
  ultimately show ?thesis unfolding c(2) by (blast intro: grows_trans)
qed

lemma clean_removes:
  assumes "clean_client_dir opt os s = Some (Ret s')" "plain_dirs os" "c_string (k_kdir opt)" "k_kdir opt = dir @ [SLASH]"
    "expand_kfiles opt os (k_base opt # kt_seen s) [] (kt_hist s) = Ret (named, h)"
  shows "\<exists>k. kt_hist s' = kt_hist s @ k \<and>
    (\<forall>p e. Did (Unlink p) e \<in> set k \<or> Did (Rmdir p) e \<in> set k \<longrightarrow> (\<exists>r. p = k_kdir opt @ r) \<and> p \<notin> set named)"
proof -
  let ?P = "\<lambda>p. (\<exists>r. p = k_kdir opt @ r) \<and> p \<notin> set named"
  obtain k where k: "kt_hist s' = kt_hist s @ k" "\<forall>c e. Did c e \<in> set k \<longrightarrow> removes ?P c"
    using client_dir_keeps [OF assms] unfolding grows_def by blast
  have "?P p" if "Did (Unlink p) e \<in> set k \<or> Did (Rmdir p) e \<in> set k" for p e
  proof -
    from that obtain c where "Did c e \<in> set k" "c = Unlink p \<or> c = Rmdir p" by blast
    with k(2) have "removes ?P c" "c = Unlink p \<or> c = Rmdir p" by blast+
    then show ?thesis by (elim disjE) simp_all
  qed
  with k(1) show ?thesis by blast
qed

end
