(* ===== verification/KtcheckUpdate.thy ===== *)
theory KtcheckUpdate
  imports KtcheckClean
begin

text \<open>
  What \<open>check\<close> of \<open>ktcheck\<close> promises: a file that passes is as the server says, and after an update the new file has
  been fetched whole before it takes the place of the old one.
\<close>

section \<open>Files that pass\<close>

text \<open>The file as it was found after the calls \<open>h\<close>, against the words of the server's line.\<close>

definition up_to_date :: "'c kt_options \<Rightarrow> os \<Rightarrow> string \<Rightarrow> string list \<Rightarrow> history \<Rightarrow> bool" where
  "up_to_date opt os path av h \<longleftrightarrow>
     st_size (os_stat os h path) = strtol 10 (av ! 6) \<and>
     (case checksum_md opt of
        None \<Rightarrow> st_mtime (os_stat os h path) = strtol 10 (av ! 5)
      | Some md \<Rightarrow> snd (do_fcksum md (os_bytes os (h @ [Did (Open path) None]) path)) = Some (av ! 7))"

lemma c_cksum_Some:
  assumes "c_cksum md os path h = ((n, b64), h')" "\<not> n < 0"
  shows "b64 = snd (do_fcksum md (os_bytes os (h @ [Did (Open path) None]) path)) \<and> os_err os h (Open path) = None"
  using assms
  by (cases "os_err os h (Open path)")
    (auto simp: c_cksum_def answer_split do_cksum_def split: prod.splits if_splits)

lemma out_of_date_False:
  assumes "out_of_date opt os path av (os_stat os h path) h = (Some False, h')" "c_string (av ! 7)"
  shows "up_to_date opt os path av h"
proof (cases "checksum_md opt")
  case None
  with assms(1) show ?thesis by (auto simp: out_of_date_def up_to_date_def split: if_splits)
next
  case (Some md)
  obtain n b64 h1 where c: "c_cksum md os path h = ((n, b64), h1)" by (metis prod.collapse)
  with assms(1) Some obtain x where b: "\<not> n < 0" "b64 = Some x" "strcmp (av ! 7) x = 0" "strtol 10 (av ! 6) = st_size (os_stat os h path)"
    by (auto simp: out_of_date_def split: if_splits)
  have "snd (do_fcksum md (os_bytes os (h @ [Did (Open path) None]) path)) = Some x"
    using c_cksum_Some [OF c b(1)] b(2) by simp
  moreover have "c_string x"
    using calculation by (auto simp: do_fcksum_def c_string_base64 split: option.splits prod.splits)
  ultimately show ?thesis using Some b assms(2) by (simp add: up_to_date_def strcmp_0)
qed

section \<open>Files that are fetched\<close>

text \<open>
  The end of the trace: the download \<open>k\<close> has given the temporary file the size and, with checksums on, the checksum of the
  server's line, then it has got its time and its name.
\<close>

definition fetched :: "'c kt_options \<Rightarrow> string \<Rightarrow> string list \<Rightarrow> history \<Rightarrow> history \<Rightarrow> bool" where
  "fetched opt path av h h' \<longleftrightarrow>
     (\<exists>k t. h' = h @ k @ [Did (Utime t (strtol 10 (av ! 5))) None, Did (Rename t path) None] \<and>
        checksum_ok (options.truncate opt) (av ! 7) (written t k) \<and>
        (0 \<le> strtol 10 (av ! 6) \<longrightarrow> int (length (written t k)) = strtol 10 (av ! 6)))"

text \<open>The time could not be set.\<close>

definition not_timed :: "string list \<Rightarrow> history \<Rightarrow> history \<Rightarrow> bool" where
  "not_timed av h h' \<longleftrightarrow> (\<exists>k t e. h' = h @ k @ [Did (Utime t (strtol 10 (av ! 5))) (Some e)] \<and>
     (\<forall>a b r. Did (Rename a b) r \<notin> set k))"

lemma retr_no_rename:
  assumes "retr opt os pathdesc path transize tc h = (r, h')" "h' = h @ k"
  shows "Did (Rename a b) e \<notin> set k"
proof -
  have "grows (fetches (temp_name opt path)) h h'"
    using retr_grows [of opt path h h os pathdesc transize tc] assms(1) by simp
  moreover have "\<not> fetches (temp_name opt path) (Rename a b)" by (simp add: fetches_def works_on_def)
  ultimately show ?thesis using assms(2) by (auto simp: grows_def)
qed

lemma check_install_contract:
  assumes "check_install opt os pathdesc path av h = (1, h')" "digest_fine (options.truncate opt)" "c_string (av ! 7)"
  shows "fetched opt path av h h' \<or> not_timed av h h'"
proof -
  obtain r t h1 where rt: "retr (options.truncate opt) os pathdesc path (strtol 10 (av ! 6)) (av ! 7) h = ((r, t), h1)"
    by (metis prod.collapse)
  from assms(1) rt have r: "r = 0" by (auto simp: check_install_def split: if_splits)
  from retr_ok [OF rt [unfolded r] assms(2,3)] obtain k where k: "h1 = h @ k"
    "checksum_ok (options.truncate opt) (av ! 7) (written t k)"
    "0 \<le> strtol 10 (av ! 6) \<longrightarrow> int (length (written t k)) = strtol 10 (av ! 6)" by (auto simp: goes_def)
  note nr = retr_no_rename [OF rt k(1)]
  from assms(1) rt r k(1) show ?thesis
    using k(2,3) nr by (auto simp: check_install_def answer_split fetched_def not_timed_def split: option.splits)
qed

lemma check_file_contract:
  assumes "check_file opt os pathdesc path av h = (n, h')" "k_update opt" "digest_fine (options.truncate opt)"
    "c_string (av ! 7)"
  shows "(n = 0 \<longrightarrow> up_to_date opt os path av (h @ [Did (Stat path) None])) \<and>
    (n = 1 \<longrightarrow> (\<exists>k. fetched opt path av (h @ k) h' \<or> not_timed av (h @ k) h'))"
proof (cases "os_err os h (Stat path)")
  case (Some e)
  have "check_file opt os pathdesc path av h = (if e \<noteq> ENOENT then (2, h @ [Did (Stat path) (Some e)])
      else check_install opt os pathdesc path av (h @ [Did (Stat path) (Some e)]))"
    using Some assms(2) by (simp add: check_file_def answer_split)
  with assms(1) have "n = 2 \<or> check_install opt os pathdesc path av (h @ [Did (Stat path) (Some e)]) = (n, h')"
    by (auto split: if_splits)
  moreover have "check_install opt os pathdesc path av x \<noteq> (0, y)" for x y
    by (auto simp: check_install_def split: prod.splits option.splits)
  ultimately show ?thesis using check_install_contract [OF _ assms(3,4)] by fastforce
next
  case None
  let ?h = "h @ [Did (Stat path) None]"
  obtain o2 h2 where o2: "out_of_date opt os path av (os_stat os ?h path) ?h = (o2, h2)" by force
  obtain e h3 where a: "answer os (Unlink path) h2 = (e, h3)" by force
  have eq: "(n, h') = (case o2 of None \<Rightarrow> (2, h2) | Some False \<Rightarrow> (0, h2)
      | Some True \<Rightarrow> if e \<noteq> None then (2, h3) else check_install opt os pathdesc path av h3)"
    using assms(1,2) None o2 a by (auto simp: check_file_def answer_split split: option.splits bool.splits)
  have c0: "check_install opt os pathdesc path av x \<noteq> (0, y)" for x y
    by (auto simp: check_install_def split: prod.splits option.splits)
  have g: "\<exists>k. h3 = h @ k"
    using o2 a by (auto simp: out_of_date_def c_cksum_def answer_split split: option.splits if_splits prod.splits)
  show ?thesis
  proof (cases o2)
    case (Some b)
    show ?thesis
    proof (cases b)
      case True
      with eq Some c0 c0 [symmetric] have "n = 2 \<or> n \<noteq> 0 \<and> check_install opt os pathdesc path av h3 = (n, h')" by (auto split: if_splits)
      with g check_install_contract [OF _ assms(3,4)] show ?thesis by fastforce
    next
      case False
      with eq Some out_of_date_False [OF _ assms(4)] o2 show ?thesis by auto
    qed
  qed (use eq in auto)
qed

section \<open>The whole of \<open>check\<close>\<close>

definition local_path :: "'c kt_options \<Rightarrow> string option \<Rightarrow> string" where
  "local_path opt file = (case file of None \<Rightarrow> k_base opt | Some f \<Rightarrow> k_kdir opt @ f)"

lemma check_names_path:
  "check_names opt os type file h = Some (Some (pathdesc, path), h') \<Longrightarrow> path = local_path opt file"
  by (auto simp: check_names_def local_path_def split: option.splits if_splits prod.splits bool.splits)

lemma check_split:
  assumes "check opt os type file h = Some (Ret (n, h'))" "n \<noteq> 2"
  shows "\<exists>pathdesc h1 av. argcargv (os_line os h1) = Ret av \<and> length av = 8 \<and>
    check_file opt os pathdesc (local_path opt file) av h1 = (n, h')"
proof -
  from assms obtain pathdesc path h1 where c: "check_names opt os type file h = Some (Some (pathdesc, path), h1)"
    and r: "obind (getstat os pathdesc h1) (\<lambda>(stats, h).
             case stats of
               None \<Rightarrow> Ret (2, h)
             | Some line \<Rightarrow>
                 obind (argcargv line) (\<lambda>av.
                   Ret (if length av \<noteq> 8 then (2, h) else check_file opt os pathdesc path av h))) = Ret (n, h')"
    by (auto simp: check_def Option.bind_eq_Some_conv split: option.splits)
  from r assms(2) obtain line h2 av where g: "getstat os pathdesc h1 = Ret (Some line, h2)" "argcargv line = Ret av" "length av = 8"
    "check_file opt os pathdesc path av h2 = (n, h')"
    by (auto simp: obind_Ret_iff split: option.splits if_splits)
  moreover have "line = os_line os h2"
    using g(1) by (auto simp: getstat_def answer_split split: option.splits if_splits)
  ultimately show ?thesis using check_names_path [OF c] by blast
qed

lemma check_file_result: "fst (check_file opt os pathdesc path av h) \<in> {0, 1, 2}"
  by (auto simp: check_file_def check_install_def answer_split split: option.splits prod.splits bool.splits)

lemma check_keeps:
  assumes "check opt os type file h = Some (Ret (n, h'))" "n \<noteq> 2" "k_update opt" "digest_fine (options.truncate opt)"
  shows "\<exists>h1 av. argcargv (os_line os h1) = Ret av \<and> length av = 8 \<and>
    (n = 0 \<and> up_to_date opt os (local_path opt file) av (h1 @ [Did (Stat (local_path opt file)) None]) \<or>
     n = 1 \<and> (\<exists>k. fetched opt (local_path opt file) av (h1 @ k) h' \<or> not_timed av (h1 @ k) h'))"
proof -
  from check_split [OF assms(1,2)] obtain pathdesc h1 av where c: "argcargv (os_line os h1) = Ret av" "length av = 8"
    "check_file opt os pathdesc (local_path opt file) av h1 = (n, h')" by blast
  have "c_string (av ! 7)" using argcargv_words [OF c(1)] c(2) by simp
  from check_file_contract [OF c(3) assms(3,4) this] check_file_result [of opt os pathdesc "local_path opt file" av h1] c assms(2)
  show ?thesis by auto
qed

text \<open>When \<open>utime\<close> fails an old file is gone and the new one has no name yet.\<close>

lemma utime_fails:
  assumes "check_file opt os pathdesc path av h = (1, h @ k)" "k_update opt" "\<forall>h t m. os_err os h (Utime t m) \<noteq> None"
  shows "(\<forall>a b r. Did (Rename a b) r \<notin> set k) \<and> (os_err os h (Stat path) = None \<longrightarrow> Did (Unlink path) None \<in> set k)"
proof -
  have i: "\<exists>k'. h' = h1 @ k' \<and> (\<forall>a b r. Did (Rename a b) r \<notin> set k')" if ci: "check_install opt os pathdesc path av h1 = (1, h')" for h1 h'
  proof -
    obtain r t h2 where rt: "retr (options.truncate opt) os pathdesc path (strtol 10 (av ! 6)) (av ! 7) h1 = ((r, t), h2)"
      by (metis prod.collapse)
    have "grows (fetches (temp_name (options.truncate opt) path)) h1 h2"
      using retr_grows [of "options.truncate opt" path h1 h1 os pathdesc "strtol 10 (av ! 6)" "av ! 7"] rt by simp
    then obtain k' where k': "h2 = h1 @ k'" by (auto simp: grows_def)
    note nr = retr_no_rename [OF rt k']
    obtain e where e: "os_err os h2 (Utime t (strtol 10 (av ! 5))) = Some e" using assms(3) by blast
    with ci rt have "h' = h2 @ [Did (Utime t (strtol 10 (av ! 5))) (Some e)]"
      by (auto simp: check_install_def answer_split split: option.splits if_splits)
    with k' nr show ?thesis by auto
  qed
  show ?thesis
  proof (cases "os_err os h (Stat path)")
    case (Some e)
    with assms(1,2) have "check_install opt os pathdesc path av (h @ [Did (Stat path) (Some e)]) = (1, h @ k)"
      by (auto simp: check_file_def answer_split split: if_splits)
    from i [OF this] Some show ?thesis by auto
  next
    case None
    let ?h = "h @ [Did (Stat path) None]"
    obtain o2 h2 where o2: "out_of_date opt os path av (os_stat os ?h path) ?h = (o2, h2)" by force
    obtain k2 where k2: "h2 = h @ k2" "\<forall>a b r. Did (Rename a b) r \<notin> set k2"
      using o2 by (auto simp: out_of_date_def c_cksum_def answer_split split: option.splits if_splits prod.splits)
    from assms(1,2) None o2 have "check_install opt os pathdesc path av (h2 @ [Did (Unlink path) None]) = (1, h @ k)"
      by (auto simp: check_file_def answer_split split: option.splits bool.splits)
    from i [OF this] k2 show ?thesis by auto
  qed
qed

end
