(* ===== verification/Lmerge.thy ===== *)
theory Lmerge
  imports Transcript Client
begin

text \<open>
  \<open>lmerge.c\<close> and \<open>root.c\<close>: merges transcripts, and the trees of files that belong to them, on the server. The first
  transcript has the highest precedence. The model starts with the options read; text files are read without an
  error once they are open, and \<open>realpath\<close> is a parameter.
\<close>

section \<open>\<open>get_root\<close>\<close>

text \<open>
  The directory of files and the directory of transcripts that belong to a transcript, and its name; \<open>None\<close> is \<open>-1\<close>.
  The last path is cut off when it is too long.
\<close>

definition roots_at :: "string \<Rightarrow> string \<Rightarrow> string \<Rightarrow> (string \<times> string) option" where
  "roots_at files trdir rest =
     (case (snprintf MAXPATHLEN (files @ rest), snprintf MAXPATHLEN (trdir @ rest)) of
        (Some f, Some t) \<Rightarrow> Some (f, t) | _ \<Rightarrow> None)"

definition get_root ::
  "(string \<Rightarrow> string option) \<Rightarrow> string \<Rightarrow> string \<Rightarrow> (string \<times> string \<times> string) option outcome" where
  "get_root realpath radpath path =
     (case (realpath radpath, realpath path) of
        (Some radmind, Some real) \<Rightarrow>
          (case strrchr real SLASH of
             None \<Rightarrow> UB
           | Some (dir, name) \<Rightarrow>
               if dir = [] \<or> MAXPATHLEN \<le> length name then Ret None
               else let add = map_option (\<lambda>(f, t). (f, t, name)) in
                 (case snprintf MAXPATHLEN (radmind @ ''/tmp/transcript'') of
                    None \<Rightarrow> Ret None
                  | Some test \<Rightarrow>
                      if strstr dir test
                      then Ret (add (roots_at (radmind @ ''/tmp/file'') (radmind @ ''/tmp/transcript'') (drop (length test) dir)))
                      else (case snprintf MAXPATHLEN (radmind @ ''/transcript'') of
                              None \<Rightarrow> Ret None
                            | Some test \<Rightarrow>
                                if strstr dir test
                                then Ret (add (roots_at (radmind @ ''/file'') (radmind @ ''/transcript'') (drop (length test) dir)))
                                else (case snprintf MAXPATHLEN (dir @ ''/../file'') of
                                        None \<Rightarrow> Ret None
                                      | Some f \<Rightarrow> Ret (Some (f, take (MAXPATHLEN - 1) dir, name))))))
      | _ \<Rightarrow> Ret None)"

section \<open>Transcripts\<close>

text \<open>\<open>tr_in\<close> is the text still to be read.\<close>

record lm_tran =
  tr_in :: string
  tr_path :: string
  tr_eof :: bool
  tr_remove :: bool
  tr_prepath :: string
  tr_file_root :: string
  tr_name :: string
  tr_line :: string
  tr_filepath :: string
  tr_argv :: "string list"

definition lm_tran0 :: "string \<Rightarrow> string \<Rightarrow> string \<Rightarrow> string \<Rightarrow> lm_tran" where
  "lm_tran0 path file_root name inp =
     \<lparr>tr_in = inp, tr_path = path, tr_eof = False, tr_remove = False, tr_prepath = [], tr_file_root = file_root,
      tr_name = name, tr_line = [], tr_filepath = [], tr_argv = []\<rparr>"

text \<open>The order check of a line; the names of the line are set even if it fails.\<close>

definition tran_words :: "bool \<Rightarrow> string list \<Rightarrow> lm_tran \<Rightarrow> string \<Rightarrow> (int \<times> lm_tran \<times> string) outcome" where
  "tran_words cs av t buf =
     (let rm = (char_at (av ! 0) 0 = CHR ''-'');
          t = t\<lparr>tr_remove := rm, tr_argv := (if rm then tl av else av)\<rparr> in
      obind (arg (tr_argv t) 1) (\<lambda>w.
      obind (decode w buf) (\<lambda>(d, buf).
        case d of
          None \<Rightarrow> Ret (1, t, buf)
        | Some p \<Rightarrow>
            if MAXPATHLEN \<le> length p then Ret (1, t, buf)
            else let t = t\<lparr>tr_filepath := p\<rparr> in
              if tr_prepath t \<noteq> [] \<and> pathcasecmp p (tr_prepath t) cs \<le> 0 then Ret (1, t, buf)
              else Ret (0, t\<lparr>tr_prepath := p\<rparr>, buf))))"

function getnextline :: "bool \<Rightarrow> lm_tran \<Rightarrow> string \<Rightarrow> (int \<times> lm_tran \<times> string) outcome" where
  "getnextline cs t buf =
     (case fgets MAXPATHLEN (tr_in t) of
        None \<Rightarrow> Ret (0, t\<lparr>tr_eof := True\<rparr>, buf)
      | Some (b, rest) \<Rightarrow>
          let line = cstr b; t = t\<lparr>tr_in := rest, tr_line := line\<rparr> in
          if line = [] then UB
          else if last line \<noteq> NL then Ret (-1, t, buf)
          else obind (argcargv line) (\<lambda>av.
            if av = [] \<or> char_at (av ! 0) 0 = CHR ''#'' then getnextline cs (t\<lparr>tr_argv := av\<rparr>) buf
            else tran_words cs av t buf))"
  by pat_completeness auto
termination
  by (relation "measure (\<lambda>(_, t, _). length (tr_in t))") (auto dest!: fgets_shrinks simp: MAXPATHLEN_def)

declare getnextline.simps [simp del]

section \<open>State\<close>

record lm_options =
  m_case :: bool
  m_force :: bool
  m_noupload :: bool
  m_trans_only :: bool
  m_copy :: bool
  m_pid :: int

record lm_dest =
  m_file_root :: string
  m_tran_root :: string
  m_tran_name :: string

record lmerge =
  lm_hist :: history
  lm_buf :: string
  lm_trans :: "lm_tran list"
  lm_dirs :: "string list"

definition lm_call :: "os \<Rightarrow> call \<Rightarrow> lmerge \<Rightarrow> lmerge outcome" where
  "lm_call os c s = (case answer os c (lm_hist s) of (Some e, h) \<Rightarrow> Exit 2 | (None, h) \<Rightarrow> Ret (s\<lparr>lm_hist := h\<rparr>))"

definition tran_at :: "nat \<Rightarrow> lmerge \<Rightarrow> lm_tran" where
  "tran_at j s = lm_trans s ! j"

definition set_tran :: "nat \<Rightarrow> lm_tran \<Rightarrow> lmerge \<Rightarrow> lmerge" where
  "set_tran j t s = s\<lparr>lm_trans := (lm_trans s)[j := t]\<rparr>"

definition lm_next :: "lm_options \<Rightarrow> nat \<Rightarrow> lmerge \<Rightarrow> (int \<times> lmerge) outcome" where
  "lm_next opt j s =
     obind (getnextline (m_case opt) (tran_at j s) (lm_buf s)) (\<lambda>(n, t, buf). Ret (n, (set_tran j t s)\<lparr>lm_buf := buf\<rparr>))"

definition first_char :: "lm_tran \<Rightarrow> char" where
  "first_char t = char_at (tr_argv t ! 0) 0"

definition is_file :: "lm_tran \<Rightarrow> bool" where
  "is_file t \<longleftrightarrow> first_char t = CHR ''f'' \<or> first_char t = CHR ''a''"

section \<open>The comparison of the transcripts\<close>

text \<open>
  With \<open>-n\<close> a file of the candidate is linked from a lower transcript if it has the same size and checksum there; the result
  is \<open>None\<close> if not, and the line is skipped.
\<close>

definition same_word :: "nat \<Rightarrow> lm_tran \<Rightarrow> lm_tran \<Rightarrow> bool outcome" where
  "same_word k t u = obind (arg (tr_argv t) k) (\<lambda>a. obind (arg (tr_argv u) k) (\<lambda>b. Ret (strcmp a b = 0)))"

definition lm_link_from :: "lm_options \<Rightarrow> nat \<Rightarrow> nat \<Rightarrow> nat \<Rightarrow> lmerge \<Rightarrow> (nat option \<times> lmerge) outcome" where
  "lm_link_from opt c l j s =
     (if m_noupload opt \<and> is_file (tran_at c s) then
        let s = set_tran c ((tran_at c s)\<lparr>tr_path := tr_path (tran_at j s)\<rparr>) s in
        obind (same_word 6 (tran_at c s) (tran_at j s)) (\<lambda>b.
        obind (if b then same_word 7 (tran_at c s) (tran_at j s) else Ret False) (\<lambda>b.
          Ret (if b then Some j else None, s)))
      else Ret (Some l, s))"

text \<open>With \<open>-f\<close> the file of the lower transcript is removed.\<close>

definition lm_unlink :: "lm_options \<Rightarrow> os \<Rightarrow> nat \<Rightarrow> lmerge \<Rightarrow> lmerge outcome" where
  "lm_unlink opt os j s =
     (if m_force opt \<and> is_file (tran_at j s) then
        (case snprintf MAXPATHLEN (tr_file_root (tran_at j s) @ [SLASH] @ tr_name (tran_at j s) @ [SLASH] @ tr_filepath (tran_at j s)) of
           None \<Rightarrow> Exit 2
         | Some opath \<Rightarrow> lm_call os (Unlink opath) s)
      else Ret s)"

text \<open>
  What the loop over the other transcripts finds: the candidate, the transcript of its file and whether some lower transcript
  has the same path. Of a lower transcript that is advanced only the result \<open>-1\<close> ends the program.
\<close>

record lm_found =
  f_cand :: nat
  f_loc :: nat
  f_match :: bool
  f_skip :: bool

fun lm_scan :: "lm_options \<Rightarrow> os \<Rightarrow> nat list \<Rightarrow> lm_found \<Rightarrow> lmerge \<Rightarrow> (lm_found \<times> lmerge) outcome" where
  "lm_scan opt os [] f s = Ret (f, s)"
| "lm_scan opt os (j # js) f s =
     (if tr_eof (tran_at j s) then lm_scan opt os js f s
      else let cmp = pathcasecmp (tr_filepath (tran_at (f_cand f) s)) (tr_filepath (tran_at j s)) (m_case opt) in
        if cmp = 0 then
          (let f = f\<lparr>f_match := True\<rparr> in
           obind (lm_link_from opt (f_cand f) (f_loc f) j s) (\<lambda>(l, s).
             case l of
               None \<Rightarrow> Ret (f\<lparr>f_skip := True\<rparr>, s)
             | Some l \<Rightarrow>
                 obind (lm_unlink opt os j s) (\<lambda>s.
                 obind (lm_next opt j s) (\<lambda>(n, s).
                   if n < 0 then Exit 2 else lm_scan opt os js (f\<lparr>f_loc := l\<rparr>) s))))
        else if 0 < cmp then lm_scan opt os js (f\<lparr>f_cand := j, f_loc := j\<rparr>) s
        else lm_scan opt os js f s)"

section \<open>Files\<close>

text \<open>\<open>copy_file\<close>: the result is \<open>Some ENOENT\<close> when the directory is missing, \<open>Some EOTHER\<close> for \<open>-1\<close>.\<close>

definition copy_close :: "os \<Rightarrow> string \<Rightarrow> string option \<Rightarrow> errno option \<Rightarrow> history \<Rightarrow> errno option \<times> history" where
  "copy_close os src dest rc h =
     (case answer os (Close src) h of
        (e, h) \<Rightarrow>
          let rc = (if e = None then rc else Some EOTHER) in
          (case dest of
             None \<Rightarrow> (rc, h)
           | Some d \<Rightarrow> (case answer os (Close d) h of (e, h) \<Rightarrow> (if e = None then rc else Some EOTHER, h))))"

fun copy_data :: "os \<Rightarrow> read_result list \<Rightarrow> string \<Rightarrow> history \<Rightarrow> bool \<times> history" where
  "copy_data os [] dest h = (True, h)"
| "copy_data os (ReadError # rs) dest h = (False, h)"
| "copy_data os (Bytes bs # rs) dest h =
     (if bs = [] then (True, h)
      else (case answer os (Write dest (chars_of bs)) h of
              (Some e, h) \<Rightarrow> (False, h)
            | (None, h) \<Rightarrow> copy_data os rs dest h))"

definition copy_file :: "os \<Rightarrow> string \<Rightarrow> string \<Rightarrow> history \<Rightarrow> errno option \<times> history" where
  "copy_file os src dest h =
     (case answer os (Open src) h of
        (Some e, h) \<Rightarrow> (Some EOTHER, h)
      | (None, h) \<Rightarrow>
     (case answer os (Fstat src) h of
        (Some e, h) \<Rightarrow> copy_close os src None (Some EOTHER) h
      | (None, h) \<Rightarrow>
          let st = os_stat os h src in
     (case answer os (Create dest) h of
        (Some e, h) \<Rightarrow> copy_close os src None (Some (if e = ENOENT then ENOENT else EOTHER)) h
      | (None, h) \<Rightarrow>
     (case copy_data os (os_bytes os h src) dest h of
        (False, h) \<Rightarrow> copy_close os src (Some dest) (Some EOTHER) h
      | (True, h) \<Rightarrow>
     (case answer os (Chown dest (st_uid st) (st_gid st)) h of
        (Some e, h) \<Rightarrow> copy_close os src (Some dest) (Some EOTHER) h
      | (None, h) \<Rightarrow> copy_close os src (Some dest) None h)))))"

definition place_file :: "lm_options \<Rightarrow> os \<Rightarrow> string \<Rightarrow> string \<Rightarrow> history \<Rightarrow> errno option \<times> history" where
  "place_file opt os opath npath h = (if m_copy opt then copy_file os opath npath h else answer os (Link opath npath) h)"

definition new_path :: "lm_options \<Rightarrow> lm_dest \<Rightarrow> string \<Rightarrow> string option" where
  "new_path opt d p =
     snprintf MAXPATHLEN
       (if m_force opt then m_file_root d @ [SLASH] @ m_tran_name d @ [SLASH] @ p
        else m_file_root d @ [SLASH] @ m_tran_name d @ ''.'' @ print_int (m_pid opt) @ [SLASH] @ p)"

text \<open>The file of the candidate goes into the new tree. If its directory is missing it is made and the call is tried again.\<close>

definition lm_place :: "lm_options \<Rightarrow> lm_dest \<Rightarrow> os \<Rightarrow> lm_found \<Rightarrow> lmerge \<Rightarrow> lmerge outcome" where
  "lm_place opt d os f s =
     (let t = tran_at (f_cand f) s in
      case (snprintf MAXPATHLEN (tr_file_root t @ [SLASH] @ tr_name (tran_at (f_loc f) s) @ [SLASH] @ tr_filepath t),
            new_path opt d (tr_filepath t)) of
        (Some opath, Some npath) \<Rightarrow>
          (case place_file opt os opath npath (lm_hist s) of
             (None, h) \<Rightarrow> Ret (s\<lparr>lm_hist := h\<rparr>)
           | (Some e, h) \<Rightarrow>
               if e \<noteq> ENOENT then Exit 2
               else (case (if SLASH \<in> set (tr_argv t ! 1) then mkdirs os npath h else (None, h)) of
                       (Some e, h) \<Rightarrow> Exit 2
                     | (None, h) \<Rightarrow>
                         (case place_file opt os opath npath h of
                            (Some e, h) \<Rightarrow> Exit 2
                          | (None, h) \<Rightarrow> Ret (s\<lparr>lm_hist := h\<rparr>))))
      | _ \<Rightarrow> Exit 2)"

section \<open>The merge\<close>

text \<open>One line of output. It stays in the buffer of the stream when \<open>fputs\<close> does not write it.\<close>

definition lm_puts :: "lm_dest \<Rightarrow> lm_options \<Rightarrow> os \<Rightarrow> nat \<Rightarrow> lmerge \<Rightarrow> lmerge outcome" where
  "lm_puts d opt os c s =
     lm_call os (Write (m_tran_root d @ [SLASH] @ m_tran_name d @ ''.'' @ print_int (m_pid opt)) (tr_line (tran_at c s))) s"

text \<open>From the end of the comparison to \<open>skipline\<close>. A directory that goes is noted by the encoded name of the line.\<close>

definition lm_output :: "lm_options \<Rightarrow> lm_dest \<Rightarrow> os \<Rightarrow> lm_found \<Rightarrow> lmerge \<Rightarrow> lmerge outcome" where
  "lm_output opt d os f s =
     (let t = tran_at (f_cand f) s in
      if f_skip f then Ret s
      else if m_force opt \<and> f_cand f = 1 then lm_puts d opt os (f_cand f) s
      else if tr_remove t \<or> m_noupload opt \<and> f_cand f = 0 \<and> f_loc f = 0 then
        (if f_match f \<and> m_force opt \<and> first_char t = CHR ''d''
         then (if MAXPATHLEN \<le> length (tr_argv t ! 1) then UB else Ret (s\<lparr>lm_dirs := tr_argv t ! 1 # lm_dirs s\<rparr>))
         else Ret s)
      else if \<not> is_file t \<or> m_trans_only opt then lm_puts d opt os (f_cand f) s
      else obind (lm_place opt d os f s) (lm_puts d opt os (f_cand f)))"

definition lm_round :: "lm_options \<Rightarrow> lm_dest \<Rightarrow> os \<Rightarrow> nat \<Rightarrow> lmerge \<Rightarrow> lmerge outcome" where
  "lm_round opt d os i s =
     (let n = length (lm_trans s); f0 = \<lparr>f_cand = i, f_loc = i, f_match = False, f_skip = False\<rparr> in
      obind (if m_force opt \<and> i = n - 1
             then obind (lm_puts d opt os i s) (\<lambda>s. Ret (f0\<lparr>f_match := True\<rparr>, s))
             else obind (lm_scan opt os [Suc i..<n] f0 s) (\<lambda>(f, s).
                    obind (lm_output opt d os f s) (\<lambda>s. Ret (f, s)))) (\<lambda>(f, s).
      obind (if tr_remove (tran_at (f_cand f) s) \<and> \<not> f_match f \<and> \<not> (m_force opt \<and> f_cand f = 1)
             then lm_puts d opt os (f_cand f) s else Ret s) (\<lambda>s.
      obind (lm_next opt (f_cand f) s) (\<lambda>(n, s). if n \<noteq> 0 then Exit 2 else Ret s))))"

text \<open>What is left to read.\<close>

definition tr_weight :: "lm_tran \<Rightarrow> nat" where
  "tr_weight t = length (tr_in t) + (if tr_eof t then 0 else 1)"

definition lm_weight :: "lmerge \<Rightarrow> nat" where
  "lm_weight s = sum_list (map tr_weight (lm_trans s))"

lemma tran_words_in:
  assumes "tran_words cs av t buf = Ret (n, t', buf')"
  shows "tr_in t' = tr_in t \<and> tr_eof t' = tr_eof t"
proof -
  define t1 where "t1 = t\<lparr>tr_remove := (char_at (av ! 0) 0 = CHR ''-''),
    tr_argv := (if char_at (av ! 0) 0 = CHR ''-'' then tl av else av)\<rparr>"
  have "tr_in t1 = tr_in t" "tr_eof t1 = tr_eof t" by (simp_all add: t1_def)
  moreover from assms obtain w d buf1 where "arg (tr_argv t1) 1 = Ret w" "decode w buf = Ret (d, buf1)"
    and "(case d of
          None \<Rightarrow> Ret (1, t1, buf1)
        | Some p \<Rightarrow>
            if MAXPATHLEN \<le> length p then Ret (1, t1, buf1)
            else let t = t1\<lparr>tr_filepath := p\<rparr> in
              if tr_prepath t \<noteq> [] \<and> pathcasecmp p (tr_prepath t) cs \<le> 0 then Ret (1, t, buf1)
              else Ret (0, t\<lparr>tr_prepath := p\<rparr>, buf1)) = Ret (n, t', buf')"
    unfolding tran_words_def Let_def t1_def [symmetric] obind_Ret_iff split_paired_Ex prod.case by blast
  ultimately show ?thesis by (cases d) (auto simp: Let_def split: if_split_asm)
qed

lemma getnextline_weight:
  "getnextline cs t buf = Ret (n, t', buf') \<Longrightarrow> \<not> tr_eof t \<Longrightarrow> tr_weight t' < tr_weight t"
proof (induction cs t buf rule: getnextline.induct)
  case (1 cs t buf)
  show ?case
  proof (cases "fgets MAXPATHLEN (tr_in t)")
    case None
    with 1 show ?thesis by (auto simp: getnextline.simps [of cs t] tr_weight_def)
  next
    case (Some p)
    obtain b rest where p: "p = (b, rest)" by force
    have less: "length rest < length (tr_in t)" using Some p by (auto dest!: fgets_shrinks simp: MAXPATHLEN_def)
    let ?t = "t\<lparr>tr_in := rest, tr_line := cstr b\<rparr>"
    obtain av where av: "argcargv (cstr b) = Ret av" using argcargv_defined by blast
    from "1.prems"(1) Some p av have e: "cstr b \<noteq> []" "(if last (cstr b) \<noteq> NL then Ret (-1, ?t, buf)
        else if av = [] \<or> char_at (av ! 0) 0 = CHR ''#'' then getnextline cs (?t\<lparr>tr_argv := av\<rparr>) buf
        else tran_words cs av ?t buf) = Ret (n, t', buf')"
      by (auto simp: getnextline.simps [of cs t] Let_def split: if_split_asm)
    show ?thesis
    proof (cases "last (cstr b) = NL \<and> (av = [] \<or> char_at (av ! 0) 0 = CHR ''#'')")
      case True
      with e(2) have g: "getnextline cs (?t\<lparr>tr_argv := av\<rparr>) buf = Ret (n, t', buf')" by (simp split: if_split_asm)
      have "tr_weight t' < tr_weight (?t\<lparr>tr_argv := av\<rparr>)"
        by (rule "1.IH" [OF Some p [symmetric] refl refl e(1) _ av _ g]) (use True "1.prems"(2) in auto)
      with less show ?thesis by (simp add: tr_weight_def)
    next
      case False
      with e(2) consider "t' = ?t" | "tran_words cs av ?t buf = Ret (n, t', buf')" by (auto split: if_split_asm)
      then show ?thesis
      proof cases
        case 2
        from tran_words_in [OF this] less show ?thesis by (simp add: tr_weight_def)
      qed (use less in \<open>simp add: tr_weight_def\<close>)
    qed
  qed
qed

definition shrinks :: "lmerge \<Rightarrow> lmerge \<Rightarrow> bool" where
  "shrinks s s' \<longleftrightarrow> list_all2 (\<lambda>t' t. tr_weight t' \<le> tr_weight t) (lm_trans s') (lm_trans s)"

lemma shrinks_refl: "lm_trans s' = lm_trans s \<Longrightarrow> shrinks s s'"
  by (simp add: shrinks_def list_all2_same)

lemma shrinks_trans: "shrinks s s1 \<Longrightarrow> shrinks s1 s2 \<Longrightarrow> shrinks s s2"
  by (auto simp: shrinks_def list_all2_conv_all_nth) (meson le_trans)

lemma shrinks_weight: "shrinks s s' \<Longrightarrow> lm_weight s' \<le> lm_weight s"
  unfolding shrinks_def lm_weight_def by (induction rule: list_all2_induct) auto

lemma shrinks_length: "shrinks s s' \<Longrightarrow> length (lm_trans s') = length (lm_trans s)"
  by (auto simp: shrinks_def dest: list_all2_lengthD)

lemma shrinks_set: "j < length (lm_trans s) \<Longrightarrow> tr_weight t \<le> tr_weight (tran_at j s) \<Longrightarrow> shrinks s (set_tran j t s)"
  by (auto simp: shrinks_def set_tran_def tran_at_def list_all2_conv_all_nth nth_list_update)

lemma set_tran_at [simp]: "j < length (lm_trans s) \<Longrightarrow> tran_at k (set_tran j t s) = (if k = j then t else tran_at k s)"
  by (simp add: set_tran_def tran_at_def)

lemma tran_at_update [simp]: "tran_at k (s\<lparr>lm_buf := b\<rparr>) = tran_at k s" "tran_at k (s\<lparr>lm_hist := h\<rparr>) = tran_at k s"
  "tran_at k (s\<lparr>lm_dirs := ds\<rparr>) = tran_at k s"
  by (simp_all add: tran_at_def)

lemma lm_call_trans: "lm_call os c s = Ret s' \<Longrightarrow> lm_trans s' = lm_trans s"
  by (auto simp: lm_call_def split: prod.splits option.splits)

lemma lm_unlink_trans: "lm_unlink opt os j s = Ret s' \<Longrightarrow> lm_trans s' = lm_trans s"
  by (auto simp: lm_unlink_def dest: lm_call_trans split: if_splits option.splits)

lemma lm_puts_trans: "lm_puts d opt os c s = Ret s' \<Longrightarrow> lm_trans s' = lm_trans s"
  unfolding lm_puts_def by (rule lm_call_trans)

lemma lm_place_trans: "lm_place opt d os f s = Ret s' \<Longrightarrow> lm_trans s' = lm_trans s"
  by (auto simp: lm_place_def Let_def split: option.splits prod.splits if_splits)

lemma lm_output_trans: "lm_output opt d os f s = Ret s' \<Longrightarrow> lm_trans s' = lm_trans s"
  by (auto simp: lm_output_def Let_def obind_Ret_iff dest!: lm_puts_trans lm_place_trans split: if_split_asm)

lemma lm_next_shrinks:
  assumes "lm_next opt j s = Ret (n, s')" "j < length (lm_trans s)" "\<not> tr_eof (tran_at j s)"
  shows "shrinks s s' \<and> (\<forall>k. k \<noteq> j \<longrightarrow> tran_at k s' = tran_at k s) \<and> tr_weight (tran_at j s') < tr_weight (tran_at j s)"
proof -
  from assms(1) obtain t buf where g: "getnextline (m_case opt) (tran_at j s) (lm_buf s) = Ret (n, t, buf)"
    and s': "s' = (set_tran j t s)\<lparr>lm_buf := buf\<rparr>" by (auto simp: lm_next_def obind_Ret_iff)
  note w = getnextline_weight [OF g assms(3)]
  have "shrinks s (set_tran j t s)" by (rule shrinks_set [OF assms(2)]) (use w in simp)
  with s' assms(2) w show ?thesis by (auto simp: shrinks_def)
qed

lemma lm_link_shrinks:
  assumes "lm_link_from opt c l j s = Ret (x, s')" "c < length (lm_trans s)"
  shows "shrinks s s' \<and> (\<forall>k. tr_eof (tran_at k s') = tr_eof (tran_at k s))"
proof (cases "m_noupload opt \<and> is_file (tran_at c s)")
  case True
  with assms(1) have "s' = set_tran c ((tran_at c s)\<lparr>tr_path := tr_path (tran_at j s)\<rparr>) s"
    by (auto simp: lm_link_from_def Let_def obind_Ret_iff split: if_split_asm)
  with assms(2) show ?thesis by (auto intro!: shrinks_set simp: tr_weight_def)
qed (use assms(1) in \<open>auto simp: lm_link_from_def shrinks_refl\<close>)

lemma lm_scan_shrinks:
  "lm_scan opt os js f s = Ret (f', s') \<Longrightarrow> sorted_wrt (<) (f_cand f # js) \<Longrightarrow> \<forall>j \<in> set (f_cand f # js). j < length (lm_trans s) \<Longrightarrow>
     \<not> tr_eof (tran_at (f_cand f) s) \<Longrightarrow>
     shrinks s s' \<and> f_cand f' < length (lm_trans s) \<and> \<not> tr_eof (tran_at (f_cand f') s')"
proof (induction opt os js f s rule: lm_scan.induct)
  case (2 opt os j js f s)
  let ?cmp = "pathcasecmp (tr_filepath (tran_at (f_cand f) s)) (tr_filepath (tran_at j s)) (m_case opt)"
  show ?case
  proof (cases "tr_eof (tran_at j s)")
    case True
    with 2 show ?thesis by auto
  next
    case noeof: False
    consider "?cmp = 0" | "0 < ?cmp" | "?cmp < 0" by linarith
    then show ?thesis
    proof cases
      case 1
      let ?f = "f\<lparr>f_match := True\<rparr>"
      from 1 noeof "2.prems"(1) obtain x s1 where l: "lm_link_from opt (f_cand f) (f_loc f) j s = Ret (x, s1)"
        and r: "(case x of None \<Rightarrow> Ret (?f\<lparr>f_skip := True\<rparr>, s1)
          | Some l \<Rightarrow> obind (lm_unlink opt os j s1) (\<lambda>s. obind (lm_next opt j s) (\<lambda>(n, s).
               if n < 0 then Exit 2 else lm_scan opt os js (?f\<lparr>f_loc := l\<rparr>) s))) = Ret (f', s')"
        by (auto simp: Let_def obind_Ret_iff)
      have ls: "shrinks s s1" "\<forall>k. tr_eof (tran_at k s1) = tr_eof (tran_at k s)"
        using lm_link_shrinks [OF l] "2.prems"(3) by auto
      have l': "lm_link_from opt (f_cand ?f) (f_loc ?f) j s = Ret (x, s1)" using l by simp
      show ?thesis
      proof (cases x)
        case None
        with r ls "2.prems" show ?thesis by auto
      next
        case (Some l')
        with r obtain s2 n s3 where u: "lm_unlink opt os j s1 = Ret s2" and nx: "lm_next opt j s2 = Ret (n, s3)" "\<not> n < 0"
          and sc: "lm_scan opt os js (?f\<lparr>f_loc := l'\<rparr>) s3 = Ret (f', s')"
          by (auto simp: obind_Ret_iff split: if_split_asm)
        have e2: "shrinks s1 s2" "\<forall>k. tran_at k s2 = tran_at k s1"
          using lm_unlink_trans [OF u] by (auto intro: shrinks_refl simp: tran_at_def)
        have s2: "shrinks s s2" using ls(1) e2(1) by (rule shrinks_trans)
        have "j < length (lm_trans s2)" using shrinks_length [OF s2] "2.prems"(3) by simp
        from lm_next_shrinks [OF nx(1) this] e2 ls noeof have n3: "shrinks s2 s3" "\<forall>k. k \<noteq> j \<longrightarrow> tran_at k s3 = tran_at k s2" by auto
        have s3: "shrinks s s3" using s2 n3(1) by (rule shrinks_trans)
        have "f_cand f \<noteq> j" using "2.prems"(2) by auto
        then have "\<not> tr_eof (tran_at (f_cand (?f\<lparr>f_loc := l'\<rparr>)) s3)" using n3(2) e2(2) ls(2) "2.prems"(4) by simp
        moreover have "sorted_wrt (<) (f_cand (?f\<lparr>f_loc := l'\<rparr>) # js)" using "2.prems"(2) by simp
        moreover have "\<forall>j \<in> set (f_cand (?f\<lparr>f_loc := l'\<rparr>) # js). j < length (lm_trans s3)"
          using "2.prems"(3) shrinks_length [OF s3] by simp
        ultimately have "shrinks s3 s' \<and> f_cand f' < length (lm_trans s3) \<and> \<not> tr_eof (tran_at (f_cand f') s')"
          using "2.IH"(2) [OF noeof refl 1 refl l' refl Some u nx(1) refl nx(2) sc] by simp
        then show ?thesis using s3 shrinks_length [OF s3] shrinks_trans by auto
      qed
    next
      case 2
      have "lm_scan opt os js (f\<lparr>f_cand := j, f_loc := j\<rparr>) s = Ret (f', s')"
        using 2 noeof "2.prems"(1) by (simp add: Let_def)
      with "2.IH"(3) [OF noeof refl _ 2] 2 noeof "2.prems" show ?thesis by auto
    next
      case 3
      have "lm_scan opt os js f s = Ret (f', s')" using 3 noeof "2.prems"(1) by (simp add: Let_def)
      with "2.IH"(4) [OF noeof refl] 3 noeof "2.prems" show ?thesis by auto
    qed
  qed
qed (auto simp: shrinks_refl)

lemma obind_RetE: "obind m f = Ret y \<Longrightarrow> (\<And>x. m = Ret x \<Longrightarrow> f x = Ret y \<Longrightarrow> P) \<Longrightarrow> P"
  by (auto simp: obind_Ret_iff)

lemma lm_round_weight:
  assumes "lm_round opt d os i s = Ret s'" "i < length (lm_trans s)" "\<not> tr_eof (tran_at i s)"
  shows "lm_weight s' < lm_weight s"
proof -
  let ?n = "length (lm_trans s)"
  define f0 where "f0 = \<lparr>f_cand = i, f_loc = i, f_match = False, f_skip = False\<rparr>"
  from assms(1) obtain fs where A: "(if m_force opt \<and> i = ?n - 1 then obind (lm_puts d opt os i s) (\<lambda>s. Ret (f0\<lparr>f_match := True\<rparr>, s))
         else obind (lm_scan opt os [Suc i..<?n] f0 s) (\<lambda>(f, s). obind (lm_output opt d os f s) (\<lambda>s. Ret (f, s)))) = Ret fs"
    and B: "(case fs of (f, s) \<Rightarrow>
      obind (if tr_remove (tran_at (f_cand f) s) \<and> \<not> f_match f \<and> \<not> (m_force opt \<and> f_cand f = 1)
             then lm_puts d opt os (f_cand f) s else Ret s) (\<lambda>s.
      obind (lm_next opt (f_cand f) s) (\<lambda>(n, s). if n \<noteq> 0 then Exit 2 else Ret s))) = Ret s'"
    unfolding lm_round_def Let_def f0_def [symmetric] by (rule obind_RetE)
  obtain f s1 where fs: "fs = (f, s1)" by force
  note a = A [unfolded fs]
  from B [unfolded fs prod.case] obtain s2 where
    b: "(if tr_remove (tran_at (f_cand f) s1) \<and> \<not> f_match f \<and> \<not> (m_force opt \<and> f_cand f = 1)
             then lm_puts d opt os (f_cand f) s1 else Ret s1) = Ret s2"
    and c': "obind (lm_next opt (f_cand f) s2) (\<lambda>(n, s). if n \<noteq> 0 then Exit 2 else Ret s) = Ret s'" by (rule obind_RetE)
  from c' obtain n where c: "lm_next opt (f_cand f) s2 = Ret (n, s')" by (auto simp: obind_Ret_iff split: if_split_asm)
  have s1: "shrinks s s1 \<and> f_cand f < ?n \<and> \<not> tr_eof (tran_at (f_cand f) s1)"
  proof (cases "m_force opt \<and> i = ?n - 1")
    case True
    with a have "lm_puts d opt os i s = Ret s1" "f = f0\<lparr>f_match := True\<rparr>" by (auto simp: obind_Ret_iff)
    with lm_puts_trans [OF this(1)] assms(2,3) show ?thesis by (simp add: shrinks_refl f0_def tran_at_def)
  next
    case False
    with a obtain s3 where sc: "lm_scan opt os [Suc i..<?n] f0 s = Ret (f, s3)" and o: "lm_output opt d os f s3 = Ret s1"
      by (auto simp: obind_Ret_iff)
    have "sorted_wrt (<) (f_cand f0 # [Suc i..<?n])" by (simp add: f0_def sorted_wrt_upt)
    from lm_scan_shrinks [OF sc this] assms(2,3) have "shrinks s s3 \<and> f_cand f < ?n \<and> \<not> tr_eof (tran_at (f_cand f) s3)"
      by (simp add: f0_def)
    with lm_output_trans [OF o] show ?thesis by (simp add: shrinks_def tran_at_def)
  qed
  have s2: "lm_trans s2 = lm_trans s1" using b lm_puts_trans by (auto split: if_split_asm)
  then have e: "\<not> tr_eof (tran_at (f_cand f) s2)" "f_cand f < length (lm_trans s2)" "shrinks s s2"
    using s1 shrinks_length [of s s1] by (simp_all add: shrinks_def tran_at_def)
  from lm_next_shrinks [OF c e(2,1)] have g: "shrinks s2 s'" "tr_weight (tran_at (f_cand f) s') < tr_weight (tran_at (f_cand f) s2)" by auto
  have "lm_weight s' < lm_weight s2"
    unfolding lm_weight_def sum_list_sum_nth using g(1,2) e(2) shrinks_length [OF g(1)]
    by (auto simp: shrinks_def list_all2_conv_all_nth tran_at_def intro!: sum_strict_mono_ex1 bexI [of _ "f_cand f"])
  with shrinks_weight [OF e(3)] show ?thesis by simp
qed

function lm_loop :: "lm_options \<Rightarrow> lm_dest \<Rightarrow> os \<Rightarrow> nat \<Rightarrow> lmerge \<Rightarrow> lmerge outcome" where
  "lm_loop opt d os i s =
     (if length (lm_trans s) \<le> i then Ret s
      else if tr_eof (tran_at i s) then lm_loop opt d os (Suc i) s
      else obind (lm_round opt d os i s) (lm_loop opt d os i))"
  by pat_completeness auto
termination
  by (relation "measures [\<lambda>(_, _, _, _, s). lm_weight s, \<lambda>(_, _, _, i, s). length (lm_trans s) - i]")
    (auto intro: lm_round_weight)

declare lm_loop.simps [simp del]

text \<open>The directories that have lost their lines; a directory that is not empty stays.\<close>

fun lm_rmdirs :: "lm_dest \<Rightarrow> os \<Rightarrow> string list \<Rightarrow> history \<Rightarrow> history outcome" where
  "lm_rmdirs d os [] h = Ret h"
| "lm_rmdirs d os (p # ps) h =
     (case snprintf MAXPATHLEN (m_file_root d @ [SLASH] @ m_tran_name d @ [SLASH] @ p) of
        None \<Rightarrow> Exit 2
      | Some opath \<Rightarrow>
          (case answer os (Rmdir opath) h of
             (None, h) \<Rightarrow> lm_rmdirs d os ps h
           | (Some e, h) \<Rightarrow> if e \<in> {EEXIST, ENOTEMPTY, ENOENT} then lm_rmdirs d os ps h else Exit 2))"

section \<open>\<open>main\<close>\<close>

text \<open>The transcripts are opened in turn. Only the result \<open>-1\<close> of the first line ends the program.\<close>

fun lm_open ::
  "lm_options \<Rightarrow> os \<Rightarrow> (string \<Rightarrow> string option) \<Rightarrow> string \<Rightarrow> string list \<Rightarrow> lmerge \<Rightarrow> (string list \<times> lmerge) outcome" where
  "lm_open opt os realpath radpath [] s = Ret ([], s)"
| "lm_open opt os realpath radpath (path # paths) s =
     obind (get_root realpath radpath path) (\<lambda>r. case r of
       None \<Rightarrow> Exit 2
     | Some (file_root, tran_root, name) \<Rightarrow>
         (case answer os (Fopen path) (lm_hist s) of
            (Some e, h) \<Rightarrow> Exit 1
          | (None, h) \<Rightarrow>
              let j = length (lm_trans s);
                  s = s\<lparr>lm_hist := h, lm_trans := lm_trans s @ [lm_tran0 path file_root name (os_text os h path)]\<rparr>
              in obind (lm_next opt j s) (\<lambda>(n, s).
                   if n < 0 then Exit 2
                   else obind (lm_open opt os realpath radpath paths s) (\<lambda>(roots, s). Ret (tran_root # roots, s)))))"

text \<open>Without \<open>-f\<close> the merged transcript is a new one; its directory of files gets a temporary name.\<close>

definition lm_dest_new ::
  "lm_options \<Rightarrow> os \<Rightarrow> (string \<Rightarrow> string option) \<Rightarrow> string \<Rightarrow> string \<Rightarrow> string \<Rightarrow> lmerge \<Rightarrow> (lm_dest \<times> lmerge) outcome" where
  "lm_dest_new opt os realpath radpath cwd dest s =
     obind (lm_call os (Create dest) s) (\<lambda>s.
     obind (lm_call os (Close dest) s) (\<lambda>s.
     case snprintf MAXPATHLEN (if char_at dest 0 = SLASH then dest else cwd @ [SLASH] @ dest) of
       None \<Rightarrow> Exit 2
     | Some path \<Rightarrow>
         obind (get_root realpath radpath path) (\<lambda>r. case r of
           None \<Rightarrow> Exit 2
         | Some (file_root, tran_root, name) \<Rightarrow>
             (case snprintf MAXPATHLEN (file_root @ [SLASH] @ name @ ''.'' @ print_int (m_pid opt)) of
                None \<Rightarrow> Exit 2
              | Some npath \<Rightarrow>
                  obind (if m_trans_only opt then Ret s else lm_call os (Mkdir npath 0x1FF) s) (\<lambda>s.
                    Ret (\<lparr>m_file_root = file_root, m_tran_root = tran_root, m_tran_name = name\<rparr>, s))))))"

definition temp_tran :: "lm_options \<Rightarrow> lm_dest \<Rightarrow> string option" where
  "temp_tran opt d = snprintf MAXPATHLEN (m_tran_root d @ [SLASH] @ m_tran_name d @ ''.'' @ print_int (m_pid opt))"

definition lm_rename :: "os \<Rightarrow> string option \<Rightarrow> string option \<Rightarrow> lmerge \<Rightarrow> lmerge outcome" where
  "lm_rename os opath npath s =
     (case (opath, npath) of (Some a, Some b) \<Rightarrow> lm_call os (Rename a b) s | _ \<Rightarrow> Exit 2)"

text \<open>The files get their final name before the transcript.\<close>

definition lm_finish :: "lm_options \<Rightarrow> lm_dest \<Rightarrow> os \<Rightarrow> lmerge \<Rightarrow> lmerge outcome" where
  "lm_finish opt d os s =
     obind (if m_force opt then obind (lm_rmdirs d os (lm_dirs s) (lm_hist s)) (\<lambda>h. Ret (s\<lparr>lm_hist := h, lm_dirs := []\<rparr>)) else Ret s) (\<lambda>s.
     let opath = snprintf MAXPATHLEN (m_file_root d @ [SLASH] @ m_tran_name d @ ''.'' @ print_int (m_pid opt));
         npath = snprintf MAXPATHLEN (m_file_root d @ [SLASH] @ m_tran_name d) in
     obind (if m_force opt then Ret s
            else if opath = None \<or> npath = None then Exit 2
            else if m_trans_only opt then Ret s
            else lm_rename os opath npath s) (\<lambda>s.
       lm_rename os (temp_tran opt d) (snprintf MAXPATHLEN (m_tran_root d @ [SLASH] @ m_tran_name d)) s))"

text \<open>
  \<open>paths\<close> are the arguments, of which the last is the destination; with \<open>-f\<close> it is merged too. A run that returns ends with
  the status 0.
\<close>

definition lmerge_main ::
  "lm_options \<Rightarrow> os \<Rightarrow> (string \<Rightarrow> string option) \<Rightarrow> string \<Rightarrow> string \<Rightarrow> string list \<Rightarrow> string \<Rightarrow> history \<Rightarrow> lmerge outcome" where
  "lmerge_main opt os realpath radpath cwd paths dest h =
     obind (let s = \<lparr>lm_hist = h, lm_buf = decode_buf0, lm_trans = [], lm_dirs = []\<rparr>
            in if m_force opt then lm_call os (Access dest) s else Ret s) (\<lambda>s.
     obind (lm_open opt os realpath radpath (if m_force opt then paths @ [dest] else paths) s) (\<lambda>(roots, s).
     obind (if m_force opt
            then (if length (lm_trans s) < 2 then UB
                  else Ret (\<lparr>m_file_root = tr_file_root (tran_at 1 s), m_tran_root = roots ! 1, m_tran_name = tr_name (tran_at 1 s)\<rparr>, s))
            else lm_dest_new opt os realpath radpath cwd dest s) (\<lambda>(d, s).
     case temp_tran opt d of
       None \<Rightarrow> Exit 2
     | Some opath \<Rightarrow>
         obind (lm_call os (Create opath) s) (\<lambda>s.
         obind (lm_loop opt d os 0 s) (lm_finish opt d os)))))"

end
