(* ===== verification/Lsort.thy ===== *)
theory Lsort
  imports Transcript "HOL-Library.Multiset"
begin

text \<open>
  \<open>lsort.c\<close>: sorts the lines of transcripts. \<open>qsort\<close> is a parameter \<open>qs\<close>: of its work only is known that the result is a
  permutation in order (\<open>qsort_ok\<close>), lines of the same path may come in any order. The inputs are the texts of the files
  named on the command line, \<open>None\<close> for one that cannot be opened.
\<close>

section \<open>The program\<close>

type_synonym save_line = "string \<times> string"

definition lsort_cmp :: "bool \<Rightarrow> save_line \<Rightarrow> save_line \<Rightarrow> int" where
  "lsort_cmp cs a b = pathcasecmp (fst a) (fst b) cs"

text \<open>The argument of \<open>save_it\<close> is a null pointer when the name does not fit into the buffer of \<open>decode\<close>.\<close>

definition save_it :: "string \<Rightarrow> string option \<Rightarrow> save_line list \<Rightarrow> save_line list outcome" where
  "save_it buffer pathname lines =
     (case pathname of None \<Rightarrow> UB | Some p \<Rightarrow> Ret ((p, buffer) # lines))"

definition has_sign :: "string list \<Rightarrow> bool" where
  "has_sign av \<longleftrightarrow> char_at (av ! 0) 0 = CHR ''+'' \<or> char_at (av ! 0) 0 = CHR ''-''"

definition lsort_line :: "string \<Rightarrow> save_line list \<times> string \<Rightarrow> (save_line list \<times> string) outcome" where
  "lsort_line line s =
     obind (argcargv line) (\<lambda>av.
       if av = [] \<or> char_at (av ! 0) 0 = CHR ''#'' then Ret s
       else let av = (if has_sign av then tl av else av) in
         if length av < 2 then Exit 1
         else obind (decode (av ! 1) (snd s)) (\<lambda>(p, buf).
           obind (save_it line p (fst s)) (\<lambda>lines. Ret (lines, buf))))"

function lsort_process :: "string \<Rightarrow> save_line list \<times> string \<Rightarrow> (save_line list \<times> string) outcome" where
  "lsort_process inp s =
     (case fgets 4096 inp of
        None \<Rightarrow> Ret s
      | Some (buf, rest) \<Rightarrow> obind (lsort_line (cstr buf) s) (lsort_process rest))"
  by pat_completeness auto
termination
  by (relation "measure (\<lambda>(inp, _). length inp)") (auto dest!: fgets_shrinks)

declare lsort_process.simps [simp del]

fun lsort_inputs :: "string option list \<Rightarrow> save_line list \<times> string \<Rightarrow> (save_line list \<times> string) outcome" where
  "lsort_inputs [] s = Ret s"
| "lsort_inputs (None # is) s = Exit 2"
| "lsort_inputs (Some inp # is) s = obind (lsort_process inp s) (lsort_inputs is)"

text \<open>The list starts with the last line; the array that is sorted has its order.\<close>

definition sort_them :: "(save_line list \<Rightarrow> save_line list) \<Rightarrow> save_line list \<Rightarrow> save_line list" where
  "sort_them qs lines = qs lines"

definition print_them :: "save_line list \<Rightarrow> string" where
  "print_them lines = concat (map snd lines)"

definition lsort_main :: "(save_line list \<Rightarrow> save_line list) \<Rightarrow> string option list \<Rightarrow> string outcome" where
  "lsort_main qs is =
     obind (lsort_inputs is ([], decode_buf0)) (\<lambda>(lines, buf). Ret (print_them (sort_them qs lines)))"

section \<open>What it does to lines\<close>

definition qsort_ok :: "bool \<Rightarrow> (save_line list \<Rightarrow> save_line list) \<Rightarrow> bool" where
  "qsort_ok cs qs \<longleftrightarrow> (\<forall>ls. (\<forall>l \<in> set ls. path_ok cs (fst l)) \<longrightarrow>
     mset (qs ls) = mset ls \<and> sorted_wrt (\<lambda>a b. lsort_cmp cs a b \<le> 0) (qs ls))"

text \<open>
  A line that can be sorted, and its path. \<open>None\<close> is a blank line or a comment.
\<close>

definition words_of_line :: "string \<Rightarrow> string list" where
  "words_of_line line = (case argcargv line of Ret av \<Rightarrow> av | _ \<Rightarrow> [])"

definition line_path :: "string \<Rightarrow> string option" where
  "line_path line =
     (let av = words_of_line line in
      if av = [] \<or> char_at (av ! 0) 0 = CHR ''#'' then None
      else Some (unescaped ((if has_sign av then tl av else av) ! 1)))"

definition sortable :: "string \<Rightarrow> bool" where
  "sortable line \<longleftrightarrow>
     (\<exists>l. line = l @ [NL] \<and> NL \<notin> set l \<and> c_string l \<and> length l < 4095) \<and>
     (line_path line \<noteq> None \<longrightarrow>
        (let av = words_of_line line; av = (if has_sign av then tl av else av)
         in 2 \<le> length av \<and> well_escaped (av ! 1) \<and> length (av ! 1) < MAXPATHLEN))"

definition saved :: "string \<Rightarrow> save_line list" where
  "saved line = (case line_path line of None \<Rightarrow> [] | Some p \<Rightarrow> [(p, line)])"

lemma words_of_line_Ret: "argcargv line = Ret (words_of_line line)"
  using argcargv_defined [of line] by (auto simp: words_of_line_def)

lemma length_unescaped_le: "length (unescaped s) \<le> length s"
  by (induction s rule: unescaped.induct) (auto split: list.splits)

lemma lsort_line_sortable:
  assumes "sortable line" "length buf = MAXPATHLEN"
  shows "\<exists>buf'. lsort_line line (ls, buf) = Ret (rev (saved line) @ ls, buf') \<and> length buf' = MAXPATHLEN"
proof (cases "line_path line")
  case None
  then have "words_of_line line = [] \<or> char_at (words_of_line line ! 0) 0 = CHR ''#''"
    by (auto simp: line_path_def Let_def split: if_splits)
  with None assms(2) show ?thesis by (auto simp: lsort_line_def words_of_line_Ret saved_def)
next
  case (Some p)
  define av where "av = (if has_sign (words_of_line line) then tl (words_of_line line) else words_of_line line)"
  from Some have w: "words_of_line line \<noteq> []" "char_at (words_of_line line ! 0) 0 \<noteq> CHR ''#''" "p = unescaped (av ! 1)"
    by (auto simp: line_path_def Let_def av_def split: if_splits)
  from assms(1) Some have g: "2 \<le> length av" "well_escaped (av ! 1)" "length (av ! 1) < MAXPATHLEN"
    by (auto simp: sortable_def Let_def av_def)
  have "av ! 1 \<in> set av" using g(1) by simp
  then have "av ! 1 \<in> set (words_of_line line)" unfolding av_def by (auto split: if_splits dest: list.set_sel(2) [OF w(1)])
  then have "c_string (av ! 1)" by (rule argcargv_words [OF words_of_line_Ret])
  with g length_unescaped_le [of "av ! 1"] assms(2) decode_well_escaped [of "av ! 1" buf] obtain buf'
    where d: "decode (av ! 1) buf = Ret (Some p, buf')" "length buf' = MAXPATHLEN" using w(3) by auto
  have "lsort_line line (ls, buf) = Ret ((p, line) # ls, buf')"
    using w(1,2) g(1) d(1) by (simp add: lsort_line_def words_of_line_Ret Let_def flip: av_def) (simp add: save_it_def)
  with d(2) Some show ?thesis by (simp add: saved_def)
qed

lemma lsort_process_sortable:
  assumes "\<forall>l \<in> set ls. sortable l" "length buf = MAXPATHLEN"
  shows "\<exists>buf'. lsort_process (concat ls) (done, buf) = Ret (rev (concat (map saved ls)) @ done, buf') \<and>
    length buf' = MAXPATHLEN"
  using assms
proof (induction ls arbitrary: "done" buf)
  case Nil
  then show ?case by (simp add: lsort_process.simps [of "[]"] fgets_def)
next
  case (Cons line ls)
  from Cons.prems(1) obtain l where l: "line = l @ [NL]" "NL \<notin> set l" "c_string l" "length l < 4095"
    by (auto simp: sortable_def)
  have f: "fgets 4096 (concat (line # ls)) = Some (line, concat ls)"
    using fgets_line [of l 4096 "concat ls"] l by simp
  have "NL \<noteq> NUL" by code_simp
  then have c: "cstr line = line" using l(1,3) by (auto simp: c_string_def intro: cstr_id)
  obtain buf1 where b: "lsort_line line (done, buf) = Ret (rev (saved line) @ done, buf1)" "length buf1 = MAXPATHLEN"
    using lsort_line_sortable [of line buf "done"] Cons.prems by auto
  have "lsort_process (concat (line # ls)) (done, buf) = lsort_process (concat ls) (rev (saved line) @ done, buf1)"
    using b f c by (simp add: lsort_process.simps [of "line @ concat ls"])
  with Cons.IH [of buf1 "rev (saved line) @ done"] Cons.prems(1) b(2) show ?case by auto
qed

lemma lsort_inputs_sortable:
  assumes "\<forall>ls \<in> set lss. \<forall>l \<in> set ls. sortable l" "length buf = MAXPATHLEN"
  shows "\<exists>buf'. lsort_inputs (map (\<lambda>ls. Some (concat ls)) lss) (done, buf) =
    Ret (rev (concat (map saved (concat lss))) @ done, buf')"
  using assms
proof (induction lss arbitrary: "done" buf)
  case (Cons ls lss)
  obtain buf1 where "lsort_process (concat ls) (done, buf) = Ret (rev (concat (map saved ls)) @ done, buf1)" "length buf1 = MAXPATHLEN"
    using lsort_process_sortable [of ls buf "done"] Cons.prems by auto
  with Cons.IH [of buf1 "rev (concat (map saved ls)) @ done"] Cons.prems show ?case by auto
qed simp

text \<open>The lines that hold something come out in order, each as often as it went in.\<close>

definition lines_in_order :: "bool \<Rightarrow> string list \<Rightarrow> bool" where
  "lines_in_order cs ls \<longleftrightarrow> sorted_wrt (\<lambda>a b. pathcasecmp (the (line_path a)) (the (line_path b)) cs \<le> 0) ls"

lemma saved_all: "concat (map saved ls) = map (\<lambda>l. (the (line_path l), l)) (filter (\<lambda>l. line_path l \<noteq> None) ls)"
  by (induction ls) (auto simp: saved_def split: option.splits)

lemma lsort_sorts:
  assumes "qsort_ok cs qs" "\<forall>ls \<in> set lss. \<forall>l \<in> set ls. sortable l"
    "\<forall>l \<in> set (concat lss). \<forall>p. line_path l = Some p \<longrightarrow> path_ok cs p"
  shows "\<exists>out. lsort_main qs (map (\<lambda>ls. Some (concat ls)) lss) = Ret (concat out) \<and>
    mset out = mset (filter (\<lambda>l. line_path l \<noteq> None) (concat lss)) \<and> lines_in_order cs out"
proof -
  let ?in = "rev (concat (map saved (concat lss)))"
  obtain buf' where m: "lsort_inputs (map (\<lambda>ls. Some (concat ls)) lss) ([], decode_buf0) = Ret (?in, buf')"
    using lsort_inputs_sortable [OF assms(2), of decode_buf0 "[]"] by auto
  have s: "\<forall>x \<in> set ?in. fst x = the (line_path (snd x)) \<and> path_ok cs (fst x)"
    using assms(3) by (auto simp: saved_all)
  then have "\<forall>x \<in> set ?in. path_ok cs (fst x)" by blast
  with assms(1) have q: "mset (qs ?in) = mset ?in" "sorted_wrt (\<lambda>a b. lsort_cmp cs a b \<le> 0) (qs ?in)"
    unfolding qsort_ok_def by blast+
  let ?out = "map snd (qs ?in)"
  have "mset ?out = image_mset snd (mset ?in)" by (simp only: mset_map q(1))
  also have "\<dots> = mset (map snd (concat (map saved (concat lss))))" by (simp flip: mset_map)
  also have "map snd (concat (map saved (concat lss))) = filter (\<lambda>l. line_path l \<noteq> None) (concat lss)"
    unfolding saved_all by (simp add: comp_def)
  finally have "mset ?out = mset (filter (\<lambda>l. line_path l \<noteq> None) (concat lss))" .
  moreover have "lines_in_order cs ?out"
  proof -
    have "set (qs ?in) = set ?in" using q(1) by (rule mset_eq_setD)
    with s have k: "\<forall>x \<in> set (qs ?in). fst x = the (line_path (snd x))" by simp
    have "sorted_wrt (\<lambda>a b. pathcasecmp (the (line_path (snd a))) (the (line_path (snd b))) cs \<le> 0) (qs ?in)"
    proof (rule sorted_wrt_mono_rel [OF _ q(2)])
      fix a b
      assume "a \<in> set (qs ?in)" "b \<in> set (qs ?in)" "lsort_cmp cs a b \<le> 0"
      with k show "pathcasecmp (the (line_path (snd a))) (the (line_path (snd b))) cs \<le> 0" by (simp add: lsort_cmp_def)
    qed
    then show ?thesis by (simp add: lines_in_order_def sorted_wrt_map)
  qed
  ultimately show ?thesis using m by (intro exI [of _ ?out]) (simp add: lsort_main_def print_them_def sort_them_def)
qed

end
