(* ===== verification/LmergeOrder.thy ===== *)
theory LmergeOrder
  imports Lmerge Lsort
begin

text \<open>
  What a merge gives: of transcripts in order, without removals, the lines of all their paths in order, each from the
  first transcript that has the path. The abstract view of a transcript is the list of its paths with their lines.
\<close>

section \<open>The abstract view\<close>

type_synonym entries = "(string \<times> string) list"

abbreviation path_of :: "string \<times> string \<Rightarrow> int list" where
  "path_of e \<equiv> path_key True (fst e)"

definition in_path_order :: "entries \<Rightarrow> bool" where
  "in_path_order es \<longleftrightarrow> sorted_wrt (\<lambda>a b. path_of a < path_of b) es"

lemma in_path_order_simps [simp]:
  "in_path_order []" "in_path_order (e # es) \<longleftrightarrow> (\<forall>x \<in> set es. path_of e < path_of x) \<and> in_path_order es"
  by (simp_all add: in_path_order_def)

text \<open>The lines of all paths, with precedence to the first transcripts.\<close>

fun first_of :: "entries list \<Rightarrow> string \<Rightarrow> string option" where
  "first_of [] = Map.empty"
| "first_of (es # L) = first_of L ++ map_of es"

lemma first_of_append: "first_of (L @ M) = first_of M ++ first_of L"
  by (induction L) (simp_all add: map_add_assoc)

lemma dom_first_of: "dom (first_of L) = (\<Union>es \<in> set L. fst ` set es)"
  by (induction L) (auto simp: dom_map_of_conv_image_fst)

text \<open>An entry whose path an earlier transcript has too does not count.\<close>

lemma first_of_hidden:
  assumes "c < j" "j < length L" "L ! j = e # es" "fst e \<in> fst ` set (L ! c)"
  shows "first_of (L[j := es]) = first_of L"
proof -
  define A B where "A = take j L" and "B = drop (Suc j) L"
  have L: "L = A @ (e # es) # B" using id_take_nth_drop [of j L] assms(2,3) by (simp add: A_def B_def)
  have "length A = j" using assms(2) by (simp add: A_def)
  then have upd: "L[j := es] = A @ es # B" by (simp add: L list_update_append)
  have "L ! c \<in> set A" using assms(1,2) by (auto simp: A_def in_set_conv_nth intro!: exI [of _ c])
  with assms(4) have "fst e \<in> dom (first_of A)" unfolding dom_first_of by blast
  then obtain l where l: "first_of A (fst e) = Some l" by blast
  have "(m ++ map_of (e # es)) ++ first_of A = (m ++ map_of es) ++ first_of A" for m :: "string \<Rightarrow> string option"
    using l by (intro ext) (auto simp: map_add_def split: option.splits)
  then show ?thesis unfolding upd by (simp only: L first_of_append first_of.simps)
qed

text \<open>The least path of all is in one transcript only.\<close>

lemma first_of_least:
  assumes "c < length L" "L ! c = e # es" "\<forall>k < length L. k \<noteq> c \<longrightarrow> fst e \<notin> fst ` set (L ! k)"
  shows "first_of L = (first_of (L[c := es]))(fst e \<mapsto> snd e)"
proof -
  define A B where "A = take c L" and "B = drop (Suc c) L"
  have L: "L = A @ (e # es) # B" using id_take_nth_drop [of c L] assms(1,2) by (simp add: A_def B_def)
  have "length A = c" using assms(1) by (simp add: A_def)
  then have upd: "L[c := es] = A @ es # B" by (simp add: L list_update_append)
  have "fst e \<notin> fst ` set es'" if "es' \<in> set A" for es'
  proof -
    from that obtain k where "k < c" "es' = L ! k" by (auto simp: A_def in_set_conv_nth)
    with assms(1,3) show ?thesis by auto
  qed
  then have "fst e \<notin> dom (first_of A)" unfolding dom_first_of by blast
  then have n: "first_of A (fst e) = None" by blast
  have "(m ++ map_of (e # es)) ++ first_of A = ((m ++ map_of es) ++ first_of A)(fst e \<mapsto> snd e)" for m :: "string \<Rightarrow> string option"
    using n by (intro ext) (auto simp: map_add_def split: option.splits)
  then show ?thesis unfolding upd by (simp only: L first_of_append first_of.simps)
qed

section \<open>Reading a transcript\<close>

text \<open>A line that can be merged: an object, a blank line or a comment. Its words have no sign before them.\<close>

definition mergeable :: "string \<Rightarrow> bool" where
  "mergeable line \<longleftrightarrow> sortable line \<and>
     (\<forall>p. line_path line = Some p \<longrightarrow> \<not> has_sign (words_of_line line) \<and> p \<noteq> [])"

definition entries_of :: "string list \<Rightarrow> entries" where
  "entries_of ls = concat (map saved ls)"

lemma entries_of_simps [simp]: "entries_of [] = []" "entries_of (l # ls) = saved l @ entries_of ls"
  by (simp_all add: entries_of_def)

lemma sortable_line:
  assumes "sortable line"
  shows "fgets MAXPATHLEN (line @ r) = Some (line, r) \<and> cstr line = line \<and> line \<noteq> [] \<and> last line = NL"
proof -
  from assms obtain l where l: "line = l @ [NL]" "NL \<notin> set l" "c_string l" "length l < 4095" by (auto simp: sortable_def)
  have "NL \<noteq> NUL" by code_simp
  with l fgets_line [of l MAXPATHLEN r] show ?thesis by (auto simp: MAXPATHLEN_def c_string_def intro: cstr_id)
qed

lemma path_c_string: "sortable line \<Longrightarrow> line_path line = Some p \<Longrightarrow> \<not> has_sign (words_of_line line) \<Longrightarrow> c_string p"
  using argcargv_words [OF words_of_line_Ret, of "words_of_line line ! 1" line]
  by (auto simp: sortable_def line_path_def Let_def intro!: c_string_unescaped split: if_splits)

text \<open>A transcript holds these entries, of which the first is the current line.\<close>

definition tran_holds :: "lm_tran \<Rightarrow> entries \<Rightarrow> bool" where
  "tran_holds t es \<longleftrightarrow>
     (\<exists>ls. (\<forall>l \<in> set ls. mergeable l) \<and> in_path_order es \<and> (\<forall>e \<in> set es. c_string (fst e)) \<and>
        (if tr_eof t then es = []
         else tr_in t = concat ls \<and> es = (tr_filepath t, tr_line t) # entries_of ls \<and> \<not> tr_remove t \<and>
           tr_prepath t = tr_filepath t))"

lemma getnextline_lines:
  assumes "tr_in t = concat ls" "\<forall>l \<in> set ls. mergeable l" "\<not> tr_eof t" "in_path_order (entries_of ls)"
    "tr_prepath t = [] \<or> c_string (tr_prepath t) \<and> (\<forall>e \<in> set (entries_of ls). path_key True (tr_prepath t) < path_of e)"
    "length buf = MAXPATHLEN"
  shows "\<exists>t' buf'. getnextline True t buf = Ret (0, t', buf') \<and> length buf' = MAXPATHLEN \<and> tran_holds t' (entries_of ls)"
  using assms
proof (induction ls arbitrary: t)
  case Nil
  then show ?case by (auto simp: getnextline.simps [of True t] fgets_def tran_holds_def intro: exI [of _ "[]"])
next
  case (Cons line ls)
  from Cons.prems(2) have m: "mergeable line" "sortable line" by (simp_all add: mergeable_def)
  note sl = sortable_line [OF m(2), of "concat ls"]
  let ?av = "words_of_line line"
  let ?t = "t\<lparr>tr_in := concat ls, tr_line := line\<rparr>"
  have g: "getnextline True t buf = (if ?av = [] \<or> char_at (?av ! 0) 0 = CHR ''#''
      then getnextline True (?t\<lparr>tr_argv := ?av\<rparr>) buf else tran_words True ?av ?t buf)"
    using Cons.prems(1) sl by (simp add: getnextline.simps [of True t] Let_def words_of_line_Ret)
  show ?case
  proof (cases "line_path line")
    case None
    then have b: "?av = [] \<or> char_at (?av ! 0) 0 = CHR ''#''" by (auto simp: line_path_def Let_def split: if_splits)
    from None have e: "entries_of (line # ls) = entries_of ls" by (simp add: saved_def)
    have "\<exists>t' buf'. getnextline True (?t\<lparr>tr_argv := ?av\<rparr>) buf = Ret (0, t', buf') \<and> length buf' = MAXPATHLEN \<and>
        tran_holds t' (entries_of ls)"
      by (rule Cons.IH) (use Cons.prems e in auto)
    with g b e show ?thesis by simp
  next
    case (Some p)
    then have w: "\<not> (?av = [] \<or> char_at (?av ! 0) 0 = CHR ''#'')" and ns: "\<not> has_sign ?av" "p \<noteq> []"
      using m(1) by (auto simp: line_path_def mergeable_def Let_def split: if_splits)
    from Some ns(1) have p: "p = unescaped (?av ! 1)" by (auto simp: line_path_def Let_def split: if_splits)
    from m(2) Some ns(1) have a: "2 \<le> length ?av" "well_escaped (?av ! 1)" "length (?av ! 1) < MAXPATHLEN"
      by (auto simp: sortable_def Let_def)
    have "c_string (?av ! 1)" using argcargv_words [OF words_of_line_Ret [of line], of "?av ! 1"] a(1) by simp
    with a length_unescaped_le [of "?av ! 1"] Cons.prems(6) decode_well_escaped [of "?av ! 1" buf] obtain buf'
      where d: "decode (?av ! 1) buf = Ret (Some p, buf')" "length buf' = MAXPATHLEN" using p by auto
    have cp: "c_string p" by (rule path_c_string [OF m(2) Some ns(1)])
    have short: "length p < MAXPATHLEN" using a(3) length_unescaped_le [of "?av ! 1"] p by simp
    have e: "entries_of (line # ls) = (p, line) # entries_of ls" using Some by (simp add: saved_def)
    have rm: "char_at (?av ! 0) 0 \<noteq> CHR ''-''" using ns(1) by (simp add: has_sign_def)
    have order: "\<not> (tr_prepath t \<noteq> [] \<and> pathcasecmp p (tr_prepath t) True \<le> 0)"
    proof
      assume "tr_prepath t \<noteq> [] \<and> pathcasecmp p (tr_prepath t) True \<le> 0"
      with Cons.prems(5) e have "c_string (tr_prepath t)" "path_key True (tr_prepath t) < path_key True p"
        "pathcasecmp p (tr_prepath t) True \<le> 0" by auto
      with pathcasecmp_key [of True p "tr_prepath t"] cp show False by (auto simp: path_ok_def le_less)
    qed
    let ?t' = "?t\<lparr>tr_remove := False, tr_argv := ?av, tr_filepath := p, tr_prepath := p\<rparr>"
    have "tran_words True ?av ?t buf = Ret (0, ?t', buf')"
      using a(1) d(1) rm order short by (simp add: tran_words_def Let_def arg_def)
    moreover have "tran_holds ?t' (entries_of (line # ls))"
    proof -
      have "\<forall>x \<in> set (entries_of ls). c_string (fst x)"
        using Cons.prems(2) path_c_string by (fastforce simp: entries_of_def saved_all mergeable_def)
      with Cons.prems(2,3,4) e cp show ?thesis unfolding tran_holds_def by (intro exI [of _ ls]) auto
    qed
    ultimately show ?thesis using g w d(2) by auto
  qed
qed

lemma getnextline_holds:
  assumes "tran_holds t (e # es)" "length buf = MAXPATHLEN"
  shows "\<exists>t' buf'. getnextline True t buf = Ret (0, t', buf') \<and> length buf' = MAXPATHLEN \<and> tran_holds t' es"
proof -
  from assms(1) obtain ls where t: "\<forall>l \<in> set ls. mergeable l" "in_path_order (e # es)" "\<forall>x \<in> set (e # es). c_string (fst x)"
    "\<not> tr_eof t" "tr_in t = concat ls" "es = entries_of ls" "e = (tr_filepath t, tr_line t)" "tr_prepath t = tr_filepath t"
    by (auto simp: tran_holds_def split: if_splits)
  have "tr_prepath t = [] \<or> c_string (tr_prepath t) \<and> (\<forall>e \<in> set (entries_of ls). path_key True (tr_prepath t) < path_of e)"
    using t(2,3,6,7,8) by auto
  from getnextline_lines [OF t(5,1,4) _ this assms(2)] t(2,6) show ?thesis by simp
qed

section \<open>A round\<close>

definition lm_holds :: "lmerge \<Rightarrow> entries list \<Rightarrow> bool" where
  "lm_holds s L \<longleftrightarrow> length (lm_buf s) = MAXPATHLEN \<and> list_all2 tran_holds (lm_trans s) L"

lemma lm_holds_at: "lm_holds s L \<Longrightarrow> k < length L \<Longrightarrow> tran_holds (tran_at k s) (L ! k) \<and> k < length (lm_trans s)"
  by (auto simp: lm_holds_def tran_at_def list_all2_conv_all_nth)

lemma tran_holds_head:
  assumes "tran_holds t es"
  shows "in_path_order es" "\<forall>e \<in> set es. c_string (fst e)" "tr_eof t \<longleftrightarrow> es = []"
    "\<not> tr_eof t \<Longrightarrow> hd es = (tr_filepath t, tr_line t) \<and> \<not> tr_remove t"
  using assms by (auto simp: tran_holds_def split: if_splits)

lemma lm_next_holds:
  assumes "lm_holds s L" "j < length L" "L ! j = e # es" "m_case opt"
  shows "\<exists>s'. lm_next opt j s = Ret (0, s') \<and> lm_holds s' (L[j := es]) \<and> lm_hist s' = lm_hist s"
proof -
  from lm_holds_at [OF assms(1,2)] assms(1,3) obtain t' buf' where g: "getnextline True (tran_at j s) (lm_buf s) = Ret (0, t', buf')"
    "length buf' = MAXPATHLEN" "tran_holds t' es"
    using getnextline_holds [of "tran_at j s" e es "lm_buf s"] by (auto simp: lm_holds_def)
  have "lm_next opt j s = Ret (0, (set_tran j t' s)\<lparr>lm_buf := buf'\<rparr>)" using g(1) assms(4) by (simp add: lm_next_def)
  moreover have "lm_holds ((set_tran j t' s)\<lparr>lm_buf := buf'\<rparr>) (L[j := es])"
    using assms(1) g(2,3) by (simp add: lm_holds_def set_tran_def list_all2_update_cong)
  ultimately show ?thesis by (simp add: set_tran_def)
qed

text \<open>The transcripts are only merged: no files, no \<open>-f\<close>, no \<open>-n\<close>.\<close>

definition plain_merge :: "lm_options \<Rightarrow> bool" where
  "plain_merge opt \<longleftrightarrow> m_case opt \<and> \<not> m_force opt \<and> \<not> m_noupload opt \<and> m_trans_only opt"

lemma heads_compare:
  assumes "lm_holds s L" "c < length L" "j < length L" "L ! c = a # as" "L ! j = b # bs"
  shows "pathcasecmp (tr_filepath (tran_at c s)) (tr_filepath (tran_at j s)) True < 0 \<longleftrightarrow> path_of a < path_of b"
    "pathcasecmp (tr_filepath (tran_at c s)) (tr_filepath (tran_at j s)) True = 0 \<longleftrightarrow> fst a = fst b"
proof -
  have h: "\<not> tr_eof (tran_at c s)" "\<not> tr_eof (tran_at j s)" "tr_filepath (tran_at c s) = fst a" "tr_filepath (tran_at j s) = fst b"
    "c_string (fst a)" "c_string (fst b)"
    using tran_holds_head [of "tran_at c s" "L ! c"] tran_holds_head [of "tran_at j s" "L ! j"]
      lm_holds_at [OF assms(1,2)] lm_holds_at [OF assms(1,3)] assms(4,5) by auto
  then show "pathcasecmp (tr_filepath (tran_at c s)) (tr_filepath (tran_at j s)) True < 0 \<longleftrightarrow> path_of a < path_of b"
    "pathcasecmp (tr_filepath (tran_at c s)) (tr_filepath (tran_at j s)) True = 0 \<longleftrightarrow> fst a = fst b"
    using pathcasecmp_key [of True "fst a" "fst b"] by (simp_all add: path_ok_def path_key_inj)
qed

text \<open>
  What the comparison leaves: the current line of the candidate comes before all lines of the transcripts that were looked
  at, and nothing that counts is lost.
\<close>

definition scanned :: "nat list \<Rightarrow> nat \<Rightarrow> entries list \<Rightarrow> nat \<Rightarrow> entries list \<Rightarrow> bool" where
  "scanned js c L c' L' \<longleftrightarrow>
     c' \<in> set (c # js) \<and> length L' = length L \<and> L' ! c' = L ! c' \<and> L' ! c' \<noteq> [] \<and> first_of L' = first_of L \<and>
     (\<forall>k. k \<notin> set js \<longrightarrow> L' ! k = L ! k) \<and> path_of (hd (L' ! c')) \<le> path_of (hd (L ! c)) \<and>
     (\<forall>j \<in> set (c # js). j \<noteq> c' \<longrightarrow> (\<forall>e \<in> set (L' ! j). path_of (hd (L' ! c')) < path_of e))"

lemma scannedD:
  assumes "scanned js c L c' L'"
  shows "c' \<in> set (c # js)" "length L' = length L" "L' ! c' = L ! c'" "L' ! c' \<noteq> []" "first_of L' = first_of L"
    "\<And>k. k \<notin> set js \<Longrightarrow> L' ! k = L ! k" "path_of (hd (L' ! c')) \<le> path_of (hd (L ! c))"
    "\<And>j e. j \<in> set (c # js) \<Longrightarrow> j \<noteq> c' \<Longrightarrow> e \<in> set (L' ! j) \<Longrightarrow> path_of (hd (L' ! c')) < path_of e"
  using assms unfolding scanned_def by blast+

lemma scanned_cons:
  assumes "scanned js c L c' L'" "j \<notin> set js" "\<And>e. e \<in> set (L ! j) \<Longrightarrow> j \<noteq> c' \<Longrightarrow> path_of (hd (L' ! c')) < path_of e"
  shows "scanned (j # js) c L c' L'"
proof -
  note d = scannedD [OF assms(1)]
  have "path_of (hd (L' ! c')) < path_of e" if "k \<in> set (c # j # js)" "k \<noteq> c'" "e \<in> set (L' ! k)" for k e
    using that d(8) [of k e] d(6) [OF assms(2)] assms(3) [of e] by (cases "k = j") auto
  with d show ?thesis unfolding scanned_def by auto
qed

lemma scanned_empty:
  "scanned js c L c' L' \<Longrightarrow> L ! j = [] \<Longrightarrow> j \<notin> set js \<Longrightarrow> scanned (j # js) c L c' L'"
  by (rule scanned_cons) simp_all

lemma scanned_greater:
  assumes "scanned js c L c' L'" "j \<notin> set js" "L ! j = b # bs" "L ! c = a # as" "path_of a < path_of b" "in_path_order (L ! j)"
  shows "scanned (j # js) c L c' L'"
proof (rule scanned_cons [OF assms(1,2)])
  have "path_of (hd (L' ! c')) \<le> path_of a" using scannedD(7) [OF assms(1)] unfolding assms(4) list.sel .
  then have "path_of (hd (L' ! c')) < path_of b" using assms(5) by (rule le_less_trans)
  then show "path_of (hd (L' ! c')) < path_of e" if "e \<in> set (L ! j)" for e
    using that assms(3,6) by (auto intro: less_trans)
qed

lemma scanned_match:
  assumes "scanned js c (L[j := bs]) c' L'" "c < j" "j < length L" "j \<notin> set js" "L ! j = b # bs" "L ! c = a # as"
    "fst a = fst b" "in_path_order (L ! j)"
  shows "scanned (j # js) c L c' L'"
proof -
  note d = scannedD [OF assms(1)]
  have "fst b \<in> fst ` set (L ! c)" using assms(6,7) by force
  note h = first_of_hidden [OF assms(2,3,5) this]
  have c: "L[j := bs] ! c = L ! c" "c' \<noteq> j" "L' ! j = bs" using assms(2,3,4) d(1) d(6) [of j] by auto
  have le: "path_of (hd (L' ! c')) \<le> path_of b" using d(7) unfolding c(1) assms(6,7) list.sel .
  have "path_of (hd (L' ! c')) < path_of e" if "e \<in> set bs" for e
    using le that assms(5,8) by (auto intro: le_less_trans)
  then have "path_of (hd (L' ! c')) < path_of e" if "k \<in> set (c # j # js)" "k \<noteq> c'" "e \<in> set (L' ! k)" for k e
    using that d(8) [of k e] c(3) by (cases "k = j") auto
  moreover have "c' \<in> set (c # j # js)" using d(1) by auto
  moreover have "\<forall>k. k \<notin> set (j # js) \<longrightarrow> L' ! k = L ! k" using d(6) by auto
  ultimately show ?thesis using d(2-5,7) h c unfolding scanned_def by auto
qed

lemma scanned_less:
  assumes "scanned js j L c' L'" "c \<noteq> j" "c \<notin> set js" "L ! j = b # bs" "L ! c = a # as" "path_of b < path_of a"
    "in_path_order (L ! c)"
  shows "scanned (j # js) c L c' L'"
proof -
  note d = scannedD [OF assms(1)]
  have "path_of (hd (L' ! c')) \<le> path_of b" using d(7) unfolding assms(4) list.sel .
  then have le: "path_of (hd (L' ! c')) < path_of a" using assms(6) by (rule le_less_trans)
  have c: "c' \<noteq> c" "L' ! c = a # as" using d(1) assms(2,3,5) d(6) [of c] by auto
  have "path_of (hd (L' ! c')) < path_of e" if "e \<in> set (a # as)" for e
    using le that assms(5,7) by (auto intro: less_trans)
  then have "path_of (hd (L' ! c')) < path_of e" if "k \<in> set (c # j # js)" "k \<noteq> c'" "e \<in> set (L' ! k)" for k e
    using that d(8) [of k e] c(2) by (cases "k = c") auto
  moreover have "c' \<in> set (c # j # js)" using d(1) by auto
  moreover have "\<forall>k. k \<notin> set (j # js) \<longrightarrow> L' ! k = L ! k" using d(6) by auto
  moreover have "path_of (hd (L' ! c')) \<le> path_of (hd (L ! c))" using le assms(5) by simp
  ultimately show ?thesis using d(2-5) unfolding scanned_def by blast
qed

lemma lm_scan_holds:
  "lm_holds s L \<Longrightarrow> plain_merge opt \<Longrightarrow> sorted_wrt (<) (f_cand f # js) \<Longrightarrow> \<forall>j \<in> set (f_cand f # js). j < length L \<Longrightarrow>
     L ! f_cand f \<noteq> [] \<Longrightarrow> \<not> f_skip f \<Longrightarrow>
     \<exists>f' s' L'. lm_scan opt os js f s = Ret (f', s') \<and> lm_holds s' L' \<and> lm_hist s' = lm_hist s \<and> \<not> f_skip f' \<and>
       scanned js (f_cand f) L (f_cand f') L'"
proof (induction js arbitrary: f s L)
  case Nil
  then show ?case by (auto simp: scanned_def)
next
  case (Cons j js)
  let ?c = "f_cand f"
  have pm: "m_case opt" "\<not> m_force opt" "\<not> m_noupload opt" using Cons.prems(2) by (simp_all add: plain_merge_def)
  have cj: "?c < j" "?c < length L" "j < length L" "sorted_wrt (<) (?c # js)" "sorted_wrt (<) (j # js)" "j \<notin> set js" "?c \<notin> set js"
    using Cons.prems(3,4) by auto
  have oc: "in_path_order (L ! ?c)" and oj: "in_path_order (L ! j)"
    using tran_holds_head(1) lm_holds_at [OF Cons.prems(1)] cj(2,3) by blast+
  obtain a as where a: "L ! ?c = a # as" using Cons.prems(5) by (cases "L ! ?c") auto
  show ?case
  proof (cases "L ! j")
    case Nil
    then have "tr_eof (tran_at j s)" using lm_holds_at [OF Cons.prems(1) cj(3)] tran_holds_head(3) by force
    moreover obtain f' s' L' where r: "lm_scan opt os js f s = Ret (f', s')" "lm_holds s' L'" "lm_hist s' = lm_hist s" "\<not> f_skip f'"
      "scanned js ?c L (f_cand f') L'"
      using Cons.IH [OF Cons.prems(1,2) cj(4) _ Cons.prems(5,6)] Cons.prems(4) by auto
    moreover note scanned_empty [OF r(5) Nil cj(6)]
    ultimately show ?thesis by (intro exI [of _ f'] exI [of _ s'] exI [of _ L']) simp
  next
    case b: (Cons b bs)
    then have ne: "\<not> tr_eof (tran_at j s)" using lm_holds_at [OF Cons.prems(1) cj(3)] tran_holds_head(3) by force
    note cmp = heads_compare [OF Cons.prems(1) cj(2,3) a b]
    consider "fst a = fst b" | "path_of b < path_of a" | "path_of a < path_of b"
      using path_key_inj [of "fst a" "fst b"] by (metis linorder_less_linear)
    then show ?thesis
    proof cases
      case 1
      let ?f = "f\<lparr>f_match := True\<rparr>"
      obtain s1 where n: "lm_next opt j s = Ret (0, s1)" "lm_holds s1 (L[j := bs])" "lm_hist s1 = lm_hist s"
        using lm_next_holds [OF Cons.prems(1) cj(3) b pm(1)] by blast
      have ca: "L[j := bs] ! ?c = L ! ?c" using cj(1) by simp
      obtain f' s' L' where r: "lm_scan opt os js ?f s1 = Ret (f', s')" "lm_holds s' L'" "lm_hist s' = lm_hist s" "\<not> f_skip f'"
        "scanned js ?c (L[j := bs]) (f_cand f') L'"
        using Cons.IH [OF n(2) Cons.prems(2), of ?f] cj(4) Cons.prems(4,5,6) ca n(3) by auto
      have "scanned (j # js) ?c L (f_cand f') L'" by (rule scanned_match [OF r(5) cj(1,3,6) b a 1 oj])
      moreover have "lm_scan opt os (j # js) f s = lm_scan opt os js ?f s1"
        using ne cmp(2) 1 pm n(1) by (simp add: lm_link_from_def lm_unlink_def Let_def)
      ultimately show ?thesis using r by (intro exI [of _ f'] exI [of _ s'] exI [of _ L']) simp
    next
      case 2
      let ?f = "f\<lparr>f_cand := j, f_loc := j\<rparr>"
      obtain f' s' L' where r: "lm_scan opt os js ?f s = Ret (f', s')" "lm_holds s' L'" "lm_hist s' = lm_hist s" "\<not> f_skip f'"
        "scanned js j L (f_cand f') L'"
        using Cons.IH [OF Cons.prems(1,2), of ?f] cj(5) Cons.prems(4,6) b by auto
      have "scanned (j # js) ?c L (f_cand f') L'" by (rule scanned_less [OF r(5) _ cj(7) b a 2 oc]) (use cj(1) in simp)
      moreover have "0 < pathcasecmp (tr_filepath (tran_at ?c s)) (tr_filepath (tran_at j s)) True"
        using 2 cmp by (metis linorder_less_linear order_less_asym path_key_inj)
      then have "lm_scan opt os (j # js) f s = lm_scan opt os js ?f s" using ne pm(1) by (simp add: Let_def)
      ultimately show ?thesis using r by (intro exI [of _ f'] exI [of _ s'] exI [of _ L']) simp
    next
      case 3
      obtain f' s' L' where r: "lm_scan opt os js f s = Ret (f', s')" "lm_holds s' L'" "lm_hist s' = lm_hist s" "\<not> f_skip f'"
        "scanned js ?c L (f_cand f') L'"
        using Cons.IH [OF Cons.prems(1,2) cj(4) _ Cons.prems(5,6)] Cons.prems(4) by auto
      have "scanned (j # js) ?c L (f_cand f') L'" by (rule scanned_greater [OF r(5) cj(6) b a 3 oj])
      moreover have "lm_scan opt os (j # js) f s = lm_scan opt os js f s"
        using ne cmp 3 pm(1) by (simp add: Let_def)
      ultimately show ?thesis using r by (intro exI [of _ f'] exI [of _ s'] exI [of _ L']) simp
    qed
  qed
qed

definition writes_work :: "os \<Rightarrow> bool" where
  "writes_work os \<longleftrightarrow> (\<forall>h p d. os_err os h (Write p d) = None)"

definition temp_name_of :: "lm_dest \<Rightarrow> lm_options \<Rightarrow> string" where
  "temp_name_of d opt = m_tran_root d @ [SLASH] @ m_tran_name d @ ''.'' @ print_int (m_pid opt)"

lemma lm_puts_works:
  "writes_work os \<Longrightarrow> lm_puts d opt os c s =
     Ret (s\<lparr>lm_hist := lm_hist s @ [Did (Write (temp_name_of d opt) (tr_line (tran_at c s))) None]\<rparr>)"
  by (simp add: lm_puts_def lm_call_def answer_split writes_work_def temp_name_of_def)

text \<open>A round takes out the least line of all.\<close>

lemma scanned_least:
  assumes "scanned [Suc i..<length L] i L c L'" "i < length L" "\<forall>k < i. L ! k = []" "L' ! c = e # es" "in_path_order (L' ! c)"
  shows "c < length L" "length L' = length L" "first_of L = (first_of (L'[c := es]))(fst e \<mapsto> snd e)"
    "\<forall>p \<in> dom (first_of (L'[c := es])). path_of e < path_key True p" "\<forall>k < i. L'[c := es] ! k = []" "i \<le> c"
proof -
  note d = scannedD [OF assms(1)]
  show c: "i \<le> c" "c < length L" using d(1) assms(2) by auto
  show l: "length L' = length L" by (rule d(2))
  have less: "path_of e < path_of x" if "k < length L" "k \<noteq> c" "x \<in> set (L' ! k)" for k x
  proof (cases "k < i")
    case True
    with that(3) assms(3) d(6) [of k] show ?thesis by simp
  next
    case False
    with that d(8) [of k x] assms(4) show ?thesis by (cases "k = i") auto
  qed
  have "\<forall>k < length L'. k \<noteq> c \<longrightarrow> fst e \<notin> fst ` set (L' ! k)"
    using less l by fastforce
  from first_of_least [OF _ assms(4) this] c l d(5) show "first_of L = (first_of (L'[c := es]))(fst e \<mapsto> snd e)" by simp
  show "\<forall>k < i. L'[c := es] ! k = []" using c(1) assms(3) d(6) by simp
  have "path_of e < path_of x" if "es' \<in> set (L'[c := es])" "x \<in> set es'" for es' x
  proof -
    from that(1) obtain k where k: "k < length L" "es' = L'[c := es] ! k" using l by (auto simp: in_set_conv_nth)
    with that(2) less [of k x] assms(4,5) c(2) l show ?thesis by (cases "k = c") auto
  qed
  then show "\<forall>p \<in> dom (first_of (L'[c := es])). path_of e < path_key True p" unfolding dom_first_of by auto
qed

lemma lm_round_holds:
  assumes "lm_holds s L" "plain_merge opt" "writes_work os" "i < length L" "L ! i \<noteq> []" "\<forall>k < i. L ! k = []"
  shows "\<exists>s' L' e. lm_round opt d os i s = Ret s' \<and> lm_holds s' L' \<and> length L' = length L \<and> (\<forall>k < i. L' ! k = []) \<and>
    first_of L = (first_of L')(fst e \<mapsto> snd e) \<and> (\<forall>p \<in> dom (first_of L'). path_of e < path_key True p) \<and>
    lm_hist s' = lm_hist s @ [Did (Write (temp_name_of d opt) (snd e)) None]"
proof -
  let ?f0 = "\<lparr>f_cand = i, f_loc = i, f_match = False, f_skip = False\<rparr>"
  have pm: "m_case opt" "\<not> m_force opt" "\<not> m_noupload opt" "m_trans_only opt" using assms(2) by (simp_all add: plain_merge_def)
  have n: "length (lm_trans s) = length L" using assms(1) by (auto simp: lm_holds_def dest: list_all2_lengthD)
  have "sorted_wrt (<) (i # [Suc i..<length L])" by (simp add: sorted_wrt_upt)
  then obtain f s1 L1 where sc: "lm_scan opt os [Suc i..<length L] ?f0 s = Ret (f, s1)" "lm_holds s1 L1" "lm_hist s1 = lm_hist s"
    "\<not> f_skip f" "scanned [Suc i..<length L] i L (f_cand f) L1"
    using lm_scan_holds [OF assms(1,2), of ?f0 "[Suc i..<length L]" os] assms(4,5) by auto
  let ?c = "f_cand f"
  obtain e es where e: "L1 ! ?c = e # es" using scannedD(4) [OF sc(5)] by (cases "L1 ! ?c") auto
  have "?c < length L1" using scannedD(1,2) [OF sc(5)] assms(4) by auto
  note h1 = lm_holds_at [OF sc(2) this]
  note hd1 = tran_holds_head [OF conjunct1 [OF h1]]
  note least = scanned_least [OF sc(5) assms(4,6) e hd1(1)]
  have t: "\<not> tr_remove (tran_at ?c s1)" "tr_line (tran_at ?c s1) = snd e" using hd1(3,4) e by auto
  let ?s2 = "s1\<lparr>lm_hist := lm_hist s1 @ [Did (Write (temp_name_of d opt) (snd e)) None]\<rparr>"
  have o: "lm_output opt d os f s1 = Ret ?s2"
    using sc(4) pm t lm_puts_works [OF assms(3), of d opt ?c s1] by (simp add: lm_output_def Let_def)
  have h2: "lm_holds ?s2 L1" using sc(2) by (simp add: lm_holds_def)
  obtain s3 where s3: "lm_next opt ?c ?s2 = Ret (0, s3)" "lm_holds s3 (L1[?c := es])" "lm_hist s3 = lm_hist ?s2"
    using lm_next_holds [OF h2 \<open>?c < length L1\<close> e pm(1)] by blast
  have "lm_round opt d os i s = Ret s3"
    using sc(1) o s3(1) pm(2) t(1) n by (simp add: lm_round_def Let_def)
  with s3 least sc(3) show ?thesis by (intro exI [of _ s3] exI [of _ "L1[?c := es]"] exI [of _ e]) simp
qed

section \<open>The whole merge\<close>

definition output_events :: "string \<Rightarrow> entries \<Rightarrow> history" where
  "output_events temp out = map (\<lambda>e. Did (Write temp (snd e)) None) out"

lemma written_output: "written temp (output_events temp out) = concat (map snd out)"
  by (induction out) (simp_all add: output_events_def)

lemma first_of_nothing: "\<forall>k < length L. L ! k = [] \<Longrightarrow> first_of L = Map.empty"
proof -
  assume "\<forall>k < length L. L ! k = []"
  then have "dom (first_of L) = {}" unfolding dom_first_of by (auto simp: in_set_conv_nth)
  then show ?thesis by simp
qed

lemma lm_loop_holds:
  "lm_holds s L \<Longrightarrow> plain_merge opt \<Longrightarrow> writes_work os \<Longrightarrow> \<forall>k < i. k < length L \<longrightarrow> L ! k = [] \<Longrightarrow>
     \<exists>s' out. lm_loop opt d os i s = Ret s' \<and> in_path_order out \<and> map_of out = first_of L \<and>
       lm_hist s' = lm_hist s @ output_events (temp_name_of d opt) out"
proof (induction opt d os i s arbitrary: L rule: lm_loop.induct)
  case (1 opt d os i s)
  have n: "length (lm_trans s) = length L" using "1.prems"(1) by (auto simp: lm_holds_def dest: list_all2_lengthD)
  show ?case
  proof (cases "length L \<le> i")
    case True
    with "1.prems"(4) have "first_of L = Map.empty" by (intro first_of_nothing) auto
    with True n show ?thesis by (intro exI [of _ s] exI [of _ "[]"]) (simp add: lm_loop.simps [of opt d os i] output_events_def)
  next
    case False
    then have i: "i < length L" by simp
    have eof: "tr_eof (tran_at i s) \<longleftrightarrow> L ! i = []" using lm_holds_at [OF "1.prems"(1) i] tran_holds_head(3) by blast
    show ?thesis
    proof (cases "L ! i = []")
      case True
      have z: "\<forall>k < Suc i. k < length L \<longrightarrow> L ! k = []" using "1.prems"(4) True by (auto simp: less_Suc_eq)
      have "\<exists>s' out. lm_loop opt d os (Suc i) s = Ret s' \<and> in_path_order out \<and> map_of out = first_of L \<and>
          lm_hist s' = lm_hist s @ output_events (temp_name_of d opt) out"
        by (rule "1.IH"(1) [OF _ _ "1.prems"(1-3) z]) (use False n eof True in auto)
      with False n eof True show ?thesis by (simp add: lm_loop.simps [of opt d os i])
    next
      case ne: False
      have z0: "\<forall>k < i. L ! k = []" using "1.prems"(4) i by simp
      obtain s1 L1 e where r: "lm_round opt d os i s = Ret s1" "lm_holds s1 L1" "length L1 = length L" "\<forall>k < i. L1 ! k = []"
        "first_of L = (first_of L1)(fst e \<mapsto> snd e)" "\<forall>p \<in> dom (first_of L1). path_of e < path_key True p"
        "lm_hist s1 = lm_hist s @ [Did (Write (temp_name_of d opt) (snd e)) None]"
        using lm_round_holds [OF "1.prems"(1-3) i ne z0, of d] by blast
      have z: "\<forall>k < i. k < length L1 \<longrightarrow> L1 ! k = []" using r(4) by simp
      have "\<exists>s' out. lm_loop opt d os i s1 = Ret s' \<and> in_path_order out \<and> map_of out = first_of L1 \<and>
          lm_hist s' = lm_hist s1 @ output_events (temp_name_of d opt) out"
        by (rule "1.IH"(2) [OF _ _ r(1,2) "1.prems"(2,3) z]) (use False n eof ne in auto)
      then obtain s' out where o: "lm_loop opt d os i s1 = Ret s'" "in_path_order out" "map_of out = first_of L1"
        "lm_hist s' = lm_hist s1 @ output_events (temp_name_of d opt) out" by blast
      have "fst x \<in> dom (first_of L1)" if "x \<in> set out" for x
        using that unfolding o(3) [symmetric] dom_map_of_conv_image_fst by simp
      with r(6) o(2) have "in_path_order (e # out)" by simp
      moreover have "map_of (e # out) = first_of L" using r(5) o(3) by (cases e) simp
      moreover have "lm_loop opt d os i s = Ret s'"
        using False n eof ne r(1) o(1) by (simp add: lm_loop.simps [of opt d os i s])
      moreover have "lm_hist s' = lm_hist s @ output_events (temp_name_of d opt) (e # out)"
        using o(4) r(7) by (simp add: output_events_def)
      ultimately show ?thesis by blast
    qed
  qed
qed

section \<open>Opening the transcripts\<close>

definition tran_text :: "os \<Rightarrow> string \<Rightarrow> string list \<Rightarrow> bool" where
  "tran_text os path ls \<longleftrightarrow>
     (\<forall>h. os_text os h path = concat ls) \<and> (\<forall>l \<in> set ls. mergeable l) \<and> in_path_order (entries_of ls)"

lemma lm_open_step:
  assumes "get_root rp radpath path = Ret (Some (fr, tr, name))" "os_err os (lm_hist s) (Fopen path) = None" "m_case opt"
    "lm_holds s L" "tran_text os path ls"
  shows "\<exists>s1. lm_holds s1 (L @ [entries_of ls]) \<and> (\<forall>paths. lm_open opt os rp radpath (path # paths) s =
    obind (lm_open opt os rp radpath paths s1) (\<lambda>(roots, s). Ret (tr # roots, s)))"
proof -
  let ?h = "lm_hist s @ [Did (Fopen path) None]"
  let ?t = "lm_tran0 path fr name (os_text os ?h path)"
  let ?s = "s\<lparr>lm_hist := ?h, lm_trans := lm_trans s @ [?t]\<rparr>"
  have tx: "os_text os ?h path = concat ls" "\<forall>l \<in> set ls. mergeable l" "in_path_order (entries_of ls)"
    using assms(5) by (auto simp: tran_text_def)
  have b: "length (lm_buf s) = MAXPATHLEN" using assms(4) by (simp add: lm_holds_def)
  have "tr_in ?t = concat ls" "\<not> tr_eof ?t" "tr_prepath ?t = []" using tx(1) by (simp_all add: lm_tran0_def)
  with getnextline_lines [of ?t ls "lm_buf s"] tx b obtain t' buf' where g: "getnextline True ?t (lm_buf s) = Ret (0, t', buf')"
    "length buf' = MAXPATHLEN" "tran_holds t' (entries_of ls)" by auto
  define s1 where "s1 = (set_tran (length (lm_trans s)) t' ?s)\<lparr>lm_buf := buf'\<rparr>"
  have "tran_at (length (lm_trans s)) ?s = ?t" by (simp add: tran_at_def nth_append)
  with g(1) assms(3) have nx: "lm_next opt (length (lm_trans s)) ?s = Ret (0, s1)" by (simp add: lm_next_def s1_def)
  have "lm_holds s1 (L @ [entries_of ls])"
    using assms(4) g(2,3) by (simp add: lm_holds_def s1_def set_tran_def list_update_append list_all2_appendI)
  moreover have "lm_open opt os rp radpath (path # paths) s =
      obind (lm_open opt os rp radpath paths s1) (\<lambda>(roots, s). Ret (tr # roots, s))" for paths
    using assms(1,2) nx by (simp add: answer_split Let_def)
  ultimately show ?thesis by blast
qed

lemma lm_open_holds:
  "lm_open opt os rp radpath paths s = Ret (roots, s') \<Longrightarrow> m_case opt \<Longrightarrow> lm_holds s L \<Longrightarrow> \<forall>p \<in> set paths. tran_text os p (ls p) \<Longrightarrow>
     lm_holds s' (L @ map (\<lambda>p. entries_of (ls p)) paths)"
proof (induction paths arbitrary: s roots L)
  case (Cons path paths)
  from Cons.prems(1) obtain fr tr name where r: "get_root rp radpath path = Ret (Some (fr, tr, name))"
    by (auto simp: obind_Ret_iff split: option.splits)
  have e: "os_err os (lm_hist s) (Fopen path) = None"
    using Cons.prems(1) r by (cases "os_err os (lm_hist s) (Fopen path)") (simp_all add: answer_split)
  from lm_open_step [OF r e Cons.prems(2,3), of "ls path"] Cons.prems(4) obtain s1 where s1: "lm_holds s1 (L @ [entries_of (ls path)])"
    "lm_open opt os rp radpath (path # paths) s = obind (lm_open opt os rp radpath paths s1) (\<lambda>(roots, s). Ret (tr # roots, s))"
    by (auto simp del: lm_open.simps)
  from Cons.prems(1) obtain roots' where "lm_open opt os rp radpath paths s1 = Ret (roots', s')"
    unfolding s1(2) by (auto simp: obind_Ret_iff)
  from Cons.IH [OF this Cons.prems(2) s1(1)] Cons.prems(4) show ?case by simp
qed simp

text \<open>When every call succeeds the transcripts are opened.\<close>

lemma lm_open_works:
  "\<forall>h c. os_err os h c = None \<Longrightarrow> \<forall>p \<in> set paths. \<exists>r. get_root rp radpath p = Ret (Some r) \<Longrightarrow> m_case opt \<Longrightarrow> lm_holds s L \<Longrightarrow>
     \<forall>p \<in> set paths. tran_text os p (ls p) \<Longrightarrow> \<exists>r. lm_open opt os rp radpath paths s = Ret r"
proof (induction paths arbitrary: s L)
  case (Cons path paths)
  from Cons.prems(2) obtain fr tr name where r: "get_root rp radpath path = Ret (Some (fr, tr, name))" by fastforce
  from lm_open_step [OF r _ Cons.prems(3,4), of os "ls path"] Cons.prems(1,5) obtain s1 where
    s1: "lm_holds s1 (L @ [entries_of (ls path)])"
    "lm_open opt os rp radpath (path # paths) s = obind (lm_open opt os rp radpath paths s1) (\<lambda>(roots, s). Ret (tr # roots, s))"
    by (auto simp del: lm_open.simps)
  from Cons.IH [OF Cons.prems(1) _ Cons.prems(3) s1(1)] Cons.prems(2,5) obtain r where
    "lm_open opt os rp radpath paths s1 = Ret r" by auto
  with s1(2) show ?case by (cases r) simp
qed simp

text \<open>From the texts to the new transcript.\<close>

lemma merge_texts:
  assumes "lm_open opt os rp radpath paths \<lparr>lm_hist = h, lm_buf = decode_buf0, lm_trans = [], lm_dirs = []\<rparr> = Ret (roots, s)"
    "plain_merge opt" "writes_work os" "\<forall>p \<in> set paths. tran_text os p (ls p)"
  shows "\<exists>s' out. lm_loop opt d os 0 s = Ret s' \<and> in_path_order out \<and>
    map_of out = first_of (map (\<lambda>p. entries_of (ls p)) paths) \<and>
    lm_hist s' = lm_hist s @ output_events (temp_name_of d opt) out"
proof -
  have "lm_holds s ([] @ map (\<lambda>p. entries_of (ls p)) paths)"
    by (rule lm_open_holds [OF assms(1) _ _ assms(4)]) (use assms(2) in \<open>simp_all add: plain_merge_def lm_holds_def\<close>)
  from lm_loop_holds [OF this [simplified] assms(2,3), of 0] show ?thesis by simp
qed

text \<open>
  A whole run that returns: the transcript is created under its temporary name, written and then renamed, and nothing else
  is done in between.
\<close>

definition final_name_of :: "lm_dest \<Rightarrow> string" where
  "final_name_of d = m_tran_root d @ [SLASH] @ m_tran_name d"

lemma lm_call_Ret: "lm_call os c s = Ret s' \<longleftrightarrow> os_err os (lm_hist s) c = None \<and> s' = s\<lparr>lm_hist := lm_hist s @ [Did c None]\<rparr>"
  by (auto simp: lm_call_def answer_split split: option.splits)

lemma snprintf_fits: "length s < n \<Longrightarrow> snprintf n s = Some s"
  by (simp add: snprintf_def)

lemma snprintf_Some: "snprintf n s = Some t \<Longrightarrow> t = s"
  by (auto simp: snprintf_def split: if_splits)

lemma lm_finish_plain:
  assumes "lm_finish opt d os s = Ret s'" "plain_merge opt"
  shows "lm_hist s' = lm_hist s @ [Did (Rename (temp_name_of d opt) (final_name_of d)) None]"
proof -
  have "\<not> m_force opt" "m_trans_only opt" using assms(2) by (simp_all add: plain_merge_def)
  with assms(1) have "lm_rename os (temp_tran opt d) (snprintf MAXPATHLEN (m_tran_root d @ [SLASH] @ m_tran_name d)) s = Ret s'"
    by (auto simp: lm_finish_def Let_def split: if_split_asm)
  then obtain a b where "temp_tran opt d = Some a" "snprintf MAXPATHLEN (m_tran_root d @ [SLASH] @ m_tran_name d) = Some b"
    "lm_call os (Rename a b) s = Ret s'"
    by (auto simp: lm_rename_def split: option.splits)
  then show ?thesis
    by (auto dest!: snprintf_Some simp: temp_tran_def temp_name_of_def final_name_of_def lm_call_Ret)
qed

definition dest_path :: "string \<Rightarrow> string \<Rightarrow> string" where
  "dest_path cwd dest = (if char_at dest 0 = SLASH then dest else cwd @ [SLASH] @ dest)"

lemma lm_dest_new_trans:
  assumes "lm_dest_new opt os rp radpath cwd dest s = Ret (d, s')"
  shows "s' = s\<lparr>lm_hist := lm_hist s'\<rparr>" (is ?same)
    and "get_root rp radpath (dest_path cwd dest) = Ret (Some (m_file_root d, m_tran_root d, m_tran_name d))" (is ?root)
proof -
  from assms obtain s1 where s1: "lm_call os (Create dest) s = Ret s1" and r: "obind (lm_call os (Close dest) s1) (\<lambda>s.
     case snprintf MAXPATHLEN (dest_path cwd dest) of
       None \<Rightarrow> Exit 2
     | Some path \<Rightarrow>
         obind (get_root rp radpath path) (\<lambda>r. case r of
           None \<Rightarrow> Exit 2
         | Some (file_root, tran_root, name) \<Rightarrow>
             (case snprintf MAXPATHLEN (file_root @ [SLASH] @ name @ ''.'' @ print_int (m_pid opt)) of
                None \<Rightarrow> Exit 2
              | Some npath \<Rightarrow>
                  obind (if m_trans_only opt then Ret s else lm_call os (Mkdir npath 0x1FF) s) (\<lambda>s.
                    Ret (\<lparr>m_file_root = file_root, m_tran_root = tran_root, m_tran_name = name\<rparr>, s))))) = Ret (d, s')"
    unfolding lm_dest_new_def dest_path_def by (rule obind_RetE)
  from r obtain s2 where s2: "lm_call os (Close dest) s1 = Ret s2" and g: ?root and
    "\<exists>npath s3. (if m_trans_only opt then Ret s2 else lm_call os (Mkdir npath 0x1FF) s2) = Ret s3 \<and> s' = s3"
    by (rule obind_RetE) (auto elim!: obind_RetE split: option.split_asm dest!: snprintf_Some; blast)
  then obtain npath where "(if m_trans_only opt then Ret s2 else lm_call os (Mkdir npath 0x1FF) s2) = Ret s'" by blast
  with s1 s2 show ?same by (auto simp: lm_call_Ret split: if_split_asm)
  show ?root by (rule g)
qed

lemma merge_main:
  assumes "lmerge_main opt os rp radpath cwd paths dest h = Ret s'" "plain_merge opt" "writes_work os"
    "\<forall>p \<in> set paths. tran_text os p (ls p)"
  shows "\<exists>d k out. lm_hist s' = k @ [Did (Create (temp_name_of d opt)) None] @ output_events (temp_name_of d opt) out @
      [Did (Rename (temp_name_of d opt) (final_name_of d)) None] \<and>
    in_path_order out \<and> map_of out = first_of (map (\<lambda>p. entries_of (ls p)) paths) \<and>
    get_root rp radpath (dest_path cwd dest) = Ret (Some (m_file_root d, m_tran_root d, m_tran_name d))"
proof -
  have f: "\<not> m_force opt" using assms(2) by (simp add: plain_merge_def)
  from assms(1) obtain roots s1 d s2 opath s3 s4 where
    o: "lm_open opt os rp radpath paths \<lparr>lm_hist = h, lm_buf = decode_buf0, lm_trans = [], lm_dirs = []\<rparr> = Ret (roots, s1)" and
    d: "lm_dest_new opt os rp radpath cwd dest s1 = Ret (d, s2)" and t: "temp_tran opt d = Some opath" and
    c: "lm_call os (Create opath) s2 = Ret s3" and l: "lm_loop opt d os 0 s3 = Ret s4" and e: "lm_finish opt d os s4 = Ret s'"
    unfolding lmerge_main_def by (auto simp: f elim!: obind_RetE split: option.split_asm)
  have s3: "s3 = s1\<lparr>lm_hist := lm_hist s3\<rparr>" "lm_hist s3 = lm_hist s2 @ [Did (Create (temp_name_of d opt)) None]"
    using c lm_dest_new_trans(1) [OF d] t
    by (auto simp: lm_call_Ret temp_tran_def temp_name_of_def dest!: snprintf_Some)
      (metis lmerge.surjective lmerge.update_convs(1))
  have "lm_holds s1 ([] @ map (\<lambda>p. entries_of (ls p)) paths)"
    by (rule lm_open_holds [OF o _ _ assms(4)]) (use assms(2) in \<open>simp_all add: plain_merge_def lm_holds_def\<close>)
  then have "lm_holds s3 (map (\<lambda>p. entries_of (ls p)) paths)" by (subst s3(1)) (simp add: lm_holds_def)
  from lm_loop_holds [OF this assms(2,3), of 0 d] l obtain out where "in_path_order out"
    "map_of out = first_of (map (\<lambda>p. entries_of (ls p)) paths)"
    "lm_hist s4 = lm_hist s3 @ output_events (temp_name_of d opt) out" by auto
  with lm_finish_plain [OF e assms(2)] s3(2) lm_dest_new_trans(2) [OF d] show ?thesis
    by (intro exI [of _ d] exI [of _ "lm_hist s2"] exI [of _ out]) simp
qed

text \<open>When every call succeeds and every path fits, the run returns.\<close>

lemma lm_call_works: "\<forall>h c. os_err os h c = None \<Longrightarrow> lm_call os c s = Ret (s\<lparr>lm_hist := lm_hist s @ [Did c None]\<rparr>)"
  by (simp add: lm_call_Ret)

lemma lm_dest_new_works:
  assumes "\<forall>h c. os_err os h c = None" "m_trans_only opt"
    "length (dest_path cwd dest) < MAXPATHLEN" "get_root rp radpath (dest_path cwd dest) = Ret (Some (fr, tr, name))"
    "length (fr @ [SLASH] @ name @ ''.'' @ print_int (m_pid opt)) < MAXPATHLEN"
  shows "\<exists>s'. lm_dest_new opt os rp radpath cwd dest s = Ret (\<lparr>m_file_root = fr, m_tran_root = tr, m_tran_name = name\<rparr>, s')"
proof -
  have "snprintf MAXPATHLEN (dest_path cwd dest) = Some (dest_path cwd dest)" by (rule snprintf_fits [OF assms(3)])
  moreover have "snprintf MAXPATHLEN (fr @ [SLASH] @ name @ ''.'' @ print_int (m_pid opt)) \<noteq> None"
    using snprintf_fits [OF assms(5)] by simp
  ultimately show ?thesis
    unfolding lm_dest_new_def dest_path_def [symmetric] using assms(2,4)
    by (auto simp: lm_call_works [OF assms(1)] split: option.split)
qed

definition dest_fits :: "(string \<Rightarrow> string option) \<Rightarrow> string \<Rightarrow> string \<Rightarrow> string \<Rightarrow> int \<Rightarrow> lm_dest \<Rightarrow> bool" where
  "dest_fits rp radpath cwd dest n d \<longleftrightarrow>
     length (dest_path cwd dest) < MAXPATHLEN \<and>
     get_root rp radpath (dest_path cwd dest) = Ret (Some (m_file_root d, m_tran_root d, m_tran_name d)) \<and>
     length (m_file_root d @ [SLASH] @ m_tran_name d @ ''.'' @ print_int n) < MAXPATHLEN \<and>
     length (m_tran_root d @ [SLASH] @ m_tran_name d @ ''.'' @ print_int n) < MAXPATHLEN"

lemma merge_returns:
  assumes "\<forall>h c. os_err os h c = None" "plain_merge opt" "\<forall>p \<in> set paths. tran_text os p (ls p)"
    "\<forall>p \<in> set paths. \<exists>r. get_root rp radpath p = Ret (Some r)" "dest_fits rp radpath cwd dest (m_pid opt) d"
  shows "\<exists>s'. lmerge_main opt os rp radpath cwd paths dest h = Ret s'"
proof -
  have f: "\<not> m_force opt" "m_case opt" "m_trans_only opt" using assms(2) by (simp_all add: plain_merge_def)
  let ?s = "\<lparr>lm_hist = h, lm_buf = decode_buf0, lm_trans = [], lm_dirs = []\<rparr>"
  have "lm_holds ?s []" by (simp add: lm_holds_def)
  from lm_open_works [OF assms(1,4) f(2) this assms(3)] obtain roots s1 where o: "lm_open opt os rp radpath paths ?s = Ret (roots, s1)"
    by (metis prod.collapse)
  from lm_open_holds [OF o f(2) \<open>lm_holds ?s []\<close> assms(3)] have h1: "lm_holds s1 (map (\<lambda>p. entries_of (ls p)) paths)" by simp
  from assms(5) f(3) lm_dest_new_works [OF assms(1), of opt cwd dest rp radpath "m_file_root d" "m_tran_root d" "m_tran_name d" s1]
  obtain s2 where s2: "lm_dest_new opt os rp radpath cwd dest s1 = Ret (d, s2)"
    by (auto simp: dest_fits_def)
  have t: "temp_tran opt d = Some (temp_name_of d opt)"
    "snprintf MAXPATHLEN (m_tran_root d @ [SLASH] @ m_tran_name d) = Some (final_name_of d)"
    "snprintf MAXPATHLEN (m_file_root d @ [SLASH] @ m_tran_name d @ ''.'' @ print_int (m_pid opt)) \<noteq> None"
    "snprintf MAXPATHLEN (m_file_root d @ [SLASH] @ m_tran_name d) \<noteq> None"
    using assms(5) by (auto simp: temp_tran_def temp_name_of_def final_name_of_def snprintf_def dest_fits_def)
  define s3 where "s3 = s2\<lparr>lm_hist := lm_hist s2 @ [Did (Create (temp_name_of d opt)) None]\<rparr>"
  have "s3 = s1\<lparr>lm_hist := lm_hist s3\<rparr>" using lm_dest_new_trans(1) [OF s2] unfolding s3_def
    by (metis lmerge.surjective lmerge.update_convs(1))
  with h1 have "lm_holds s3 (map (\<lambda>p. entries_of (ls p)) paths)" by (metis (no_types, lifting) lm_holds_def lmerge.select_convs(2,3) lmerge.surjective lmerge.update_convs(1))
  with lm_loop_holds [OF this assms(2), of os 0 d] assms(1) obtain s4 where l: "lm_loop opt d os 0 s3 = Ret s4"
    by (auto simp: writes_work_def)
  have "lm_finish opt d os s4 = Ret (s4\<lparr>lm_hist := lm_hist s4 @ [Did (Rename (temp_name_of d opt) (final_name_of d)) None]\<rparr>)"
    using f t by (simp add: lm_finish_def lm_rename_def lm_call_works [OF assms(1)] Let_def snprintf_def)
  then show ?thesis using f o s2 t l by (simp add: lmerge_main_def lm_call_works [OF assms(1)] s3_def)
qed

lemma merge_result:
  assumes "\<forall>h c. os_err os h c = None" "plain_merge opt" "\<forall>p \<in> set paths. tran_text os p (ls p)"
    "\<forall>p \<in> set paths. \<exists>r. get_root rp radpath p = Ret (Some r)" "dest_fits rp radpath cwd dest (m_pid opt) d"
  shows "\<exists>s' k out. lmerge_main opt os rp radpath cwd paths dest h = Ret s' \<and>
    lm_hist s' = k @ [Did (Create (temp_name_of d opt)) None] @ output_events (temp_name_of d opt) out @
      [Did (Rename (temp_name_of d opt) (final_name_of d)) None] \<and>
    in_path_order out \<and> map_of out = first_of (map (\<lambda>p. entries_of (ls p)) paths)"
proof -
  obtain s' where s: "lmerge_main opt os rp radpath cwd paths dest h = Ret s'" using merge_returns [OF assms] by blast
  have "writes_work os" using assms(1) by (simp add: writes_work_def)
  from merge_main [OF s assms(2) this assms(3)] obtain d' k out where
    m: "lm_hist s' = k @ [Did (Create (temp_name_of d' opt)) None] @ output_events (temp_name_of d' opt) out @
      [Did (Rename (temp_name_of d' opt) (final_name_of d')) None]" "in_path_order out"
    "map_of out = first_of (map (\<lambda>p. entries_of (ls p)) paths)"
    "get_root rp radpath (dest_path cwd dest) = Ret (Some (m_file_root d', m_tran_root d', m_tran_name d'))" by blast
  from m(4) assms(5) have "d' = d" by (simp add: dest_fits_def)
  with s m show ?thesis by blast
qed

end
