(* ===== verification/Lcksum.thy ===== *)
theory Lcksum
  imports Lmerge
begin

text \<open>
  \<open>lcksum.c\<close>: checks the sizes and checksums of a transcript against the files on the server, or corrects them. The
  model starts with the options read; text files are read without an error once they are open, a file
  can be rewound, and progress output is left out.
\<close>

section \<open>AppleSingle files\<close>

definition AS_HEADERLEN :: nat where
  "AS_HEADERLEN = 26"

text \<open>Magic number, version, filler and the number of entries, as they lie in memory.\<close>

definition as_header :: "byte list" where
  "as_header = [0, 5, 22, 0, 0, 2, 0, 0] @ replicate 16 0 @ [0, 3]"

record as_entry =
  ae_id :: "32 word"
  ae_offset :: "32 word"
  ae_length :: "32 word"

definition ntohl :: "byte list \<Rightarrow> 32 word" where
  "ntohl bs = foldl (\<lambda>w b. 256 * w + ucast b) 0 bs"

definition as_entry_netswap :: "byte list \<Rightarrow> as_entry" where
  "as_entry_netswap bs =
     \<lparr>ae_id = ntohl (take 4 bs), ae_offset = ntohl (take 4 (drop 4 bs)), ae_length = ntohl (take 4 (drop 8 bs))\<rparr>"

text \<open>One call of \<open>read\<close>; it gives no more than one of the pieces that the file comes in.\<close>

fun read_piece :: "nat \<Rightarrow> read_result list \<Rightarrow> (byte list \<times> read_result list) option" where
  "read_piece n [] = Some ([], [])"
| "read_piece n (ReadError # rs) = None"
| "read_piece n (Bytes bs # rs) = Some (take n bs, if length bs \<le> n then rs else Bytes (drop n bs) # rs)"

text \<open>The sums of offsets and lengths are 32 bits wide.\<close>

definition ckapplefile :: "read_result list \<Rightarrow> int" where
  "ckapplefile afd =
     (case read_piece AS_HEADERLEN afd of
        None \<Rightarrow> -1
      | Some (header, afd) \<Rightarrow>
          if header \<noteq> as_header then -1
          else (case read_piece 36 afd of
                  None \<Rightarrow> -1
                | Some (ents, afd) \<Rightarrow>
                    let fie = as_entry_netswap (take 12 ents); rfe = as_entry_netswap (take 12 (drop 12 ents));
                        dfe = as_entry_netswap (drop 24 ents) in
                    if length ents \<noteq> 36 then -1
                    else if ae_id fie \<noteq> 9 \<or> ae_id rfe \<noteq> 2 \<or> ae_id dfe \<noteq> 1 then -1
                    else if ae_offset fie \<noteq> 62 then -1
                    else if ae_offset rfe \<noteq> ae_offset fie + ae_length fie then -1
                    else if ae_offset dfe \<noteq> ae_offset rfe + ae_length rfe then -1
                    else 62 + uint (ae_length fie + ae_length rfe + ae_length dfe)))"

section \<open>State\<close>

record 'c lk_options =
  l_case :: bool
  l_update :: bool
  l_all :: bool
  l_apple :: bool
  l_prefix :: "string option"
  l_pid :: int
  l_md :: "'c digest"

text \<open>\<open>lk_count\<close> is \<open>ucount\<close>, \<open>lk_wrong\<close> is \<open>exitval\<close>.\<close>

record lk =
  lk_hist :: history
  lk_buf :: string
  lk_prepath :: string
  lk_count :: nat
  lk_wrong :: bool

definition lk_call :: "os \<Rightarrow> call \<Rightarrow> lk \<Rightarrow> lk outcome" where
  "lk_call os c s = (case answer os c (lk_hist s) of (Some e, h) \<Rightarrow> Exit 2 | (None, h) \<Rightarrow> Ret (s\<lparr>lk_hist := h\<rparr>))"

text \<open>
  At \<open>badline\<close> the transcript is closed. With \<open>-a\<close> the loop goes on and reads from the closed stream.
\<close>

definition badline :: "'c lk_options \<Rightarrow> 'a outcome" where
  "badline opt = (if l_all opt then UB else Exit 2)"

text \<open>Nobody looks whether the new transcript could be written.\<close>

definition lk_put :: "'c lk_options \<Rightarrow> os \<Rightarrow> string \<Rightarrow> string \<Rightarrow> lk \<Rightarrow> lk" where
  "lk_put opt os upath text s = (if l_update opt then s\<lparr>lk_hist := snd (answer os (Write upath text) (lk_hist s))\<rparr> else s)"

definition lk_note :: "'c lk_options \<Rightarrow> bool \<Rightarrow> lk \<Rightarrow> lk" where
  "lk_note opt wrong s =
     (if \<not> wrong then s else if l_update opt then s\<lparr>lk_count := Suc (lk_count s)\<rparr> else s\<lparr>lk_wrong := True\<rparr>)"

section \<open>A line\<close>

text \<open>The new line of a file. Only a file that had no checksum keeps its time.\<close>

definition lk_format :: "string list \<Rightarrow> stat \<Rightarrow> string \<Rightarrow> string" where
  "lk_format av st ck =
     av ! 0 @ [SP] @ pad_right 37 (av ! 1) @ [SP] @ pad_left 4 (av ! 2) @ [SP] @ pad_left 5 (av ! 3) @ [SP] @
     pad_left 5 (av ! 4) @ [SP] @
     pad_left 9 (if strcmp (av ! 7) ''-'' \<noteq> 0 then print_int (st_mtime st) else av ! 5) @ [SP] @
     pad_left 7 (print_int (st_size st)) @ [SP] @ ck @ [NL]"

definition lk_file ::
  "'c lk_options \<Rightarrow> os \<Rightarrow> string \<Rightarrow> string \<Rightarrow> string \<Rightarrow> string list \<Rightarrow> string \<Rightarrow> lk \<Rightarrow> lk outcome" where
  "lk_file opt os upath dir line av d s =
     (if length av \<noteq> 8 then badline opt
      else (case snprintf MAXPATHLEN (dir @ [SLASH] @ d) of
        None \<Rightarrow> badline opt
      | Some path \<Rightarrow>
     (case answer os (Open path) (lk_hist s) of
        (Some e, h) \<Rightarrow> badline opt
      | (None, h) \<Rightarrow>
     (case answer os (Fstat path) h of
        (Some e, h) \<Rightarrow> badline opt
      | (None, h) \<Rightarrow>
     (case do_fcksum (l_md opt) (os_bytes os h path) of
        (_, None) \<Rightarrow> badline opt
      | (sz, Some ck) \<Rightarrow>
          let st = os_stat os h path;
              badsize = (sz \<noteq> strtol 10 (av ! 6)); badsum = (strcmp ck (av ! 7) \<noteq> 0);
              s = lk_note opt badsum (lk_note opt badsize (s\<lparr>lk_hist := h\<rparr>)) in
          if char_at (av ! 0) 0 = CHR ''a'' \<and> l_apple opt \<and> ckapplefile (os_bytes os h path) \<noteq> st_size st
          then badline opt
          else obind (lk_call os (Close path) s) (\<lambda>s.
            Ret (lk_put opt os upath (if badsize \<or> badsum then lk_format av st ck else line) s)))))))"

definition lk_words ::
  "'c lk_options \<Rightarrow> os \<Rightarrow> string \<Rightarrow> string \<Rightarrow> string \<Rightarrow> string list \<Rightarrow> lk \<Rightarrow> lk outcome" where
  "lk_words opt os upath dir line av s =
     (if av = [] \<or> char_at (av ! 0) 0 = CHR ''#'' then Ret (lk_put opt os upath line s)
      else if length av = 1 then badline opt
      else let rm = (char_at (av ! 0) 0 = CHR ''-''); av = (if rm then tl av else av) in
        if length av = 1 then badline opt
        else obind (decode (av ! 1) (lk_buf s)) (\<lambda>(d, buf).
          let s = s\<lparr>lk_buf := buf\<rparr> in
          case d of
            None \<Rightarrow> badline opt
          | Some d \<Rightarrow>
              if MAXPATHLEN \<le> length d then badline opt
              else if (case l_prefix opt of None \<Rightarrow> False | Some p \<Rightarrow> strncmp d p (length p) \<noteq> 0)
              then Ret (lk_put opt os upath line s)
              else if lk_prepath s \<noteq> [] \<and> pathcasecmp d (lk_prepath s) (l_case opt) \<le> 0 then Exit 2
              else let s = s\<lparr>lk_prepath := d\<rparr> in
                if char_at (av ! 0) 0 \<notin> {CHR ''f'', CHR ''a''} \<or> rm then Ret (lk_put opt os upath line s)
                else lk_file opt os upath dir line av d s))"

section \<open>A transcript\<close>

function lk_lines :: "'c lk_options \<Rightarrow> os \<Rightarrow> string \<Rightarrow> string \<Rightarrow> string \<Rightarrow> lk \<Rightarrow> lk outcome" where
  "lk_lines opt os upath dir inp s =
     (case fgets MAXPATHLEN inp of
        None \<Rightarrow> Ret s
      | Some (b, rest) \<Rightarrow>
          let line = cstr b in
          if line = [] then UB
          else if last line \<noteq> NL then badline opt
          else obind (argcargv line) (\<lambda>av. obind (lk_words opt os upath dir line av s) (lk_lines opt os upath dir rest)))"
  by pat_completeness auto
termination
  by (relation "measure (\<lambda>(_, _, _, _, inp, _). length inp)") (auto dest!: fgets_shrinks simp: MAXPATHLEN_def)

declare lk_lines.simps [simp del]

definition S_ISREG :: "32 word \<Rightarrow> bool" where
  "S_ISREG m \<longleftrightarrow> and m S_IFMT = S_IFREG"

text \<open>The new transcript has a temporary name, which is cut off when it is too long.\<close>

definition lk_upath :: "'c lk_options \<Rightarrow> string \<Rightarrow> string" where
  "lk_upath opt tpath = take (MAXPATHLEN - 1) (tpath @ ''.'' @ print_int (l_pid opt))"

definition lk_create :: "'c lk_options \<Rightarrow> os \<Rightarrow> string \<Rightarrow> lk \<Rightarrow> lk outcome" where
  "lk_create opt os tpath s =
     (if l_update opt then obind (lk_call os (Stat tpath) s) (lk_call os (Create (lk_upath opt tpath))) else Ret s)"

definition lk_finish :: "'c lk_options \<Rightarrow> os \<Rightarrow> string \<Rightarrow> lk \<Rightarrow> (int \<times> lk) outcome" where
  "lk_finish opt os tpath s =
     obind (lk_call os (Close tpath) s) (\<lambda>s.
       if \<not> l_update opt then Ret (if lk_wrong s then 1 else 0, s)
       else if 0 < lk_count s
       then obind (lk_call os (Rename (lk_upath opt tpath) tpath) s) (\<lambda>s. Ret (1, s))
       else obind (lk_call os (Unlink (lk_upath opt tpath)) s) (\<lambda>s. Ret (0, s)))"

definition do_lcksum ::
  "'c lk_options \<Rightarrow> os \<Rightarrow> (string \<Rightarrow> string option) \<Rightarrow> string \<Rightarrow> string \<Rightarrow> string \<Rightarrow> lk \<Rightarrow> (int \<times> lk) outcome" where
  "do_lcksum opt os realpath radpath cwd tpath s =
     (case snprintf MAXPATHLEN (if char_at tpath 0 = SLASH then tpath else cwd @ [SLASH] @ tpath) of
        None \<Rightarrow> Exit 2
      | Some path \<Rightarrow>
          obind (get_root realpath radpath path) (\<lambda>r. case r of
            None \<Rightarrow> Exit 2
          | Some (file_root, tran_root, tran_name) \<Rightarrow>
              obind (lk_call os (Stat tpath) s) (\<lambda>s.
              if \<not> S_ISREG (st_mode (os_stat os (lk_hist s) tpath)) then Exit 2
              else obind (lk_call os (Access tpath) s) (\<lambda>s.
              obind (lk_call os (Fopen tpath) s) (\<lambda>s.
              let inp = os_text os (lk_hist s) tpath in
              obind (lk_create opt os tpath s) (\<lambda>s.
              obind (lk_lines opt os (lk_upath opt tpath) (file_root @ [SLASH] @ tran_name) inp
                       (s\<lparr>lk_prepath := [], lk_count := 0, lk_wrong := False\<rparr>)) (lk_finish opt os tpath)))))))"

text \<open>The result is the exit status.\<close>

fun lcksum_main ::
  "'c lk_options \<Rightarrow> os \<Rightarrow> (string \<Rightarrow> string option) \<Rightarrow> string \<Rightarrow> string \<Rightarrow> string list \<Rightarrow> int \<Rightarrow> lk \<Rightarrow> (int \<times> lk) outcome" where
  "lcksum_main opt os realpath radpath cwd [] err s = Ret (err, s)"
| "lcksum_main opt os realpath radpath cwd (tpath # tpaths) err s =
     obind (do_lcksum opt os realpath radpath cwd tpath s) (\<lambda>(n, s).
       if n = 2 then Exit 2
       else if n = 1 then (if l_update opt then lcksum_main opt os realpath radpath cwd tpaths 1 s else Ret (1, s))
       else lcksum_main opt os realpath radpath cwd tpaths err s)"

end
