(* ===== verification/LcksumLines.thy ===== *)
theory LcksumLines
  imports Lcksum Lsort TranscriptText Download
begin

text \<open>
  What \<open>lcksum\<close> finds out about the lines of a transcript, and what it writes: a transcript that passes with \<open>-n\<close> has the
  sizes and checksums of the files, and one that is corrected differs in the lines of wrong files only.
\<close>

section \<open>Lines of files\<close>

text \<open>The words of a line whose file is looked at: it is within the prefix, no removal, and of type \<open>f\<close> or \<open>a\<close>.\<close>

definition file_words :: "string option \<Rightarrow> string \<Rightarrow> string list option" where
  "file_words pre line =
     (let av = words_of_line line in
      case line_path line of
        None \<Rightarrow> None
      | Some d \<Rightarrow>
          if has_sign av \<or> (\<exists>p. pre = Some p \<and> strncmp d p (length p) \<noteq> 0) \<or> char_at (av ! 0) 0 \<notin> {CHR ''f'', CHR ''a''}
          then None else Some av)"

definition object_path :: "string \<Rightarrow> string list \<Rightarrow> string" where
  "object_path dir av = dir @ [SLASH] @ unescaped (av ! 1)"

definition checkable :: "string \<Rightarrow> bool" where
  "checkable line \<longleftrightarrow> sortable line \<and> (line_path line \<noteq> None \<longrightarrow> char_at (words_of_line line ! 0) 0 \<noteq> CHR ''+'')"

text \<open>The size and checksum of a file against the words of its line.\<close>

definition file_right :: "'c digest \<Rightarrow> read_result list \<Rightarrow> string list \<Rightarrow> bool" where
  "file_right md fd av \<longleftrightarrow> do_fcksum md fd = (strtol 10 (av ! 6), Some (av ! 7))"

lemma lk_put_simps [simp]:
  "lk_buf (lk_put opt os upath text s) = lk_buf s" "lk_prepath (lk_put opt os upath text s) = lk_prepath s"
  "lk_count (lk_put opt os upath text s) = lk_count s" "lk_wrong (lk_put opt os upath text s) = lk_wrong s"
  by (simp_all add: lk_put_def)

lemma lk_note_simps [simp]:
  "lk_buf (lk_note opt b s) = lk_buf s" "lk_hist (lk_note opt b s) = lk_hist s" "lk_prepath (lk_note opt b s) = lk_prepath s"
  by (simp_all add: lk_note_def)

lemma badline_not_Ret [simp]: "badline opt \<noteq> Ret x"
  by (simp add: badline_def)

lemma lk_call_Ret: "lk_call os c s = Ret s' \<longleftrightarrow> os_err os (lk_hist s) c = None \<and> s' = s\<lparr>lk_hist := lk_hist s @ [Did c None]\<rparr>"
  by (auto simp: lk_call_def answer_split split: option.splits)

text \<open>What is written instead of a line when the file has the contents \<open>fd\<close> and the status \<open>st\<close>.\<close>

definition corrected :: "'c digest \<Rightarrow> read_result list \<Rightarrow> stat \<Rightarrow> string list \<Rightarrow> string \<Rightarrow> string" where
  "corrected md fd st av line = (if file_right md fd av then line else lk_format av st (the (snd (do_fcksum md fd))))"

lemma do_fcksum_c_string: "do_fcksum md fd = (sz, Some ck) \<Longrightarrow> c_string ck"
  by (auto simp: do_fcksum_def c_string_base64 split: option.splits)

text \<open>A line of a file: it is opened, and its contents decide.\<close>

lemma lk_file_Ret:
  assumes "lk_file opt os upath dir line av d s = Ret s'" "c_string (av ! 7)"
  obtains h where "h = lk_hist s @ [Did (Open (dir @ [SLASH] @ d)) None, Did (Fstat (dir @ [SLASH] @ d)) None]"
    "length av = 8" "snd (do_fcksum (l_md opt) (os_bytes os h (dir @ [SLASH] @ d))) \<noteq> None"
    "s' = lk_put opt os upath (corrected (l_md opt) (os_bytes os h (dir @ [SLASH] @ d)) (os_stat os h (dir @ [SLASH] @ d)) av line)
       ((lk_note opt (snd (do_fcksum (l_md opt) (os_bytes os h (dir @ [SLASH] @ d))) \<noteq> Some (av ! 7))
         (lk_note opt (fst (do_fcksum (l_md opt) (os_bytes os h (dir @ [SLASH] @ d))) \<noteq> strtol 10 (av ! 6)) s))
         \<lparr>lk_hist := h @ [Did (Close (dir @ [SLASH] @ d)) None]\<rparr>)"
proof -
  let ?p = "dir @ [SLASH] @ d"
  let ?h = "lk_hist s @ [Did (Open ?p) None, Did (Fstat ?p) None]"
  note r = assms(1) [unfolded lk_file_def]
  from r have l: "length av = 8" by (auto split: if_split_asm)
  from r l have sn: "snprintf MAXPATHLEN ?p = Some ?p" by (auto simp: snprintf_def split: if_split_asm)
  note r2 = r [unfolded sn option.case]
  from r2 l have o: "os_err os (lk_hist s) (Open ?p) = None"
    by (cases "os_err os (lk_hist s) (Open ?p)") (simp_all add: answer_split)
  from r2 l o have f: "os_err os (lk_hist s @ [Did (Open ?p) None]) (Fstat ?p) = None"
    by (cases "os_err os (lk_hist s @ [Did (Open ?p) None]) (Fstat ?p)") (simp_all add: answer_split)
  obtain sz b where k: "do_fcksum (l_md opt) (os_bytes os ?h ?p) = (sz, b)" by force
  from r2 l o f k obtain ck where b: "b = Some ck" by (cases b) (simp_all add: answer_split)
  have st: "strcmp ck (av ! 7) \<noteq> 0 \<longleftrightarrow> b \<noteq> Some (av ! 7)"
    using do_fcksum_c_string [OF k [unfolded b]] b assms(2) by (auto simp: strcmp_0)
  have cr: "corrected (l_md opt) (os_bytes os ?h ?p) (os_stat os ?h ?p) av line =
      (if sz \<noteq> strtol 10 (av ! 6) \<or> strcmp ck (av ! 7) \<noteq> 0 then lk_format av (os_stat os ?h ?p) ck else line)"
    using st k b by (auto simp: corrected_def file_right_def)
  have "s' = lk_put opt os upath (corrected (l_md opt) (os_bytes os ?h ?p) (os_stat os ?h ?p) av line)
      ((lk_note opt (b \<noteq> Some (av ! 7)) (lk_note opt (sz \<noteq> strtol 10 (av ! 6)) (s\<lparr>lk_hist := ?h\<rparr>)))
         \<lparr>lk_hist := ?h @ [Did (Close ?p) None]\<rparr>)"
    using r2 l o f k b unfolding cr st [symmetric]
    by (auto simp: answer_split Let_def obind_Ret_iff lk_call_Ret split: if_split_asm)
  also have "(lk_note opt (b \<noteq> Some (av ! 7)) (lk_note opt (sz \<noteq> strtol 10 (av ! 6)) (s\<lparr>lk_hist := ?h\<rparr>)))
         \<lparr>lk_hist := ?h @ [Did (Close ?p) None]\<rparr> =
      (lk_note opt (b \<noteq> Some (av ! 7)) (lk_note opt (sz \<noteq> strtol 10 (av ! 6)) s))\<lparr>lk_hist := ?h @ [Did (Close ?p) None]\<rparr>"
    by (auto simp: lk_note_def)
  finally show thesis using that [of ?h] l k b by simp
qed

text \<open>A line that can be checked is either copied, or its file is looked at.\<close>

lemma lk_words_cases:
  assumes "lk_words opt os upath dir line (words_of_line line) s = Ret s'" "checkable line" "length (lk_buf s) = MAXPATHLEN"
  obtains (copied) buf pp where "file_words (l_prefix opt) line = None" "length buf = MAXPATHLEN"
      "s' = lk_put opt os upath line (s\<lparr>lk_buf := buf, lk_prepath := pp\<rparr>)"
    | (checked) av buf where "file_words (l_prefix opt) line = Some av" "length buf = MAXPATHLEN"
      "lk_file opt os upath dir line av (unescaped (av ! 1)) (s\<lparr>lk_buf := buf, lk_prepath := unescaped (av ! 1)\<rparr>) = Ret s'"
proof -
  let ?w = "words_of_line line"
  show thesis
  proof (cases "line_path line")
    case None
    then have w: "?w = [] \<or> char_at (?w ! 0) 0 = CHR ''#''" by (auto simp: line_path_def Let_def split: if_splits)
    with assms(1) have "s' = lk_put opt os upath line s" by (simp add: lk_words_def)
    with copied [of "lk_buf s" "lk_prepath s"] None assms(3) show thesis by (simp add: file_words_def)
  next
    case (Some p)
    define av where "av = (if has_sign ?w then tl ?w else ?w)"
    from Some have w: "?w \<noteq> []" "char_at (?w ! 0) 0 \<noteq> CHR ''#''" "p = unescaped (av ! 1)"
      by (auto simp: line_path_def Let_def av_def split: if_splits)
    from assms(2) Some have g: "2 \<le> length av" "well_escaped (av ! 1)" "length (av ! 1) < MAXPATHLEN" "char_at (?w ! 0) 0 \<noteq> CHR ''+''"
      by (auto simp: sortable_def checkable_def Let_def av_def)
    from g(4) have hs: "has_sign ?w \<longleftrightarrow> char_at (?w ! 0) 0 = CHR ''-''" by (simp add: has_sign_def)
    have "av ! 1 \<in> set av" using g(1) by simp
    then have "av ! 1 \<in> set ?w" unfolding av_def by (auto split: if_splits dest: list.set_sel(2) [OF w(1)])
    then have "c_string (av ! 1)" by (rule argcargv_words [OF words_of_line_Ret])
    with g length_unescaped_le [of "av ! 1"] assms(3) decode_well_escaped [of "av ! 1" "lk_buf s"] obtain buf
      where d: "decode (av ! 1) (lk_buf s) = Ret (Some p, buf)" "length buf = MAXPATHLEN" using w(3) by auto
    have short: "\<not> MAXPATHLEN \<le> length p" using g(3) length_unescaped_le [of "av ! 1"] w(3) by simp
    have l1: "length ?w \<noteq> 1" "length av \<noteq> 1" using g(1) w(1) by (auto simp: av_def split: if_splits)
    let ?out = "\<exists>p'. l_prefix opt = Some p' \<and> strncmp p p' (length p') \<noteq> 0"
    have pre: "(case l_prefix opt of None \<Rightarrow> False | Some q \<Rightarrow> strncmp p q (length q) \<noteq> 0) = ?out"
      by (cases "l_prefix opt") auto
    note r = assms(1) [unfolded lk_words_def Let_def, folded hs, folded av_def]
    have r1: "(if ?out then Ret (lk_put opt os upath line (s\<lparr>lk_buf := buf\<rparr>))
       else if lk_prepath s \<noteq> [] \<and> pathcasecmp p (lk_prepath s) (l_case opt) \<le> 0 then Exit 2
       else if char_at (av ! 0) 0 \<notin> {CHR ''f'', CHR ''a''} \<or> has_sign ?w
         then Ret (lk_put opt os upath line (s\<lparr>lk_buf := buf, lk_prepath := p\<rparr>))
       else lk_file opt os upath dir line av p (s\<lparr>lk_buf := buf, lk_prepath := p\<rparr>)) = Ret s'"
      using r w(1,2) l1 short unfolding d(1) by (simp add: pre split del: if_split cong: if_cong)
    have fw: "file_words (l_prefix opt) line = (if has_sign ?w \<or> ?out \<or> char_at (?w ! 0) 0 \<notin> {CHR ''f'', CHR ''a''} then None else Some ?w)"
      by (simp add: file_words_def Some Let_def)
    consider "?out" | "\<not> ?out" "char_at (av ! 0) 0 \<notin> {CHR ''f'', CHR ''a''} \<or> has_sign ?w"
      | "\<not> ?out" "char_at (av ! 0) 0 \<in> {CHR ''f'', CHR ''a''}" "\<not> has_sign ?w" by blast
    then show thesis
    proof cases
      case 1
      with r1 fw d(2) copied [of buf "lk_prepath s"] show thesis by auto
    next
      case 2
      with r1 have "s' = lk_put opt os upath line (s\<lparr>lk_buf := buf, lk_prepath := p\<rparr>)" by (simp split: if_split_asm)
      with 2 fw d(2) copied [of buf p] show thesis by (auto simp: av_def split: if_splits)
    next
      case 3
      with r1 have "lk_file opt os upath dir line av p (s\<lparr>lk_buf := buf, lk_prepath := p\<rparr>) = Ret s'" by (simp split: if_split_asm)
      with 3 fw d(2) w(3) checked [of ?w buf] show thesis by (simp add: av_def)
    qed
  qed
qed

lemma checkable_fgets:
  assumes "checkable line"
  shows "fgets MAXPATHLEN (line @ r) = Some (line, r)" "cstr line = line" "line \<noteq> []" "last line = NL"
proof -
  from assms obtain l where l: "line = l @ [NL]" "NL \<notin> set l" "c_string l" "length l < 4095"
    by (auto simp: checkable_def sortable_def)
  have "NL \<noteq> NUL" by code_simp
  with l fgets_line [of l MAXPATHLEN r] show "fgets MAXPATHLEN (line @ r) = Some (line, r)" "cstr line = line" "line \<noteq> []" "last line = NL"
    by (auto simp: MAXPATHLEN_def c_string_def intro: cstr_id)
qed

lemma lk_lines_Cons:
  "checkable line \<Longrightarrow> lk_lines opt os upath dir (concat (line # ls)) s =
     obind (lk_words opt os upath dir line (words_of_line line) s) (lk_lines opt os upath dir (concat ls))"
  using checkable_fgets(1) [of line "concat ls"] checkable_fgets(2-4) [of line]
  by (simp add: lk_lines.simps [of opt os upath dir "line @ concat ls"] Let_def words_of_line_Ret)

lemma file_words_c_string: "file_words pre line = Some av \<Longrightarrow> i < length av \<Longrightarrow> c_string (av ! i)"
  using argcargv_words [OF words_of_line_Ret [of line], of "av ! i"]
  by (auto simp: file_words_def Let_def split: option.splits if_splits)

section \<open>A transcript that passes\<close>

lemma lk_line_verified:
  assumes "lk_words opt os upath dir line (words_of_line line) s = Ret s'" "checkable line" "length (lk_buf s) = MAXPATHLEN"
    "\<not> l_update opt"
  shows "length (lk_buf s') = MAXPATHLEN" "lk_wrong s \<Longrightarrow> lk_wrong s'"
    "\<not> lk_wrong s' \<Longrightarrow> file_words (l_prefix opt) line = Some av \<Longrightarrow>
       length av = 8 \<and> (\<exists>h. file_right (l_md opt) (os_bytes os h (object_path dir av)) av)"
proof -
  have "length (lk_buf s') = MAXPATHLEN \<and> (lk_wrong s \<longrightarrow> lk_wrong s') \<and>
     (\<not> lk_wrong s' \<longrightarrow> file_words (l_prefix opt) line = Some av \<longrightarrow>
       length av = 8 \<and> (\<exists>h. file_right (l_md opt) (os_bytes os h (object_path dir av)) av))" (is ?all)
    using assms(1,2,3)
  proof (cases rule: lk_words_cases)
    case (copied buf pp)
    then show ?all by simp
  next
    case (checked w buf)
    let ?p = "object_path dir w"
    have l: "length w = 8" using checked(3) by (auto simp: lk_file_def split: if_split_asm)
    have c: "c_string (w ! 7)" using file_words_c_string [OF checked(1)] l by simp
    from checked(3) c obtain h where h: "s' = lk_put opt os upath (corrected (l_md opt) (os_bytes os h ?p) (os_stat os h ?p) w line)
       ((lk_note opt (snd (do_fcksum (l_md opt) (os_bytes os h ?p)) \<noteq> Some (w ! 7))
         (lk_note opt (fst (do_fcksum (l_md opt) (os_bytes os h ?p)) \<noteq> strtol 10 (w ! 6))
           (s\<lparr>lk_buf := buf, lk_prepath := unescaped (w ! 1)\<rparr>)))
         \<lparr>lk_hist := h @ [Did (Close ?p) None]\<rparr>)"
      unfolding object_path_def by (rule lk_file_Ret) blast
    have "\<exists>h. file_right (l_md opt) (os_bytes os h ?p) w" if "\<not> lk_wrong s'"
    proof -
      from that assms(4) have "snd (do_fcksum (l_md opt) (os_bytes os h ?p)) = Some (w ! 7)"
        "fst (do_fcksum (l_md opt) (os_bytes os h ?p)) = strtol 10 (w ! 6)"
        by (auto simp: h lk_note_def split: if_split_asm)
      then have "file_right (l_md opt) (os_bytes os h ?p) w" unfolding file_right_def by (metis prod.collapse)
      then show ?thesis by blast
    qed
    moreover have "lk_wrong s \<longrightarrow> lk_wrong s'" by (simp add: h lk_note_def)
    moreover have "length (lk_buf s') = MAXPATHLEN" using checked(2) by (simp add: h)
    ultimately show ?all using l checked(1) by auto
  qed
  then show "length (lk_buf s') = MAXPATHLEN" "lk_wrong s \<Longrightarrow> lk_wrong s'"
    "\<not> lk_wrong s' \<Longrightarrow> file_words (l_prefix opt) line = Some av \<Longrightarrow>
       length av = 8 \<and> (\<exists>h. file_right (l_md opt) (os_bytes os h (object_path dir av)) av)" by blast+
qed

lemma lk_lines_verified:
  assumes "lk_lines opt os upath dir (concat ls) s = Ret s'" "\<forall>l \<in> set ls. checkable l" "length (lk_buf s) = MAXPATHLEN"
    "\<not> l_update opt" "\<not> lk_wrong s'"
  shows "\<not> lk_wrong s \<and> (\<forall>l \<in> set ls. \<forall>av. file_words (l_prefix opt) l = Some av \<longrightarrow>
    length av = 8 \<and> (\<exists>h. file_right (l_md opt) (os_bytes os h (object_path dir av)) av))"
  using assms
proof (induction ls arbitrary: s)
  case Nil
  then show ?case by (simp add: lk_lines.simps [of opt os upath dir "[]"] fgets_def)
next
  case (Cons line ls)
  have c: "checkable line" using Cons.prems(2) by simp
  from Cons.prems(1) obtain s1 where s1: "lk_words opt os upath dir line (words_of_line line) s = Ret s1"
    "lk_lines opt os upath dir (concat ls) s1 = Ret s'"
    unfolding lk_lines_Cons [OF c] by (auto simp: obind_Ret_iff)
  note v = lk_line_verified [OF s1(1) c Cons.prems(3,4)]
  from Cons.IH [OF s1(2) _ v(1) Cons.prems(4,5)] Cons.prems(2) v(2,3) show ?case by auto
qed

lemma do_lcksumE:
  assumes "do_lcksum opt os rp radpath cwd tpath s = Ret (n, s')"
  obtains fr tr name s1 s2 s3 where
    "get_root rp radpath (if char_at tpath 0 = SLASH then tpath else cwd @ [SLASH] @ tpath) = Ret (Some (fr, tr, name))"
    "\<exists>k. lk_hist s1 = lk_hist s @ k \<and> (\<forall>p d e. Did (Write p d) e \<notin> set k)" "lk_buf s1 = lk_buf s"
    "lk_create opt os tpath s1 = Ret s2"
    "lk_lines opt os (lk_upath opt tpath) (fr @ [SLASH] @ name) (os_text os (lk_hist s1) tpath)
       (s2\<lparr>lk_prepath := [], lk_count := 0, lk_wrong := False\<rparr>) = Ret s3"
    "lk_finish opt os tpath s3 = Ret (n, s')"
proof -
  note r = assms [unfolded do_lcksum_def]
  let ?p = "if char_at tpath 0 = SLASH then tpath else cwd @ [SLASH] @ tpath"
  from r have sn: "snprintf MAXPATHLEN ?p = Some ?p" unfolding snprintf_def by (auto split: if_split_asm)
  note r1 = r [unfolded sn option.case]
  from r1 obtain t where g: "get_root rp radpath ?p = Ret t" by (cases "get_root rp radpath ?p") simp_all
  from r1 [unfolded g obind.simps] obtain fr tr name where t: "t = Some (fr, tr, name)" by (cases t) auto
  note r2 = r1 [unfolded g obind.simps t option.case prod.case]
  from r2 obtain a b c where a: "lk_call os (Stat tpath) s = Ret a" "lk_call os (Access tpath) a = Ret b"
    "lk_call os (Fopen tpath) b = Ret c" and r3: "obind (lk_create opt os tpath c) (\<lambda>s.
       obind (lk_lines opt os (lk_upath opt tpath) (fr @ [SLASH] @ name) (os_text os (lk_hist c) tpath)
         (s\<lparr>lk_prepath := [], lk_count := 0, lk_wrong := False\<rparr>)) (lk_finish opt os tpath)) = Ret (n, s')"
    by (auto simp: obind_Ret_iff Let_def split: if_split_asm)
  from r3 obtain s2 s3 where "lk_create opt os tpath c = Ret s2"
    "lk_lines opt os (lk_upath opt tpath) (fr @ [SLASH] @ name) (os_text os (lk_hist c) tpath)
       (s2\<lparr>lk_prepath := [], lk_count := 0, lk_wrong := False\<rparr>) = Ret s3" "lk_finish opt os tpath s3 = Ret (n, s')"
    by (auto simp: obind_Ret_iff)
  moreover have "\<exists>k. lk_hist c = lk_hist s @ k \<and> (\<forall>p d e. Did (Write p d) e \<notin> set k)" "lk_buf c = lk_buf s"
    using a by (auto simp: lk_call_Ret)
  ultimately show thesis using that g t by blast
qed

lemma lcksum_passes:
  assumes "do_lcksum opt os rp radpath cwd tpath s = Ret (0, s')" "\<not> l_update opt" "length (lk_buf s) = MAXPATHLEN"
    "\<forall>h. os_text os h tpath = concat ls" "\<forall>l \<in> set ls. checkable l"
  shows "\<exists>fr tr name. get_root rp radpath (if char_at tpath 0 = SLASH then tpath else cwd @ [SLASH] @ tpath) = Ret (Some (fr, tr, name)) \<and>
    (\<forall>l \<in> set ls. \<forall>av. file_words (l_prefix opt) l = Some av \<longrightarrow>
      length av = 8 \<and> (\<exists>h. file_right (l_md opt) (os_bytes os h (object_path (fr @ [SLASH] @ name) av)) av))"
proof -
  from assms(1) obtain fr tr name s1 s2 s3 where
    g: "get_root rp radpath (if char_at tpath 0 = SLASH then tpath else cwd @ [SLASH] @ tpath) = Ret (Some (fr, tr, name))" and
    b: "lk_buf s1 = lk_buf s" and c: "lk_create opt os tpath s1 = Ret s2" and
    l: "lk_lines opt os (lk_upath opt tpath) (fr @ [SLASH] @ name) (os_text os (lk_hist s1) tpath)
       (s2\<lparr>lk_prepath := [], lk_count := 0, lk_wrong := False\<rparr>) = Ret s3" and
    f: "lk_finish opt os tpath s3 = Ret (0, s')" by (rule do_lcksumE) blast
  from c assms(2) b assms(3) have "length (lk_buf s2) = MAXPATHLEN" by (simp add: lk_create_def)
  moreover have "\<not> lk_wrong s3" using f assms(2) by (auto simp: lk_finish_def lk_call_Ret obind_Ret_iff split: if_split_asm)
  ultimately show ?thesis
    using lk_lines_verified [OF l [unfolded assms(4) [rule_format]] assms(5) _ assms(2)] g by simp
qed

section \<open>A transcript that is corrected\<close>

text \<open>The files have fixed contents \<open>B\<close> and status \<open>S\<close>.\<close>

definition line_wrong :: "'c lk_options \<Rightarrow> (string \<Rightarrow> read_result list) \<Rightarrow> string \<Rightarrow> string \<Rightarrow> bool" where
  "line_wrong opt B dir line \<longleftrightarrow>
     (\<exists>av. file_words (l_prefix opt) line = Some av \<and> \<not> file_right (l_md opt) (B (object_path dir av)) av)"

definition corrected_line ::
  "'c lk_options \<Rightarrow> (string \<Rightarrow> read_result list) \<Rightarrow> (string \<Rightarrow> stat) \<Rightarrow> string \<Rightarrow> string \<Rightarrow> string" where
  "corrected_line opt B S dir line =
     (case file_words (l_prefix opt) line of
        None \<Rightarrow> line
      | Some av \<Rightarrow> corrected (l_md opt) (B (object_path dir av)) (S (object_path dir av)) av line)"

definition put_works :: "os \<Rightarrow> bool" where
  "put_works os \<longleftrightarrow> (\<forall>h p d. os_err os h (Write p d) = None)"

lemma lk_put_hist: "put_works os \<Longrightarrow> l_update opt \<Longrightarrow>
    lk_put opt os upath text s = s\<lparr>lk_hist := lk_hist s @ [Did (Write upath text) None]\<rparr>"
  by (simp add: lk_put_def put_works_def answer_split)

lemma lk_line_updated:
  assumes "lk_words opt os upath dir line (words_of_line line) s = Ret s'" "checkable line" "length (lk_buf s) = MAXPATHLEN"
    "l_update opt" "put_works os" "\<forall>h p. os_bytes os h p = B p" "\<forall>h p. os_stat os h p = S p"
  shows "length (lk_buf s') = MAXPATHLEN \<and> (0 < lk_count s' \<longleftrightarrow> 0 < lk_count s \<or> line_wrong opt B dir line) \<and>
    (\<exists>k. lk_hist s' = lk_hist s @ k \<and> written upath k = corrected_line opt B S dir line)"
  using assms(1,2,3)
proof (cases rule: lk_words_cases)
  case (copied buf pp)
  then show ?thesis by (simp add: lk_put_hist [OF assms(5,4)] line_wrong_def corrected_line_def)
next
  case (checked w buf)
  let ?p = "object_path dir w"
  have l: "length w = 8" using checked(3) by (auto simp: lk_file_def split: if_split_asm)
  have c: "c_string (w ! 7)" using file_words_c_string [OF checked(1)] l by simp
  from checked(3) c obtain h where h: "h = lk_hist s @ [Did (Open ?p) None, Did (Fstat ?p) None]"
    "s' = lk_put opt os upath (corrected (l_md opt) (B ?p) (S ?p) w line)
       ((lk_note opt (snd (do_fcksum (l_md opt) (B ?p)) \<noteq> Some (w ! 7))
         (lk_note opt (fst (do_fcksum (l_md opt) (B ?p)) \<noteq> strtol 10 (w ! 6))
           (s\<lparr>lk_buf := buf, lk_prepath := unescaped (w ! 1)\<rparr>)))
         \<lparr>lk_hist := h @ [Did (Close ?p) None]\<rparr>)"
    unfolding object_path_def assms(6) [rule_format] assms(7) [rule_format]
    by (rule lk_file_Ret) (use assms(6,7) in \<open>auto simp: object_path_def\<close>)
  have "file_right (l_md opt) (B ?p) w \<longleftrightarrow> snd (do_fcksum (l_md opt) (B ?p)) = Some (w ! 7) \<and>
      fst (do_fcksum (l_md opt) (B ?p)) = strtol 10 (w ! 6)"
    unfolding file_right_def by (metis fst_conv prod.collapse snd_conv)
  then have "0 < lk_count s' \<longleftrightarrow> 0 < lk_count s \<or> line_wrong opt B dir line"
    using checked(1) assms(4) by (auto simp: h(2) lk_note_def line_wrong_def)
  moreover have "\<exists>k. lk_hist s' = lk_hist s @ k \<and> written upath k = corrected_line opt B S dir line"
    using checked(1) by (auto simp: h lk_put_hist [OF assms(5,4)] corrected_line_def)
  ultimately show ?thesis using checked(2) by (simp add: h(2))
qed

lemma lk_lines_updated:
  assumes "lk_lines opt os upath dir (concat ls) s = Ret s'" "\<forall>l \<in> set ls. checkable l" "length (lk_buf s) = MAXPATHLEN"
    "l_update opt" "put_works os" "\<forall>h p. os_bytes os h p = B p" "\<forall>h p. os_stat os h p = S p"
  shows "(0 < lk_count s' \<longleftrightarrow> 0 < lk_count s \<or> (\<exists>l \<in> set ls. line_wrong opt B dir l)) \<and>
    (\<exists>k. lk_hist s' = lk_hist s @ k \<and> written upath k = concat (map (corrected_line opt B S dir) ls))"
  using assms(1-3)
proof (induction ls arbitrary: s)
  case Nil
  then show ?case by (simp add: lk_lines.simps [of opt os upath dir "[]"] fgets_def)
next
  case (Cons line ls)
  have c: "checkable line" using Cons.prems(2) by simp
  from Cons.prems(1) obtain s1 where s1: "lk_words opt os upath dir line (words_of_line line) s = Ret s1"
    "lk_lines opt os upath dir (concat ls) s1 = Ret s'"
    unfolding lk_lines_Cons [OF c] by (auto simp: obind_Ret_iff)
  from lk_line_updated [OF s1(1) c Cons.prems(3) assms(4-7)] obtain k where k: "length (lk_buf s1) = MAXPATHLEN"
    "0 < lk_count s1 \<longleftrightarrow> 0 < lk_count s \<or> line_wrong opt B dir line" "lk_hist s1 = lk_hist s @ k"
    "written upath k = corrected_line opt B S dir line" by auto
  from Cons.IH [OF s1(2) _ k(1)] Cons.prems(2) k(2-4) show ?case by (auto simp: written_append)
qed

lemma lcksum_corrects:
  assumes "do_lcksum opt os rp radpath cwd tpath s = Ret (n, s')" "l_update opt" "length (lk_buf s) = MAXPATHLEN"
    "\<forall>h. os_text os h tpath = concat ls" "\<forall>l \<in> set ls. checkable l" "put_works os"
    "\<forall>h p. os_bytes os h p = B p" "\<forall>h p. os_stat os h p = S p"
  shows "\<exists>fr tr name k. get_root rp radpath (if char_at tpath 0 = SLASH then tpath else cwd @ [SLASH] @ tpath) = Ret (Some (fr, tr, name)) \<and>
    (n = 1 \<longleftrightarrow> (\<exists>l \<in> set ls. line_wrong opt B (fr @ [SLASH] @ name) l)) \<and>
    lk_hist s' = lk_hist s @ k @ [Did (if n = 1 then Rename (lk_upath opt tpath) tpath else Unlink (lk_upath opt tpath)) None] \<and>
    written (lk_upath opt tpath) k = concat (map (corrected_line opt B S (fr @ [SLASH] @ name)) ls)"
proof -
  from assms(1) obtain fr tr name s1 s2 s3 where
    g: "get_root rp radpath (if char_at tpath 0 = SLASH then tpath else cwd @ [SLASH] @ tpath) = Ret (Some (fr, tr, name))" and
    w: "\<exists>k. lk_hist s1 = lk_hist s @ k \<and> (\<forall>p d e. Did (Write p d) e \<notin> set k)" and
    b: "lk_buf s1 = lk_buf s" and c: "lk_create opt os tpath s1 = Ret s2" and
    l: "lk_lines opt os (lk_upath opt tpath) (fr @ [SLASH] @ name) (os_text os (lk_hist s1) tpath)
       (s2\<lparr>lk_prepath := [], lk_count := 0, lk_wrong := False\<rparr>) = Ret s3" and
    f: "lk_finish opt os tpath s3 = Ret (n, s')" by (rule do_lcksumE) blast
  from w obtain k1 where k1: "lk_hist s1 = lk_hist s @ k1" "\<forall>p d e. Did (Write p d) e \<notin> set k1" by blast
  from c assms(2) b assms(3) have c2: "length (lk_buf s2) = MAXPATHLEN"
    "lk_hist s2 = lk_hist s1 @ [Did (Stat tpath) None, Did (Create (lk_upath opt tpath)) None]"
    by (auto simp: lk_create_def lk_call_Ret obind_Ret_iff)
  from lk_lines_updated [OF l [unfolded assms(4) [rule_format]] assms(5) _ assms(2,6,7,8)] c2(1) obtain k where
    k: "0 < lk_count s3 \<longleftrightarrow> (\<exists>l \<in> set ls. line_wrong opt B (fr @ [SLASH] @ name) l)" "lk_hist s3 = lk_hist s2 @ k"
    "written (lk_upath opt tpath) k = concat (map (corrected_line opt B S (fr @ [SLASH] @ name)) ls)" by auto
  from f assms(2) have f2: "n = (if 0 < lk_count s3 then 1 else 0)"
    "lk_hist s' = lk_hist s3 @ [Did (Close tpath) None,
       Did (if 0 < lk_count s3 then Rename (lk_upath opt tpath) tpath else Unlink (lk_upath opt tpath)) None]"
    by (auto simp: lk_finish_def lk_call_Ret obind_Ret_iff split: if_split_asm)
  have nw: "\<forall>d e. Did (Write p d) e \<notin> set h \<Longrightarrow> written p h = []" for p h
    by (induction p h rule: written.induct) auto
  let ?k = "k1 @ [Did (Stat tpath) None, Did (Create (lk_upath opt tpath)) None] @ k @ [Did (Close tpath) None]"
  have "written (lk_upath opt tpath) ?k = concat (map (corrected_line opt B S (fr @ [SLASH] @ name)) ls)"
    using nw [of "lk_upath opt tpath" k1] k1(2) k(3) by (simp add: written_append)
  moreover have "lk_hist s' = lk_hist s @ ?k @ [Did (if n = 1 then Rename (lk_upath opt tpath) tpath else Unlink (lk_upath opt tpath)) None]"
    using f2 k(2) c2(2) k1(1) by simp
  moreover have "n = 1 \<longleftrightarrow> (\<exists>l \<in> set ls. line_wrong opt B (fr @ [SLASH] @ name) l)" using k(1) f2(1) by simp
  ultimately show ?thesis using g by blast
qed

section \<open>The new line\<close>

definition new_time :: "string list \<Rightarrow> stat \<Rightarrow> string" where
  "new_time av st = (if strcmp (av ! 7) ''-'' \<noteq> 0 then print_int (st_mtime st) else av ! 5)"

definition pads :: "nat \<Rightarrow> string \<Rightarrow> string \<times> string" where
  "pads w s = (SP # replicate (w - length s) SP, s)"

lemma lk_format_layout:
  "lk_format av st ck = layout [([], av ! 0), ([SP], av ! 1), (replicate (37 - length (av ! 1)) SP @ fst (pads 4 (av ! 2)), av ! 2),
     pads 5 (av ! 3), pads 5 (av ! 4), pads 9 (new_time av st), pads 7 (print_int (st_size st)), ([SP], ck)] [NL]"
  by (simp add: lk_format_def layout_def pads_def new_time_def pad_left_def pad_right_def)

definition plain_words :: "string list \<Rightarrow> bool" where
  "plain_words av \<longleftrightarrow> (\<forall>i < 6. arg_ok (av ! i) \<and> av ! i \<noteq> [])"

lemma arg_ok_base64: "arg_ok (base64_e d)"
proof -
  have "list_all plain_char alphabet" by code_simp
  moreover have "x mod 64 < length alphabet" for x by (simp add: alphabet_def)
  ultimately have "plain_char (group n k)" for n k by (auto simp: group_def list_all_length)
  moreover have "plain_char (CHR ''='')" by code_simp
  ultimately have "list_all plain_char (base64_ref d)" by (induction d rule: base64_ref.induct) (simp_all add: Let_def)
  then show ?thesis by (simp add: arg_ok_plain base64_e_ref)
qed

text \<open>
  A corrected line is read back with the size and the checksum of the file, and its other words but the time
  are as before.
\<close>

lemma corrected_line_words:
  assumes "plain_words av" "do_fcksum md fd = (sz, Some ck)" "ck \<noteq> []"
  shows "argcargv (lk_format av st ck) =
    Ret [av ! 0, av ! 1, av ! 2, av ! 3, av ! 4, new_time av st, print_int (st_size st), ck]"
proof -
  have w: "arg_ok (av ! i)" "av ! i \<noteq> []" if "i < 6" for i using assms(1) that by (simp_all add: plain_words_def)
  have t: "arg_ok (new_time av st)" "new_time av st \<noteq> []"
    using w [of 5] by (simp_all add: new_time_def arg_ok_plain plain_print_int)
  have c: "arg_ok ck" using assms(2) by (auto simp: do_fcksum_def arg_ok_base64 split: option.splits)
  show ?thesis
    unfolding lk_format_layout
    by (subst argcargv_layout)
      (use w [of 0] w [of 1] w [of 2] w [of 3] w [of 4] t c assms(3) in
        \<open>simp_all add: layout_ok_def pads_def arg_ok_plain plain_print_int\<close>)
qed

end
