(* ===== verification/TranscriptTypes.thy ===== *)
theory TranscriptTypes
  imports TranscriptText
begin

text \<open>
  The typing of the objects that \<open>transcript_parse\<close> reads: every text fits the array of \<open>struct pathinfo\<close> it is copied
  into without a check, and the type is one of the letters the rest of the program knows.
\<close>

section \<open>Well-formed objects\<close>

definition text_fits :: "string \<Rightarrow> bool" where
  "text_fits s \<longleftrightarrow> length s < MAXPATHLEN \<and> c_string s"

definition pinfo_fits :: "pathinfo \<Rightarrow> bool" where
  "pinfo_fits p \<longleftrightarrow> text_fits (pi_name p) \<and> text_fits (pi_link p) \<and> text_fits (pi_cksum_b64 p) \<and>
     length (pi_ai_data p) = FINFOLEN"

definition object_types :: string where
  "object_types = ''dpDsbclhaf''"

definition pinfo_typed :: "pathinfo \<Rightarrow> bool" where
  "pinfo_typed p \<longleftrightarrow> pinfo_fits p \<and> pi_type p \<in> set object_types"

lemma pinfo_fits_simps [simp]:
  "pinfo_fits (set_owner m u g p) \<longleftrightarrow> pinfo_fits p" "pinfo_fits (pi_stat_update f p) \<longleftrightarrow> pinfo_fits p"
  "pinfo_fits (pi_type_update a p) \<longleftrightarrow> pinfo_fits p" "pinfo_fits (pi_minus_update b p) \<longleftrightarrow> pinfo_fits p"
  "pi_type (set_owner m u g p) = pi_type p"
  by (simp_all add: pinfo_fits_def set_owner_def)

lemma pinfo_fits0: "pinfo_fits pathinfo0"
  by (simp add: pinfo_fits_def pathinfo0_def text_fits_def MAXPATHLEN_def)

section \<open>The pieces\<close>

lemma convert_fits: "convert_path_type cfg p = Some q \<Longrightarrow> text_fits p \<Longrightarrow> text_fits q"
  using c_string_convert [of p cfg q]
  by (auto simp: convert_path_type_def text_fits_def MAXPATHLEN_def split: if_splits)

lemma decode_fits:
  assumes "decode w buf = Ret (Some p, buf')" "length buf = MAXPATHLEN"
  shows "text_fits p" "length buf' = MAXPATHLEN"
  using decode_Some_short [OF assms(1)] decode_c_string [OF assms(1)] decode_length [OF assms(1)] assms(2)
  by (simp_all add: text_fits_def)

lemma set_finfo_fits: "set_finfo e p = Ret q \<Longrightarrow> pinfo_fits p \<Longrightarrow> pinfo_fits q \<and> pi_type q = pi_type p"
  by (auto simp: set_finfo_def obind_Ret_iff pinfo_fits_def split: if_splits)

text \<open>The words of a line are not longer than the line.\<close>

lemma argcargv_short:
  assumes "argcargv line = Ret av" "w \<in> set av"
  shows "length w \<le> length line"
proof -
  obtain b offs k where s: "acav_scan ACV_ARGC 0 False [] line = Ret (b, offs, k)" "length b = length line"
    using acav_scan_defined [of 0 ACV_ARGC False "[]" line] by (auto simp: ACV_ARGC_def)
  with assms have "w \<in> token_at b ` set offs" by (auto simp: argcargv_def acav_parse_def obind_Ret_iff simp flip: set_map)
  then obtain off where "w = cstr (drop off b)" by (auto simp: token_at_def)
  then have "length w \<le> length (drop off b)" by (simp only: cstr_def length_takeWhile_le)
  with s(2) show ?thesis by simp
qed

lemma parse_fields_typed:
  assumes "parse_fields cfg tt av p buf = Ret (q, buf')" "pinfo_fits p" "pi_type p = char_at (av ! 0) 0"
    "length buf = MAXPATHLEN" "\<forall>w \<in> set av. text_fits w"
  shows "pinfo_typed q"
proof -
  let ?ty = "char_at (av ! 0) 0"
  note r = assms(1) [unfolded parse_fields_def Let_def]
  consider "?ty = CHR ''d''" | "?ty \<in> set ''pDs''" | "?ty \<in> set ''bc''" | "?ty = CHR ''l''" | "?ty = CHR ''h''" | "?ty \<in> set ''af''"
    using r by (force split: if_split_asm)
  then show ?thesis
  proof cases
    case 1
    with r assms(2,3) show ?thesis
      by (auto simp: pinfo_typed_def object_types_def obind_Ret_iff dest!: set_finfo_fits split: if_split_asm)
        (simp_all add: pinfo_fits_def set_owner_def)
  next
    case 2
    with r assms(2,3) show ?thesis by (auto simp: pinfo_typed_def object_types_def split: if_split_asm)
  next
    case 3
    with r assms(2,3) show ?thesis by (auto simp: pinfo_typed_def object_types_def split: if_split_asm)
  next
    case 4
    define p1 where "p1 = (if length av = 3 then p\<lparr>pi_stat := (pi_stat p)\<lparr>st_mode := 0x1FF, st_uid := 0, st_gid := 0\<rparr>\<rparr>
        else set_owner (av ! 2) (av ! 3) (av ! 4) p)"
    from 4 r obtain d where d: "decode (av ! (length av - 1)) buf = Ret (Some d, buf')" "q = p1\<lparr>pi_link := d\<rparr>"
      unfolding p1_def by (auto simp: obind_Ret_iff split: if_split_asm option.splits)
    have "pinfo_fits p1" "pi_type p1 = pi_type p" using assms(2) by (simp_all add: p1_def)
    with d decode_fits [OF d(1) assms(4)] 4 assms(3) show ?thesis by (simp add: pinfo_typed_def pinfo_fits_def object_types_def)
  next
    case 5
    from 5 r obtain d e where d: "decode (av ! 2) buf = Ret (Some d, buf')" "convert_path_type cfg d = Some e" "q = p\<lparr>pi_link := e\<rparr>"
      by (auto simp: obind_Ret_iff split: if_split_asm option.splits)
    with convert_fits [OF d(2) decode_fits(1) [OF d(1) assms(4)]] 5 assms(2,3) show ?thesis
      by (simp add: pinfo_typed_def pinfo_fits_def object_types_def)
  next
    case 6
    with r have "length av = 8" "pi_cksum_b64 q = av ! 7" "pi_name q = pi_name p" "pi_link q = pi_link p"
      "pi_ai_data q = pi_ai_data p" "pi_type q = pi_type p"
      by (auto simp: set_owner_def split: if_split_asm)
    with 6 assms(2,3,5) show ?thesis by (auto simp: pinfo_typed_def pinfo_fits_def object_types_def)
  qed
qed

text \<open>What an accepted line went through: \<open>av'\<close> is the line after its sign and its \<open>+\<close>.\<close>

lemma parse_lineE:
  assumes "parse_line cfg t av buf = Ret (t', buf')"
  obtains av' dash a d buf1 e q where "set av' \<subseteq> set av" "decode a buf = Ret (Some d, buf1)" "convert_path_type cfg d = Some e"
    "parse_fields cfg (t_type t) av' ((t_pinfo t)\<lparr>pi_minus := dash, pi_type := char_at (av' ! 0) 0, pi_name := e\<rparr>) buf1 =
      Ret (q, buf')" "t' = t\<lparr>t_pinfo := q\<rparr>"
proof -
  define dash where "dash = (char_at (av ! 0) 0 = CHR ''-'')"
  define av1 where "av1 = (if dash then tl av else av)"
  define av2 where "av2 = (if char_at (av1 ! 0) 0 = CHR ''+'' then tl av1 else av1)"
  note r = assms [unfolded parse_line_def Let_def, folded dash_def, folded av1_def, folded av2_def]
  from r have l: "3 \<le> length av" by (auto split: if_split_asm)
  from r obtain a where r1: "obind (decode a buf) (\<lambda>(epath, buf). case epath of None \<Rightarrow> Exit 2 | Some epath \<Rightarrow>
      (case convert_path_type cfg epath of None \<Rightarrow> Exit 2 | Some epath \<Rightarrow>
         if pathcasecmp epath (pi_name (t_pinfo t)) (case_sensitive cfg) \<le> 0 then Exit 2
         else obind (parse_fields cfg (t_type t) av2 ((t_pinfo t)\<lparr>pi_minus := dash, pi_type := char_at (av2 ! 0) 0,
                       pi_name := epath\<rparr>) buf) (\<lambda>(p, buf). Ret (t\<lparr>t_pinfo := p\<rparr>, buf)))) = Ret (t', buf')"
    by (cases "arg av2 1") (simp_all split: if_split_asm)
  then obtain dd buf1 where d0: "decode a buf = Ret (dd, buf1)" by (cases "decode a buf") auto
  with r1 obtain d e where d: "dd = Some d" "convert_path_type cfg d = Some e" by (auto split: option.split_asm)
  from r1 obtain q where "parse_fields cfg (t_type t) av2 ((t_pinfo t)\<lparr>pi_minus := dash, pi_type := char_at (av2 ! 0) 0,
      pi_name := e\<rparr>) buf1 = Ret (q, buf')" "t' = t\<lparr>t_pinfo := q\<rparr>"
    unfolding d0 d by (simp add: d obind_Ret_iff split: if_split_asm) blast
  moreover have "set av2 \<subseteq> set av" using l by (cases av; cases "tl av") (auto simp: av1_def av2_def)
  ultimately show thesis using that d0 d by blast
qed

lemma parse_line_typed:
  assumes "parse_line cfg t av buf = Ret (t', buf')" "pinfo_fits (t_pinfo t)" "length buf = MAXPATHLEN" "\<forall>w \<in> set av. text_fits w"
  shows "pinfo_typed (t_pinfo t')" "t_eof t' = t_eof t"
proof -
  obtain av' dash a d buf1 e q where w: "set av' \<subseteq> set av" and d: "decode a buf = Ret (Some d, buf1)"
      "convert_path_type cfg d = Some e"
    and f: "parse_fields cfg (t_type t) av' ((t_pinfo t)\<lparr>pi_minus := dash, pi_type := char_at (av' ! 0) 0, pi_name := e\<rparr>) buf1 =
      Ret (q, buf')" "t' = t\<lparr>t_pinfo := q\<rparr>"
    using parse_lineE [OF assms(1)] .
  note dd = decode_fits [OF d(1) assms(3)]
  have "pinfo_fits ((t_pinfo t)\<lparr>pi_minus := dash, pi_type := char_at (av' ! 0) 0, pi_name := e\<rparr>)"
    using assms(2) convert_fits [OF d(2) dd(1)] by (simp add: pinfo_fits_def)
  from parse_fields_typed [OF f(1) this _ dd(2)] w assms(4) f(2) show "pinfo_typed (t_pinfo t')" by auto
  show "t_eof t' = t_eof t" by (simp add: f(2))
qed

lemma read_words_fits:
  "read_words inp n = Ret (rest, m, Some av) \<Longrightarrow> \<forall>w \<in> set av. text_fits w"
proof (induction inp n rule: read_words.induct)
  case (1 inp n)
  from "1.prems" obtain buf rest' where f: "fgets MAXPATHLEN inp = Some (buf, rest')"
    by (auto simp: read_words.simps [of inp n] split: option.splits)
  obtain ws where ws: "argcargv (cstr buf) = Ret ws" using argcargv_defined by blast
  from "1.prems" f ws have e: "cstr buf \<noteq> []" "\<not> last (cstr buf) \<noteq> NL"
    by (auto simp: read_words.simps [of inp n] Let_def split: if_split_asm)
  show ?case
  proof (cases "ws = [] \<or> char_at (hd ws) 0 = CHR ''#''")
    case True
    with "1.prems" f ws e have r: "read_words rest' (Suc n) = Ret (rest, m, Some av)"
      by (simp add: read_words.simps [of inp n] Let_def)
    show ?thesis by (rule "1.IH" [OF f refl refl e ws True r])
  next
    case False
    with "1.prems" f ws e have av: "av = ws" by (auto simp: read_words.simps [of inp n] Let_def)
    have "length buf < MAXPATHLEN" using f by (auto simp: fgets_def Let_def MAXPATHLEN_def split: if_splits)
    moreover have "length (cstr buf) \<le> length buf" by (auto simp: cstr_def intro: length_takeWhile_le)
    ultimately show ?thesis
      unfolding av text_fits_def using argcargv_short [OF ws] argcargv_words [OF ws] by fastforce
  qed
qed

lemma transcript_parseE:
  assumes "transcript_parse cfg t buf = Ret (t', buf')"
  obtains inp rest m av where "t_in t = Some inp" "read_words inp (t_linenum t) = Ret (rest, m, av)"
    "(case av of None \<Rightarrow> Ret (t\<lparr>t_in := Some rest, t_linenum := m, t_eof := True\<rparr>, buf)
      | Some av \<Rightarrow> parse_line cfg (t\<lparr>t_in := Some rest, t_linenum := m\<rparr>) av buf) = Ret (t', buf')"
  using assms by (auto simp: transcript_parse_def Let_def obind_Ret_iff split: option.splits)

text \<open>A line that is accepted gives a well-formed object; at the end of the file the last one stays.\<close>

lemma transcript_parse_typed:
  assumes "transcript_parse cfg t buf = Ret (t', buf')" "pinfo_fits (t_pinfo t)" "length buf = MAXPATHLEN" "\<not> t_eof t"
  shows "if t_eof t' then t_pinfo t' = t_pinfo t else pinfo_typed (t_pinfo t')"
proof -
  obtain inp rest m av where w: "t_in t = Some inp" "read_words inp (t_linenum t) = Ret (rest, m, av)"
    and r: "(case av of None \<Rightarrow> Ret (t\<lparr>t_in := Some rest, t_linenum := m, t_eof := True\<rparr>, buf)
      | Some av \<Rightarrow> parse_line cfg (t\<lparr>t_in := Some rest, t_linenum := m\<rparr>) av buf) = Ret (t', buf')"
    using transcript_parseE [OF assms(1)] .
  show ?thesis
  proof (cases av)
    case None
    with r show ?thesis by auto
  next
    case (Some ws)
    with r have p: "parse_line cfg (t\<lparr>t_in := Some rest, t_linenum := m\<rparr>) ws buf = Ret (t', buf')" by simp
    have "\<forall>x \<in> set ws. text_fits x" using read_words_fits w(2) Some by simp
    from parse_line_typed [OF p _ assms(3) this] assms(2,4) show ?thesis by simp
  qed
qed

section \<open>A whole transcript\<close>

lemma parse_fields_buf:
  assumes "parse_fields cfg tt av p buf = Ret (q, buf')"
  shows "length buf' = length buf"
proof -
  have "all_ret (\<lambda>(_, b). length b = length buf) (parse_fields cfg tt av p buf)"
    unfolding parse_fields_def Let_def
    by (intro all_ret_rules) (auto dest: decode_length simp: set_finfo_def obind_Ret_iff split: if_split_asm)
  with assms show ?thesis by simp
qed

lemma transcript_parse_buf:
  assumes "transcript_parse cfg t buf = Ret (t', buf')"
  shows "length buf' = length buf"
proof -
  obtain inp rest m av where r: "(case av of None \<Rightarrow> Ret (t\<lparr>t_in := Some rest, t_linenum := m, t_eof := True\<rparr>, buf)
      | Some av \<Rightarrow> parse_line cfg (t\<lparr>t_in := Some rest, t_linenum := m\<rparr>) av buf) = Ret (t', buf')"
    using transcript_parseE [OF assms] .
  show ?thesis
  proof (cases av)
    case None
    with r show ?thesis by simp
  next
    case (Some ws)
    with r have "parse_line cfg (t\<lparr>t_in := Some rest, t_linenum := m\<rparr>) ws buf = Ret (t', buf')" by simp
    then show ?thesis by (rule parse_lineE) (auto dest!: parse_fields_buf decode_length)
  qed
qed

lemma parse_all_typed:
  "parse_all cfg t buf = Ret ps \<Longrightarrow> pinfo_fits (t_pinfo t) \<Longrightarrow> length buf = MAXPATHLEN \<Longrightarrow> \<forall>p \<in> set ps. pinfo_typed p"
proof (induction cfg t buf arbitrary: ps rule: parse_all.induct)
  case (1 cfg t buf)
  show ?case
  proof (cases "t_eof t")
    case True
    with "1.prems"(1) show ?thesis by (simp add: parse_all.simps [of cfg t])
  next
    case False
    with "1.prems"(1) obtain t' buf' where p: "transcript_parse cfg t buf = Ret (t', buf')"
      and r: "(if t_eof t' then Ret [] else obind (parse_all cfg t' buf') (\<lambda>ps. Ret (t_pinfo t' # ps))) = Ret ps"
      by (auto simp: parse_all.simps [of cfg t] obind_Ret_iff)
    show ?thesis
    proof (cases "t_eof t'")
      case True
      with r show ?thesis by simp
    next
      case eof: False
      with r obtain qs where q: "parse_all cfg t' buf' = Ret qs" "ps = t_pinfo t' # qs" by (auto simp: obind_Ret_iff)
      have ty: "pinfo_typed (t_pinfo t')" using transcript_parse_typed [OF p "1.prems"(2,3) False] eof by simp
      have "\<forall>p \<in> set qs. pinfo_typed p"
        by (rule "1.IH" [OF False p refl eof q(1)])
          (use ty transcript_parse_buf [OF p] "1.prems"(3) in \<open>simp_all add: pinfo_typed_def\<close>)
      with ty q(2) show ?thesis by simp
    qed
  qed
qed

lemma parsed_typed:
  assumes "parse_all cfg (new_tran ty file short kf (Some inp)) buf = Ret ps" "length buf = MAXPATHLEN"
  shows "\<forall>p \<in> set ps. pi_type p \<in> set ''dpDsbclhaf'' \<and> text_fits (pi_name p) \<and> text_fits (pi_link p) \<and>
    text_fits (pi_cksum_b64 p) \<and> length (pi_ai_data p) = FINFOLEN"
proof -
  have "pinfo_fits (t_pinfo (new_tran ty file short kf (Some inp)))" by (simp add: new_tran_def pinfo_fits0)
  from parse_all_typed [OF assms(1) this assms(2)] show ?thesis
    by (simp add: pinfo_typed_def pinfo_fits_def object_types_def)
qed

end
