(* ===== verification/Which.thy ===== *)
theory Which
  imports TranscriptText Connect
begin

text \<open>
  \<open>twhich.c\<close> and \<open>lfdiff.c\<close>: which transcript has a file, and the difference to the file it stands for. The models
  start with the options read. The standard output is \<open>outtran\<close>, as both programs print transcript lines there.
\<close>

section \<open>Searching a transcript\<close>

text \<open>The loop both programs have: read on until the name is not before the one that is looked for.\<close>

function seek_name :: "config \<Rightarrow> string \<Rightarrow> tran \<Rightarrow> string \<Rightarrow> (tran \<times> string) outcome" where
  "seek_name cfg name t buf =
     (if t_eof t then Ret (t, buf)
      else if pathcasecmp (pi_name (t_pinfo t)) name (case_sensitive cfg) < 0
      then obind (transcript_parse cfg t buf) (\<lambda>(t, buf). seek_name cfg name t buf)
      else Ret (t, buf))"
  by pat_completeness auto

termination
  by (relation "measure (\<lambda>(_, _, t, _). tran_todo t)") (auto dest: transcript_parse_todo(2))

declare seek_name.simps [simp del]

definition at_name :: "config \<Rightarrow> string \<Rightarrow> tran \<Rightarrow> bool" where
  "at_name cfg name t \<longleftrightarrow> \<not> t_eof t \<and> pathcasecmp (pi_name (t_pinfo t)) name (case_sensitive cfg) = 0"

section \<open>\<open>twhich\<close>\<close>

definition tw_print :: "string \<Rightarrow> tstate \<Rightarrow> tstate" where
  "tw_print text st = st\<lparr>outtran := outtran st @ text @ [NL]\<rparr>"

text \<open>The patterns of excluded paths are removed from the list as they are compared. The result says whether to stop.\<close>

fun tw_exclude :: "config \<Rightarrow> string \<Rightarrow> bool \<Rightarrow> string list \<Rightarrow> tstate \<Rightarrow> (bool \<times> tstate) outcome" where
  "tw_exclude cfg pattern all [] st = Ret (False, st\<lparr>exclude_list := []\<rparr>)"
| "tw_exclude cfg pattern all (w # ws) st =
     obind (wildcard w (Some pattern) (case_sensitive cfg)) (\<lambda>b.
       if b then
         (let st = tw_print (''# exclude pattern: '' @ w) (tw_print ''# Exclude'' st) in
          if \<not> all then Ret (True, st\<lparr>exclude_list := ws\<rparr>) else tw_exclude cfg pattern all ws st)
       else tw_exclude cfg pattern all ws st)"

definition tw_type :: "ttype \<Rightarrow> string option" where
  "tw_type ty =
     (case ty of T_POSITIVE \<Rightarrow> Some ''# Positive'' | T_NEGATIVE \<Rightarrow> Some ''# Negative'' | T_SPECIAL \<Rightarrow> Some ''# Special''
      | T_NULL \<Rightarrow> None)"

definition tw_show :: "config \<Rightarrow> 'c env \<Rightarrow> tran \<Rightarrow> tstate \<Rightarrow> (tran \<times> tstate) outcome" where
  "tw_show cfg env t st =
     (case tw_type (t_type t) of
        None \<Rightarrow> Exit 2
      | Some kind \<Rightarrow>
          let st = tw_print (''# '' @ t_kfile t @ '':'') (tw_print kind st);
              minus = pi_minus (t_pinfo t);
              st = (if minus then tw_print (t_shortname t @ '':'') st else st) in
          obind (t_print cfg env None t (if minus then PR_STATUS_MINUS else PR_TRAN_ONLY) st) (\<lambda>(_, t, st). Ret (t, st)))"

text \<open>The transcripts in turn, but for the last one, which is the null transcript. The result has the number of matches.\<close>

fun tw_trans ::
  "config \<Rightarrow> 'c env \<Rightarrow> string \<Rightarrow> bool \<Rightarrow> tran list \<Rightarrow> tstate \<Rightarrow> (tran list \<times> nat \<times> tstate) outcome" where
  "tw_trans cfg env pattern all [] st = UB"
| "tw_trans cfg env pattern all [t] st = Ret ([t], 0, st)"
| "tw_trans cfg env pattern all (t # u # ts) st =
     obind (seek_name cfg pattern t (dbuf st)) (\<lambda>(t, buf).
       let st = st\<lparr>dbuf := buf\<rparr> in
       if \<not> at_name cfg pattern t
       then obind (tw_trans cfg env pattern all (u # ts) st) (\<lambda>(ts, n, st). Ret (t # ts, n, st))
       else obind (tw_show cfg env t st) (\<lambda>(t, st).
              if \<not> all then Ret (t # u # ts, 1, st)
              else obind (tw_trans cfg env pattern all (u # ts) st) (\<lambda>(ts, n, st). Ret (t # ts, Suc n, st))))"

definition twhich :: "config \<Rightarrow> 'c env \<Rightarrow> string \<Rightarrow> bool \<Rightarrow> tstate \<Rightarrow> (int \<times> tstate) outcome" where
  "twhich cfg env pattern all st =
     obind (tw_exclude cfg pattern all (exclude_list st) st) (\<lambda>(stop, st).
       if stop then Ret (1, st)
       else obind (tw_trans cfg env pattern all (tran_list st) st) (\<lambda>(ts, n, st).
              Ret (if 0 < n then 0 else 1, st\<lparr>tran_list := ts\<rparr>)))"

text \<open>A pattern of one dot or with \<open>./\<close> at its beginning is relative; other patterns that begin with a dot leave the format unset.\<close>

definition tw_clip :: "string \<Rightarrow> string" where
  "tw_clip pattern = (if 1 < length pattern \<and> last pattern = SLASH then butlast pattern else pattern)"

definition tw_format :: "string \<Rightarrow> tformat" where
  "tw_format p =
     (if char_at p 0 = CHR ''.'' then (if length p = 1 \<or> char_at p 1 = SLASH then T_RELATIVE else T_UNSET) else T_ABSOLUTE)"

text \<open>With \<open>-r\<close> the paths above come first; \<open>tops\<close> are the prefixes of \<open>pattern\<close> before its slashes, but for leading ones.\<close>

fun tw_above :: "config \<Rightarrow> 'c env \<Rightarrow> bool \<Rightarrow> string list \<Rightarrow> tstate \<Rightarrow> tstate outcome" where
  "tw_above cfg env all [] st = Ret st"
| "tw_above cfg env all (p # ps) st =
     obind (twhich cfg env p all st) (\<lambda>(n, st).
       tw_above cfg env all ps (if n \<noteq> 0 then tw_print (''# '' @ p @ '': not found'') st else st))"

definition tw_tops :: "string \<Rightarrow> string list" where
  "tw_tops pattern =
     (let lead = length (takeWhile (\<lambda>c. c = SLASH) pattern) in
      map (\<lambda>i. take i pattern) (filter (\<lambda>i. lead \<le> i \<and> pattern ! i = SLASH) [0..<length pattern]))"

text \<open>\<open>base\<close> has the other options; the result is the exit status.\<close>

definition twhich_main ::
  "nat \<Rightarrow> config \<Rightarrow> 'c env \<Rightarrow> string \<Rightarrow> location \<Rightarrow> bool \<Rightarrow> bool \<Rightarrow> string \<Rightarrow> tstate \<Rightarrow> (int \<times> tstate) outcome" where
  "twhich_main depth base env kfile loc recursive all path st =
     (let pattern = tw_clip path; cfg = base\<lparr>edit_path := APPLICABLE, tran_format := tw_format pattern\<rparr> in
      obind (transcript_init depth cfg env kfile loc st) (\<lambda>st.
      obind (if recursive then tw_above cfg env all (tw_tops pattern) st else Ret st) (\<lambda>st.
        twhich cfg env pattern all st)))"

section \<open>\<open>lfdiff\<close>\<close>

text \<open>
  The search ends at the first transcript that is at its end before it is searched, which need not be the last one.
  \<open>Inl True\<close> is an excluded file.
\<close>

fun lf_trans :: "config \<Rightarrow> string \<Rightarrow> tran list \<Rightarrow> string \<Rightarrow> tran option outcome" where
  "lf_trans cfg file [] buf = UB"
| "lf_trans cfg file (t # ts) buf =
     (if t_eof t then Ret None
      else obind (seek_name cfg file t buf) (\<lambda>(t, buf).
             if at_name cfg file t then Ret (Some t) else lf_trans cfg file ts buf))"

definition precedent_transcript ::
  "nat \<Rightarrow> config \<Rightarrow> 'c env \<Rightarrow> string \<Rightarrow> string \<Rightarrow> location \<Rightarrow> tstate \<Rightarrow> (bool + tran) outcome" where
  "precedent_transcript depth cfg env kfile file loc st =
     (case e_lstat env file of
        Inl e \<Rightarrow> Exit 2
      | Inr s \<Rightarrow>
          let cfg = cfg\<lparr>edit_path := APPLICABLE\<rparr> in
          obind (transcript_init depth cfg env kfile loc st) (\<lambda>st.
          obind (t_exclude cfg (exclude_list st) file) (\<lambda>b.
            if b then Ret (Inl True)
            else obind (lf_trans cfg file (tran_list st) (dbuf st)) (\<lambda>r.
                   Ret (case r of None \<Rightarrow> Inl False | Some t \<Rightarrow> Inr t)))))"

text \<open>
  The arguments of \<open>diff\<close>: the array and its size in pointers. Every option resizes it to a fixed number of
  pointers, whatever it holds, and so does the end.
\<close>

datatype diff_opt = DFlag char | DArg char string | DMore "string list"

definition put_arg :: "nat \<Rightarrow> string list \<Rightarrow> string \<Rightarrow> string list outcome" where
  "put_arg n args a = (if n \<le> length args then UB else Ret (args @ [a]))"

definition diff_option :: "diff_opt \<Rightarrow> string list \<Rightarrow> string list outcome" where
  "diff_option opt args =
     (case opt of
        DFlag c \<Rightarrow> put_arg 3 args [CHR ''-'', c]
      | DArg c a \<Rightarrow> obind (put_arg 4 args [CHR ''-'', c]) (\<lambda>args. put_arg 4 args a)
      | DMore ws \<Rightarrow> fold (\<lambda>w m. obind m (\<lambda>args. put_arg (1 + length ws) args w)) ws (Ret args))"

fun diff_options :: "diff_opt list \<Rightarrow> string list \<Rightarrow> string list outcome" where
  "diff_options [] args = Ret args"
| "diff_options (d # ds) args = obind (diff_option d args) (diff_options ds)"

definition diff_end :: "string \<Rightarrow> string list \<Rightarrow> string list outcome" where
  "diff_end file args =
     obind (put_arg 5 args ''--'') (\<lambda>args. obind (put_arg 5 args ''-'') (\<lambda>args. obind (put_arg 5 args file) (\<lambda>args.
       if 5 \<le> length args then UB else Ret args)))"

text \<open>
  From the arguments to the call of \<open>diff\<close>: the file of the server is fetched into \<open>/tmp/lfdiff\<close>, opened as standard
  input and unlinked. \<open>tr\<close> is \<open>None\<close> for a special file.
\<close>

definition lf_request :: "string option \<Rightarrow> string \<Rightarrow> string option outcome" where
  "lf_request tr file =
     obind (encode file) (\<lambda>e.
       case e of
         None \<Rightarrow> Exit 2
       | Some epath \<Rightarrow>
           Ret (snprintf (2 * MAXPATHLEN)
             (case tr of None \<Rightarrow> ''SPECIAL '' @ epath | Some t \<Rightarrow> ''FILE '' @ t @ [SP] @ epath)))"

definition lf_fetch ::
  "'c options \<Rightarrow> os \<Rightarrow> string option \<Rightarrow> string \<Rightarrow> string list \<Rightarrow> history \<Rightarrow> (string list \<times> history) outcome" where
  "lf_fetch opt os tr file args h =
     obind (lf_request tr file) (\<lambda>r.
       case r of
         None \<Rightarrow> Exit 2
       | Some pathdesc \<Rightarrow>
           (case retr opt os pathdesc ''/tmp/lfdiff'' (-1) ''-'' h of
              ((n, temppath), h) \<Rightarrow>
                if n \<noteq> 0 then Exit 2
                else (case closesn os h of
                        (Inl n, h) \<Rightarrow> Exit n
                      | (Inr n, h) \<Rightarrow>
                          if n \<noteq> 0 then Exit 2
                          else (case answer os (Open temppath) h of
                                  (Some e, h) \<Rightarrow> Exit 2
                                | (None, h) \<Rightarrow>
                                    (case answer os (Unlink temppath) h of
                                       (Some e, h) \<Rightarrow> Exit 2
                                     | (None, h) \<Rightarrow> obind (diff_end file args) (\<lambda>args. Ret (args, h)))))))"

end
