(* ===== verification/WhichFinds.thy ===== *)
theory WhichFinds
  imports Which TranscriptTypes
begin

text \<open>
  What the searches of \<open>twhich\<close> and \<open>lfdiff\<close> find, and when the array of arguments that \<open>lfdiff\<close> makes overflows.
\<close>

section \<open>One transcript\<close>

text \<open>The transcript yields the objects \<open>ps\<close> after its current one, whatever the buffer of \<open>decode\<close> holds.\<close>

definition reads_as :: "config \<Rightarrow> tran \<Rightarrow> pathinfo list \<Rightarrow> bool" where
  "reads_as cfg t ps \<longleftrightarrow> (\<not> t_eof t \<longrightarrow> c_string (pi_name (t_pinfo t))) \<and>
     (\<forall>buf. length buf = MAXPATHLEN \<longrightarrow> parse_all cfg t buf = Ret ps)"

definition has_object :: "tran \<Rightarrow> pathinfo list \<Rightarrow> string \<Rightarrow> bool" where
  "has_object t ps name \<longleftrightarrow> \<not> t_eof t \<and> (\<exists>p \<in> set (t_pinfo t # ps). pi_name p = name)"

lemma ascending_keys:
  assumes "ascending_from cfg n ps" "case_sensitive cfg" "c_string n" "\<forall>p \<in> set ps. c_string (pi_name p)" "p \<in> set ps"
  shows "path_key True n < path_key True (pi_name p)"
  using assms
proof (induction ps arbitrary: n)
  case (Cons q ps)
  have "path_key True n < path_key True (pi_name q)"
    using Cons.prems(1-4) pathcasecmp_key [of True "pi_name q" n] by (auto simp: path_ok_def)
  moreover have "path_key True (pi_name q) < path_key True (pi_name p)" if "p \<in> set ps"
    using Cons.IH [of "pi_name q"] Cons.prems that by auto
  ultimately show ?case using Cons.prems(5) by (auto intro: less_trans)
qed simp

lemma seek_name_finds:
  "parse_all cfg t buf = Ret ps \<Longrightarrow> case_sensitive cfg \<Longrightarrow> c_string name \<Longrightarrow> \<not> t_eof t \<longrightarrow> c_string (pi_name (t_pinfo t)) \<Longrightarrow>
     length buf = MAXPATHLEN \<Longrightarrow>
   \<exists>t' buf'. seek_name cfg name t buf = Ret (t', buf') \<and> length buf' = MAXPATHLEN \<and> (at_name cfg name t' \<longleftrightarrow> has_object t ps name)"
proof (induction cfg name t buf arbitrary: ps rule: seek_name.induct)
  case (1 cfg name t buf)
  show ?case
  proof (cases "t_eof t")
    case True
    with "1.prems"(5) show ?thesis by (simp add: seek_name.simps [of cfg name t] at_name_def has_object_def)
  next
    case False
    let ?c = "pathcasecmp (pi_name (t_pinfo t)) name True"
    have ct: "c_string (pi_name (t_pinfo t))" using "1.prems"(4) False by blast
    have cmp: "?c < 0 \<longleftrightarrow> path_key True (pi_name (t_pinfo t)) < path_key True name" "?c = 0 \<longleftrightarrow> pi_name (t_pinfo t) = name"
      using pathcasecmp_key [of True "pi_name (t_pinfo t)" name] ct "1.prems"(3)
      by (auto simp: path_ok_def path_key_inj)
    note asc = parse_all_ascending [OF "1.prems"(1)]
    consider "?c < 0" | "?c = 0" | "0 < ?c" by linarith
    then show ?thesis
    proof cases
      case 1
      from False "1.prems"(1) obtain t1 buf1 where p: "transcript_parse cfg t buf = Ret (t1, buf1)"
        and r: "(if t_eof t1 then Ret [] else obind (parse_all cfg t1 buf1) (\<lambda>ps. Ret (t_pinfo t1 # ps))) = Ret ps"
        by (auto simp: parse_all.simps [of cfg t] obind_Ret_iff)
      have l1: "length buf1 = MAXPATHLEN" using transcript_parse_buf [OF p] "1.prems"(5) by simp
      have s: "seek_name cfg name t buf = seek_name cfg name t1 buf1"
        using False 1 p "1.prems"(2) by (simp add: seek_name.simps [of cfg name t])
      have nt: "pi_name (t_pinfo t) \<noteq> name" using 1 cmp(2) by auto
      show ?thesis
      proof (cases "t_eof t1")
        case True
        with r s nt False l1 show ?thesis
          by (simp add: seek_name.simps [of cfg name t1] at_name_def has_object_def)
      next
        case eof: False
        with r obtain qs where q: "parse_all cfg t1 buf1 = Ret qs" "ps = t_pinfo t1 # qs" by (auto simp: obind_Ret_iff)
        have c1: "c_string (pi_name (t_pinfo t1))" using asc q(2) by simp
        have "\<exists>t' buf'. seek_name cfg name t1 buf1 = Ret (t', buf') \<and> length buf' = MAXPATHLEN \<and>
            (at_name cfg name t' \<longleftrightarrow> has_object t1 qs name)"
          by (rule "1.IH" [OF False _ p refl q(1)]) (use 1 "1.prems"(2,3) c1 l1 in simp_all)
        then show ?thesis using s nt q(2) False eof by (simp add: has_object_def)
      qed
    next
      case 2
      then show ?thesis using False cmp(2) "1.prems"(2,5)
        by (simp add: seek_name.simps [of cfg name t] at_name_def has_object_def)
    next
      case 3
      have "path_key True name < path_key True (pi_name (t_pinfo t))"
        using 3 cmp linorder_less_linear [of "path_key True name" "path_key True (pi_name (t_pinfo t))"]
        by (auto simp: path_key_inj)
      then have "pi_name p \<noteq> name" if "p \<in> set (t_pinfo t # ps)" for p
        using that ascending_keys [OF _ "1.prems"(2) ct, of ps p] asc by fastforce
      then show ?thesis using False 3 "1.prems"(2,5)
        by (auto simp: seek_name.simps [of cfg name t] at_name_def has_object_def)
    qed
  qed
qed


section \<open>All transcripts\<close>

lemma reads_as_seek:
  assumes "reads_as cfg t ps" "case_sensitive cfg" "c_string name" "length buf = MAXPATHLEN"
  obtains t' buf' where "seek_name cfg name t buf = Ret (t', buf')" "length buf' = MAXPATHLEN"
    "at_name cfg name t' \<longleftrightarrow> has_object t ps name"
  using seek_name_finds [of cfg t buf ps name] assms by (auto simp: reads_as_def)

lemma tw_trans_finds:
  "tw_trans cfg env name False ts st = Ret (ts', n, st') \<Longrightarrow> case_sensitive cfg \<Longrightarrow> c_string name \<Longrightarrow>
     length (dbuf st) = MAXPATHLEN \<Longrightarrow> \<forall>t \<in> set (butlast ts). reads_as cfg t (ps t) \<Longrightarrow>
   (0 < n \<longleftrightarrow> (\<exists>t \<in> set (butlast ts). has_object t (ps t) name)) \<and> (n = 0 \<longrightarrow> outtran st' = outtran st)"
proof (induction cfg env name False ts st arbitrary: ts' n st' rule: tw_trans.induct)
  case (3 cfg env name t u ts st)
  obtain t' buf where s: "seek_name cfg name t (dbuf st) = Ret (t', buf)" "length buf = MAXPATHLEN"
    "at_name cfg name t' \<longleftrightarrow> has_object t (ps t) name"
    using reads_as_seek [of cfg t "ps t" name "dbuf st"] "3.prems" by auto
  show ?case
  proof (cases "at_name cfg name t'")
    case True
    with "3.prems"(1) s have "n = 1" by (auto simp: obind_Ret_iff)
    with True s(3) show ?thesis by auto
  next
    case False
    with "3.prems"(1) s(1) obtain ts1 st1 where r: "tw_trans cfg env name False (u # ts) (st\<lparr>dbuf := buf\<rparr>) = Ret (ts1, n, st')"
      by (auto simp: obind_Ret_iff)
    have "(0 < n \<longleftrightarrow> (\<exists>t \<in> set (butlast (u # ts)). has_object t (ps t) name)) \<and> (n = 0 \<longrightarrow> outtran st' = outtran (st\<lparr>dbuf := buf\<rparr>))"
      by (rule "3.hyps"(1) [OF s(1) refl _ _ r]) (use False "3.prems" s(2) in simp_all)
    then show ?thesis using False s(3) by simp
  qed
qed simp_all

lemma lf_trans_finds:
  "lf_trans cfg name ts buf = Ret r \<Longrightarrow> case_sensitive cfg \<Longrightarrow> c_string name \<Longrightarrow> length buf = MAXPATHLEN \<Longrightarrow>
     \<forall>t \<in> set (takeWhile (\<lambda>t. \<not> t_eof t) ts). reads_as cfg t (ps t) \<Longrightarrow>
   r \<noteq> None \<longleftrightarrow> (\<exists>t \<in> set (takeWhile (\<lambda>t. \<not> t_eof t) ts). has_object t (ps t) name)"
proof (induction cfg name ts buf rule: lf_trans.induct)
  case (2 cfg name t ts buf)
  show ?case
  proof (cases "t_eof t")
    case True
    with "2.prems"(1) show ?thesis by simp
  next
    case False
    obtain t' buf' where s: "seek_name cfg name t buf = Ret (t', buf')" "length buf' = MAXPATHLEN"
      "at_name cfg name t' \<longleftrightarrow> has_object t (ps t) name"
      using reads_as_seek [of cfg t "ps t" name buf] "2.prems" False by auto
    show ?thesis
    proof (cases "at_name cfg name t'")
      case True
      with "2.prems"(1) s False show ?thesis by auto
    next
      case none: False
      have r: "lf_trans cfg name ts buf' = Ret r" using "2.prems"(1) s(1) False none by simp
      have "r \<noteq> None \<longleftrightarrow> (\<exists>t \<in> set (takeWhile (\<lambda>t. \<not> t_eof t) ts). has_object t (ps t) name)"
        by (rule "2.IH" [OF False s(1) refl none r]) (use "2.prems" s(2) False in simp_all)
      then show ?thesis using none False s(3) by simp
    qed
  qed
qed simp

lemma searches_find:
  assumes "twhich cfg env name False st = Ret (n, st')" "lf_trans cfg name (tran_list st) (dbuf st) = Ret r"
    "exclude_list st = []" "case_sensitive cfg" "c_string name" "length (dbuf st) = MAXPATHLEN"
    "tran_list st \<noteq> []" "t_eof (last (tran_list st))" "\<forall>t \<in> set (butlast (tran_list st)). reads_as cfg t (ps t)"
  shows "(n = 0 \<longleftrightarrow> (\<exists>t \<in> set (butlast (tran_list st)). has_object t (ps t) name)) \<and> (n = 1 \<longrightarrow> outtran st' = outtran st) \<and>
    (r \<noteq> None \<longleftrightarrow> (\<exists>t \<in> set (takeWhile (\<lambda>t. \<not> t_eof t) (tran_list st)). has_object t (ps t) name))"
proof -
  have same: "st\<lparr>exclude_list := []\<rparr> = st" using assms(3) by simp
  from assms(1,3) obtain ts k st1 where k: "tw_trans cfg env name False (tran_list st) st = Ret (ts, k, st1)"
    "n = (if 0 < k then 0 else 1)" "outtran st' = outtran st1"
    by (auto simp: twhich_def obind_Ret_iff same)
  have e: "takeWhile (\<lambda>t. \<not> t_eof t) (tran_list st) = takeWhile (\<lambda>t. \<not> t_eof t) (butlast (tran_list st))"
  proof -
    have "tran_list st = butlast (tran_list st) @ [last (tran_list st)]" using assms(7) by simp
    then show ?thesis using assms(8) by (metis (mono_tags, lifting) takeWhile_tail)
  qed
  have l: "\<forall>t \<in> set (takeWhile (\<lambda>t. \<not> t_eof t) (tran_list st)). reads_as cfg t (ps t)"
    unfolding e using assms(9) by (auto dest: set_takeWhileD)
  have "(0 < k \<longleftrightarrow> (\<exists>t \<in> set (butlast (tran_list st)). has_object t (ps t) name)) \<and> (k = 0 \<longrightarrow> outtran st1 = outtran st)"
    by (rule tw_trans_finds [OF k(1) assms(4-6,9)])
  moreover have "r \<noteq> None \<longleftrightarrow> (\<exists>t \<in> set (takeWhile (\<lambda>t. \<not> t_eof t) (tran_list st)). has_object t (ps t) name)"
    by (rule lf_trans_finds [OF assms(2,4-6) l])
  ultimately show ?thesis using k(2,3) by auto
qed

section \<open>The arguments of \<open>diff\<close>\<close>

lemma diff_end_overflows:
  "2 \<le> length args \<Longrightarrow> diff_end file args = UB"
  by (simp add: diff_end_def put_arg_def)

lemma diff_end_works:
  "diff_end file [a] = Ret [a, ''--'', ''-'', file]"
  by (simp add: diff_end_def put_arg_def)

lemma put_args_Ret:
  "fold (\<lambda>w m. obind m (\<lambda>args. put_arg n args w)) ws r = Ret as \<Longrightarrow>
     \<exists>args. r = Ret args \<and> length as = length args + length ws"
  by (induction ws arbitrary: r) (force simp: obind_Ret_iff put_arg_def split: if_splits)+

lemma diff_option_grows:
  assumes "diff_option d args = Ret as"
  shows "length args \<le> length as \<and> (d \<noteq> DMore [] \<longrightarrow> length args < length as)"
proof (cases d)
  case (DMore ws)
  with assms have "length as = length args + length ws"
    using put_args_Ret [of "1 + length ws" ws "Ret args" as] by (auto simp: diff_option_def)
  then show ?thesis using DMore by simp
qed (use assms in \<open>auto simp: diff_option_def put_arg_def obind_Ret_iff split: if_splits\<close>)

lemma diff_options_grow:
  "diff_options ds args = Ret as \<Longrightarrow> length args \<le> length as \<and> ((\<exists>d \<in> set ds. d \<noteq> DMore []) \<longrightarrow> length args < length as)"
proof (induction ds arbitrary: args)
  case (Cons d ds)
  from Cons.prems obtain as1 where a: "diff_option d args = Ret as1" "diff_options ds as1 = Ret as"
    by (auto simp: obind_Ret_iff)
  show ?case using diff_option_grows [OF a(1)] Cons.IH [OF a(2)] by auto
qed simp

lemma put_args_no_Exit:
  "(\<And>k. r \<noteq> Exit k) \<Longrightarrow> fold (\<lambda>w m. obind m (\<lambda>args. put_arg n args w)) ws r \<noteq> Exit k"
proof (induction ws arbitrary: r)
  case (Cons w ws)
  show ?case
    unfolding fold_Cons comp_apply
    by (rule Cons.IH) (cases r, use Cons.prems in \<open>auto simp: put_arg_def\<close>)
qed simp

lemma diff_option_no_Exit: "diff_option d args \<noteq> Exit k"
proof (cases d)
  case (DMore ws)
  then show ?thesis using put_args_no_Exit [of "Ret args" "1 + length ws" ws] by (simp add: diff_option_def)
qed (auto simp: diff_option_def put_arg_def)

lemma diff_options_no_Exit: "diff_options ds args \<noteq> Exit k"
proof (induction ds arbitrary: args)
  case (Cons d ds)
  then show ?case using diff_option_no_Exit [of d args] by (cases "diff_option d args") auto
qed simp

lemma no_diff_options: "\<forall>d \<in> set ds. d = DMore [] \<Longrightarrow> diff_options ds args = Ret args"
  by (induction ds) (auto simp: diff_option_def)

text \<open>Any option of \<open>diff\<close> makes the last resize too small.\<close>

lemma diff_arguments:
  "obind (diff_options ds [prog]) (diff_end file) =
     (if \<forall>d \<in> set ds. d = DMore [] then Ret [prog, ''--'', ''-'', file] else UB)"
proof (cases "\<forall>d \<in> set ds. d = DMore []")
  case True
  then show ?thesis by (simp add: no_diff_options diff_end_works)
next
  case False
  then show ?thesis
    using diff_options_grow [of ds "[prog]"] diff_options_no_Exit [of ds "[prog]"]
    by (cases "diff_options ds [prog]") (auto simp: diff_end_overflows)
qed

end
