(* ===== verification/Repo.thy ===== *)
theory Repo
  imports Rmdirs Connect
begin

text \<open>
  \<open>repo.c\<close>: sends a report to the server. The model starts with the options read and the connection made; TLS is left
  out. The bounds of the message are those of its array.
\<close>

text \<open>Without arguments the message is the first line of the standard input, without its newline.\<close>

definition repo_stdin :: "string \<Rightarrow> string outcome" where
  "repo_stdin inp =
     (case fgets (2 * MAXPATHLEN) inp of
        None \<Rightarrow> Exit 2
      | Some (buf, rest) \<Rightarrow>
          let line = cstr buf in
          if line = [] then UB else if last line \<noteq> NL then Exit 2 else Ret (butlast line))"

text \<open>Otherwise it is the arguments with blanks between them.\<close>

fun repo_append :: "string \<Rightarrow> string list \<Rightarrow> string outcome" where
  "repo_append data [] = Ret data"
| "repo_append data (a # as) =
     (if 2 * MAXPATHLEN \<le> length data + length a + 2 then Exit 2 else repo_append (data @ [SP] @ a) as)"

definition repo_message :: "string \<Rightarrow> string list \<Rightarrow> string outcome" where
  "repo_message inp args =
     (case args of
        [] \<Rightarrow> repo_stdin inp
      | a # as \<Rightarrow> if 2 * MAXPATHLEN \<le> length a then Exit 2 else repo_append a as)"

definition repo_main :: "os \<Rightarrow> int \<Rightarrow> string \<Rightarrow> string \<Rightarrow> string list \<Rightarrow> history \<Rightarrow> history outcome option" where
  "repo_main os zlib_level event inp args h =
     dbind (Some (repo_message inp args)) (\<lambda>data.
     dbind (get_capabilities os None h) (\<lambda>(capa, h).
       case capa of
         None \<Rightarrow> Some (Exit 2)
       | Some capa \<Rightarrow>
           (case (if 0 < zlib_level then negotiate_compression os zlib_level capa h else (0, h)) of
              (n, h) \<Rightarrow>
                if n \<noteq> 0 then Some (Exit 2)
                else if \<not> check_capability ''REPO'' capa then Some (Exit 2)
                else Some (obind (report_event os event data h) (\<lambda>(n, h).
                       if n \<noteq> 0 then Exit 2
                       else (case closesn os h of
                               (Inl n, h) \<Rightarrow> Exit n
                             | (Inr n, h) \<Rightarrow> if n \<noteq> 0 then Exit 2 else Ret h))))))"

text \<open>A message fits its array with the terminator.\<close>

lemma repo_append_bound:
  "repo_append data as = Ret d \<Longrightarrow> length data < 2 * MAXPATHLEN \<Longrightarrow> length d < 2 * MAXPATHLEN"
  by (induction data as rule: repo_append.induct) (auto split: if_splits)

lemma repo_message_bound: "repo_message inp args = Ret d \<Longrightarrow> length d < 2 * MAXPATHLEN"
proof (cases args)
  case Nil
  assume "repo_message inp args = Ret d"
  with Nil obtain buf rest where f: "fgets (2 * MAXPATHLEN) inp = Some (buf, rest)" "d = butlast (cstr buf)"
    by (auto simp: repo_message_def repo_stdin_def Let_def split: option.splits if_splits)
  have "length buf < 2 * MAXPATHLEN" using f(1) by (auto simp: fgets_def Let_def MAXPATHLEN_def split: if_splits)
  moreover have "length (cstr buf) \<le> length buf" unfolding cstr_def by (rule length_takeWhile_le)
  ultimately show ?thesis using f(2) by simp
next
  case (Cons a as)
  assume "repo_message inp args = Ret d"
  with Cons show ?thesis by (auto simp: repo_message_def split: if_splits intro: repo_append_bound)
qed

end
