(* ===== verification/Lsize.thy ===== *)
theory Lsize
  imports Rmdirs Argv NameSet
begin

text \<open>
  \<open>lsize.c\<close>: the size of a loadset, the sum of the sizes in its transcripts. \<open>text\<close> gives the texts of files, which are read
  without an error once they are open. The sums are 64 bits wide.
\<close>

section \<open>\<open>lsize\<close>\<close>

text \<open>\<open>strtoull\<close>: the second component says that the number does not fit.\<close>

definition strtoull :: "nat \<Rightarrow> string \<Rightarrow> 64 word \<times> bool" where
  "strtoull b s =
     (let i = strtol_raw b s in
      if 2 ^ 64 \<le> \<bar>i\<bar> then (- 1, True) else (word_of_int i, False))"

text \<open>\<open>erange\<close> says that \<open>errno\<close> is \<open>ERANGE\<close> or \<open>EINVAL\<close> already, which nobody resets.\<close>

function lsize_lines :: "bool \<Rightarrow> string \<Rightarrow> 64 word \<Rightarrow> (64 word) outcome" where
  "lsize_lines erange inp tot =
     (case fgets (2 * MAXPATHLEN) inp of
        None \<Rightarrow> Ret tot
      | Some (buf, rest) \<Rightarrow>
          obind (argcargv (cstr buf)) (\<lambda>av.
            if length av \<noteq> 8 then lsize_lines erange rest tot
            else if char_at (av ! 0) 0 \<notin> {CHR ''a'', CHR ''f''} then lsize_lines erange rest tot
            else (case strtoull 10 (av ! 6) of
                    (cur, over) \<Rightarrow> if over \<or> erange then Exit 2 else lsize_lines erange rest (tot + cur))))"
  by pat_completeness auto
termination
  by (relation "measure (\<lambda>(_, inp, _). length inp)") (auto dest!: fgets_shrinks simp: MAXPATHLEN_def)

declare lsize_lines.simps [simp del]

definition lsize :: "bool \<Rightarrow> (string \<Rightarrow> string option) \<Rightarrow> string \<Rightarrow> (64 word) outcome" where
  "lsize erange txt tpath = (case txt tpath of None \<Rightarrow> Exit 2 | Some inp \<Rightarrow> lsize_lines erange inp 0)"

section \<open>\<open>kfile_size\<close>\<close>

text \<open>Where the names of a command file lead; \<open>kdir\<close> is the directory of the first one.\<close>

definition size_path :: "string \<Rightarrow> string \<Rightarrow> bool \<Rightarrow> string list \<Rightarrow> string option" where
  "size_path radmind kdir on_server av =
     snprintf MAXPATHLEN
       (if on_server
        then radmind @ [SLASH] @ (if char_at (av ! 0) 0 = CHR ''k'' then ''command'' else ''transcript'') @ [SLASH] @ av ! 1
        else kdir @ av ! 1)"

text \<open>
  A job is the rest of an open command file; \<open>seen\<close> is \<open>kfile_list\<close>. The result \<open>None\<close> is \<open>-1\<close>. A total that is
  negative as an \<open>off_t\<close> ends the program that includes it too.
\<close>

partial_function (option) kfile_size ::
  "bool \<Rightarrow> (string \<Rightarrow> string option) \<Rightarrow> string \<Rightarrow> string \<Rightarrow> bool \<Rightarrow> string \<Rightarrow> 64 word \<Rightarrow> string list \<Rightarrow>
    (((64 word) option \<times> string list) outcome) option" where
  "kfile_size erange txt radmind kdir on_server inp tot seen =
     (case fgets MAXPATHLEN inp of
        None \<Rightarrow> Some (Ret (Some tot, seen))
      | Some (buf, rest) \<Rightarrow>
          let line = cstr buf in
          if line = [] then Some UB
          else if last line \<noteq> NL then Some (Ret (None, seen))
          else dbind (Some (argcargv line)) (\<lambda>av.
            let c = char_at (av ! 0) 0 in
            if av = [] \<or> c = CHR ''#'' then kfile_size erange txt radmind kdir on_server rest tot seen
            else if length av \<noteq> 2 then Some (Ret (None, seen))
            else (case size_path radmind kdir on_server av of
                    None \<Rightarrow> Some (Ret (None, seen))
                  | Some path \<Rightarrow>
                      if c = CHR ''k'' then
                        (if names_check seen path then Some (Ret (None, seen))
                         else dbind (Some (names_insert seen path)) (\<lambda>(n, seen).
                           if n \<noteq> 0 then Some (Ret (None, seen))
                           else (case txt path of
                                   None \<Rightarrow> Some (Ret (None, seen))
                                 | Some inner \<Rightarrow>
                                     dbind (kfile_size erange txt radmind kdir on_server inner 0 seen) (\<lambda>(cur, seen).
                                       case cur of
                                         None \<Rightarrow> Some (Ret (None, seen))
                                       | Some n \<Rightarrow>
                                           if sint n < 0 then Some (Ret (None, seen))
                                           else kfile_size erange txt radmind kdir on_server rest (tot + n) seen))))
                      else if c = CHR ''n'' \<or> c = CHR ''s''
                      then kfile_size erange txt radmind kdir on_server rest tot seen
                      else if c = CHR ''p''
                      then dbind (Some (lsize erange txt path)) (\<lambda>n.
                             kfile_size erange txt radmind kdir on_server rest (tot + n) seen)
                      else Some (Ret (None, seen)))))"

section \<open>\<open>main\<close>\<close>

text \<open>The program divides the sum by a factor for its output. Command files are always looked for on the server.\<close>

definition lsize_main :: "bool \<Rightarrow> (string \<Rightarrow> string option) \<Rightarrow> string \<Rightarrow> string \<Rightarrow> int outcome option" where
  "lsize_main erange txt radmind path =
     (case strrchr path (CHR ''.'') of
        Some (pre, ''K'') \<Rightarrow>
          if MAXPATHLEN \<le> length path then Some (Exit 2)
          else (let kdir = (case strrchr path SLASH of None \<Rightarrow> ''./'' | Some (pre, _) \<Rightarrow> pre @ [SLASH]) in
                dbind (Some (names_insert [] path)) (\<lambda>(n, seen).
                  if n \<noteq> 0 then Some (Exit 2)
                  else (case txt path of
                          None \<Rightarrow> Some (Exit 2)
                        | Some inp \<Rightarrow>
                            dbind (kfile_size erange txt radmind kdir True inp 0 seen) (\<lambda>(r, seen).
                              case r of
                                None \<Rightarrow> Some (Exit 2)
                              | Some n \<Rightarrow> Some (if sint n < 0 then Exit 2 else Ret (sint n))))))
      | _ \<Rightarrow> Some (obind (lsize erange txt path) (\<lambda>n. Ret (sint n))))"

end
