(* ===== verification/Progress.thy ===== *)
theory Progress
  imports Argv C_Num Escape Pathcmp
begin

text \<open>
  \<open>progress.c\<close>: how much there is to do, from the lines of a transcript. The functions read an open stream and rewind it.
  Sums are of type \<open>off_t\<close>; printing the progress is left out.
\<close>

text \<open>\<open>LINE_MAX\<close> of the system, and \<open>PROGRESSUNIT\<close> of \<open>progress.h\<close>.\<close>

definition LINE_MAX :: nat where
  "LINE_MAX = 2048"

definition PROGRESSUNIT :: int where
  "PROGRESSUNIT = 1024"

definition off_add :: "int \<Rightarrow> int \<Rightarrow> int outcome" where
  "off_add a b = (if - (2 ^ 63) \<le> a + b \<and> a + b < 2 ^ 63 then Ret (a + b) else UB)"

definition linecheck :: "string list \<Rightarrow> unit outcome" where
  "linecheck av = (if length av < 8 then Exit 2 else Ret ())"

text \<open>A file of a transcript counts with the size in one of its words.\<close>

definition add_size :: "nat \<Rightarrow> string list \<Rightarrow> int \<Rightarrow> int outcome" where
  "add_size i av sz = obind (linecheck av) (\<lambda>_. off_add sz (strtol 10 (av ! i)))"

definition is_file_word :: "string \<Rightarrow> bool" where
  "is_file_word w \<longleftrightarrow> char_at w 0 = CHR ''a'' \<or> char_at w 0 = CHR ''f''"

definition size_line :: "string list \<Rightarrow> int \<Rightarrow> int outcome" where
  "size_line av sz = (if av \<noteq> [] \<and> is_file_word (av ! 0) then add_size 6 av sz else Ret sz)"

function loadsetsize :: "string \<Rightarrow> int \<Rightarrow> int outcome" where
  "loadsetsize inp sz =
     (case fgets LINE_MAX inp of
        None \<Rightarrow> Ret sz
      | Some (buf, rest) \<Rightarrow>
          obind (argcargv (cstr buf)) (\<lambda>av. obind (size_line av sz) (loadsetsize rest)))"
  by pat_completeness auto
termination
  by (relation "measure (\<lambda>(inp, _). length inp)") (auto dest!: fgets_shrinks simp: LINE_MAX_def)

definition apply_size_line :: "string list \<Rightarrow> int \<Rightarrow> int outcome" where
  "apply_size_line av sz =
     (if length av \<le> 1 then Ret sz
      else obind (if char_at (av ! 0) 0 = CHR ''+'' \<and> is_file_word (av ! 1) then add_size 7 av sz else Ret sz)
             (\<lambda>sz. off_add sz PROGRESSUNIT))"

function applyloadsetsize :: "string \<Rightarrow> int \<Rightarrow> int outcome" where
  "applyloadsetsize inp sz =
     (case fgets LINE_MAX inp of
        None \<Rightarrow> Ret sz
      | Some (buf, rest) \<Rightarrow>
          obind (argcargv (cstr buf)) (\<lambda>av. obind (apply_size_line av sz) (applyloadsetsize rest)))"
  by pat_completeness auto
termination
  by (relation "measure (\<lambda>(inp, _). length inp)") (auto dest!: fgets_shrinks simp: LINE_MAX_def)

text \<open>The result has the buffer of \<open>decode\<close>.\<close>

definition check_size_line :: "string option \<Rightarrow> string list \<Rightarrow> int \<Rightarrow> string \<Rightarrow> (int \<times> string) outcome" where
  "check_size_line prefix av sz buf =
     (if length av \<le> 1 then Ret (sz, buf)
      else obind (case prefix of
                    None \<Rightarrow> Ret (True, buf)
                  | Some p \<Rightarrow>
                      obind (decode (av ! 1) buf) (\<lambda>(d, buf).
                        case d of
                          None \<Rightarrow> Exit 2
                        | Some d \<Rightarrow> Ret (strncmp d p (length p) = 0, buf))) (\<lambda>(counts, buf).
             if \<not> counts then Ret (sz, buf)
             else obind (if is_file_word (av ! 0) then add_size 6 av sz else Ret sz) (\<lambda>sz.
                  obind (off_add sz PROGRESSUNIT) (\<lambda>sz. Ret (sz, buf)))))"

function lcksum_loadsetsize :: "string option \<Rightarrow> string \<Rightarrow> int \<Rightarrow> string \<Rightarrow> (int \<times> string) outcome" where
  "lcksum_loadsetsize prefix inp sz dbuf =
     (case fgets LINE_MAX inp of
        None \<Rightarrow> Ret (sz, dbuf)
      | Some (buf, rest) \<Rightarrow>
          obind (argcargv (cstr buf)) (\<lambda>av.
          obind (check_size_line prefix av sz dbuf) (\<lambda>(sz, dbuf). lcksum_loadsetsize prefix rest sz dbuf)))"
  by pat_completeness auto
termination
  by (relation "measure (\<lambda>(_, inp, _). length inp)") (auto dest!: fgets_shrinks simp: LINE_MAX_def)

declare loadsetsize.simps [simp del] applyloadsetsize.simps [simp del] lcksum_loadsetsize.simps [simp del]

end
