(* ===== verification/Pack.thy ===== *)
theory Pack
  imports Progress Rmdirs TranscriptRun Stream
begin

unbundle bit_operations_syntax

text \<open>
  \<open>t2pkg.c\<close> in the build without macOS: makes a tree of the objects of a transcript from the files of the server or of
  the client. The model starts with the options read. Progress output is left out.
\<close>

section \<open>Copying a file\<close>

text \<open>\<open>p_md\<close> is \<open>None\<close> without checksums.\<close>

record 'c pack_options =
  p_md :: "'c digest option"
  p_force :: bool
  p_server :: bool

text \<open>At \<open>error2\<close> both files are closed, whether or not that works.\<close>

definition close_both :: "os \<Rightarrow> string \<Rightarrow> string \<Rightarrow> history \<Rightarrow> history" where
  "close_both os src dst h = snd (answer os (Close dst) (snd (answer os (Close src) h)))"

text \<open>The result of the loop is what is left of the size and the digest context, or \<open>None\<close> when a write fails.\<close>

fun pack_data ::
  "(byte list \<Rightarrow> 'c \<Rightarrow> 'c) \<Rightarrow> os \<Rightarrow> string \<Rightarrow> read_result list \<Rightarrow> int \<Rightarrow> 'c \<Rightarrow> history \<Rightarrow>
    ((int \<times> 'c) option \<times> history) outcome" where
  "pack_data feed os dst [] sz c h = Ret (Some (sz, c), h)"
| "pack_data feed os dst (ReadError # rs) sz c h = Exit 2"
| "pack_data feed os dst (Bytes bs # rs) sz c h =
     (if bs = [] then Ret (Some (sz, c), h)
      else (case answer os (Write dst (chars_of bs)) h of
              (Some e, h) \<Rightarrow> Ret (None, h)
            | (None, h) \<Rightarrow> pack_data feed os dst rs (sz - int (length bs)) (feed bs c) h))"

definition pack_end ::
  "'c pack_options \<Rightarrow> os \<Rightarrow> string \<Rightarrow> string \<Rightarrow> string \<Rightarrow> string option \<Rightarrow> int \<Rightarrow> history \<Rightarrow> int \<times> history" where
  "pack_end opt os src dst trancksum b64 sz h =
     (case answer os (Close src) h of
        (Some e, h) \<Rightarrow> (-1, close_both os src dst h)
      | (None, h) \<Rightarrow>
     (case answer os (Close dst) h of
        (Some e, h) \<Rightarrow> (-1, h)
      | (None, h) \<Rightarrow>
          if sz \<noteq> 0 then (-1, h)
          else (case b64 of
                  None \<Rightarrow> (0, h)
                | Some c \<Rightarrow> (if strcmp trancksum c \<noteq> 0 \<and> \<not> p_force opt then -1 else 0, h))))"

text \<open>The function of the same name in \<open>lmerge.c\<close> is another one.\<close>

definition pack_copy_file ::
  "'c pack_options \<Rightarrow> os \<Rightarrow> pathinfo \<Rightarrow> string \<Rightarrow> string \<Rightarrow> history \<Rightarrow> (int \<times> history) outcome" where
  "pack_copy_file opt os p dst src h =
     (if p_md opt \<noteq> None \<and> strcmp (pi_cksum_b64 p) ''-'' = 0 then Ret (-1, h)
      else
     (case answer os (Open src) h of
        (Some e, h) \<Rightarrow> Ret (-1, h)
      | (None, h) \<Rightarrow>
     (case answer os (Create dst) h of
        (Some e, h) \<Rightarrow> Ret (-1, snd (answer os (Close src) h))
      | (None, h) \<Rightarrow>
     (case answer os (Fstat src) h of
        (Some e, h) \<Rightarrow> Ret (-1, close_both os src dst h)
      | (None, h) \<Rightarrow>
          let sz = st_size (os_stat os h src); rs = os_bytes os h src in
          if sz \<noteq> st_size (pi_stat p) \<and> \<not> p_force opt then Ret (-1, close_both os src dst h)
          else if pi_type p = CHR ''a'' then Ret (-1, close_both os src dst h)
          else (case p_md opt of
                  None \<Rightarrow>
                    obind (pack_data (\<lambda>bs c. c) os dst rs sz () h) (\<lambda>(r, h). Ret
                      (case r of
                         None \<Rightarrow> (-1, close_both os src dst h)
                       | Some (left, c) \<Rightarrow> pack_end opt os src dst (pi_cksum_b64 p) None left h))
                | Some md \<Rightarrow>
                    obind (pack_data (\<lambda>bs c. d_update md c bs) os dst rs sz (d_init md) h) (\<lambda>(r, h). Ret
                      (case r of
                         None \<Rightarrow> (-1, close_both os src dst h)
                       | Some (left, c) \<Rightarrow>
                           pack_end opt os src dst (pi_cksum_b64 p) (Some (base64_e (d_final md c))) left h)))))))"

section \<open>Making an object\<close>

text \<open>\<open>Inl n\<close> returns, \<open>Inr ()\<close> goes on to owner and mode.\<close>

definition pack_call :: "os \<Rightarrow> call \<Rightarrow> history \<Rightarrow> (int + unit) \<times> history" where
  "pack_call os c h = (case answer os c h of (Some e, h) \<Rightarrow> (Inl 1, h) | (None, h) \<Rightarrow> (Inr (), h))"

definition pack_link :: "os \<Rightarrow> call \<Rightarrow> history \<Rightarrow> (int + unit) \<times> history" where
  "pack_link os c h = (case answer os c h of (Some e, h) \<Rightarrow> (Inl 1, h) | (None, h) \<Rightarrow> (Inl 0, h))"

definition pack_make ::
  "'c pack_options \<Rightarrow> os \<Rightarrow> pathinfo \<Rightarrow> string \<Rightarrow> string \<Rightarrow> history \<Rightarrow> ((int + unit) \<times> history) outcome" where
  "pack_make opt os p dst src h =
     (let ty = pi_type p; mode = st_mode (pi_stat p) in
      if ty = CHR ''a'' \<or> ty = CHR ''f'' then
        obind (pack_copy_file opt os p dst src h) (\<lambda>(n, h). Ret (if n \<noteq> 0 then Inl 1 else Inr (), h))
      else if ty = CHR ''d'' then
        Ret (case answer os (Mkdir dst mode) h of
               (Some e, h) \<Rightarrow> (if e \<noteq> EEXIST then Inl 1 else Inr (), h)
             | (None, h) \<Rightarrow> (Inr (), h))
      else if ty = CHR ''h'' then Ret (pack_link os (Link (pi_link p) dst) h)
      else if ty = CHR ''l'' then Ret (pack_link os (Symlink (pi_link p) dst) h)
      else if ty = CHR ''p'' then Ret (pack_call os (Mkfifo dst (mode OR S_IFIFO)) h)
      else if ty = CHR ''b'' \<or> ty = CHR ''c'' then
        Ret (pack_call os (Mknod dst (mode OR (if ty = CHR ''b'' then S_IFBLK else S_IFCHR)) (st_rdev (pi_stat p))) h)
      else if ty = CHR ''D'' \<or> ty = CHR ''s'' then Ret (Inl 0, h)
      else Ret (Inl 1, h))"

definition pack_owner :: "os \<Rightarrow> pathinfo \<Rightarrow> string \<Rightarrow> history \<Rightarrow> int \<times> history" where
  "pack_owner os p dst h =
     (case answer os (Chown dst (st_uid (pi_stat p)) (st_gid (pi_stat p))) h of
        (Some e, h) \<Rightarrow> (1, h)
      | (None, h) \<Rightarrow>
     (case answer os (Chmod dst (T_MODE AND st_mode (pi_stat p))) h of
        (Some e, h) \<Rightarrow> (1, h)
      | (None, h) \<Rightarrow>
          if pi_type p = CHR ''a'' \<or> pi_type p = CHR ''f'' then
            (case answer os (Utime dst (st_mtime (pi_stat p))) h of
               (Some e, h) \<Rightarrow> (1, h)
             | (None, h) \<Rightarrow> (0, h))
          else (0, h)))"

definition local_update ::
  "'c pack_options \<Rightarrow> os \<Rightarrow> pathinfo \<Rightarrow> string \<Rightarrow> string \<Rightarrow> history \<Rightarrow> (int \<times> history) outcome" where
  "local_update opt os p dst src h =
     obind (pack_make opt os p dst src h) (\<lambda>(r, h).
       Ret (case r of Inl n \<Rightarrow> (n, h) | Inr u \<Rightarrow> pack_owner os p dst h))"

section \<open>\<open>main\<close>\<close>

text \<open>
  The objects in the order of \<open>transcript_select\<close>. \<open>mkdirs\<close> may fail, and then leaves \<open>dst\<close> cut off. When an object could not
  be made, the whole tree is removed and the run goes on. \<open>None\<close> is a run without end.
\<close>

partial_function (option) pack_objects ::
  "config \<Rightarrow> 'c pack_options \<Rightarrow> os \<Rightarrow> string \<Rightarrow> string \<Rightarrow> tstate \<Rightarrow> history \<Rightarrow> (tstate \<times> history) outcome option" where
  "pack_objects cfg opt os dstdir root st h =
     dbind (Some (transcript_select cfg st)) (\<lambda>(b, st).
       let t = tran_list st ! b; p = t_pinfo t in
       if t_eof t then Some (Ret (st, h))
       else (case snprintf MAXPATHLEN (dstdir @ [SLASH] @ pi_name p) of
               None \<Rightarrow> Some (Exit 2)
             | Some dst \<Rightarrow>
                 (case mkdirs os dst h of (made, h) \<Rightarrow>
                    let dst = (case made of None \<Rightarrow> dst | Some (e, prefix) \<Rightarrow> prefix) in
                    (case snprintf MAXPATHLEN (root @ [SLASH] @ pi_name p) of
                       None \<Rightarrow> Some (Exit 2)
                     | Some src \<Rightarrow>
                         dbind (Some (local_update opt os p dst src h)) (\<lambda>(n, h).
                           Option.bind (if n \<noteq> 0 then rmdirs os dstdir h else Some (True, h)) (\<lambda>(ok, h).
                             if \<not> ok then Some (Exit 2)
                             else dbind (Some (parse_at cfg b st)) (\<lambda>st. pack_objects cfg opt os dstdir root st h)))))))"

text \<open>
  \<open>real\<close> is the result of \<open>realpath\<close>, \<open>free\<close> the free space of a file system; \<open>env\<close> is what the transcript module reads. The
  destination gets mode and owner of \<open>root\<close>, before \<open>root\<close> is replaced on a server.
\<close>

definition pack_root :: "'c pack_options \<Rightarrow> string \<Rightarrow> string \<Rightarrow> string \<Rightarrow> string option" where
  "pack_root opt radpath root shortname =
     (if p_server opt then snprintf MAXPATHLEN (radpath @ ''/file/'' @ shortname) else Some root)"

definition short_name :: "string \<Rightarrow> string option" where
  "short_name path = snprintf MAXPATHLEN (case strrchr path SLASH of None \<Rightarrow> path | Some (d, f) \<Rightarrow> f)"

definition pack_dest :: "os \<Rightarrow> string \<Rightarrow> string \<Rightarrow> history \<Rightarrow> history outcome" where
  "pack_dest os dstdir root h =
     (case mkdirs os dstdir h of
        (Some e, h) \<Rightarrow> Exit 2
      | (None, h) \<Rightarrow>
     (case answer os (Stat root) h of
        (Some e, h) \<Rightarrow> Exit 2
      | (None, h) \<Rightarrow>
          let st = os_stat os h root in
     (case answer os (Mkdir dstdir 0x1FF) h of (made, h) \<Rightarrow>
        if made \<noteq> None \<and> made \<noteq> Some EEXIST then Exit 2
        else
     (case answer os (Chmod dstdir (st_mode st)) h of
        (Some e, h) \<Rightarrow> Exit 2
      | (None, h) \<Rightarrow>
     (case answer os (Chown dstdir (st_uid st) (st_gid st)) h of
        (Some e, h) \<Rightarrow> Exit 2
      | (None, h) \<Rightarrow> Ret h)))))"

definition pack_space :: "os \<Rightarrow> (history \<Rightarrow> string \<Rightarrow> int option) \<Rightarrow> string \<Rightarrow> string \<Rightarrow> history \<Rightarrow> history outcome" where
  "pack_space os free tpath dstdir h =
     (case answer os (Fopen tpath) h of
        (Some e, h) \<Rightarrow> Exit 2
      | (None, h) \<Rightarrow>
          obind (loadsetsize (os_text os h tpath) 0) (\<lambda>need.
            (case answer os (Close tpath) h of
               (Some e, h) \<Rightarrow> Exit 2
             | (None, h) \<Rightarrow>
                 (case free h dstdir of
                    None \<Rightarrow> Exit 2
                  | Some space \<Rightarrow> if space < 0 then Exit 2 else if space \<le> need then Exit 1 else Ret h))))"

definition t2pkg_main ::
  "nat \<Rightarrow> config \<Rightarrow> 'd env \<Rightarrow> 'c pack_options \<Rightarrow> os \<Rightarrow> (string \<Rightarrow> string option) \<Rightarrow>
    (history \<Rightarrow> string \<Rightarrow> int option) \<Rightarrow> string \<Rightarrow> string \<Rightarrow> string \<Rightarrow> string \<Rightarrow> tstate \<Rightarrow> history \<Rightarrow>
    (tstate \<times> history) outcome option" where
  "t2pkg_main depth base env opt os real free radpath root dstdir tpath st h =
     (case (real tpath, short_name tpath) of
        (Some fullpath, Some shortname) \<Rightarrow>
          dbind (Some (pack_dest os dstdir root h)) (\<lambda>h.
          dbind (Some (pack_space os free tpath dstdir h)) (\<lambda>h.
            (case pack_root opt radpath root shortname of
               None \<Rightarrow> Some (Exit 2)
             | Some root \<Rightarrow>
                 let cfg = base\<lparr>edit_path := CREATABLE\<rparr>; kfile = ''/dev/null'' in
                 dbind (Some (transcript_init depth cfg env kfile (if p_server opt then K_SERVER else K_CLIENT) st)) (\<lambda>st.
                 dbind (Some (t_new cfg env T_POSITIVE fullpath shortname kfile st)) (\<lambda>st.
                   pack_objects cfg opt os dstdir root st h)))))
      | _ \<Rightarrow> Some (Exit 2))"

section \<open>What a copy is\<close>

lemma pack_data_done:
  "pack_data feed os dst rs sz c h = Ret (Some (left, c'), h') \<Longrightarrow>
     \<exists>k. h' = h @ k \<and> written dst k = chars_of (read_all rs) \<and> left = sz - int (length (read_all rs))"
proof (induction feed os dst rs sz c h rule: pack_data.induct)
  case (3 feed os dst bs rs sz c h)
  show ?case
  proof (cases "bs = []")
    case False
    let ?e = "Did (Write dst (chars_of bs)) None"
    from "3.prems" False have a: "os_err os h (Write dst (chars_of bs)) = None"
      and r: "pack_data feed os dst rs (sz - int (length bs)) (feed bs c) (h @ [?e]) = Ret (Some (left, c'), h')"
      by (auto simp: answer_split split: option.splits)
    from "3.IH" [OF False _ _ r] a obtain k where
      "h' = (h @ [?e]) @ k" "written dst k = chars_of (read_all rs)" "left = sz - int (length bs) - int (length (read_all rs))"
      by (auto simp: answer_split)
    then have "h' = h @ ?e # k \<and> written dst (?e # k) = chars_of (read_all (Bytes bs # rs)) \<and>
        left = sz - int (length (read_all (Bytes bs # rs)))"
      using False by (simp add: chars_of_def)
    then show ?thesis by blast
  qed (use "3.prems" in \<open>simp add: chars_of_def\<close>)
qed (simp_all add: chars_of_def)

lemma pack_data_fcksum:
  "pack_data (\<lambda>bs c. d_update md c bs) os dst rs sz c h = Ret (Some (left, c'), h') \<Longrightarrow>
     fcksum_loop md c n rs = Some (n + int (length (read_all rs)), c')"
proof (induction rs arbitrary: sz c h n)
  case (Cons r rs)
  then show ?case
    by (cases r) (auto simp: answer_split algebra_simps split: option.splits if_splits)
qed simp

lemma pack_end_0:
  assumes "pack_end opt os src dst tc b64 sz h = (0, h')"
  shows "sz = 0 \<and> (\<forall>c. b64 = Some c \<longrightarrow> strcmp tc c = 0 \<or> p_force opt) \<and>
    h' = h @ [Did (Close src) None, Did (Close dst) None]"
  using assms by (auto simp: pack_end_def answer_split split: option.splits if_splits)

text \<open>A copy that is reported as made has the contents of the source, of the size and the checksum in the transcript.\<close>

lemma pack_copy_made:
  assumes "pack_copy_file opt os p dst src h = Ret (0, h')" "\<not> p_force opt" "p_md opt = Some md" "c_string (pi_cksum_b64 p)"
  shows "\<exists>h1 k. h' = h @ k \<and> do_fcksum md (os_bytes os h1 src) = (st_size (pi_stat p), Some (pi_cksum_b64 p)) \<and>
    written dst k = chars_of (read_all (os_bytes os h1 src)) \<and> Did (Create dst) None \<in> set k"
proof -
  define h1 where "h1 = h @ [Did (Open src) None, Did (Create dst) None, Did (Fstat src) None]"
  define rs where "rs = os_bytes os h1 src"
  from assms(1-3) obtain left c h2 where
    d: "pack_data (\<lambda>bs c. d_update md c bs) os dst rs (st_size (pi_stat p)) (d_init md) h1 = Ret (Some (left, c), h2)"
    and e: "pack_end opt os src dst (pi_cksum_b64 p) (Some (base64_e (d_final md c))) left h2 = (0, h')"
    unfolding pack_copy_file_def h1_def rs_def
    by (auto simp: answer_split obind_Ret_iff Let_def split: option.splits if_splits)
  from pack_data_done [OF d] obtain k where k: "h2 = h1 @ k" "written dst k = chars_of (read_all rs)"
    "left = st_size (pi_stat p) - int (length (read_all rs))" by blast
  note z = pack_end_0 [OF e]
  have "strcmp (pi_cksum_b64 p) (base64_e (d_final md c)) = 0" using z assms(2) by blast
  then have "pi_cksum_b64 p = base64_e (d_final md c)"
    using strcmp_0 [OF assms(4) c_string_base64] by simp
  then have "do_fcksum md rs = (st_size (pi_stat p), Some (pi_cksum_b64 p))"
    using pack_data_fcksum [OF d, of 0] k(3) z by (simp add: do_fcksum_def)
  moreover have "h' = h @ [Did (Open src) None, Did (Create dst) None, Did (Fstat src) None] @ k @
      [Did (Close src) None, Did (Close dst) None]"
    using z k(1) by (simp add: h1_def)
  moreover have "written dst ([Did (Open src) None, Did (Create dst) None, Did (Fstat src) None] @ k @
      [Did (Close src) None, Did (Close dst) None]) = chars_of (read_all rs)"
    using k(2) by (simp add: written_append)
  ultimately show ?thesis unfolding rs_def by force
qed

lemma pack_owner_0:
  assumes "pack_owner os p dst h = (0, h')" "pi_type p = CHR ''f''"
  shows "h' = h @ [Did (Chown dst (st_uid (pi_stat p)) (st_gid (pi_stat p))) None,
    Did (Chmod dst (T_MODE AND st_mode (pi_stat p))) None, Did (Utime dst (st_mtime (pi_stat p))) None]"
  using assms by (auto simp: pack_owner_def answer_split split: option.splits)

lemma packed_file:
  assumes "local_update opt os p dst src h = Ret (0, h')" "pi_type p = CHR ''f''" "\<not> p_force opt" "p_md opt = Some md"
    "c_string (pi_cksum_b64 p)"
  shows "\<exists>h1 k. h' = h @ k @ [Did (Chown dst (st_uid (pi_stat p)) (st_gid (pi_stat p))) None,
      Did (Chmod dst (T_MODE AND st_mode (pi_stat p))) None, Did (Utime dst (st_mtime (pi_stat p))) None] \<and>
    Did (Create dst) None \<in> set k \<and> written dst k = chars_of (read_all (os_bytes os h1 src)) \<and>
    do_fcksum md (os_bytes os h1 src) = (st_size (pi_stat p), Some (pi_cksum_b64 p))"
proof -
  from assms(1,2) obtain n h2 where c: "pack_copy_file opt os p dst src h = Ret (n, h2)"
    and o: "(if n \<noteq> 0 then (1, h2) else pack_owner os p dst h2) = (0, h')"
    by (auto simp: local_update_def pack_make_def obind_Ret_iff split: if_splits)
  from o have n: "n = 0" "pack_owner os p dst h2 = (0, h')" by (auto split: if_splits)
  from pack_copy_made [OF c [unfolded n(1)] assms(3-5)] obtain h1 k where
    "h2 = h @ k" "do_fcksum md (os_bytes os h1 src) = (st_size (pi_stat p), Some (pi_cksum_b64 p))"
    "written dst k = chars_of (read_all (os_bytes os h1 src))" "Did (Create dst) None \<in> set k" by blast
  with pack_owner_0 [OF n(2) assms(2)] show ?thesis by auto
qed

text \<open>An object that could not be made does not end the run: its only trace in the result is that the tree is gone.\<close>

lemma pack_failure_ignored:
  assumes "transcript_select cfg st = Ret (b, st1)" "\<not> t_eof (tran_list st1 ! b)"
    "length (dstdir @ [SLASH] @ pi_name (t_pinfo (tran_list st1 ! b))) < MAXPATHLEN"
    "length (root @ [SLASH] @ pi_name (t_pinfo (tran_list st1 ! b))) < MAXPATHLEN"
    "mkdirs os (dstdir @ [SLASH] @ pi_name (t_pinfo (tran_list st1 ! b))) h = (None, h1)"
    "local_update opt os (t_pinfo (tran_list st1 ! b)) (dstdir @ [SLASH] @ pi_name (t_pinfo (tran_list st1 ! b)))
       (root @ [SLASH] @ pi_name (t_pinfo (tran_list st1 ! b))) h1 = Ret (n, h2)" "n \<noteq> 0"
    "rmdirs os dstdir h2 = Some (True, h3)" "parse_at cfg b st1 = Ret st2"
  shows "pack_objects cfg opt os dstdir root st h = pack_objects cfg opt os dstdir root st2 h3"
proof -
  have s: "snprintf MAXPATHLEN (d @ [SLASH] @ e) = Some (d @ [SLASH] @ e)" if "length (d @ [SLASH] @ e) < MAXPATHLEN" for d e
    using that by (simp only: snprintf_Some_iff simp_thms)
  show ?thesis
    unfolding pack_objects.simps [of cfg opt os dstdir root st h] assms(1) dbind_simps prod.case Let_def
      s [OF assms(3)] s [OF assms(4)] option.case assms(5,6,8,9)
    using assms(2,7) by simp
qed

end
