(* ===== verification/Tls.thy ===== *)
theory Tls
  imports Connect
begin

text \<open>
  \<open>tls.c\<close>: setting up TLS, and the client's check that the certificate of the server is for the host it wanted. OpenSSL is
  a parameter: \<open>ok\<close> says of the calls made so far whether the next one succeeds, and a certificate is
  what OpenSSL has made of it.
\<close>

section \<open>Setting up\<close>

datatype ssl_call =
    RandFileName
  | RandLoad
  | RandWrite
  | CtxNew
  | UsePrivateKey string
  | UseCertificateChain string
  | CheckPrivateKey
  | LoadFile string
  | LoadDir string

type_synonym openssl = "ssl_call list \<Rightarrow> ssl_call \<Rightarrow> bool"

definition ssl_do :: "openssl \<Rightarrow> ssl_call \<Rightarrow> ssl_call list \<Rightarrow> ssl_call list option" where
  "ssl_do ok c cs = (if ok cs c then Some (cs @ [c]) else None)"

definition randfile :: "openssl \<Rightarrow> ssl_call list \<Rightarrow> ssl_call list option" where
  "randfile ok cs =
     Option.bind (ssl_do ok RandFileName cs) (\<lambda>cs. Option.bind (ssl_do ok RandLoad cs) (ssl_do ok RandWrite))"

text \<open>A file or directory that may be missing.\<close>

definition ssl_load :: "openssl \<Rightarrow> (string \<Rightarrow> ssl_call) \<Rightarrow> string option \<Rightarrow> ssl_call list \<Rightarrow> ssl_call list option" where
  "ssl_load ok c f cs = (case f of None \<Rightarrow> Some cs | Some f \<Rightarrow> ssl_do ok (c f) cs)"

text \<open>
  What is asked of the certificates: the verify mode and the flags of the store. \<open>None\<close> is \<open>-1\<close>;
  \<open>ca\<close> is the default for the file of the certificate authority.
\<close>

datatype ssl_verify = VERIFY_PEER | VERIFY_FAIL_IF_NO_PEER_CERT

datatype crl_check = CRL_CHECK | CRL_CHECK_ALL

record tls_files =
  ca_file :: "string option"
  ca_dir :: "string option"
  crl_file :: "string option"
  crl_dir :: "string option"
  cert_file :: string
  key_file :: string

definition ssl_identity :: "openssl \<Rightarrow> tls_files \<Rightarrow> ssl_call list \<Rightarrow> ssl_call list option" where
  "ssl_identity ok fs cs =
     Option.bind (ssl_do ok (UsePrivateKey (key_file fs)) cs) (\<lambda>cs.
     Option.bind (ssl_do ok (UseCertificateChain (cert_file fs)) cs) (ssl_do ok CheckPrivateKey))"

definition ssl_authority :: "openssl \<Rightarrow> string \<Rightarrow> tls_files \<Rightarrow> ssl_call list \<Rightarrow> ssl_call list option" where
  "ssl_authority ok ca fs cs =
     Option.bind (ssl_load ok LoadFile (if ca_file fs = None \<and> ca_dir fs = None then Some ca else ca_file fs) cs)
       (ssl_load ok LoadDir (ca_dir fs))"

definition ssl_begin :: "openssl \<Rightarrow> bool \<Rightarrow> ssl_call list \<Rightarrow> ssl_call list option" where
  "ssl_begin ok use_randfile cs =
     Option.bind (if use_randfile then randfile ok cs else Some cs) (ssl_do ok CtxNew)"

definition server_mode :: "int \<Rightarrow> ssl_verify set" where
  "server_mode authlevel = (if authlevel \<in> {2, 3, 4} then {VERIFY_PEER, VERIFY_FAIL_IF_NO_PEER_CERT} else {})"

definition server_flags :: "int \<Rightarrow> crl_check set" where
  "server_flags authlevel =
     (if authlevel = 3 then {CRL_CHECK} else if authlevel = 4 then {CRL_CHECK, CRL_CHECK_ALL} else {})"

definition tls_server_setup ::
  "openssl \<Rightarrow> string \<Rightarrow> bool \<Rightarrow> int \<Rightarrow> tls_files \<Rightarrow> ssl_call list \<Rightarrow> (ssl_verify set \<times> crl_check set \<times> ssl_call list) option" where
  "tls_server_setup ok ca use_randfile authlevel fs cs =
     Option.bind (ssl_begin ok use_randfile cs) (\<lambda>cs.
     Option.bind (ssl_identity ok fs cs) (\<lambda>cs.
     Option.bind (if 2 \<le> authlevel then ssl_authority ok ca fs cs else Some cs) (\<lambda>cs.
     Option.bind (if 3 \<le> authlevel
                  then Option.bind (ssl_load ok LoadFile (crl_file fs) cs) (ssl_load ok LoadDir (crl_dir fs))
                  else Some cs) (\<lambda>cs.
       Some (server_mode authlevel, server_flags authlevel, cs)))))"

text \<open>The client shows a certificate of its own only on level 2.\<close>

definition tls_client_setup ::
  "openssl \<Rightarrow> string \<Rightarrow> bool \<Rightarrow> int \<Rightarrow> tls_files \<Rightarrow> ssl_call list \<Rightarrow> (ssl_verify set \<times> ssl_call list) option" where
  "tls_client_setup ok ca use_randfile authlevel fs cs =
     Option.bind (ssl_begin ok use_randfile cs) (\<lambda>cs.
     Option.bind (if authlevel = 2 then ssl_identity ok fs cs else Some cs) (\<lambda>cs.
     Option.bind (ssl_authority ok ca fs cs) (\<lambda>cs.
       Some ({VERIFY_PEER}, cs))))"

section \<open>The name in the certificate\<close>

text \<open>The names have no terminator and may hold any character.\<close>

datatype general_name = GEN_DNS string | GEN_IPADD "byte list" | GEN_OTHER

record certificate =
  c_alt :: "general_name list option"
  c_cn :: "string option"

definition strchr :: "string \<Rightarrow> char \<Rightarrow> string option" where
  "strchr s c = (if c \<in> set s then Some (dropWhile (\<lambda>d. d \<noteq> c) s) else None)"

text \<open>\<open>addr\<close> is the address that \<open>inet_aton\<close> makes of \<open>host\<close>, if it is one.\<close>

definition dns_matches :: "string \<Rightarrow> string \<Rightarrow> bool" where
  "dns_matches host sn \<longleftrightarrow>
     sn \<noteq> [] \<and>
     (length host = length sn \<and> strncasecmp host sn (length host) = 0 \<or>
      (case strchr host (CHR ''.'') of
         None \<Rightarrow> False
       | Some domain \<Rightarrow>
           char_at sn 0 = CHR ''*'' \<and> char_at sn 1 = CHR ''.'' \<and> length domain = length sn - 1 \<and>
           strncasecmp domain (drop 1 sn) (length domain) \<noteq> 0))"

definition alt_matches :: "byte list option \<Rightarrow> string \<Rightarrow> general_name \<Rightarrow> bool" where
  "alt_matches addr host gn =
     (case gn of
        GEN_DNS sn \<Rightarrow> addr = None \<and> dns_matches host sn
      | GEN_IPADD bs \<Rightarrow> (case addr of None \<Rightarrow> False | Some a \<Rightarrow> length bs = 4 \<and> bs = a)
      | GEN_OTHER \<Rightarrow> False)"

text \<open>
  The array for the common name has 1024 characters. It is not initialised, and stays so if the certificate has no
  common name.
\<close>

definition cert_matches :: "byte list option \<Rightarrow> string \<Rightarrow> certificate \<Rightarrow> bool outcome" where
  "cert_matches addr host peer =
     (if (case c_alt peer of None \<Rightarrow> False | Some alt \<Rightarrow> list_ex (alt_matches addr host) alt) then Ret True
      else (case c_cn peer of
              None \<Rightarrow> UB
            | Some cn \<Rightarrow> Ret (strcmp (cstr (take 1023 cn)) host = 0)))"

text \<open>\<open>peer\<close> is the certificate of the server after the handshake.\<close>

definition tls_client_start ::
  "os \<Rightarrow> (history \<Rightarrow> certificate option) \<Rightarrow> (string \<Rightarrow> byte list option) \<Rightarrow> string \<Rightarrow> history \<Rightarrow>
    (int \<times> history) outcome" where
  "tls_client_start os peer inet_aton host h =
     (case answer os (Send (''STARTTLS'' @ [CR, NL])) h of
        (Some e, h) \<Rightarrow> Ret (-1, h)
      | (None, h) \<Rightarrow>
     (case answer os GetLine h of
        (Some e, h) \<Rightarrow> Ret (-1, h)
      | (None, h) \<Rightarrow>
          if char_at (os_line os h) 0 \<noteq> CHR ''2'' then Ret (-1, h)
          else
     (case answer os StartTls h of
        (Some e, h) \<Rightarrow> Ret (-1, h)
      | (None, h) \<Rightarrow>
          (case peer h of
             None \<Rightarrow> Ret (-1, h)
           | Some c \<Rightarrow>
               obind (cert_matches (inet_aton host) host c) (\<lambda>b. Ret (if b then 0 else -1, h))))))"

section \<open>What is accepted\<close>

text \<open>A successful start has seen a certificate in a handshake that the server had agreed to.\<close>

lemma tls_client_start_0:
  assumes "tls_client_start os peer inet_aton host h = Ret (0, h')"
  shows "\<exists>c. h' = h @ [Did (Send (''STARTTLS'' @ [CR, NL])) None, Did GetLine None, Did StartTls None] \<and>
    peer h' = Some c \<and> cert_matches (inet_aton host) host c = Ret True"
  using assms
  by (auto simp: tls_client_start_def answer_split obind_Ret_iff split: option.splits if_splits)

lemma strcasecmp_0: "c_string s \<Longrightarrow> c_string t \<Longrightarrow> strcasecmp s t = 0 \<longleftrightarrow> map c_tolower s = map c_tolower t"
  by (induction s t rule: strcasecmp.induct) auto

lemma strncasecmp_0:
  "c_string s \<Longrightarrow> c_string t \<Longrightarrow> length s = n \<Longrightarrow> length t = n \<Longrightarrow>
     strncasecmp s t n = 0 \<longleftrightarrow> map c_tolower s = map c_tolower t"
  by (simp add: strncasecmp_def strcasecmp_0)

lemma strchr_first: "c \<notin> set l \<Longrightarrow> strchr (l @ c # d) c = Some (c # d)"
  by (induction l) (auto simp: strchr_def)

text \<open>
  A name with a star is taken for the host exactly when the rest of it differs from the domain of the
  host, in any letter, but has as many characters.
\<close>

lemma star_matches:
  assumes "CHR ''.'' \<notin> set l" "l \<noteq> ''*''" "c_string (l @ ''.'' @ d)" "c_string e"
  shows "dns_matches (l @ ''.'' @ d) (''*.'' @ e) \<longleftrightarrow> length d = length e \<and> map c_tolower d \<noteq> map c_tolower e"
proof -
  have c: "c_string l" "c_string d" using assms(3) by (simp_all add: c_string_def)
  have w: "strncasecmp (CHR ''.'' # d) (CHR ''.'' # e) (Suc (length d)) \<noteq> 0 \<longleftrightarrow> map c_tolower d \<noteq> map c_tolower e"
    if "length d = length e"
    using strncasecmp_0 [of "CHR ''.'' # d" "CHR ''.'' # e" "Suc (length d)"] c(2) assms(4) that by simp
  have x: "\<not> (length (l @ ''.'' @ d) = length (''*.'' @ e) \<and>
      strncasecmp (l @ ''.'' @ d) (''*.'' @ e) (length (l @ ''.'' @ d)) = 0)"
  proof
    assume a: "length (l @ ''.'' @ d) = length (''*.'' @ e) \<and>
      strncasecmp (l @ ''.'' @ d) (''*.'' @ e) (length (l @ ''.'' @ d)) = 0"
    then have k: "length (''*.'' @ e) = length (l @ ''.'' @ d)" by presburger
    have "c_string (''*.'' @ e)" using assms(4) by simp
    from strncasecmp_0 [OF assms(3) this refl k] a have m: "map c_tolower (l @ ''.'' @ d) = map c_tolower (''*.'' @ e)" by blast
    show False
    proof (cases l)
      case Nil
      with m show False by (simp add: c_tolower_def)
    next
      case (Cons a as)
      with m have "c_tolower a = CHR ''*''" by (simp add: c_tolower_def)
      then have "a = CHR ''*''" by (subst (asm) c_tolower_eq_code) simp_all
      moreover have "as = []"
      proof (cases as)
        case (Cons b bs)
        with m \<open>l = a # as\<close> have "c_tolower b = CHR ''.''" by (simp add: c_tolower_def)
        then have "b = CHR ''.''" by (subst (asm) c_tolower_eq_code) simp_all
        with assms(1) \<open>l = a # as\<close> Cons show ?thesis by simp
      qed
      ultimately show False using assms(2) Cons by simp
    qed
  qed
  have s: "strchr (l @ ''.'' @ d) (CHR ''.'') = Some (CHR ''.'' # d)" using strchr_first [OF assms(1), of d] by simp
  show ?thesis
    unfolding dns_matches_def s using x w by (auto simp: char_at_def)
qed

lemma client_start_accepts:
  assumes "\<forall>h c. os_err os h c = None" "\<forall>h. char_at (os_line os h) 0 = CHR ''2''" "\<forall>h. peer h = Some c"
  shows "(\<exists>h'. tls_client_start os peer inet_aton host h = Ret (0, h')) \<longleftrightarrow> cert_matches (inet_aton host) host c = Ret True"
  using assms by (cases "cert_matches (inet_aton host) host c") (simp_all add: tls_client_start_def answer_split)

lemma only_name:
  assumes "cstr (take 1023 cn) \<noteq> host" "c_string host"
  shows "cert_matches None host \<lparr>c_alt = Some [GEN_DNS sn], c_cn = Some cn\<rparr> = Ret True \<longleftrightarrow> dns_matches host sn"
  using strcmp_0 [OF c_string_cstr assms(2), of "take 1023 cn"] assms(1)
  by (simp add: cert_matches_def alt_matches_def)

lemma star_start:
  assumes "\<forall>h c. os_err os h c = None" "\<forall>h. char_at (os_line os h) 0 = CHR ''2''"
    "\<forall>h. peer h = Some \<lparr>c_alt = Some [GEN_DNS (''*.'' @ e)], c_cn = Some cn\<rparr>" "inet_aton (l @ ''.'' @ d) = None"
    "CHR ''.'' \<notin> set l" "l \<noteq> ''*''" "c_string (l @ ''.'' @ d)" "c_string e" "cstr (take 1023 cn) \<noteq> l @ ''.'' @ d"
  shows "(\<exists>h'. tls_client_start os peer inet_aton (l @ ''.'' @ d) h = Ret (0, h')) \<longleftrightarrow>
    length d = length e \<and> map c_tolower d \<noteq> map c_tolower e"
  unfolding client_start_accepts [OF assms(1-3)] assms(4) only_name [OF assms(9,7)] star_matches [OF assms(5-8)] ..

text \<open>On level 2 and above the server does not start without demanding a certificate, and has loaded an authority.\<close>

lemma ssl_do_Some [simp]: "ssl_do ok c cs = Some cs' \<longleftrightarrow> ok cs c \<and> cs' = cs @ [c]"
  by (auto simp: ssl_do_def)

lemma ssl_load_Some [simp]:
  "ssl_load ok c f cs = Some cs' \<longleftrightarrow> (case f of None \<Rightarrow> cs' = cs | Some p \<Rightarrow> ok cs (c p) \<and> cs' = cs @ [c p])"
  by (auto simp: ssl_load_def split: option.splits)

lemma ssl_begin_identity:
  "ssl_identity ok fs cs = Some cs' \<Longrightarrow> CheckPrivateKey \<in> set cs'"
  by (auto simp: ssl_identity_def bind_eq_Some_conv)

lemma ssl_load_keeps: "ssl_load ok c f cs = Some cs' \<Longrightarrow> set cs \<subseteq> set cs' \<and> (\<forall>p. f = Some p \<longrightarrow> c p \<in> set cs')"
  by (auto split: option.splits)

lemma ssl_authority_loads:
  assumes "ssl_authority ok ca fs cs = Some cs'"
  shows "set cs \<subseteq> set cs' \<and> (\<exists>f. LoadFile f \<in> set cs' \<or> LoadDir f \<in> set cs')"
proof -
  let ?f = "if ca_file fs = None \<and> ca_dir fs = None then Some ca else ca_file fs"
  from assms obtain cs1 where c: "ssl_load ok LoadFile ?f cs = Some cs1" "ssl_load ok LoadDir (ca_dir fs) cs1 = Some cs'"
    unfolding ssl_authority_def bind_eq_Some_conv by blast
  note k = ssl_load_keeps [OF c(1)] ssl_load_keeps [OF c(2)]
  have "(\<exists>p. ?f = Some p) \<or> (\<exists>p. ca_dir fs = Some p)" by auto
  with k show ?thesis by blast
qed

lemma server_demands:
  assumes "tls_server_setup ok ca r authlevel fs cs = Some (vs, crls, cs')" "2 \<le> authlevel" "authlevel \<le> 4"
  shows "vs = {VERIFY_PEER, VERIFY_FAIL_IF_NO_PEER_CERT} \<and> (3 \<le> authlevel \<longrightarrow> CRL_CHECK \<in> crls) \<and>
    (\<exists>f. LoadFile f \<in> set cs' \<or> LoadDir f \<in> set cs') \<and> CheckPrivateKey \<in> set cs'"
proof -
  from assms(1) obtain c1 c2 c3 where c: "ssl_identity ok fs c1 = Some c2"
    "(if 2 \<le> authlevel then ssl_authority ok ca fs c2 else Some c2) = Some c3"
    "(if 3 \<le> authlevel then Option.bind (ssl_load ok LoadFile (crl_file fs) c3) (ssl_load ok LoadDir (crl_dir fs)) else Some c3) = Some cs'"
    "vs = server_mode authlevel" "crls = server_flags authlevel"
    unfolding tls_server_setup_def bind_eq_Some_conv by blast
  have "set c3 \<subseteq> set cs'"
  proof (cases "3 \<le> authlevel")
    case True
    with c(3) have "Option.bind (ssl_load ok LoadFile (crl_file fs) c3) (ssl_load ok LoadDir (crl_dir fs)) = Some cs'" by simp
    then obtain c4 where "ssl_load ok LoadFile (crl_file fs) c3 = Some c4" "ssl_load ok LoadDir (crl_dir fs) c4 = Some cs'"
      unfolding bind_eq_Some_conv by blast
    then show ?thesis using ssl_load_keeps by blast
  qed (use c(3) in simp)
  moreover have "set c2 \<subseteq> set c3 \<and> (\<exists>f. LoadFile f \<in> set c3 \<or> LoadDir f \<in> set c3)"
    by (rule ssl_authority_loads) (use c(2) assms(2) in simp)
  moreover have "CheckPrivateKey \<in> set c2" by (rule ssl_begin_identity [OF c(1)])
  moreover have "authlevel = 2 \<or> authlevel = 3 \<or> authlevel = 4" using assms(2,3) by presburger
  ultimately show ?thesis using c(4,5) by (auto simp: server_mode_def server_flags_def)
qed

end
