(* ===== verification/Daemon.thy ===== *)
theory Daemon
  imports Tls ServerLoop
begin

text \<open>
  \<open>daemon.c\<close> and \<open>logname.c\<close>: the options of the server, its start, and its loop, which takes connections, starts a process
  for each and counts the processes that have not been waited for. Sockets are left out but for the
  answers of \<open>accept\<close>; so are leaving the terminal and the registration as a service.
\<close>

section \<open>Names of \<open>syslog\<close>\<close>

definition sysloglevel :: "(string \<times> int) list" where
  "sysloglevel =
     [(''emerg'', 0), (''alert'', 1), (''crit'', 2), (''err'', 3), (''warning'', 4), (''notice'', 5), (''info'', 6), (''debug'', 7)]"

definition syslogfacility :: "(string \<times> int) list" where
  "syslogfacility =
     [(''kern'', 0), (''user'', 8), (''mail'', 16), (''daemon'', 24), (''auth'', 32), (''syslog'', 40), (''lpr'', 48),
      (''news'', 56), (''uucp'', 64), (''cron'', 72), (''ftp'', 88), (''authpriv'', 80), (''local0'', 128), (''local1'', 136),
      (''local2'', 144), (''local3'', 152), (''local4'', 160), (''local5'', 168), (''local6'', 176), (''local7'', 184)]"

fun syslogname :: "string \<Rightarrow> (string \<times> int) list \<Rightarrow> int" where
  "syslogname name [] = -1"
| "syslogname name ((n, v) # ns) = (if strcasecmp n name = 0 then v else syslogname name ns)"

section \<open>Options\<close>

record daemon_opts =
  o_backlog :: int
  o_debug :: nat
  o_path :: string
  o_facility :: int
  o_fg :: bool
  o_level :: int
  o_maxconn :: int
  o_port :: int
  o_randfile :: bool
  o_checkuser :: bool
  o_authlevel :: int
  o_tls :: tls_files
  o_zlib :: int
  o_rap :: int

text \<open>
  One option that \<open>getopt\<close> has found, with its argument. The answer \<open>None\<close> counts an error; some options end the
  program. \<open>-u\<close> only sets the mask of the process and \<open>-a\<close> the address of the socket.
\<close>

definition daemon_option ::
  "os \<Rightarrow> (string \<Rightarrow> byte list option) \<Rightarrow> char \<times> string \<Rightarrow> daemon_opts \<Rightarrow> history \<Rightarrow>
    (daemon_opts option \<times> history) outcome" where
  "daemon_option os inet_aton opt d h =
     (case opt of (c, a) \<Rightarrow>
       if c = CHR ''a'' then (if inet_aton a = None then Exit 1 else Ret (Some d, h))
       else if c = CHR ''B'' \<or> c = CHR ''R'' then Exit 1
       else if c = CHR ''b'' then Ret (Some (d\<lparr>o_backlog := sint (atoi a)\<rparr>), h)
       else if c = CHR ''d'' then Ret (Some (d\<lparr>o_debug := Suc (o_debug d)\<rparr>), h)
       else if c = CHR ''C'' then
         (case answer os (Stat a) h of
            (Some e, h) \<Rightarrow> Exit 2
          | (None, h) \<Rightarrow>
              Ret (Some (if S_ISDIR (st_mode (os_stat os h a)) then d\<lparr>o_tls := (o_tls d)\<lparr>crl_dir := Some a\<rparr>\<rparr>
                         else d\<lparr>o_tls := (o_tls d)\<lparr>crl_file := Some a\<rparr>\<rparr>), h))
       else if c = CHR ''D'' then Ret (Some (d\<lparr>o_path := a\<rparr>), h)
       else if c = CHR ''F'' then
         (if syslogname a syslogfacility = -1 then Exit 1 else Ret (Some (d\<lparr>o_facility := syslogname a syslogfacility\<rparr>), h))
       else if c = CHR ''f'' then Ret (Some (d\<lparr>o_fg := True\<rparr>), h)
       else if c = CHR ''L'' then
         (if syslogname a sysloglevel = -1 then Exit 1 else Ret (Some (d\<lparr>o_level := syslogname a sysloglevel\<rparr>), h))
       else if c = CHR ''m'' then Ret (Some (d\<lparr>o_maxconn := sint (atoi a)\<rparr>), h)
       else if c = CHR ''p'' then Ret (Some (d\<lparr>o_port := uint (ucast (atoi a) :: 16 word)\<rparr>), h)
       else if c = CHR ''P'' then Ret (Some (d\<lparr>o_tls := (o_tls d)\<lparr>ca_dir := Some a\<rparr>\<rparr>), h)
       else if c = CHR ''r'' then Ret (Some (d\<lparr>o_randfile := True\<rparr>), h)
       else if c = CHR ''u'' then Ret (Some d, h)
       else if c = CHR ''U'' then Ret (Some (d\<lparr>o_checkuser := True\<rparr>), h)
       else if c = CHR ''V'' then Exit 0
       else if c = CHR ''w'' then
         (if sint (atoi a) < 0 \<or> 4 < sint (atoi a) then Exit 1 else Ret (Some (d\<lparr>o_authlevel := sint (atoi a)\<rparr>), h))
       else if c = CHR ''x'' then Ret (Some (d\<lparr>o_tls := (o_tls d)\<lparr>ca_file := Some a\<rparr>\<rparr>), h)
       else if c = CHR ''y'' then Ret (Some (d\<lparr>o_tls := (o_tls d)\<lparr>cert_file := a\<rparr>\<rparr>), h)
       else if c = CHR ''z'' then Ret (Some (d\<lparr>o_tls := (o_tls d)\<lparr>key_file := a\<rparr>\<rparr>), h)
       else if c = CHR ''Z'' then
         (if sint (atoi a) < 0 \<or> 9 < sint (atoi a) then Exit 1
          else Ret (Some (d\<lparr>o_zlib := sint (atoi a), o_rap := (if 0 < sint (atoi a) then o_rap d + 1 else o_rap d)\<rparr>), h))
       else Ret (None, h))"

fun daemon_options ::
  "os \<Rightarrow> (string \<Rightarrow> byte list option) \<Rightarrow> (char \<times> string) list \<Rightarrow> daemon_opts \<Rightarrow> nat \<Rightarrow> history \<Rightarrow>
    (daemon_opts \<times> nat \<times> history) outcome" where
  "daemon_options os inet_aton [] d err h = Ret (d, err, h)"
| "daemon_options os inet_aton (opt # opts) d err h =
     obind (daemon_option os inet_aton opt d h) (\<lambda>(r, h).
       case r of
         None \<Rightarrow> daemon_options os inet_aton opts d (Suc err) h
       | Some d \<Rightarrow> daemon_options os inet_aton opts d err h)"

text \<open>\<open>opts0\<close> has what the build sets.\<close>

definition daemon_args ::
  "os \<Rightarrow> (string \<Rightarrow> byte list option) \<Rightarrow> (char \<times> string) list \<Rightarrow> nat \<Rightarrow> daemon_opts \<Rightarrow> history \<Rightarrow>
    (daemon_opts \<times> history) outcome" where
  "daemon_args os inet_aton opts others opts0 h =
     obind (daemon_options os inet_aton opts (opts0\<lparr>o_tls := (o_tls opts0)\<lparr>ca_file := Some ''cert/ca.pem'',
              cert_file := ''cert/cert.pem'', key_file := ''cert/cert.pem''\<rparr>\<rparr>) 0 h) (\<lambda>(d, err, h).
       if 0 < err \<or> 0 < others then Exit 1
       else if o_maxconn d < 0 then Exit 1
       else if o_checkuser d \<and> o_authlevel d < 1 then Exit 1
       else if (crl_file (o_tls d) \<noteq> None \<or> crl_dir (o_tls d) \<noteq> None) \<and> o_authlevel d < 3 then Exit 1
       else Ret (d, h))"

section \<open>The directories of the server\<close>

fun daemon_dirs :: "os \<Rightarrow> string list \<Rightarrow> history \<Rightarrow> history outcome" where
  "daemon_dirs os [] h = Ret h"
| "daemon_dirs os (p # ps) h =
     (case answer os (Mkdir p 0x1E8) h of
        (Some e, h) \<Rightarrow> if e \<noteq> EEXIST then Exit 1 else daemon_dirs os ps h
      | (None, h) \<Rightarrow> daemon_dirs os ps h)"

text \<open>From the change to the directory of the server to the port; \<open>service\<close> is the port of the service, if there is one.\<close>

definition daemon_start ::
  "os \<Rightarrow> openssl \<Rightarrow> string \<Rightarrow> daemon_opts \<Rightarrow> int option \<Rightarrow> history \<Rightarrow> (int \<times> ssl_call list \<times> history) outcome" where
  "daemon_start os ok ca d service h =
     obind (daemon_dirs os [''command'', ''file'', ''special'', ''tmp'', ''tmp/file'', ''tmp/transcript'', ''transcript''] h) (\<lambda>h.
       let port = (if o_port d = 0 then (case service of None \<Rightarrow> 6222 | Some p \<Rightarrow> p) else o_port d) in
       if o_authlevel d = 0 then Ret (port, [], h)
       else (case tls_server_setup ok ca (o_randfile d) (o_authlevel d) (o_tls d) [] of
               None \<Rightarrow> Exit 1
             | Some (_, _, cs) \<Rightarrow> Ret (port, cs, h)))"

section \<open>The loop\<close>

text \<open>
  The places in the loop: before the test of \<open>reinit_ssl_signal\<close> and before its reset, before the test of
  \<open>child_signal\<close> and before its reset, before \<open>wait4\<close>, \<open>accept\<close> and \<open>fork\<close>, and after an \<open>exit\<close>.
\<close>

datatype daemon_pc = D_Reinit | D_Reset | D_Signal | D_Clear | D_Reap | D_Accept | D_Fork | D_Exit

text \<open>
  Besides the variables of the daemon the state has the processes it has started: those that run, those that have ended
  and were not waited for, and all with the count they were given. \<open>d_failed\<close> counts the calls of \<open>fork\<close> that
  have failed; the program does not keep it.
\<close>

record daemon =
  d_pc :: daemon_pc
  d_connections :: int
  d_signal :: nat
  d_reinit :: bool
  d_ssl :: "ssl_call list"
  d_alive :: "nat list"
  d_dead :: "nat list"
  d_failed :: nat
  d_served :: "(nat \<times> int) list"

definition daemon0 :: "ssl_call list \<Rightarrow> daemon" where
  "daemon0 cs = \<lparr>d_pc = D_Reinit, d_connections = 0, d_signal = 0, d_reinit = False, d_ssl = cs, d_alive = [],
     d_dead = [], d_failed = 0, d_served = []\<rparr>"

text \<open>The handlers \<open>chld\<close> and \<open>usr1\<close> run whenever their signal comes.\<close>

definition chld :: "daemon \<Rightarrow> daemon" where
  "chld s = s\<lparr>d_signal := Suc (d_signal s)\<rparr>"

definition usr1 :: "daemon \<Rightarrow> daemon" where
  "usr1 s = s\<lparr>d_reinit := True\<rparr>"

text \<open>The new TLS context, where one is needed.\<close>

definition reinit_ssl :: "openssl \<Rightarrow> string \<Rightarrow> daemon_opts \<Rightarrow> daemon \<Rightarrow> daemon" where
  "reinit_ssl ok ca d s =
     (if \<not> d_reinit s then s\<lparr>d_pc := D_Signal\<rparr>
      else if o_authlevel d = 0 then s\<lparr>d_pc := D_Reset\<rparr>
      else (case tls_server_setup ok ca (o_randfile d) (o_authlevel d) (o_tls d) (d_ssl s) of
              None \<Rightarrow> s\<lparr>d_pc := D_Exit\<rparr>
            | Some (_, _, cs) \<Rightarrow> s\<lparr>d_ssl := cs, d_pc := D_Reset\<rparr>))"

definition waited :: "nat \<Rightarrow> daemon \<Rightarrow> daemon" where
  "waited child s = s\<lparr>d_dead := remove1 child (d_dead s), d_connections := d_connections s - 1\<rparr>"

definition forked :: "nat \<Rightarrow> daemon \<Rightarrow> daemon" where
  "forked child s = s\<lparr>d_alive := child # d_alive s, d_served := (child, d_connections s) # d_served s, d_pc := D_Reinit\<rparr>"

inductive daemon_step :: "openssl \<Rightarrow> string \<Rightarrow> daemon_opts \<Rightarrow> daemon \<Rightarrow> daemon \<Rightarrow> bool"
  for ok ca d where
  child_ends: "child \<in> set (d_alive s) \<Longrightarrow>
    daemon_step ok ca d s (chld (s\<lparr>d_alive := remove1 child (d_alive s), d_dead := child # d_dead s\<rparr>))"
| usr1_sent: "daemon_step ok ca d s (usr1 s)"
| test_reinit: "d_pc s = D_Reinit \<Longrightarrow> daemon_step ok ca d s (reinit_ssl ok ca d s)"
| reset: "d_pc s = D_Reset \<Longrightarrow> daemon_step ok ca d s (s\<lparr>d_reinit := False, d_pc := D_Signal\<rparr>)"
| test_signal: "d_pc s = D_Signal \<Longrightarrow> daemon_step ok ca d s (s\<lparr>d_pc := (if 0 < d_signal s then D_Clear else D_Accept)\<rparr>)"
| clear: "d_pc s = D_Clear \<Longrightarrow> daemon_step ok ca d s (s\<lparr>d_signal := 0, d_pc := D_Reap\<rparr>)"
| wait_child: "d_pc s = D_Reap \<Longrightarrow> child \<in> set (d_dead s) \<Longrightarrow> daemon_step ok ca d s (waited child s)"
| wait_none: "d_pc s = D_Reap \<Longrightarrow> d_dead s = [] \<Longrightarrow> daemon_step ok ca d s (s\<lparr>d_pc := D_Accept\<rparr>)"
| wait_fails: "d_pc s = D_Reap \<Longrightarrow> daemon_step ok ca d s (s\<lparr>d_pc := D_Exit\<rparr>)"
| accept_fails: "d_pc s = D_Accept \<Longrightarrow> daemon_step ok ca d s (s\<lparr>d_pc := D_Reinit\<rparr>)"
| accepts: "d_pc s = D_Accept \<Longrightarrow> daemon_step ok ca d s (s\<lparr>d_connections := d_connections s + 1, d_pc := D_Fork\<rparr>)"
| forks: "d_pc s = D_Fork \<Longrightarrow> child \<notin> set (d_alive s) \<union> set (d_dead s) \<Longrightarrow> daemon_step ok ca d s (forked child s)"
| fork_fails: "d_pc s = D_Fork \<Longrightarrow> daemon_step ok ca d s (s\<lparr>d_failed := Suc (d_failed s), d_pc := D_Reinit\<rparr>)"

inductive daemon_runs :: "openssl \<Rightarrow> string \<Rightarrow> daemon_opts \<Rightarrow> daemon \<Rightarrow> daemon \<Rightarrow> bool"
  for ok ca d where
  start: "daemon_runs ok ca d s s"
| more: "daemon_runs ok ca d s s' \<Longrightarrow> daemon_step ok ca d s' s'' \<Longrightarrow> daemon_runs ok ca d s s''"

text \<open>What the process for a connection gets from the daemon.\<close>

definition child_settings :: "daemon_opts \<Rightarrow> string \<Rightarrow> byte list digest option \<Rightarrow> int \<Rightarrow> settings" where
  "child_settings d ver sha n =
     \<lparr>authlevel = o_authlevel d, checkuser = o_checkuser d, max_zlib_level = o_zlib d, rap_extensions = (o_rap d \<noteq> 0),
      version = ver, connections = n, maxconnections = o_maxconn d, sha1 = sha\<rparr>"

end
