(* ===== verification/DaemonSafety.thy ===== *)
theory DaemonSafety
  imports Daemon ServerSafety
begin

text \<open>
  What the daemon guarantees for its connections: it counts its processes, a process that has ended is not forgotten, the limit
  of connections holds, and the options it accepts ask for TLS before users log in.
\<close>

section \<open>Counting processes\<close>

text \<open>
  The count is that of the processes not yet waited for, plus one for every \<open>fork\<close> that has failed; a process that has
  ended still has its signal to be seen, or is being waited for.
\<close>

definition daemon_inv :: "daemon \<Rightarrow> bool" where
  "daemon_inv s \<longleftrightarrow>
     d_connections s = int (length (d_alive s) + length (d_dead s) + d_failed s) + (if d_pc s = D_Fork then 1 else 0) \<and>
     (d_dead s \<noteq> [] \<longrightarrow> 0 < d_signal s \<or> d_pc s = D_Reap \<or> d_pc s = D_Exit) \<and>
     (d_pc s = D_Clear \<longrightarrow> 0 < d_signal s) \<and> distinct (d_alive s @ d_dead s) \<and>
     (\<forall>c \<in> set (d_alive s) \<union> set (d_dead s). c \<in> fst ` set (d_served s))"

lemma reinit_ssl_simps [simp]:
  "d_connections (reinit_ssl ok ca d s) = d_connections s" "d_alive (reinit_ssl ok ca d s) = d_alive s"
  "d_dead (reinit_ssl ok ca d s) = d_dead s" "d_failed (reinit_ssl ok ca d s) = d_failed s"
  "d_signal (reinit_ssl ok ca d s) = d_signal s" "d_served (reinit_ssl ok ca d s) = d_served s"
  "d_pc (reinit_ssl ok ca d s) \<in> {D_Signal, D_Reset, D_Exit}"
  by (auto simp: reinit_ssl_def split: option.split)

lemma length_removed: "c \<in> set cs \<Longrightarrow> length cs = Suc (length (remove1 c cs))"
  using length_pos_if_in_set [of c cs] by (simp add: length_remove1)

lemma daemon_step_inv:
  assumes "daemon_step ok ca d s s'" "daemon_inv s"
  shows "daemon_inv s'"
  using assms(1)
proof (cases rule: daemon_step.cases)
  case (child_ends c)
  then show ?thesis using assms(2) length_removed [of c "d_alive s"] by (auto simp: daemon_inv_def chld_def set_remove1_eq)
next
  case test_reinit
  then show ?thesis using assms(2) reinit_ssl_simps(7) [of ok ca d s] by (auto simp: daemon_inv_def)
next
  case (wait_child c)
  then show ?thesis using assms(2) length_removed [of c "d_dead s"]
    by (auto simp: daemon_inv_def waited_def set_remove1_eq)
next
  case (forks c)
  then show ?thesis using assms(2) by (auto simp: daemon_inv_def forked_def)
qed (use assms(2) in \<open>auto simp: daemon_inv_def usr1_def split: if_splits\<close>)

lemma daemon_runs_inv: "daemon_runs ok ca d s s' \<Longrightarrow> daemon_inv s \<Longrightarrow> daemon_inv s'"
  by (induction rule: daemon_runs.induct) (auto intro: daemon_step_inv)

lemma daemon_inv0: "daemon_inv (daemon0 cs)"
  by (simp add: daemon_inv_def daemon0_def)

lemma children_are_counted:
  assumes "daemon_runs ok ca d (daemon0 cs) s"
  shows "d_connections s = int (length (d_alive s) + length (d_dead s) + d_failed s) + (if d_pc s = D_Fork then 1 else 0) \<and>
    (d_dead s \<noteq> [] \<longrightarrow> 0 < d_signal s \<or> d_pc s = D_Reap \<or> d_pc s = D_Exit) \<and>
    (\<forall>c \<in> set (d_alive s) \<union> set (d_dead s). c \<in> fst ` set (d_served s))"
  using daemon_runs_inv [OF assms daemon_inv0] by (simp add: daemon_inv_def)

section \<open>The limit of connections\<close>

lemma limit_holds:
  assumes "daemon_runs ok ca d (daemon0 cs) s" "d_pc s = D_Fork"
    "cmdloop_start depth (child_settings d ver sha (d_connections s)) os addr hname = Ret (r, s')"
  shows "(o_maxconn d \<noteq> 0 \<and> o_maxconn d \<le> int (length (d_alive s) + length (d_dead s) + d_failed s) \<longrightarrow> r = Quit 1) \<and>
    (r = Rc 0 \<longrightarrow> o_maxconn d = 0 \<or> int (length (d_alive s) + length (d_dead s) + d_failed s) < o_maxconn d)"
proof -
  have n: "d_connections s = int (length (d_alive s) + length (d_dead s) + d_failed s) + 1"
    using children_are_counted [OF assms(1)] assms(2) by simp
  show ?thesis
  proof (cases "o_maxconn d \<noteq> 0 \<and> o_maxconn d < d_connections s")
    case True
    with assms(3) have "r = Quit 1" by (simp add: cmdloop_start_def child_settings_def Let_def)
    then show ?thesis by simp
  next
    case False
    with n show ?thesis by auto
  qed
qed

section \<open>Accepted options\<close>

lemma accepted_options:
  assumes "daemon_args os aton opts others opts0 h = Ret (d, h')"
  shows "0 \<le> o_maxconn d \<and> (o_checkuser d \<longrightarrow> 1 \<le> o_authlevel d) \<and>
    (crl_file (o_tls d) \<noteq> None \<or> crl_dir (o_tls d) \<noteq> None \<longrightarrow> 3 \<le> o_authlevel d)"
  using assms by (auto simp: daemon_args_def obind_Ret_iff split: if_splits)

text \<open>Where users are checked, nothing is changed before both the handshake and the login.\<close>

lemma users_over_tls:
  assumes "daemon_args os0 aton opts others opts0 h = Ret (d, h')" "o_checkuser d"
    "connected depth (child_settings d ver sha n) os addr hname c"
  shows "preceded (\<lambda>h. tls_up h \<and> logged_in h) is_write (hist (conn_state c))"
proof -
  have l: "authlevel (child_settings d ver sha n) \<noteq> 0" "checkuser (child_settings d ver sha n)"
    using accepted_options [OF assms(1)] assms(2) by (auto simp: child_settings_def)
  have f: "is_write e \<Longrightarrow> names_file e" for e by (cases e) (simp_all add: names_file_def)
  show ?thesis
    using connected_tls [OF assms(3) l(1)] connected_login [OF assms(3) l(2)] f
    unfolding tls_inv_def login_inv_def preceded_def by blast
qed

end
