(* ===== verification/FsdiffMain.thy ===== *)
theory FsdiffMain
  imports Fsdiff
begin

text \<open>
  The rest of \<open>fsdiff.c\<close>: \<open>fsdiff\<close>, which walks a path or looks at the paths of its standard input, and \<open>main\<close> with its
  options. Progress output is left out.
\<close>

unbundle bit_operations_syntax

section \<open>\<open>fsdiff\<close>\<close>

text \<open>
  The paths of the standard input, each canonicalized in the same buffer, whose format stays that of the last path.
  \<open>radstat\<close> does not set \<open>errno\<close> for an object of unknown type: \<open>stale\<close> says for which paths it is \<open>ENOENT\<close> from an
  earlier call.
\<close>

function fsdiff_stdin ::
  "config \<Rightarrow> 'c env \<Rightarrow> (string \<Rightarrow> bool) \<Rightarrow> bool \<Rightarrow> string \<Rightarrow> string \<Rightarrow> tstate \<Rightarrow> (config \<times> tstate) outcome" where
  "fsdiff_stdin cfg env stale pdel inp buf st =
     (case fgets MAXPATHLEN inp of
        None \<Rightarrow> Ret (cfg, st)
      | Some (b, rest) \<Rightarrow>
          let lpath = cstr b in
          if lpath = [] then UB
          else if last lpath \<noteq> NL then Exit 2
          else obind (canonicalized_path buf (Some (butlast lpath))) (\<lambda>(path, fmt, buf).
            case (path, fmt) of
              (Some path, Some fmt) \<Rightarrow>
                let cfg = cfg\<lparr>tran_format := fmt\<rparr> in
                (case radstat (e_lstat env) path stat0 NUL of
                   (rc, s, ty, e) \<Rightarrow>
                     if rc \<noteq> 0
                     then (if e = Some ENOENT \<or> e = None \<and> stale path then fsdiff_stdin cfg env stale pdel rest buf st
                           else Exit 2)
                     else obind (transcript cfg env (Some (path, s, ty, no_finfo)) pdel st)
                            (\<lambda>(_, st). fsdiff_stdin cfg env stale pdel rest buf st))
            | _ \<Rightarrow> UB))"
  by pat_completeness auto

termination
  by (relation "measure (\<lambda>(_, _, _, _, inp, _). length inp)") (auto dest!: fgets_shrinks simp: MAXPATHLEN_def)

declare fsdiff_stdin.simps [simp del]

text \<open>\<open>dot\<close>: the current directory could be opened. The first number bounds the command files, the second the walk.\<close>

definition fsdiff ::
  "nat \<Rightarrow> nat \<Rightarrow> config \<Rightarrow> 'c env \<Rightarrow> bool \<Rightarrow> (string \<Rightarrow> bool) \<Rightarrow> string \<Rightarrow> string \<Rightarrow> string \<Rightarrow> bool \<Rightarrow> tstate \<Rightarrow> tstate outcome" where
  "fsdiff kdepth depth cfg env dot stale path kfile inp pdel st =
     (if \<not> dot then Exit 2
      else obind
        (if skip cfg \<noteq> 0 \<and> strcmp path ''-'' = 0 then
           let cfg = cfg\<lparr>skip := skip cfg AND NOT T_SKIP_EXCLUDES, path_prefix := Some [SLASH]\<rparr> in
           obind (transcript_init kdepth cfg env kfile K_CLIENT st) (\<lambda>st.
             fsdiff_stdin cfg env stale pdel inp (replicate MAXPATHLEN NUL) st)
         else
           obind (canonicalized_path (replicate MAXPATHLEN NUL) (Some path)) (\<lambda>(prefix, fmt, buf).
             case (prefix, fmt) of
               (Some prefix, Some fmt) \<Rightarrow>
                 let cfg = cfg\<lparr>path_prefix := Some prefix, tran_format := fmt\<rparr> in
                 obind (transcript_init kdepth cfg env kfile K_CLIENT st) (\<lambda>st.
                   (case radstat (e_lstat env) prefix stat0 NUL of
                      (rc, s, ty, e) \<Rightarrow>
                        if rc \<noteq> 0 then Exit 2
                        else obind (fs_walk depth cfg env (prefix, s, ty, no_finfo) pdel st) (\<lambda>st. Ret (cfg, st))))
             | _ \<Rightarrow> UB))
        (\<lambda>(cfg, st). obind (transcript_free cfg env st) (\<lambda>st. Ret (st\<lparr>hlinks := []\<rparr>))))"

section \<open>\<open>main\<close>\<close>

record fsdiff_opts =
  f_cfg :: config
  f_kfile :: string
  f_finish :: bool
  f_outfile :: "string option"
  f_changes :: nat
  f_errors :: nat

text \<open>One option; \<open>known\<close> has the digests of OpenSSL, \<open>opens\<close> the files that can be opened for writing.\<close>

definition fsdiff_option :: "(string \<Rightarrow> bool) \<Rightarrow> (string \<Rightarrow> bool) \<Rightarrow> char \<times> string \<Rightarrow> fsdiff_opts \<Rightarrow> fsdiff_opts outcome" where
  "fsdiff_option known opens opt d =
     (case opt of (c, a) \<Rightarrow>
       if c = CHR ''%'' \<or> c = CHR ''v'' then Ret (d\<lparr>f_finish := True\<rparr>)
       else if c = CHR ''c'' then (if known a then Ret (d\<lparr>f_cfg := (f_cfg d)\<lparr>cksum := True\<rparr>\<rparr>) else Exit 2)
       else if c = CHR ''I'' then Ret (d\<lparr>f_cfg := (f_cfg d)\<lparr>case_sensitive := False\<rparr>\<rparr>)
       else if c = CHR ''E'' then Ret (d\<lparr>f_cfg := (f_cfg d)\<lparr>transcript_shell_escapes := True\<rparr>\<rparr>)
       else if c = CHR ''o'' then (if opens a then Ret (d\<lparr>f_outfile := Some a\<rparr>) else Exit 2)
       else if c = CHR ''K'' then Ret (d\<lparr>f_kfile := a\<rparr>)
       else if c = CHR ''1''
       then Ret (d\<lparr>f_cfg := (f_cfg d)\<lparr>skip := T_SKIP_ALL, edit_path := CREATABLE\<rparr>, f_changes := Suc (f_changes d)\<rparr>)
       else if c = CHR ''C'' then Ret (d\<lparr>f_cfg := (f_cfg d)\<lparr>edit_path := CREATABLE\<rparr>, f_changes := Suc (f_changes d)\<rparr>)
       else if c = CHR ''A'' then Ret (d\<lparr>f_cfg := (f_cfg d)\<lparr>edit_path := APPLICABLE\<rparr>, f_changes := Suc (f_changes d)\<rparr>)
       else if c = CHR ''V'' then Exit 0
       else if c = CHR ''W'' then Ret (d\<lparr>f_cfg := (f_cfg d)\<lparr>exclude_warnings := True\<rparr>\<rparr>)
       else if c = CHR ''t'' then Ret (d\<lparr>f_cfg := (f_cfg d)\<lparr>ignore_timestamps := True\<rparr>\<rparr>)
       else if c = CHR ''?'' then Ret (d\<lparr>f_errors := Suc (f_errors d)\<rparr>)
       else Ret d)"

fun fsdiff_options ::
  "(string \<Rightarrow> bool) \<Rightarrow> (string \<Rightarrow> bool) \<Rightarrow> (char \<times> string) list \<Rightarrow> fsdiff_opts \<Rightarrow> fsdiff_opts outcome" where
  "fsdiff_options known opens [] d = Ret d"
| "fsdiff_options known opens (opt # opts) d = obind (fsdiff_option known opens opt d) (fsdiff_options known opens opts)"

text \<open>A command file with an empty name is looked at before its beginning. The program ends with status 0.\<close>

definition fsdiff_main ::
  "nat \<Rightarrow> nat \<Rightarrow> (string \<Rightarrow> bool) \<Rightarrow> (string \<Rightarrow> bool) \<Rightarrow> 'c env \<Rightarrow> bool \<Rightarrow> (string \<Rightarrow> bool) \<Rightarrow> config \<Rightarrow> string \<Rightarrow>
    (char \<times> string) list \<Rightarrow> string list \<Rightarrow> string \<Rightarrow> tstate \<Rightarrow> tstate outcome" where
  "fsdiff_main kdepth depth known opens env dot stale cfg0 kfile0 opts args inp st =
     obind (fsdiff_options known opens opts
              \<lparr>f_cfg = cfg0\<lparr>edit_path := CREATABLE, cksum := False\<rparr>, f_kfile = kfile0, f_finish = False, f_outfile = None,
               f_changes = 0, f_errors = 0\<rparr>) (\<lambda>d.
       if f_kfile d = [] then UB
       else if f_finish d \<and> f_outfile d = None \<or> edit_path (f_cfg d) = APPLICABLE \<and> skip (f_cfg d) \<noteq> 0 \<or> 1 < f_changes d \<or>
         last (f_kfile d) = SLASH \<or> 0 < f_errors d \<or> length args \<noteq> 1 then Exit 2
       else fsdiff kdepth depth (f_cfg d) env dot stale (args ! 0) (f_kfile d) inp False st)"

section \<open>What is accepted\<close>

text \<open>A difference to apply is never made without looking at the transcripts.\<close>

lemma fsdiff_main_modes:
  assumes "fsdiff_main kdepth depth known opens env dot stale cfg0 kfile0 opts args inp st = Ret st'"
  shows "\<exists>d. fsdiff_options known opens opts
      \<lparr>f_cfg = cfg0\<lparr>edit_path := CREATABLE, cksum := False\<rparr>, f_kfile = kfile0, f_finish = False, f_outfile = None,
       f_changes = 0, f_errors = 0\<rparr> = Ret d \<and>
    (edit_path (f_cfg d) = APPLICABLE \<longrightarrow> skip (f_cfg d) = 0) \<and> f_changes d \<le> 1 \<and> (f_finish d \<longrightarrow> f_outfile d \<noteq> None) \<and>
    fsdiff kdepth depth (f_cfg d) env dot stale (args ! 0) (f_kfile d) inp False st = Ret st'"
  using assms by (auto simp: fsdiff_main_def obind_Ret_iff split: if_splits)

end
