(* ===== verification/Samples.thy ===== *)
theory Samples
  imports FsdiffDepth ServerPaths LapplyOrder UploadReplies KtcheckUpdate LmergeOrder LcksumLines TranscriptTypes WhichFinds Repo Lsize Pack DaemonSafety FsdiffMain
begin

text \<open>
  Small concrete inputs: a file system with two objects, the options of a run of \<open>fsdiff\<close>, and a
  server whose calls all succeed. The witnesses of the properties use them.
\<close>

section \<open>For \<open>fsdiff\<close>\<close>

definition byte_digest :: "byte list digest" where
  "byte_digest = \<lparr>d_init = [], d_update = \<lambda>c bs. c @ bs, d_final = \<lambda>c. c\<rparr>"

definition sample_cfg :: config where
  "sample_cfg = \<lparr>edit_path = CREATABLE, case_sensitive = True, tran_format = T_RELATIVE,
     ignore_timestamps = False, skip = 0, cksum = False, exclude_warnings = False,
     transcript_shell_escapes = False, path_prefix = None, radmind_path = ''/var/radmind''\<rparr>"

definition sample_env :: "byte list env" where
  "sample_env = \<lparr>e_text = \<lambda>p. None, e_md = byte_digest, e_bytes = \<lambda>p. None, e_readlink = \<lambda>p. None,
     e_lstat = \<lambda>p. Inl ENOENT, e_readdir = \<lambda>p. None\<rparr>"

definition dir_stat :: stat where
  "dir_stat = stat0\<lparr>st_mode := 0x41ED, st_nlink := 2\<rparr>"

definition file_stat :: stat where
  "file_stat = stat0\<lparr>st_mode := 0x81A4, st_mtime := 1000, st_size := 5, st_nlink := 1\<rparr>"

definition sample_objects :: "(obj \<times> string) list" where
  "sample_objects =
     [((''.'', dir_stat, CHR ''d'', no_finfo), ''-''), ((''./a b'', file_stat, CHR ''f'', no_finfo), ''-'')]"

lemma sample_modes:
  "S_ISDIR (st_mode dir_stat)" "\<not> S_ISLNK (st_mode dir_stat)" "\<not> S_ISDIR (st_mode file_stat)"
  "\<not> S_ISLNK (st_mode file_stat)" "st_nlink file_stat = 1"
  by code_simp+

lemma samples_obj_ok:
  "obj_ok sample_cfg (seen_as sample_env (''.'', dir_stat, CHR ''d'', no_finfo) ''-'')"
  "obj_ok sample_cfg (seen_as sample_env (''./a b'', file_stat, CHR ''f'', no_finfo) ''-'')"
  by code_simp+

lemma samples_fine: "list_all (\<lambda>(ob, c). obj_fine sample_cfg sample_env [] ob c) sample_objects"
proof -
  have c: "cksum sample_cfg = False" "path_prefix sample_cfg = None" by (simp_all add: sample_cfg_def)
  show ?thesis
    by (simp add: sample_objects_def obj_fine_def sample_modes samples_obj_ok c ischildcase_def)
qed

lemma samples_ascending:
  "ascending_from sample_cfg [] (map (\<lambda>(ob, c). seen_as sample_env ob c) sample_objects)"
  by code_simp

section \<open>For the server\<close>

text \<open>Every call succeeds; the client sends one and the same line.\<close>

definition sample_os :: "string \<Rightarrow> os" where
  "sample_os line =
     \<lparr>os_err = \<lambda>h c. None, os_stat = \<lambda>h p. file_stat, os_lstat = \<lambda>h p. Inl ENOENT,
      os_bytes = \<lambda>h p. [Bytes [104, 105]], os_text = \<lambda>h p. ''p base.T'' @ [NL], os_lines = \<lambda>h p. [''* client.K''],
      os_dir = \<lambda>h p. [], os_line = \<lambda>h. line, os_recv = \<lambda>h. ''hello'', os_ready = \<lambda>h. True, os_peer = \<lambda>h. None,
      os_conv = \<lambda>h. [[PAM_PROMPT_ECHO_OFF]], os_strerror = \<lambda>e. ''error'', os_errtext = \<lambda>h. ''error'',
      os_hostname = ''server''\<rparr>"

definition sample_settings :: settings where
  "sample_settings =
     \<lparr>authlevel = 1, checkuser = True, max_zlib_level = 0, rap_extensions = True, version = ''1.14'',
      connections = 1, maxconnections = 0, sha1 = Some byte_digest\<rparr>"

text \<open>A client that has been admitted.\<close>

definition sample_server :: server where
  "sample_server = (server0 ''10.0.0.7'' (Some ''client.org''))\<lparr>commands := auth, command_file := ''client.K'',
     special_dir := ''special/client.org'', access_list := [''base.T'']\<rparr>"

lemma sample_connected:
  "\<exists>s. connected 1 sample_settings (sample_os line) ''10.0.0.7'' None (Looping s)"
proof -
  have "\<exists>s. cmdloop_start 1 sample_settings (sample_os line) ''10.0.0.7'' None = Ret (Rc 0, s)"
    by (simp add: cmdloop_start_def sample_settings_def greet_def do_call_def answer_split sample_os_def)
  then show ?thesis using connected.accepted by blast
qed

end
