(* ===== verification/Spec2Isabelle.thy ===== *)
theory Spec2Isabelle
  imports Samples
begin

text \<open>
  Radmind keeps the file systems of many machines in a known state. The programs modelled here are
  its core, as it is in \<^verbatim>\<open>src/\<close>: \<open>fsdiff\<close> walks a file system and
  compares it with transcripts, text files that list objects in the order of \<open>pathcmp\<close>; \<open>ktcheck\<close> brings the
  transcripts of a client up to date, \<open>lapply\<close> applies a difference and \<open>lcreate\<close> uploads one; the
  server \<open>radmind\<close> gives transcripts, command files and files to its clients and takes uploads, which
  \<open>lmerge\<close> and \<open>lsort\<close> combine and sort there.

  The parts and their theories, from the bottom up:

  \<^item> \<open>C_Base\<close>, \<open>C_Num\<close>: C strings without their terminator, \<open>strcmp\<close> and its like, the results \<open>Ret\<close>,
    \<open>Exit\<close> (the program ends with this status) and \<open>UB\<close> (undefined behaviour: a read or write outside an
    object, a use of freed memory); \<open>printf\<close> and \<open>strtol\<close> of numbers.
  \<^item> \<open>Escape\<close> (\<open>code.c\<close>), \<open>Argv\<close> (\<open>argcargv.c\<close>), \<open>Pathcmp\<close> (\<open>pathcmp.c\<close>), \<open>Wildcard\<close> (\<open>wildcard.c\<close>), \<open>Base64\<close>
    (\<open>base64.c\<close>): pure functions, with the contracts of round trip, splitting, order and matching.
  \<^item> \<open>PathList\<close> (\<open>list.c\<close> as a heap of linked nodes), \<open>NameSet\<close> (what its users see of it), \<open>LList\<close> (\<open>llist.c\<close>),
    \<open>Hardlink\<close> (\<open>hardlink.c\<close>), \<open>PathInfo\<close> (\<open>struct pathinfo\<close>, \<open>radstat.c\<close>, \<open>cksum.c\<close> over an abstract digest).
  \<^item> \<open>Transcript\<close>, \<open>TranscriptRun\<close>: \<open>transcript.c\<close>, from \<open>transcript_parse\<close> and \<open>transcript_select\<close> to
    \<open>t_compare\<close>, \<open>t_print\<close> and \<open>transcript\<close>, with its globals in the record \<open>tstate\<close>. \<open>TranscriptText\<close>,
    \<open>TranscriptSelect\<close> and \<open>TranscriptDiff\<close> hold the proofs: lines that are printed are
    read back, the transcript that is picked has the least name, and an unchanged file system has an
    empty difference. \<open>Fsdiff\<close> is the walk of \<open>fsdiff.c\<close>.
  \<^item> \<open>Trace\<close>: the operating system as a function from the history of calls to the next answer, so that
    a theorem for all such functions holds for every behaviour of the system and the peer; \<open>mkdirs.c\<close>.
  \<^item> \<open>Server\<close>, \<open>ServerConfig\<close>, \<open>ServerLoop\<close>: \<open>command.c\<close>, one function per handler, the config and
    command files, and the step relation \<open>conn_step\<close> of a connection, whose state is the record
    \<open>server\<close>. \<open>ServerCalls\<close> says for each handler which calls it makes, \<open>ServerSafety\<close> lifts this to
    invariants of \<open>connected\<close>, the states a connection can come to, and \<open>ServerPaths\<close> looks at what
    encoded names can do to paths.
  \<^item> \<open>Client\<close>, \<open>Update\<close>, \<open>Connect\<close>: what the clients share, \<open>mkprefix.c\<close>, \<open>retr.c\<close>, \<open>update.c\<close>, \<open>connect.c\<close>
    and \<open>report.c\<close>. \<open>Lapply\<close> is \<open>lapply.c\<close>, its globals in the record \<open>lapply\<close>. \<open>ClientCalls\<close> says which
    calls each operation makes, \<open>LapplyOrder\<close> follows the list of directories through a run.
  \<^item> \<open>Download\<close>, \<open>Stream\<close>: what \<open>retr\<close> has written when it succeeds, what it leaves when it fails, and what it
    makes of the bytes that \<open>RETR\<close> of the server sends; the locale \<open>byte_stream\<close> is the connection between them.
  \<^item> \<open>Upload\<close>, \<open>UploadReplies\<close>: \<open>stor.c\<close> and \<open>lcreate.c\<close>, whose globals are the record \<open>lcreate\<close>; the other
    direction of the stream, and the count of the responses that are still to come.
  \<^item> \<open>Rmdirs\<close> (\<open>rmdirs.c\<close>), \<open>Ktcheck\<close> (\<open>ktcheck.c\<close>, its globals in the record \<open>kt\<close>): runs that may not end are
    partial functions. \<open>KtcheckClean\<close> says what cleaning the client directory removes, \<open>KtcheckUpdate\<close>
    what each result of \<open>check\<close> means.
  \<^item> \<open>Lsort\<close> (\<open>lsort.c\<close>, \<open>qsort\<close> is a parameter), \<open>Lmerge\<close> (\<open>lmerge.c\<close>, \<open>root.c\<close>): the merge ends because every round
    reads on in some transcript; \<open>LmergeOrder\<close> compares its output with a merge by precedence.
  \<^item> \<open>TranscriptTypes\<close>: the objects that \<open>transcript_parse\<close> makes of accepted lines are well formed.
  \<^item> \<open>Lcksum\<close> (\<open>lcksum.c\<close>, with the header of \<open>applefile.c\<close>): the check of a transcript against its files. \<open>LcksumLines\<close>
    says what a run with and without corrections means for every line.
  \<^item> \<open>Which\<close> (\<open>twhich.c\<close>, \<open>lfdiff.c\<close>): the search for the transcript of a file. \<open>WhichFinds\<close> says what it finds, and
    when the arguments for \<open>diff\<close> overflow. \<open>Lsize\<close> is \<open>lsize.c\<close>, \<open>Repo\<close> is \<open>repo.c\<close>.
  \<^item> \<open>Tls\<close> (\<open>tls.c\<close>): the TLS contexts, and which certificates a client accepts. \<open>Daemon\<close> (\<open>daemon.c\<close>, \<open>logname.c\<close>): the
    options and the loop around the connections as the step relation \<open>daemon_step\<close>, in which children end and signals come
    between any two steps; \<open>DaemonSafety\<close> holds its invariant and what it means for \<open>ServerLoop\<close>.
  \<^item> \<open>Progress\<close> (\<open>progress.c\<close>): sizes of loadsets. \<open>Pack\<close> (\<open>t2pkg.c\<close>): a tree made from a transcript.
  \<^item> \<open>FsdiffMain\<close>: the two modes of \<open>fsdiff\<close> and its options.
  \<^item> \<open>Samples\<close>: small concrete inputs for the witnesses.

  Bounds. \<open>MAXPATHLEN\<close> is 4096, as on Linux, in every buffer that has this size, numbers are kept at the width the code has for them. Loops
  are structural or carry a measure. Three recursions have a depth: \<open>read_kfile\<close> of the server, which
  \<open>read_kfile_returns\<close> shows to end for every depth above the number of names that can still be
  added; \<open>command_k\<close>, whose depth is the code's own limit on includes; and the walk of
  \<open>fsdiff\<close>, whose depth stands for the height of the tree.

  Assumptions. Memory never runs out, standard output takes what is printed, and the build has PAM
  and zlib but is not for macOS or Solaris. Digests, the system, PAM, TLS, zlib and \<open>libsnet\<close> are
  parameters. Locale-dependent functions have the C locale, and \<open>char\<close> is signed.

  Not modelled: sockets, and the calls of OpenSSL, PAM and zlib, which are parameters; option parsing, but for that of the
  daemon and of \<open>fsdiff\<close>; progress output, which is computed in floating point, and messages on standard error;
  \<open>openssl_compat.c\<close> and \<open>version.c\<close>, which hold no behaviour of their own; and what only the macOS build has.
\<close>

section \<open>\<open>fsdiff\<close> and transcripts\<close>

lemma obj_fine_text [simp]: "obj_fine cfg (env\<lparr>e_text := f\<rparr>) ex ob c = obj_fine cfg env ex ob c"
proof -
  have "cksum_is (env\<lparr>e_text := f\<rparr>) p c = cksum_is env p c" for p by (simp add: cksum_is_def)
  moreover have "seen_as (env\<lparr>e_text := f\<rparr>) ob c = seen_as env ob c"
    by (cases ob) (simp add: seen_as_def obj_link_def)
  ultimately show ?thesis by (cases ob) (simp add: obj_fine_def)
qed

lemma seen_as_text [simp]: "seen_as (env\<lparr>e_text := f\<rparr>) ob c = seen_as env ob c"
  by (cases ob) (simp add: seen_as_def obj_link_def)

definition null_tran :: tstate where
  "null_tran = tstate0\<lparr>tran_list := [new_tran T_NULL [] [] [] None]\<rparr>"



fun print_all :: "config \<Rightarrow> 'c env \<Rightarrow> tran \<Rightarrow> pathinfo list \<Rightarrow> tstate \<Rightarrow> tstate outcome" where
  "print_all cfg env t [] st = Ret st"
| "print_all cfg env t (p # ps) st =
     obind (t_print cfg env (Some p) t PR_FS_ONLY st) (\<lambda>(_, _, st). print_all cfg env t ps st)"

lemma print_all_lines:
  "list_all (obj_ok cfg) ps \<Longrightarrow> edit_path cfg = CREATABLE \<Longrightarrow>
     \<exists>st'. print_all cfg env t ps st = Ret st' \<and>
       outtran st' = outtran st @ concat (map (line_text (transcript_shell_escapes cfg)) ps)"
proof (induction ps arbitrary: st)
  case (Cons p ps)
  from Cons.IH [of "st\<lparr>outtran := outtran st @ line_text (transcript_shell_escapes cfg) p\<rparr>"] Cons.prems
  show ?case by (simp add: t_print_line)
qed simp

text \<open>C2. The lines \<open>t_print\<close> writes for objects in ascending order, read with \<open>transcript_parse\<close>
  up to the end of the file, give these objects again, in every field a line carries.\<close>

theorem print_then_parse:
  assumes "list_all (obj_ok cfg) ps" "ascending_from cfg [] ps" "length buf = MAXPATHLEN" "edit_path cfg = CREATABLE"
  shows "\<exists>st qs. print_all cfg env t ps null_tran = Ret st \<and>
    parse_all cfg (new_tran T_POSITIVE file short kf (Some (outtran st))) buf = Ret qs \<and> list_all2 line_eq ps qs"
proof -
  obtain st where st: "print_all cfg env t ps null_tran = Ret st"
    "outtran st = outtran null_tran @ concat (map (line_text (transcript_shell_escapes cfg)) ps)"
    using print_all_lines [OF assms(1,4)] by blast
  have "\<exists>qs. parse_all cfg (new_tran T_POSITIVE file short kf (Some (outtran st))) buf = Ret qs \<and> list_all2 line_eq ps qs"
    by (rule parse_all_lines)
      (use assms st in \<open>simp_all add: new_tran_def pathinfo0_def null_tran_def tstate0_def\<close>)
  with st(1) show ?thesis by blast
qed

theorem print_then_parse_witness:
  "\<exists>st qs. print_all sample_cfg sample_env (hd (tran_list null_tran))
       (map (\<lambda>(ob, c). seen_as sample_env ob c) sample_objects) null_tran = Ret st \<and>
     parse_all sample_cfg (new_tran T_POSITIVE ''base.T'' ''base.T'' ''k'' (Some (outtran st))) decode_buf0 = Ret qs \<and>
     list_all2 line_eq (map (\<lambda>(ob, c). seen_as sample_env ob c) sample_objects) qs"
  by (rule print_then_parse)
    (use samples_ascending in \<open>simp_all add: sample_objects_def samples_obj_ok sample_cfg_def [THEN arg_cong, of edit_path]\<close>)

text \<open>C3. Whatever a transcript file holds, the names \<open>transcript_parse\<close> yields before the end
  of the file are strictly ascending in the path order, so no name comes twice.\<close>

theorem parsed_in_order:
  assumes "parse_all cfg t buf = Ret ps" "case_sensitive cfg" "c_string (pi_name (t_pinfo t))"
  shows "sorted_wrt (\<lambda>p q. pathcmp (pi_name p) (pi_name q) < 0) ps \<and> distinct (map pi_name ps)"
proof -
  note a = parse_all_ascending [OF assms(1)]
  with assms(2,3) have s: "sorted_wrt (\<lambda>p q. pathcmp (pi_name p) (pi_name q) < 0) ps"
    using ascending_from_sorted [of cfg "pi_name (t_pinfo t)" ps] by (simp add: path_ok_def pathcmp_def)
  have "distinct ns" if "sorted_wrt (\<lambda>a b. pathcmp a b < 0) ns" for ns
    using that by (induction ns) (auto simp: pathcmp_self)
  from this [of "map pi_name ps"] s show ?thesis by (simp add: sorted_wrt_map)
qed

theorem parsed_in_order_witness:
  "\<exists>inp qs. parse_all sample_cfg (new_tran T_POSITIVE ''base.T'' ''base.T'' ''k'' (Some inp)) decode_buf0 = Ret qs \<and>
     length qs = 2 \<and> pathcmp (pi_name (qs ! 0)) (pi_name (qs ! 1)) < 0 \<and> distinct (map pi_name qs)"
proof -
  let ?ps = "map (\<lambda>(ob, c). seen_as sample_env ob c) sample_objects"
  define inp where "inp = concat (map (line_text (transcript_shell_escapes sample_cfg)) ?ps)"
  have "\<exists>qs. parse_all sample_cfg (new_tran T_POSITIVE ''base.T'' ''base.T'' ''k'' (Some inp)) decode_buf0 = Ret qs \<and>
      list_all2 line_eq ?ps qs"
    by (rule parse_all_lines)
      (use samples_ascending in \<open>simp_all add: new_tran_def pathinfo0_def inp_def sample_objects_def samples_obj_ok\<close>)
  then obtain qs where q: "parse_all sample_cfg (new_tran T_POSITIVE ''base.T'' ''base.T'' ''k'' (Some inp)) decode_buf0 = Ret qs"
    "list_all2 line_eq ?ps qs" by blast
  from list_all2_lengthD [OF q(2)] have "length qs = 2" by (simp add: sample_objects_def)
  with parsed_in_order [OF q(1)] q(1) show ?thesis
    by (fastforce simp: new_tran_def pathinfo0_def sample_cfg_def sorted_wrt_iff_nth_less)
qed

text \<open>C4. Among the open transcripts \<open>transcript_select\<close> picks the one with the least name, no other
  transcript is left at that name, and the name is within the path prefix, not excluded
  (special files apart) and not a minus line; if it picks one at its end, all are at their end.\<close>

theorem selection_contract:
  assumes "transcript_select cfg st = Ret (b, st')" "names_fine cfg (tran_list st)" "case_sensitive cfg"
  shows "selected cfg (exclude_list st) (tran_list st') b \<and> todo st' \<le> todo st"
  using transcript_select_selected [OF assms] transcript_select_less [OF assms(1)] by simp

definition sample_tran :: tran where
  "sample_tran = (new_tran T_POSITIVE ''base.T'' ''base.T'' ''k'' (Some []))\<lparr>t_pinfo := pathinfo0\<lparr>pi_name := ''./a''\<rparr>\<rparr>"

definition sample_tstate :: tstate where
  "sample_tstate = tstate0\<lparr>tran_list := [sample_tran, new_tran T_NULL [] [] [] None]\<rparr>"

theorem selection_contract_witness:
  "transcript_select sample_cfg sample_tstate = Ret (0, sample_tstate) \<and>
   selected sample_cfg [] (tran_list sample_tstate) 0"
proof -
  have s: "transcript_select sample_cfg sample_tstate = Ret (0, sample_tstate)"
    by (rule select_two [of sample_tstate sample_tran "new_tran T_NULL [] [] [] None"])
      (simp_all add: sample_tstate_def tstate0_def sample_tran_def new_tran_def pathinfo0_def sample_cfg_def ischildcase_def)
  have "names_fine sample_cfg (tran_list sample_tstate)" "case_sensitive sample_cfg" "exclude_list sample_tstate = []"
    by (simp_all add: names_fine_def sample_tstate_def tstate0_def sample_tran_def new_tran_def pathinfo0_def
        sample_cfg_def path_ok_def)
  with selection_contract [OF s] s show ?thesis by simp
qed

text \<open>C5. The decision for a file: a download if size or checksum differ (without checksums: size
  or time), otherwise a status change if time, owner, group or mode differ, otherwise nothing.\<close>

theorem file_decision:
  assumes "t_type t \<noteq> T_NEGATIVE" "pi_type f = CHR ''f''"
    "cksum cfg \<Longrightarrow> cksum_is env (pi_name f) c \<and> c_string c \<and> c_string (pi_cksum_b64 (t_pinfo t))"
  shows "\<exists>f'. compare_file cfg env f t = Ret (f',
    let late = (\<not> ignore_timestamps cfg \<and> st_mtime (pi_stat f) \<noteq> st_mtime (pi_stat (t_pinfo t)))
    in if st_size (pi_stat f) \<noteq> st_size (pi_stat (t_pinfo t)) \<or>
          (if cksum cfg then c \<noteq> pi_cksum_b64 (t_pinfo t) else late) then Some PR_DOWNLOAD
       else if late \<or> owner_differs f (t_pinfo t) then Some PR_STATUS else None)"
proof (cases "cksum cfg")
  case True
  with compare_file_cksum [OF assms(1) True assms(2)] assms(3) obtain f' where
    "compare_file cfg env f t = Ret (f',
      if st_size (pi_stat f) \<noteq> st_size (pi_stat (t_pinfo t)) \<or> c \<noteq> pi_cksum_b64 (t_pinfo t)
      then Some PR_DOWNLOAD
      else if \<not> ignore_timestamps cfg \<and> st_mtime (pi_stat f) \<noteq> st_mtime (pi_stat (t_pinfo t)) \<or>
              owner_differs f (t_pinfo t)
      then Some PR_STATUS else None)" by blast
  with True show ?thesis by (intro exI [of _ f']) (simp add: Let_def)
next
  case False
  with compare_file_nocksum [OF assms(1) False, of env f] show ?thesis
    by (intro exI [of _ f]) (simp add: Let_def)
qed

theorem file_decision_witness:
  "\<exists>f'. compare_file sample_cfg sample_env (pathinfo0\<lparr>pi_type := CHR ''f'', pi_stat := file_stat\<rparr>)
     (sample_tran\<lparr>t_pinfo := pathinfo0\<lparr>pi_type := CHR ''f'', pi_stat := file_stat\<lparr>st_mtime := 7\<rparr>\<rparr>\<rparr>) = Ret (f', Some PR_DOWNLOAD)"
  using file_decision [of "sample_tran\<lparr>t_pinfo := pathinfo0\<lparr>pi_type := CHR ''f'', pi_stat := file_stat\<lparr>st_mtime := 7\<rparr>\<rparr>\<rparr>"
      "pathinfo0\<lparr>pi_type := CHR ''f'', pi_stat := file_stat\<rparr>" sample_cfg sample_env]
  by (simp add: sample_tran_def new_tran_def sample_cfg_def file_stat_def)

text \<open>A file that a negative transcript lists with \<open>-\<close> for its checksum and that is missing on
  the client ends \<open>fsdiff -A -c\<close> with exit status 2, though nothing is to be downloaded.\<close>

theorem negative_line_needs_file:
  assumes "edit_path cfg = APPLICABLE" "cksum cfg" "pi_type (t_pinfo t) = CHR ''f''"
    "pi_cksum_b64 (t_pinfo t) = ''-''" "e_bytes env (pi_name (t_pinfo t)) = None" "length (pi_name (t_pinfo t)) < MAXPATHLEN"
  shows "t_print cfg env None t PR_TRAN_ONLY st = Exit 2"
  using negative_needs_file [OF assms] .

theorem negative_line_needs_file_witness:
  "t_print (sample_cfg\<lparr>edit_path := APPLICABLE, cksum := True\<rparr>) sample_env None
     (sample_tran\<lparr>t_type := T_NEGATIVE, t_pinfo := pathinfo0\<lparr>pi_type := CHR ''f'', pi_name := ''./a'', pi_cksum_b64 := ''-''\<rparr>\<rparr>)
     PR_TRAN_ONLY tstate0 = Exit 2"
  by (rule negative_line_needs_file) (simp_all add: sample_env_def MAXPATHLEN_def)



section \<open>The server\<close>

text \<open>C7. If TLS is required, every call of a connection that names a file comes after a
  successful handshake, whatever the client sends and whatever the calls answer.\<close>

theorem tls_first:
  assumes "connected depth cfg os addr hname c" "authlevel cfg \<noteq> 0"
    "hist (conn_state c) = h1 @ Did call e # h2" "\<not> no_file call"
  shows "Did StartTls None \<in> set h1"
  using connected_tls [OF assms(1,2)] assms(3,4)
  by (auto simp: tls_inv_def preceded_def names_file_def tls_up_def)

text \<open>A client that starts TLS with a server whose configuration cannot be opened.\<close>

definition bare_os :: os where
  "bare_os = (sample_os ''STARTTLS'')\<lparr>os_err := \<lambda>h c. if c = SnetOpen ''config'' then Some ENOENT else None\<rparr>"

lemma bare_starttls:
  "\<exists>s h1. connected 1 sample_settings bare_os ''10.0.0.7'' None (Looping s) \<and>
     hist s = h1 @ [Did (SnetOpen ''config'') (Some ENOENT)]"
proof -
  have words: "argcargv ''STARTTLS'' = Ret [''STARTTLS'']" by code_simp
  have cmd: "find_command notls ''STARTTLS'' = Some (''STARttls'', F_STARTTLS)" by code_simp
  have line: "os_line bare_os h = ''STARTTLS''" for h by (simp add: bare_os_def sample_os_def)
  have err: "os_err bare_os h c = (if c = SnetOpen ''config'' then Some ENOENT else None)" for h c
    by (simp add: bare_os_def)
  obtain s where s: "cmdloop_start 1 sample_settings bare_os ''10.0.0.7'' None = Ret (Rc 0, s)" "commands s = notls"
    by (simp add: cmdloop_start_def sample_settings_def greet_def do_call_def answer_split err greeting_def
        Let_def say_def server0_def)
  have "authlevel sample_settings = 1" by (simp add: sample_settings_def)
  then have "\<exists>s' h1. cmd_step 1 sample_settings bare_os s = Ret (None, s') \<and>
      hist s' = h1 @ [Did (SnetOpen ''config'') (Some ENOENT)]"
    by (simp add: cmd_step_def do_call_def answer_split line err words s(2) cmd run_handler_def f_starttls_def
        reply_def say_def peer_name_def find_client_def command_k_def RADMIND_MAX_INCLUDE_DEPTH_def
        eval_nat_numeral after_handler_def)
  then show ?thesis using connected.step [OF connected.accepted [OF s(1)] conn_step.go] by blast
qed

theorem tls_first_witness:
  "\<exists>s h1. connected 1 sample_settings bare_os ''10.0.0.7'' None (Looping s) \<and>
     hist s = h1 @ [Did (SnetOpen ''config'') (Some ENOENT)] \<and> Did StartTls None \<in> set h1"
proof -
  obtain s h1 where s: "connected 1 sample_settings bare_os ''10.0.0.7'' None (Looping s)"
    "hist s = h1 @ [Did (SnetOpen ''config'') (Some ENOENT)]"
    using bare_starttls by blast
  with tls_first [OF s(1), of h1 "SnetOpen ''config''" "Some ENOENT" "[]"] show ?thesis
    by (auto simp: sample_settings_def)
qed

text \<open>C8. If users are checked, nothing is created, written, made or removed in a connection before PAM
  has authenticated the user and accepted the account, and only then is the connection authorized.\<close>

theorem login_first:
  assumes "connected depth cfg os addr hname c" "checkuser cfg"
  shows "preceded logged_in is_write (hist (conn_state c)) \<and>
    (authorized (conn_state c) \<longrightarrow> logged_in (hist (conn_state c)))"
  using connected_login [OF assms] by (simp add: login_inv_def)

theorem login_first_witness:
  "\<exists>s. connected 1 sample_settings (sample_os ''QUIT'') ''10.0.0.7'' None (Looping s) \<and>
     preceded logged_in is_write (hist s)"
  using sample_connected [of "''QUIT''"] login_first [of 1 sample_settings "sample_os ''QUIT''" "''10.0.0.7''" None]
  by (fastforce simp: sample_settings_def)

text \<open>C9. Whatever a client sends, the only paths the server creates, writes, makes or removes are those
  that begin with \<open>tmp\<close>.\<close>

theorem writes_under_tmp:
  assumes "connected depth cfg os addr hname c"
  shows "\<forall>call e. Did call e \<in> set (hist (conn_state c)) \<longrightarrow> is_write call \<longrightarrow> stores call"
  using connected_paths [OF assms] by (simp add: paths_inv_def)

theorem writes_under_tmp_witness:
  "\<exists>s. connected 1 sample_settings (sample_os ''QUIT'') ''10.0.0.7'' None (Looping s) \<and>
     (\<forall>call e. Did call e \<in> set (hist s) \<longrightarrow> is_write call \<longrightarrow> stores call)"
  using sample_connected [of "''QUIT''"] writes_under_tmp [of 1 sample_settings "sample_os ''QUIT''" "''10.0.0.7''" None]
  by fastforce



text \<open>What a successful \<open>RETR\<close> sends is the announcement with the size from \<open>fstat\<close>, then the bytes
  of the file up to the first empty \<open>read\<close>, then the closing dot, and nothing else.\<close>

theorem retr_sends_file:
  assumes "retr_send os path s = (Rc 0, s')"
  shows "\<exists>h1 h2. sent (hist s') = sent (hist s) @ ''240 Retrieving file'' @ CRLF @
    print_int (st_size (os_stat os h1 path)) @ CRLF @ chars_of (read_all (os_bytes os h2 path)) @ ''.'' @ CRLF \<and>
    h1 = hist s @ [Did (Open path) None, Did (Fstat path) None]"
  by (rule retr_send_sent [OF assms])

theorem retr_sends_file_witness:
  "\<exists>s'. retr_send (sample_os []) ''command/client.K'' sample_server = (Rc 0, s') \<and>
     sent (hist s') = ''240 Retrieving file'' @ CRLF @ ''5'' @ CRLF @ ''hi'' @ ''.'' @ CRLF"
proof -
  have "\<exists>s'. retr_send (sample_os []) ''command/client.K'' sample_server = (Rc 0, s')"
    by (simp add: retr_send_def do_call_def answer_split say_def sample_os_def Let_def)
  then obtain s' where s': "retr_send (sample_os []) ''command/client.K'' sample_server = (Rc 0, s')" ..
  have "os_stat (sample_os []) h p = file_stat" "os_bytes (sample_os []) h p = [Bytes [104, 105]]" for h p
    by (simp_all add: sample_os_def)
  moreover have "print_int (st_size file_stat) = ''5''" "chars_of (read_all [Bytes [104, 105]]) = ''hi''"
    "sent (hist sample_server) = []" by code_simp+
  ultimately show ?thesis using retr_sends_file [OF s'] s' by auto
qed

text \<open>When the data loop of \<open>STOR\<close> ends without an error, exactly as many bytes as the client announced
  have been written to the upload.\<close>

theorem stor_writes_length:
  assumes "stor_loop os up len s = (Inr len', s')" "0 \<le> len"
  shows "len' = 0 \<and> (\<exists>d. written up (hist s') = written up (hist s) @ d \<and> int (length d) = len)"
  using stor_loop_written [OF assms] .

theorem stor_writes_length_witness:
  "\<exists>s' d. stor_loop (sample_os []) ''tmp/file/t/f'' 3 sample_server = (Inr 0, s') \<and>
     written ''tmp/file/t/f'' (hist s') = d \<and> length d = 3"
proof -
  have "\<exists>s'. stor_loop (sample_os []) ''tmp/file/t/f'' 3 sample_server = (Inr 0, s')"
    by (simp add: stor_loop.simps do_call_def answer_split sample_os_def Let_def)
  then obtain s' where s': "stor_loop (sample_os []) ''tmp/file/t/f'' 3 sample_server = (Inr 0, s')" ..
  have "written ''tmp/file/t/f'' (hist sample_server) = []" by (simp add: sample_server_def server0_def)
  with stor_writes_length [OF s'] s' show ?thesis by auto
qed

text \<open>C11. Reading the command files ends, even if they include one another: a recursion depth
  larger than the number of names below \<open>MAXPATHLEN\<close> that are not listed yet always gives a result, and
  no name is lost from the access list.\<close>

theorem read_kfile_returns:
  assumes "unlisted s < depth"
  shows "\<exists>n s'. server_read_kfile depth os kfile s = Ret (n, s') \<and> set (access_list s) \<subseteq> set (access_list s')"
  using server_read_kfile_returns [OF assms] by (simp add: list_grows_def)

theorem read_kfile_returns_witness:
  "\<exists>depth n s'. server_read_kfile depth (sample_os []) ''client.K'' sample_server = Ret (n, s') \<and>
     ''base.T'' \<in> set (access_list s')"
  using read_kfile_returns [of sample_server "Suc (unlisted sample_server)" "sample_os []" "''client.K''"]
  by (auto simp: sample_server_def intro!: exI [of _ "Suc (unlisted sample_server)"])



text \<open>C13. The test for \<open>../\<close> is made on the encoded name, and \<open>decode\<close> leaves a byte of the previous
  name for an unknown escape: after a request for \<open>aa/b\<close> the name \<open>..\qetc\<close> leaves the special
  directory.\<close>

theorem special_request_escapes:
  assumes "length (sdbuf s) = MAXPATHLEN" "length (special_dir s) < 4000" "length (remote_host s) < 1000"
  shows "keyword s [''RETR'', ''SPECIAL'', ''..'' @ [BSL] @ ''qetc''] = Some K_SPECIAL \<and>
    (\<exists>s1 s2. special_path os [''RETR'', ''SPECIAL'', ''aa/b''] s = Ret (Inr (special_dir s @ ''/aa/b''), s1) \<and>
      special_path os [''RETR'', ''SPECIAL'', ''..'' @ [BSL] @ ''qetc''] s1 = Ret (Inr (special_dir s @ ''/../etc''), s2))"
proof -
  have "strcasecmp ''SPECIAL'' ''COMMAND'' \<noteq> 0" "strcasecmp ''SPECIAL'' ''SPECIAL'' = 0"
    "\<not> strstr (''..'' @ [BSL] @ ''qetc'') ''../''" by code_simp+
  with assms(3) have "keyword s [''RETR'', ''SPECIAL'', ''..'' @ [BSL] @ ''qetc''] = Some K_SPECIAL"
    by (simp add: keyword_def MAXPATHLEN_def)
  with special_path_escapes [OF assms(1,2)] show ?thesis by blast
qed

theorem special_request_escapes_witness:
  "\<exists>s1 s2. special_path (sample_os []) [''RETR'', ''SPECIAL'', ''aa/b''] sample_server =
       Ret (Inr ''special/client.org/aa/b'', s1) \<and>
     special_path (sample_os []) [''RETR'', ''SPECIAL'', ''..'' @ [BSL] @ ''qetc''] s1 =
       Ret (Inr ''special/client.org/../etc'', s2)"
  using special_request_escapes [of sample_server "sample_os []"]
  by (simp add: sample_server_def server0_def)

text \<open>C14. A second \<open>LOGIN\<close> after a successful one uses the password that the first has freed.\<close>

definition quiet_pam :: os where
  "quiet_pam = (sample_os [])\<lparr>os_conv := \<lambda>h. []\<rparr>"

theorem second_login:
  assumes "checkuser cfg" "length av = 3" "length av' = 3" "f_login cfg os av s = Ret (Rc 0, s')"
  shows "f_login cfg os' av' s' = UB"
  using login_twice [OF assms] .

theorem second_login_witness:
  "\<exists>s'. f_login sample_settings quiet_pam [''LOGIN'', ''amy'', ''pw''] sample_server = Ret (Rc 0, s') \<and>
     f_login sample_settings quiet_pam [''LOGIN'', ''amy'', ''pw''] s' = UB"
proof -
  have c: "checkuser sample_settings" by (simp add: sample_settings_def)
  moreover have "\<exists>s'. f_login sample_settings quiet_pam [''LOGIN'', ''amy'', ''pw''] sample_server = Ret (Rc 0, s')"
    by (simp add: f_login_def c quiet_pam_def sample_os_def do_call_def answer_split Let_def)
      (simp add: sample_server_def server0_def)
  ultimately show ?thesis
    using second_login [of sample_settings "[''LOGIN'', ''amy'', ''pw'']" "[''LOGIN'', ''amy'', ''pw'']" quiet_pam sample_server _ quiet_pam]
    by auto
qed

section \<open>TLS and the daemon\<close>

text \<open>C15. A server whose certificate has only the alternative name \<open>*.e\<close> is accepted for the host \<open>l.d\<close> exactly when \<open>d\<close> and \<open>e\<close>
  have the same length and differ: certificates of the right domain are refused, those of others accepted.\<close>

theorem other_domain_accepted:
  assumes "\<forall>h c. os_err os h c = None" "\<forall>h. char_at (os_line os h) 0 = CHR ''2''"
    "\<forall>h. peer h = Some \<lparr>c_alt = Some [GEN_DNS (''*.'' @ e)], c_cn = Some cn\<rparr>" "inet_aton (l @ ''.'' @ d) = None"
    "CHR ''.'' \<notin> set l" "l \<noteq> ''*''" "c_string (l @ ''.'' @ d)" "c_string e" "cstr (take 1023 cn) \<noteq> l @ ''.'' @ d"
  shows "(\<exists>h'. tls_client_start os peer inet_aton (l @ ''.'' @ d) h = Ret (0, h')) \<longleftrightarrow>
    length d = length e \<and> map c_tolower d \<noteq> map c_tolower e"
  by (rule star_start [of os peer e cn inet_aton l d h, OF assms])

theorem other_domain_accepted_witness:
  "\<exists>h'. tls_client_start (sample_os ''220 Ready'') (\<lambda>h. Some \<lparr>c_alt = Some [GEN_DNS ''*.evil.com''], c_cn = Some ''other''\<rparr>)
     (\<lambda>a. None) ''www.good.org'' [] = Ret (0, h')"
proof -
  have a: "\<forall>h c. os_err (sample_os ''220 Ready'') h c = None" "\<forall>h. char_at (os_line (sample_os ''220 Ready'') h) 0 = CHR ''2''"
    by (simp_all add: sample_os_def char_at_def)
  have c: "c_string (''www'' @ ''.'' @ ''good.org'')" "c_string ''evil.com''" "CHR ''.'' \<notin> set ''www''" "''www'' \<noteq> ''*''"
    "cstr (take 1023 ''other'') \<noteq> ''www'' @ ''.'' @ ''good.org''"
    "length ''good.org'' = length ''evil.com'' \<and> map c_tolower ''good.org'' \<noteq> map c_tolower ''evil.com''"
    by code_simp+
  show ?thesis
    using other_domain_accepted [OF a, of "\<lambda>h. Some \<lparr>c_alt = Some [GEN_DNS ''*.evil.com''], c_cn = Some ''other''\<rparr>" "''evil.com''"
        "''other''" "\<lambda>a. None" "''www''" "''good.org''" "[]"] c by simp
qed

text \<open>C16. However the ends of children and the signals interleave with the loop of the daemon, \<open>connections\<close> is the number of its
  children that it has not waited for, plus one for every failed \<open>fork\<close> and for the connection at hand;
  as long as one of them has ended, a signal is still to be seen or the children are being waited for.\<close>

theorem children_counted:
  assumes "daemon_runs ok ca d (daemon0 cs) s"
  shows "d_connections s = int (length (d_alive s) + length (d_dead s) + d_failed s) + (if d_pc s = D_Fork then 1 else 0) \<and>
    (d_dead s \<noteq> [] \<longrightarrow> 0 < d_signal s \<or> d_pc s = D_Reap \<or> d_pc s = D_Exit) \<and>
    (\<forall>c \<in> set (d_alive s) \<union> set (d_dead s). c \<in> fst ` set (d_served s))"
  by (rule children_are_counted [OF assms])

definition radmind_opts :: daemon_opts where
  "radmind_opts = \<lparr>o_backlog = 5, o_debug = 0, o_path = ''/var/radmind'', o_facility = 24, o_fg = False, o_level = 6,
     o_maxconn = 1, o_port = 0, o_randfile = False, o_checkuser = False, o_authlevel = 0,
     o_tls = \<lparr>ca_file = None, ca_dir = None, crl_file = None, crl_dir = None, cert_file = [], key_file = []\<rparr>, o_zlib = 0, o_rap = 1\<rparr>"

lemma daemon_first_connection:
  "\<exists>s. daemon_runs ok ca d (daemon0 []) s \<and> d_pc s = D_Fork \<and> d_alive s = [] \<and> d_dead s = [] \<and> d_failed s = 0 \<and> d_signal s = 0"
proof -
  let ?s = "daemon0 []"
  have 1: "daemon_runs ok ca d ?s (reinit_ssl ok ca d ?s)"
    by (rule daemon_runs.more [OF daemon_runs.start daemon_step.test_reinit]) (simp add: daemon0_def)
  have 2: "daemon_runs ok ca d ?s ((reinit_ssl ok ca d ?s)\<lparr>d_pc := D_Accept\<rparr>)"
    using daemon_runs.more [OF 1 daemon_step.test_signal] by (simp add: daemon0_def reinit_ssl_def)
  have 3: "daemon_runs ok ca d ?s ((reinit_ssl ok ca d ?s)\<lparr>d_connections := 1, d_pc := D_Fork\<rparr>)"
    using daemon_runs.more [OF 2 daemon_step.accepts] by (simp add: daemon0_def reinit_ssl_def)
  then show ?thesis
    by (intro exI [of _ "(reinit_ssl ok ca d ?s)\<lparr>d_connections := 1, d_pc := D_Fork\<rparr>"]) (simp add: daemon0_def)
qed

theorem children_counted_witness:
  "\<exists>s. daemon_runs (\<lambda>cs c. True) [] radmind_opts (daemon0 []) s \<and> d_dead s = [7] \<and> d_connections s = 1 \<and> 0 < d_signal s"
proof -
  obtain s where s: "daemon_runs (\<lambda>cs c. True) [] radmind_opts (daemon0 []) s" "d_pc s = D_Fork" "d_alive s = []" "d_dead s = []"
    "d_failed s = 0" using daemon_first_connection by blast
  have 1: "daemon_runs (\<lambda>cs c. True) [] radmind_opts (daemon0 []) (forked 7 s)"
    by (rule daemon_runs.more [OF s(1) daemon_step.forks]) (simp_all add: s)
  let ?t = "chld ((forked 7 s)\<lparr>d_alive := [], d_dead := [7]\<rparr>)"
  have "daemon_runs (\<lambda>cs c. True) [] radmind_opts (daemon0 []) ?t"
    using daemon_runs.more [OF 1 daemon_step.child_ends [of 7]] by (simp add: forked_def s)
  from this children_counted [OF this] show ?thesis
    by (intro exI [of _ ?t]) (simp add: forked_def chld_def s)
qed

text \<open>C17. The process for a new connection enters the command loop only if there is no limit or fewer children than the limit have not
  been waited for; but every \<open>fork\<close> that has ever failed counts as one of them, so that with as many
  failures as the limit all clients are refused although none is connected.\<close>

theorem connection_limit:
  assumes "daemon_runs ok ca d (daemon0 cs) s" "d_pc s = D_Fork"
    "cmdloop_start depth (child_settings d ver sha (d_connections s)) os addr hname = Ret (r, s')"
  shows "(o_maxconn d \<noteq> 0 \<and> o_maxconn d \<le> int (length (d_alive s) + length (d_dead s) + d_failed s) \<longrightarrow> r = Quit 1) \<and>
    (r = Rc 0 \<longrightarrow> o_maxconn d = 0 \<or> int (length (d_alive s) + length (d_dead s) + d_failed s) < o_maxconn d)"
  by (rule limit_holds [OF assms])

theorem connection_limit_witness:
  "\<exists>s s'. daemon_runs (\<lambda>cs c. True) [] radmind_opts (daemon0 []) s \<and> d_alive s = [] \<and> d_dead s = [] \<and>
     cmdloop_start 1 (child_settings radmind_opts ''1.14'' None (d_connections s)) (sample_os []) ''10.0.0.7'' None = Ret (Quit 1, s')"
proof -
  obtain s where s: "daemon_runs (\<lambda>cs c. True) [] radmind_opts (daemon0 []) s" "d_pc s = D_Fork" "d_alive s = []" "d_dead s = []"
    "d_failed s = 0" "d_signal s = 0" using daemon_first_connection by blast
  define s1 where "s1 = s\<lparr>d_failed := 1, d_pc := D_Reinit\<rparr>"
  have 1: "daemon_runs (\<lambda>cs c. True) [] radmind_opts (daemon0 []) s1"
    using daemon_runs.more [OF s(1) daemon_step.fork_fails] by (simp add: s s1_def)
  have a: "o_authlevel radmind_opts = 0" "o_maxconn radmind_opts = 1" by (simp_all add: radmind_opts_def)
  have r: "d_pc (reinit_ssl (\<lambda>cs c. True) [] radmind_opts s1) \<in> {D_Signal, D_Reset}" by (simp add: reinit_ssl_def a)
  have 2: "daemon_runs (\<lambda>cs c. True) [] radmind_opts (daemon0 []) (reinit_ssl (\<lambda>cs c. True) [] radmind_opts s1)"
    by (rule daemon_runs.more [OF 1 daemon_step.test_reinit]) (simp add: s1_def)
  obtain s2 where 3: "daemon_runs (\<lambda>cs c. True) [] radmind_opts (daemon0 []) s2" "d_pc s2 = D_Signal" "d_alive s2 = []" "d_dead s2 = []"
    "d_failed s2 = 1" "d_signal s2 = 0"
  proof (cases "d_pc (reinit_ssl (\<lambda>cs c. True) [] radmind_opts s1) = D_Reset")
    case True
    have "daemon_runs (\<lambda>cs c. True) [] radmind_opts (daemon0 []) ((reinit_ssl (\<lambda>cs c. True) [] radmind_opts s1)\<lparr>d_reinit := False, d_pc := D_Signal\<rparr>)"
      by (rule daemon_runs.more [OF 2 daemon_step.reset [OF True]])
    then show thesis by (rule that) (simp_all add: s1_def s)
  next
    case False
    then show thesis using r by (intro that [OF 2]) (simp_all add: s1_def s)
  qed
  have 4: "daemon_runs (\<lambda>cs c. True) [] radmind_opts (daemon0 []) (s2\<lparr>d_pc := D_Accept\<rparr>)"
    using daemon_runs.more [OF 3(1) daemon_step.test_signal [OF 3(2)]] by (simp add: 3)
  let ?s = "s2\<lparr>d_connections := d_connections s2 + 1, d_pc := D_Fork\<rparr>"
  have 5: "daemon_runs (\<lambda>cs c. True) [] radmind_opts (daemon0 []) ?s"
    using daemon_runs.more [OF 4 daemon_step.accepts] by simp
  have "d_connections ?s = 2" using children_are_counted [OF 5] by (simp add: 3)
  then obtain r s' where c: "cmdloop_start 1 (child_settings radmind_opts ''1.14'' None (d_connections ?s)) (sample_os []) ''10.0.0.7'' None =
      Ret (r, s')" by (simp add: cmdloop_start_def child_settings_def a Let_def)
  with connection_limit [OF 5 _ c] have "r = Quit 1" by (simp add: a 3)
  with c 5 show ?thesis by (intro exI [of _ ?s]) (simp add: 3)
qed

text \<open>C18. If the daemon accepts its options and users are checked, then in every connection nothing is created, written, made or
  removed before a TLS handshake has succeeded and PAM has authenticated and accepted the user.\<close>

theorem users_checked_over_tls:
  assumes "daemon_args os0 aton opts others opts0 h = Ret (d, h')" "o_checkuser d"
    "connected depth (child_settings d ver sha n) os addr hname c"
  shows "preceded (\<lambda>h. tls_up h \<and> logged_in h) is_write (hist (conn_state c))"
  by (rule users_over_tls [OF assms])

theorem users_checked_over_tls_witness:
  "\<exists>d s. daemon_args (sample_os []) (\<lambda>a. None) [(CHR ''U'', []), (CHR ''w'', ''1'')] 0 radmind_opts [] = Ret (d, []) \<and>
     connected 1 (child_settings d ''1.14'' None 1) (sample_os []) ''10.0.0.7'' None (Looping s) \<and>
     preceded (\<lambda>h. tls_up h \<and> logged_in h) is_write (hist s)"
proof -
  have w: "sint (atoi ''1'') = 1" by code_simp
  obtain d where d: "daemon_args (sample_os []) (\<lambda>a. None) [(CHR ''U'', []), (CHR ''w'', ''1'')] 0 radmind_opts [] = Ret (d, [])"
    "o_checkuser d" "o_authlevel d = 1" "o_maxconn d = 1"
    by (simp add: daemon_args_def daemon_option_def w radmind_opts_def)
  obtain s where "cmdloop_start 1 (child_settings d ''1.14'' None 1) (sample_os []) ''10.0.0.7'' None = Ret (Rc 0, s)"
    by (simp add: cmdloop_start_def child_settings_def d greet_def do_call_def answer_split sample_os_def)
  then have c: "connected 1 (child_settings d ''1.14'' None 1) (sample_os []) ''10.0.0.7'' None (Looping s)" by (rule connected.accepted)
  from users_checked_over_tls [OF d(1,2) c] d(1) c show ?thesis by auto
qed

section \<open>Packages\<close>

text \<open>C19. If \<open>local_update\<close> of \<open>t2pkg\<close> succeeds for a file, with checksums and without force, it has created the file, written to it
  exactly the contents of the source, which have the size and the checksum of the transcript, and then
  set its owner, mode and time.\<close>

theorem packaged_file:
  assumes "local_update opt os p dst src h = Ret (0, h')" "pi_type p = CHR ''f''" "\<not> p_force opt" "p_md opt = Some md"
    "c_string (pi_cksum_b64 p)"
  shows "\<exists>h1 k. h' = h @ k @ [Did (Chown dst (st_uid (pi_stat p)) (st_gid (pi_stat p))) None,
      Did (Chmod dst (and T_MODE (st_mode (pi_stat p)))) None, Did (Utime dst (st_mtime (pi_stat p))) None] \<and>
    Did (Create dst) None \<in> set k \<and> written dst k = chars_of (read_all (os_bytes os h1 src)) \<and>
    do_fcksum md (os_bytes os h1 src) = (st_size (pi_stat p), Some (pi_cksum_b64 p))"
  by (rule packed_file [OF assms])

definition packed_info :: pathinfo where
  "packed_info = pathinfo0\<lparr>pi_type := CHR ''f'', pi_name := ''./c'', pi_stat := file_stat\<lparr>st_size := 2\<rparr>, pi_cksum_b64 := ''aGk=''\<rparr>"

definition pack_os :: os where
  "pack_os = (sample_os [])\<lparr>os_stat := \<lambda>h p. file_stat\<lparr>st_size := 2\<rparr>\<rparr>"

definition pack_opts :: "byte list pack_options" where
  "pack_opts = \<lparr>p_md = Some byte_digest, p_force = False, p_server = True\<rparr>"

theorem packaged_file_witness:
  "\<exists>h' k. local_update pack_opts pack_os packed_info ''/d/c'' ''/r/c'' [] = Ret (0, h') \<and>
     h' = k @ [Did (Chown ''/d/c'' 0 0) None, Did (Chmod ''/d/c'' 0x1A4) None, Did (Utime ''/d/c'' 1000) None] \<and>
     written ''/d/c'' k = ''hi''"
proof -
  have e: "os_err pack_os h c = None" "os_bytes pack_os h p = [Bytes [104, 105]]" "os_stat pack_os h p = file_stat\<lparr>st_size := 2\<rparr>" for h c p
    by (simp_all add: pack_os_def sample_os_def)
  have i: "pi_type packed_info = CHR ''f''" "pi_cksum_b64 packed_info = ''aGk=''" "st_size (pi_stat packed_info) = 2"
    "st_uid (pi_stat packed_info) = 0" "st_gid (pi_stat packed_info) = 0" "st_mtime (pi_stat packed_info) = 1000"
    "and T_MODE (st_mode (pi_stat packed_info)) = 0x1A4" "c_string ''aGk=''"
    by code_simp+
  have b: "base64_e (d_final byte_digest (d_update byte_digest (d_init byte_digest) [104, 105])) = ''aGk=''" "strcmp ''aGk='' ''-'' \<noteq> 0" "chars_of (read_all [Bytes [104, 105]]) = ''hi''" by code_simp+
  have o: "p_md pack_opts = Some byte_digest" "\<not> p_force pack_opts" by (simp_all add: pack_opts_def)
  obtain h' where h: "local_update pack_opts pack_os packed_info ''/d/c'' ''/r/c'' [] = Ret (0, h')"
    by (simp add: local_update_def pack_make_def pack_copy_file_def answer_split e i o b pack_end_def pack_owner_def Let_def)
  from packaged_file [OF h i(1) o(2,1)] i(2,8) obtain h1 k where "h' = k @ [Did (Chown ''/d/c'' 0 0) None, Did (Chmod ''/d/c'' 0x1A4) None,
      Did (Utime ''/d/c'' 1000) None]" "written ''/d/c'' k = chars_of (read_all (os_bytes pack_os h1 ''/r/c''))"
    by (auto simp: i)
  with h b(3) show ?thesis by (simp add: e)
qed

section \<open>The clients\<close>

definition sample_options :: "byte list options" where
  "sample_options = \<lparr>create_prefix = False, checksum_md = Some byte_digest, pid = 7, euid = 0\<rparr>"

lemma sample_digest_fine: "digest_fine sample_options"
  by (simp add: digest_fine_def sample_options_def chunked_def byte_digest_def)

text \<open>C20. Client and server agree on a download: if \<open>RETR\<close> succeeds on the server and the bytes it has
  sent are what the client reads, then \<open>retr\<close>, none of whose calls fails, succeeds and has written
  exactly the contents of the server's file to the temporary file.\<close>

theorem download_end_to_end:
  assumes "retr_send sos file s = (Rc 0, s')" "sent (hist s') = sent (hist s) @ stream"
    and "\<forall>h. chars_of (read_all (os_bytes sos h file)) = d" "\<forall>h. st_size (os_stat sos h file) = int (length d)"
    and "retr opt (stream_os os h stream) pathdesc path transize tc h = ((r, t), h @ k)" "calm k"
    and "digest_fine opt" "checksum_ok opt tc d" "transize < 0 \<or> transize = int (length d)"
    and "length (temp_name opt path) < MAXPATHLEN" "int (length d) < 2 ^ 63"
  shows "r = 0 \<and> t = temp_name opt path \<and> written t k = d"
  by (rule download_whole [OF assms])

definition sample_sender :: os where
  "sample_sender = (sample_os [])\<lparr>os_stat := \<lambda>h p. file_stat\<lparr>st_size := 2\<rparr>\<rparr>"

theorem download_end_to_end_witness:
  "\<exists>s' stream k. retr_send sample_sender ''file/base.T/a'' sample_server = (Rc 0, s') \<and>
     sent (hist s') = sent (hist sample_server) @ stream \<and>
     retr sample_options (stream_os (sample_os []) [] stream) ''FILE base.T a'' ''./a'' 2 (base64_e [104, 105]) [] =
       ((0, ''./a.radmind.7''), k) \<and> written ''./a.radmind.7'' k = ''hi''"
proof -
  have e: "os_err sample_sender h c = None" "os_bytes sample_sender h p = [Bytes [104, 105]]"
    "os_stat sample_sender h p = file_stat\<lparr>st_size := 2\<rparr>" for h c p
    by (simp_all add: sample_sender_def sample_os_def)
  have "\<exists>s' x. retr_send sample_sender ''file/base.T/a'' sample_server = (Rc 0, s') \<and>
      sent (hist s') = sent (hist sample_server) @ x"
    by (simp add: retr_send_def do_call_def answer_split say_def e Let_def sent_append)
  then obtain s' x where s: "retr_send sample_sender ''file/base.T/a'' sample_server = (Rc 0, s')"
    "sent (hist s') = sent (hist sample_server) @ x" by blast
  have "sent (hist s') = sent (hist sample_server) @ ''240 Retrieving file'' @ CRLF @ ''2'' @ CRLF @ ''hi'' @ ''.'' @ CRLF"
    using retr_send_sent [OF s(1)] by (auto simp: e) code_simp
  with s(2) have x: "x = ''240 Retrieving file'' @ CRLF @ ''2'' @ CRLF @ ''hi'' @ ''.'' @ CRLF" by simp
  obtain r t k where c: "retr sample_options (stream_os (sample_os []) [] x) ''FILE base.T a'' ''./a'' 2 (base64_e [104, 105]) [] = ((r, t), k)"
    by (metis prod.exhaust)
  have "calm (snd (retr sample_options (stream_os (sample_os []) [] x) ''FILE base.T a'' ''./a'' 2 (base64_e [104, 105]) []))"
    unfolding x by code_simp
  then have "calm k" unfolding c by simp
  have "chars_of (read_all [Bytes [104, 105]]) = ''hi''" "temp_name sample_options ''./a'' = ''./a.radmind.7''"
    "checksum_ok sample_options (base64_e [104, 105]) ''hi''" by code_simp+
  with download_end_to_end [OF s, of "''hi''" sample_options "sample_os []" "[]" "''FILE base.T a''" "''./a''" 2 "base64_e [104, 105]" r t k]
    c \<open>calm k\<close> sample_digest_fine s show ?thesis by (auto simp: e MAXPATHLEN_def)
qed

text \<open>C21. Whatever the server sends and the system answers: when \<open>retr\<close> reports success, the bytes it has
  written to the temporary file have the length and, with checksums on, the checksum of the transcript.\<close>

theorem download_contract:
  assumes "retr opt os pathdesc path transize tc h = ((0, t), h')" "digest_fine opt" "c_string tc"
  shows "\<exists>k. h' = h @ k \<and> t = temp_name opt path \<and> checksum_ok opt tc (written t k) \<and>
    (0 \<le> transize \<longrightarrow> int (length (written t k)) = transize)"
  using retr_ok [OF assms] by (auto simp: goes_def)

definition hi_stream :: string where
  "hi_stream = ''240 Retrieving file'' @ CRLF @ ''2'' @ CRLF @ ''hi.'' @ CRLF"

lemma hi_download:
  "fst (retr sample_options (stream_os (sample_os []) [] hi_stream) ''FILE base.T a'' ''./a'' 2 (base64_e [104, 105]) []) =
     (0, ''./a.radmind.7'')"
  by code_simp

theorem download_contract_witness:
  "\<exists>k. retr sample_options (stream_os (sample_os []) [] hi_stream) ''FILE base.T a'' ''./a'' 2 (base64_e [104, 105]) [] =
     ((0, ''./a.radmind.7''), k) \<and> length (written ''./a.radmind.7'' k) = 2 \<and>
     base64_e [104, 105] = base64_e (bytes_of (written ''./a.radmind.7'' k))"
proof -
  let ?m = "retr sample_options (stream_os (sample_os []) [] hi_stream) ''FILE base.T a'' ''./a'' 2 (base64_e [104, 105]) []"
  obtain k where k: "?m = ((0, ''./a.radmind.7''), k)" using hi_download by (metis prod.collapse)
  have "temp_name sample_options ''./a'' = ''./a.radmind.7''" by code_simp
  with download_contract [OF k sample_digest_fine c_string_base64] k show ?thesis
    by (auto simp: checksum_ok_def sample_options_def byte_digest_def)
qed

text \<open>C22. When \<open>retr\<close> fails, either the temporary file was never created or the last call made is its
  removal, on every error path.\<close>

theorem failed_download_cleaned:
  assumes "retr opt os pathdesc path transize tc h = ((r, t), h')" "r \<noteq> 0"
  shows "\<exists>k. h' = h @ k \<and> (Did (Create (temp_name opt path)) None \<in> set k \<longrightarrow>
    (\<exists>k' e. k = k' @ [Did (Unlink (temp_name opt path)) e]))"
  using retr_failed [OF assms] by (auto simp: goes_def cleaned_def opened_def)

theorem failed_download_cleaned_witness:
  "\<exists>k k' e. retr sample_options (stream_os (sample_os []) [] hi_stream) ''FILE base.T a'' ''./a'' 2 ''AAAA'' [] =
     ((1, ''./a.radmind.7''), k) \<and> Did (Create ''./a.radmind.7'') None \<in> set k \<and> k = k' @ [Did (Unlink ''./a.radmind.7'') e]"
proof -
  let ?m = "retr sample_options (stream_os (sample_os []) [] hi_stream) ''FILE base.T a'' ''./a'' 2 ''AAAA'' []"
  have "fst ?m = (1, ''./a.radmind.7'')" "list_ex (\<lambda>x. x = Did (Create ''./a.radmind.7'') None) (snd ?m)"
    "temp_name sample_options ''./a'' = ''./a.radmind.7''" by code_simp+
  moreover then obtain k where k: "?m = ((1, ''./a.radmind.7''), k)" by (metis prod.collapse)
  ultimately show ?thesis
    using failed_download_cleaned [OF k] by (auto simp: list_ex_iff)
qed

definition sample_apply :: "byte list apply_options" where
  "sample_apply = options.extend sample_options \<lparr>o_case_sensitive = True, o_force = False\<rparr>"

text \<open>C23. \<open>lapply\<close> empties directories before it removes them: in the order of the successful \<open>rmdir\<close> calls
  of a run, whatever the transcript and however the run ends, no directory lies below an earlier one.\<close>

theorem removed_bottom_up:
  assumes "lapply_main opt os report event file inp (lapply0 net []) = Ret (n, s')"
    "o_case_sensitive opt" "\<forall>h. \<exists>e. os_lstat os h [] = Inl e"
  shows "sorted_wrt (\<lambda>a b. ischild b (Some a) \<longrightarrow> b = a) (removed_dirs (la_hist s'))"
proof -
  have "no_empty_name os" using assms(3) by (simp add: no_empty_name_def)
  from lapply_bottom_up [OF assms(1,2) this] have "bottom_up (removed_dirs (la_hist s'))" by simp
  then show ?thesis unfolding bottom_up_def by (rule sorted_wrt_mono_rel [rotated]) blast
qed

text \<open>Two directories, one in the other, that are to be removed.\<close>

definition dirs_os :: os where
  "dirs_os = (sample_os [])\<lparr>os_lstat := \<lambda>h p. if p = [] then Inl ENOENT else Inr dir_stat\<rparr>"

definition dirs_text :: string where
  "dirs_text = ''- d ./a 0755 0 0'' @ [NL] @ ''- d ./a/b 0755 0 0'' @ [NL]"

lemma dirs_lines:
  "fgets MAXPATHLEN dirs_text = Some (''- d ./a 0755 0 0'' @ [NL], ''- d ./a/b 0755 0 0'' @ [NL])"
  "fgets MAXPATHLEN (''- d ./a/b 0755 0 0'' @ [NL]) = Some (''- d ./a/b 0755 0 0'' @ [NL], [])"
  "fgets MAXPATHLEN [] = None"
  by code_simp+

lemma dirs_split:
  "\<exists>b offs. split_line (''- d ./a 0755 0 0'' @ [NL]) old = Ret (CHR ''-'' # b, 0 # offs, [''-'', ''d'', ''./a'', ''0755'', ''0'', ''0''])"
  "\<exists>b offs. split_line (''- d ./a/b 0755 0 0'' @ [NL]) old = Ret (CHR ''-'' # b, 0 # offs, [''-'', ''d'', ''./a/b'', ''0755'', ''0'', ''0''])"
  by (simp_all add: split_line_def eval_nat_numeral token_at_def cstr_def ACV_ARGC_def Let_def)

lemma plain_decode:
  assumes "well_escaped w" "c_string w" "unescaped w = w" "length w < MAXPATHLEN" "length buf = MAXPATHLEN"
  shows "\<exists>buf'. decode w buf = Ret (Some w, buf') \<and> length buf' = MAXPATHLEN"
  using decode_well_escaped [of w buf] assms by simp

lemma char_diffs: "char_diff True a a = 0" "char_diff True SLASH NUL = 47"
  by (simp_all add: char_diff_def) code_simp

lemma dirs_run:
  "\<exists>s'. lapply_main sample_apply dirs_os False ''e'' ''t'' dirs_text (lapply0 False []) = Ret (0, s') \<and>
     removed_dirs (la_hist s') = [''./a/b'', ''./a'']"
proof -
  have e: "os_err dirs_os h c = None" "os_lstat dirs_os h (c1 # p) = Inr dir_stat" for h c c1 p
    by (simp_all add: dirs_os_def sample_os_def)
  have r: "radstat (\<lambda>x. Inr dir_stat) p st ty = (0, dir_stat, CHR ''d'', None)" for p st ty
    by (simp add: radstat_def dir_stat_def S_IF_defs)
  obtain b1 where b1: "decode ''./a'' decode_buf0 = Ret (Some ''./a'', b1)" "length b1 = MAXPATHLEN"
    using plain_decode [of "''./a''" decode_buf0] by (auto simp: MAXPATHLEN_def)
  obtain b2 where b2: "decode ''./a/b'' b1 = Ret (Some ''./a/b'', b2)"
    using plain_decode [of "''./a/b''" b1] b1(2) by (auto simp: MAXPATHLEN_def)
  obtain x1 o1 where x1: "split_line (''- d ./a 0755 0 0'' @ [NL]) (la_targvline (lapply0 False [])) =
      Ret (CHR ''-'' # x1, 0 # o1, [''-'', ''d'', ''./a'', ''0755'', ''0'', ''0''])"
    using dirs_split(1) by blast
  obtain x2 o2 where x2: "split_line (''- d ./a/b 0755 0 0'' @ [NL]) (CHR ''-'' # x1) =
      Ret (CHR ''-'' # x2, 0 # o2, [''-'', ''d'', ''./a/b'', ''0755'', ''0'', ''0''])"
    using dirs_split(2) by blast
  have o: "o_case_sensitive sample_apply" "o_force sample_apply = False"
    by (simp_all add: sample_apply_def options.defs)
  define s1 where "s1 = (lapply0 False [])\<lparr>la_targvline := CHR ''-'' # x1, la_command := Some 0, la_buf := b1,
    la_prepath := ''./a'', la_st := dir_stat, la_type := CHR ''d'', la_hist := [Did (Lstat ''./a'') None],
    la_head := [\<lparr>dn_path = ''./a'', dn_line = None\<rparr>]\<rparr>"
  have l1: "apply_line sample_apply dirs_os (''- d ./a 0755 0 0'' @ [NL]) (lapply0 False []) = Ret (Continue, s1)"
    using x1 b1
    by (simp add: apply_line_def char_at_def lapply0_def is_sign_def apply_path_def radstat_call_def lstat_call_def e r
        MAXPATHLEN_def apply_object_def clear_object_def leave_dirs_def s1_def Let_def)
  have "\<exists>s2. apply_line sample_apply dirs_os (''- d ./a/b 0755 0 0'' @ [NL]) s1 = Ret (Continue, s2) \<and>
      la_head s2 = map (\<lambda>p. \<lparr>dn_path = p, dn_line = None\<rparr>) [''./a/b'', ''./a''] \<and> removed_dirs (la_hist s2) = [] \<and>
      \<not> la_network s2"
    using x2 b2
    by (simp add: apply_line_def char_at_def s1_def is_sign_def apply_path_def radstat_call_def lstat_call_def e r
        MAXPATHLEN_def apply_object_def clear_object_def leave_dirs_def o ischildcase_def strncmp_def Let_def lapply0_def
        char_diffs)
  then obtain s2 where l2: "apply_line sample_apply dirs_os (''- d ./a/b 0755 0 0'' @ [NL]) s1 = Ret (Continue, s2)"
    "la_head s2 = map (\<lambda>p. \<lparr>dn_path = p, dn_line = None\<rparr>) [''./a/b'', ''./a'']" "removed_dirs (la_hist s2) = []"
    "\<not> la_network s2" by blast
  have "apply_lines sample_apply dirs_os dirs_text (lapply0 False []) = Ret (Continue, s2)"
    using l1 l2(1) by (simp add: apply_lines.simps [of _ _ dirs_text] apply_lines.simps [of _ _ "CHR ''-'' # _"]
        apply_lines.simps [of _ _ "[]"] dirs_lines [simplified] cstr_def)
  with l2(2-4) show ?thesis
    by (simp add: lapply_main_def remove_head_def la_call_def answer_split e removed_append apply_done_def)
qed

theorem removed_bottom_up_witness:
  "\<exists>s'. lapply_main sample_apply dirs_os False ''e'' ''t'' dirs_text (lapply0 False []) = Ret (0, s') \<and>
     removed_dirs (la_hist s') = [''./a/b'', ''./a''] \<and> \<not> ischild ''./a'' (Some ''./a/b'')"
proof -
  obtain s' where s': "lapply_main sample_apply dirs_os False ''e'' ''t'' dirs_text (lapply0 False []) = Ret (0, s')"
    "removed_dirs (la_hist s') = [''./a/b'', ''./a'']" using dirs_run by blast
  have "o_case_sensitive sample_apply" "\<forall>h. \<exists>e. os_lstat dirs_os h [] = Inl e"
    by (simp_all add: sample_apply_def options.defs dirs_os_def)
  from removed_bottom_up [OF s'(1) this] s' show ?thesis by auto
qed

text \<open>C24. Nothing put off is forgotten: if a line takes a directory away and the run of \<open>lapply\<close> over the
  lines that follow ends with status 0, the directory has been removed by then.\<close>

theorem waiting_removed:
  assumes "apply_object opt os tline CHR ''-'' av p True s = Ret (Continue, s1)" "la_type s = CHR ''d''"
    "lapply_main opt os report event file inp s1 = Ret (0, s')"
  shows "Did (Rmdir p) None \<in> set (la_hist s')"
proof -
  from lapply_removes_waiting [OF assms(3) remove_line_waits [OF assms(1,2)]]
  have "p \<in> set (removed_dirs (la_hist s'))" .
  then show ?thesis by (rule removed_dirs_event)
qed

theorem waiting_removed_witness:
  "\<exists>s1 s'. apply_object sample_apply dirs_os ''- d ./a 0755 0 0'' CHR ''-'' [''d''] ''./a'' True
       ((lapply0 False [])\<lparr>la_type := CHR ''d''\<rparr>) = Ret (Continue, s1) \<and>
     lapply_main sample_apply dirs_os False ''e'' ''t'' [] s1 = Ret (0, s') \<and> Did (Rmdir ''./a'') None \<in> set (la_hist s')"
proof -
  let ?s = "(lapply0 False [])\<lparr>la_type := CHR ''d''\<rparr>"
  define s1 where "s1 = ?s\<lparr>la_head := [\<lparr>dn_path = ''./a'', dn_line = None\<rparr>]\<rparr>"
  have a: "apply_object sample_apply dirs_os ''- d ./a 0755 0 0'' CHR ''-'' [''d''] ''./a'' True ?s = Ret (Continue, s1)"
    by (simp add: apply_object_def clear_object_def leave_dirs_def lapply0_def s1_def char_at_def Let_def)
  have "os_err dirs_os h c = None" for h c by (simp add: dirs_os_def sample_os_def)
  then have "\<exists>s'. lapply_main sample_apply dirs_os False ''e'' ''t'' [] s1 = Ret (0, s')"
    by (simp add: lapply_main_def apply_lines.simps [of _ _ "[]"] dirs_lines(3) remove_head_def la_call_def answer_split
        apply_done_def s1_def lapply0_def)
  then obtain s' where "lapply_main sample_apply dirs_os False ''e'' ''t'' [] s1 = Ret (0, s')" ..
  with waiting_removed [OF a _ this] a show ?thesis by auto
qed

text \<open>Removals are not counted as changes: whatever the file system looks like beyond one regular file, after it has
  been removed an error ends \<open>lapply\<close> with status 2, which stands for no modification.\<close>

definition twice_text :: string where
  "twice_text = ''- f ./a 0644 0 0 0 0 -'' @ [NL] @ ''- f ./a 0644 0 0 0 0 -'' @ [NL]"

lemma twice_lines:
  "fgets MAXPATHLEN twice_text = Some (''- f ./a 0644 0 0 0 0 -'' @ [NL], ''- f ./a 0644 0 0 0 0 -'' @ [NL])"
  "fgets MAXPATHLEN (''- f ./a 0644 0 0 0 0 -'' @ [NL]) = Some (''- f ./a 0644 0 0 0 0 -'' @ [NL], [])"
  by code_simp+

lemma twice_split:
  "\<exists>b offs. split_line (''- f ./a 0644 0 0 0 0 -'' @ [NL]) old =
     Ret (CHR ''-'' # b, 0 # offs, [''-'', ''f'', ''./a'', ''0644'', ''0'', ''0'', ''0'', ''0'', ''-''])"
  by (simp add: split_line_def eval_nat_numeral token_at_def cstr_def ACV_ARGC_def Let_def)

theorem removals_not_counted:
  assumes "\<forall>h. os_lstat os h ''./a'' = Inr st" "and (st_mode st) S_IFMT = S_IFREG"
    "\<forall>h. os_err os h (Unlink ''./a'') = None"
  shows "\<exists>s'. lapply_main opt os report event file twice_text (lapply0 False []) = Ret (2, s') \<and>
    Did (Unlink ''./a'') None \<in> set (la_hist s')"
proof -
  have r: "radstat (\<lambda>x. Inr st) p st0 ty = (0, st, CHR ''f'', None)" for p st0 ty
    using assms(2) by (simp add: radstat_def)
  obtain b1 where b1: "decode ''./a'' decode_buf0 = Ret (Some ''./a'', b1)" "length b1 = MAXPATHLEN"
    using plain_decode [of "''./a''" decode_buf0] by (auto simp: MAXPATHLEN_def)
  obtain b2 where b2: "decode ''./a'' b1 = Ret (Some ''./a'', b2)"
    using plain_decode [of "''./a''" b1] b1(2) by (auto simp: MAXPATHLEN_def)
  obtain x1 o1 where x1: "split_line (''- f ./a 0644 0 0 0 0 -'' @ [NL]) (la_targvline (lapply0 False [])) =
      Ret (CHR ''-'' # x1, 0 # o1, [''-'', ''f'', ''./a'', ''0644'', ''0'', ''0'', ''0'', ''0'', ''-''])"
    using twice_split by blast
  obtain x2 o2 where x2: "split_line (''- f ./a 0644 0 0 0 0 -'' @ [NL]) (CHR ''-'' # x1) =
      Ret (CHR ''-'' # x2, 0 # o2, [''-'', ''f'', ''./a'', ''0644'', ''0'', ''0'', ''0'', ''0'', ''-''])"
    using twice_split by blast
  define s1 where "s1 = (lapply0 False [])\<lparr>la_targvline := CHR ''-'' # x1, la_command := Some 0, la_buf := b1,
    la_prepath := ''./a'', la_st := st, la_type := CHR ''f'', la_hist := [Did (Lstat ''./a'') None, Did (Unlink ''./a'') None]\<rparr>"
  have l1: "apply_line opt os (''- f ./a 0644 0 0 0 0 -'' @ [NL]) (lapply0 False []) = Ret (Continue, s1)"
    using x1 b1 assms(1,3)
    by (simp add: apply_line_def char_at_def lapply0_def is_sign_def apply_path_def radstat_call_def lstat_call_def r
        MAXPATHLEN_def apply_object_def clear_object_def leave_dirs_def s1_def la_call_def answer_split Let_def)
  have same: "pathcasecmp ''./a'' ''./a'' b = 0" for b by (simp add: char_diff_def)
  have "apply_line opt os (''- f ./a 0644 0 0 0 0 -'' @ [NL]) s1 = Ret (Error2, s1\<lparr>la_targvline := CHR ''-'' # x2, la_buf := b2\<rparr>)"
    using x2 b2 same by (simp add: apply_line_def char_at_def s1_def lapply0_def is_sign_def apply_path_def Let_def)
  with l1 have "apply_lines opt os twice_text (lapply0 False []) =
      Ret (Error2, s1\<lparr>la_targvline := CHR ''-'' # x2, la_buf := b2\<rparr>)"
    by (simp add: apply_lines.simps [of _ _ twice_text] apply_lines.simps [of _ _ "CHR ''-'' # _"] twice_lines [simplified] cstr_def)
  then show ?thesis
    by (simp add: lapply_main_def s1_def lapply0_def la_call_def answer_split apply_failed_def)
qed

definition file_os :: os where
  "file_os = (sample_os [])\<lparr>os_lstat := \<lambda>h p. Inr file_stat\<rparr>"

theorem removals_not_counted_witness:
  "\<exists>s'. lapply_main sample_apply file_os False ''e'' ''t'' twice_text (lapply0 False []) = Ret (2, s') \<and>
     Did (Unlink ''./a'') None \<in> set (la_hist s')"
  by (rule removals_not_counted [of file_os file_stat])
    (simp_all add: file_os_def sample_os_def file_stat_def S_IF_defs)


section \<open>The configuration of a client\<close>

definition sample_kt :: "byte list kt_options" where
  "sample_kt = options.extend sample_options
     \<lparr>k_update = True, k_case = True, k_clean = True, k_base = ''/v/command.K'', k_kdir = ''/v/''\<rparr>"

lemma sample_kt_simps [simp]:
  "options.truncate sample_kt = sample_options" "k_update sample_kt" "k_case sample_kt" "k_base sample_kt = ''/v/command.K''"
  "k_kdir sample_kt = ''/v/''" "checksum_md sample_kt = Some byte_digest"
  by (simp_all add: sample_kt_def options.defs sample_options_def)

text \<open>C25. What a result of \<open>check\<close> other than an error means, whatever the server and the system do: with \<open>0\<close> the
  local file has the size and the checksum, or without checksums the time, of the server's line, and
  with \<open>1\<close> a download of that size and checksum has got its time and then its name; only when setting
  the time fails the result is \<open>1\<close> too and nothing has been renamed.\<close>

theorem check_contract:
  assumes "check opt os type file h = Some (Ret (n, h'))" "n \<noteq> 2" "k_update opt" "digest_fine (options.truncate opt)"
  shows "\<exists>h1 av. argcargv (os_line os h1) = Ret av \<and> length av = 8 \<and>
    (n = 0 \<and> up_to_date opt os (local_path opt file) av (h1 @ [Did (Stat (local_path opt file)) None]) \<or>
     n = 1 \<and> (\<exists>k. fetched opt (local_path opt file) av (h1 @ k) h' \<or> not_timed av (h1 @ k) h'))"
  by (rule check_keeps [OF assms])

definition stat_line :: string where
  "stat_line = ''f base.T 0644 0 0 1000 5 '' @ base64_e [104, 105]"

definition stat_os :: os where
  "stat_os = (sample_os [])\<lparr>os_line := \<lambda>h. if length h = 2 then ''250 OK'' else stat_line\<rparr>"

lemma stat_words: "argcargv stat_line = Ret [''f'', ''base.T'', ''0644'', ''0'', ''0'', ''1000'', ''5'', base64_e [104, 105]]"
  by code_simp

theorem check_contract_witness:
  "\<exists>h' h1 av. check sample_kt stat_os ''COMMAND'' None [] = Some (Ret (0, h')) \<and> argcargv (os_line stat_os h1) = Ret av \<and>
     up_to_date sample_kt stat_os ''/v/command.K'' av (h1 @ [Did (Stat ''/v/command.K'') None])"
proof -
  have "\<exists>h'. check sample_kt stat_os ''COMMAND'' None [] = Some (Ret (0, h'))"
  proof -
    have e: "os_err stat_os h c = None" "os_bytes stat_os h p = [Bytes [104, 105]]" "os_stat stat_os h p = file_stat"
      "os_line stat_os h = (if length h = 2 then ''250 OK'' else stat_line)" for h c p
      by (simp_all add: stat_os_def sample_os_def)
    have "length stat_line < MAXPATHLEN" "strtol 10 ''5'' = 5" "strtol 10 ''1000'' = 1000" "\<not> S_ISDIR (st_mode file_stat)"
      "do_fcksum byte_digest [Bytes [104, 105]] = (2, Some (base64_e [104, 105]))"
      by (simp_all add: MAXPATHLEN_def stat_line_def) code_simp+
    then show ?thesis
      by (simp add: check_def check_names_def getstat_def answer_split e MAXPATHLEN_def stat_words check_file_def out_of_date_def
        c_cksum_def do_cksum_def file_stat_def char_at_def strcmp_0)
  qed
  then obtain h' where c: "check sample_kt stat_os ''COMMAND'' None [] = Some (Ret (0, h'))" by blast
  have "digest_fine (options.truncate sample_kt)" using sample_digest_fine by simp
  from check_contract [OF c _ _ this] obtain h1 av where "argcargv (os_line stat_os h1) = Ret av"
    "up_to_date sample_kt stat_os (local_path sample_kt None) av (h1 @ [Did (Stat (local_path sample_kt None)) None])" by auto
  with c show ?thesis by (auto simp: local_path_def)
qed





section \<open>Uploads\<close>

definition sample_upload :: "byte list upload_options" where
  "sample_upload = \<lparr>u_network = True, u_negative = False, u_tran_only = False, u_force = False, u_md = Some byte_digest\<rparr>"

lemma sample_upload_fine: "u_digest_fine sample_upload"
  by (simp add: u_digest_fine_def sample_upload_def chunked_def byte_digest_def)

text \<open>C27. Client and server agree on an upload: if \<open>stor_file\<close> of the client succeeds and what it has sent behind
  the description is what the server reads, then \<open>STOR\<close>, none of whose calls fails, succeeds and the
  upload has exactly the contents of the client's file.\<close>

theorem upload_end_to_end:
  assumes "c_stor_file opt cos pathdesc path transize tc h = Ret (0, h')" "u_digest_fine opt" "c_string tc"
    and "sent h' = sent h @ pathdesc @ CRLF @ stream"
    and "\<forall>h. read_all (os_bytes cos h path) = d" "int (length d) < 2 ^ 63"
    and "stor_open (stream_os os (hist s) stream) up s = (r, s')" "hist s' = hist s @ k" "calm k" "under_tmp up"
  shows "r = Rc 0 \<and> written up k = chars_of d"
  by (rule upload_whole [OF assms])

definition hi_upload :: string where
  "hi_upload = ''2'' @ CRLF @ ''hi.'' @ CRLF"

lemma hi_client:
  "\<exists>h'. c_stor_file sample_upload sample_sender ''STOR FILE base.T a'' ''./a'' 2 (base64_e [104, 105]) [] = Ret (0, h') \<and>
     sent h' = ''STOR FILE base.T a'' @ CRLF @ hi_upload"
proof -
  let ?c = "c_stor_file sample_upload sample_sender ''STOR FILE base.T a'' ''./a'' 2 (base64_e [104, 105]) []"
  have "case ?c of Ret (n, h) \<Rightarrow> n = 0 \<and> sent h = ''STOR FILE base.T a'' @ CRLF @ hi_upload | _ \<Rightarrow> False" by code_simp
  then show ?thesis by (auto split: outcome.splits)
qed

lemma hi_server:
  "\<exists>s'. stor_open (stream_os (sample_os []) [] hi_upload) ''tmp/file/base.T/a'' sample_server = (Rc 0, s') \<and>
     calm (hist s')"
proof -
  have e: "os_err (stream_os (sample_os []) [] hi_upload) h c = None"
    "os_ready (stream_os (sample_os []) [] hi_upload) h = True"
    "os_line (stream_os (sample_os []) [] hi_upload) h = first_line (unread hi_upload (butlast h))"
    "os_recv (stream_os (sample_os []) [] hi_upload) h = unread hi_upload (butlast h)" for h c
    by (simp_all add: stream_os_def sample_os_def)
  have n: "strtol 10 ''2'' = 2" "strcmp ''.'' ''.'' = 0" "first_line hi_upload = ''2''" "drop 3 hi_upload = ''hi.'' @ CRLF"
    "strcmp (first_line (drop 5 hi_upload)) ''.'' = 0" "length hi_upload = 8"
    by code_simp+
  show ?thesis
    by (simp add: stor_open_def stor_receive_def do_call_def answer_split reply_def say_def e n Let_def stor_loop.simps
        sample_server_def server0_def calm_def butlast_append n [simplified])
qed

theorem upload_end_to_end_witness:
  "\<exists>h' s'. c_stor_file sample_upload sample_sender ''STOR FILE base.T a'' ''./a'' 2 (base64_e [104, 105]) [] = Ret (0, h') \<and>
     sent h' = ''STOR FILE base.T a'' @ CRLF @ hi_upload \<and>
     stor_open (stream_os (sample_os []) [] hi_upload) ''tmp/file/base.T/a'' sample_server = (Rc 0, s') \<and>
     written ''tmp/file/base.T/a'' (hist s') = ''hi''"
proof -
  obtain h' where c: "c_stor_file sample_upload sample_sender ''STOR FILE base.T a'' ''./a'' 2 (base64_e [104, 105]) [] = Ret (0, h')"
    "sent h' = ''STOR FILE base.T a'' @ CRLF @ hi_upload" using hi_client by blast
  obtain s' where s: "stor_open (stream_os (sample_os []) [] hi_upload) ''tmp/file/base.T/a'' sample_server = (Rc 0, s')"
    "calm (hist s')" using hi_server by blast
  have e: "\<forall>h. read_all (os_bytes sample_sender h ''./a'') = [104, 105]" by (simp add: sample_sender_def sample_os_def)
  have t: "under_tmp ''tmp/file/base.T/a''" "hist sample_server = []" "chars_of [104, 105] = ''hi''"
    by (simp add: under_tmp_def, simp add: sample_server_def server0_def, code_simp)
  have "Rc 0 = Rc 0 \<and> written ''tmp/file/base.T/a'' (hist s') = chars_of [104, 105]"
    by (rule upload_end_to_end [OF c(1) sample_upload_fine c_string_base64, of hi_upload "[104, 105]" "sample_os []" sample_server])
      (use c(2) e s t in simp_all)
  with c s t show ?thesis by auto
qed

lemma expected_pairs: "expected (2 * m) = concat (replicate m ''32'')"
proof (induction m)
  case (Suc m)
  have "expected (2 * Suc m) = expected (2 * m) @ ''32''" using expected_more [of "2 * m"] by simp
  then show ?case using Suc by (simp flip: replicate_append_same)
qed simp

text \<open>C28. \<open>lcreate\<close> ends with status 0 only if the server has accepted everything: the lines it has read from
  the server begin, in this order, with \<open>3\<close> and \<open>2\<close> for the transcript and for each line of the transcript
  that names a file, and with \<open>2\<close> for \<open>QUIT\<close>, however late the lines came.\<close>

theorem lcreate_answered:
  assumes "lcreate_main opt os tran file inp s = Some (Ret (0, s'))" "u_network opt" "\<not> u_tran_only opt" "lc_resp s = 0"
  shows "\<exists>k. lc_hist s' = lc_hist s @ k \<and>
    replies os (lc_hist s) k = concat (replicate (Suc (uploads inp)) ''32'') @ ''2''"
  using lcreate_replies [OF assms] unfolding expected_pairs by (simp add: answers_def goes_def)

text \<open>The server's lines for a transcript with one file.\<close>

definition reads_so_far :: "history \<Rightarrow> nat" where
  "reads_so_far h = length (filter (\<lambda>x. x = Did GetLine None) h)"

definition replying_os :: os where
  "replying_os = sample_sender\<lparr>os_lstat := \<lambda>h p. Inr (file_stat\<lparr>st_size := 2\<rparr>),
     os_line := \<lambda>h. ([''350 Storing file'', ''250 File stored'', ''350 Storing file'', ''250 File stored'', ''221 bye''] !
       (reads_so_far h - 1))\<rparr>"

definition one_file :: string where
  "one_file = ''f ./a 0644 0 0 0 2 -'' @ [NL]"

lemma one_file_lines: "fgets MAXPATHLEN one_file = Some (one_file, [])" "cstr one_file = one_file" "one_file \<noteq> []"
  "last one_file = NL" "argcargv one_file = Ret [''f'', ''./a'', ''0644'', ''0'', ''0'', ''0'', ''2'', ''-'']"
  by code_simp+

lemma one_file_uploads: "uploads one_file = 1" "uploads [] = 0"
  by (simp_all add: uploads.simps [of one_file] uploads.simps [of "[]"] dirs_lines(3) one_file_lines upload_line_def
      is_upload_def char_at_def)

definition plain_upload :: "byte list upload_options" where
  "plain_upload = sample_upload\<lparr>u_md := None\<rparr>"

lemma one_file_run:
  "\<exists>s'. lcreate_main plain_upload replying_os ''base.T'' ''t'' one_file \<lparr>lc_hist = [], lc_buf = decode_buf0, lc_resp = 0\<rparr> =
     Some (Ret (0, s'))"
proof -
  have e: "os_err replying_os h c = None" "os_bytes replying_os h p = [Bytes [104, 105]]"
    "os_stat replying_os h p = file_stat\<lparr>st_size := 2\<rparr>" "os_lstat replying_os h p = Inr (file_stat\<lparr>st_size := 2\<rparr>)"
    "os_ready replying_os h" for h c p
    by (simp_all add: replying_os_def sample_sender_def sample_os_def)
  have l: "os_line replying_os h = [''350 Storing file'', ''250 File stored'', ''350 Storing file'', ''250 File stored'', ''221 bye''] !
       (reads_so_far h - 1)" for h by (simp add: replying_os_def)
  have r: "radstat (\<lambda>x. Inr (file_stat\<lparr>st_size := 2\<rparr>)) p st ty = (0, file_stat\<lparr>st_size := 2\<rparr>, CHR ''f'', None)" for p st ty
    by (simp add: radstat_def file_stat_def S_IF_defs)
  obtain b1 where b: "decode ''./a'' decode_buf0 = Ret (Some ''./a'', b1)"
    using plain_decode [of "''./a''" decode_buf0] by (auto simp: MAXPATHLEN_def)
  have u: "u_network plain_upload" "\<not> u_tran_only plain_upload" "u_md plain_upload = None" "\<not> u_negative plain_upload"
    by (simp_all add: plain_upload_def sample_upload_def)
  have n: "strtol 10 ''2'' = 2" by code_simp
  have c: "reads_so_far [] = 0" "reads_so_far (x # k) = (if x = Did GetLine None then 1 else 0) + reads_so_far k"
    "reads_so_far (h @ k) = reads_so_far h + reads_so_far k" for x h k
    by (simp_all add: reads_so_far_def)
  have "\<exists>h. send_transcript plain_upload replying_os ''base.T'' ''t'' \<lparr>lc_hist = [], lc_buf = decode_buf0, lc_resp = 0\<rparr> =
      Ret (Go, \<lparr>lc_hist = h, lc_buf = decode_buf0, lc_resp = 2\<rparr>) \<and> reads_so_far h = 0"
    by (simp add: send_transcript_def c_stor_file_def send_file_def stor_end_def answer_split e u MAXPATHLEN_def Let_def
        sent_result_def reads_so_far_def)
  then obtain h where 1: "send_transcript plain_upload replying_os ''base.T'' ''t'' \<lparr>lc_hist = [], lc_buf = decode_buf0, lc_resp = 0\<rparr> =
      Ret (Go, \<lparr>lc_hist = h, lc_buf = decode_buf0, lc_resp = 2\<rparr>)" "reads_so_far h = 0" by blast
  have "\<exists>h'. lcreate_line plain_upload replying_os ''base.T'' one_file \<lparr>lc_hist = h, lc_buf = decode_buf0, lc_resp = 2\<rparr> =
      Ret (Go, \<lparr>lc_hist = h', lc_buf = b1, lc_resp = 2\<rparr>) \<and> reads_so_far h' = 2"
    using 1(2) b by (simp add: lcreate_line_def u numeral_2_eq_2 e answer_split l c response_ok_def char_at_def one_file_lines Let_def
        is_upload_def lcreate_object_def radstat_call_def lstat_call_def r send_object_def snprintf_def MAXPATHLEN_def c_stor_file_def
        n [unfolded numeral_2_eq_2] send_file_def stor_end_def sent_result_def)
  then obtain h' where 2: "lcreate_line plain_upload replying_os ''base.T'' one_file \<lparr>lc_hist = h, lc_buf = decode_buf0, lc_resp = 2\<rparr> =
      Ret (Go, \<lparr>lc_hist = h', lc_buf = b1, lc_resp = 2\<rparr>)" "reads_so_far h' = 2" by blast
  have 3: "lcreate_lines plain_upload replying_os ''base.T'' one_file \<lparr>lc_hist = h, lc_buf = decode_buf0, lc_resp = 2\<rparr> =
      Ret (Go, \<lparr>lc_hist = h', lc_buf = b1, lc_resp = 2\<rparr>)"
    by (simp add: lcreate_lines.simps [of _ _ _ one_file] lcreate_lines.simps [of _ _ _ "[]"] one_file_lines 2 dirs_lines(3))
  have "stor_wait replying_os 2 h' = Some (True, h' @ [Did GetLine None, Did GetLine None])"
    using 2(2) by (simp add: stor_wait.simps numeral_2_eq_2 e answer_split l c response_ok_def char_at_def)
  then have "\<exists>s'. lcreate_done plain_upload replying_os \<lparr>lc_hist = h', lc_buf = b1, lc_resp = 2\<rparr> = Some (Ret (0, s'))"
    using 2(2) by (simp add: lcreate_done_def u closesn_def answer_split e l c char_at_def reads_so_far_def)
  with 1 3 show ?thesis by (simp add: lcreate_main_def u)
qed

theorem lcreate_answered_witness:
  "\<exists>s'. lcreate_main plain_upload replying_os ''base.T'' ''t'' one_file \<lparr>lc_hist = [], lc_buf = decode_buf0, lc_resp = 0\<rparr> =
     Some (Ret (0, s')) \<and> replies replying_os [] (lc_hist s') = ''32322''"
proof -
  obtain s' where s': "lcreate_main plain_upload replying_os ''base.T'' ''t'' one_file
      \<lparr>lc_hist = [], lc_buf = decode_buf0, lc_resp = 0\<rparr> = Some (Ret (0, s'))" using one_file_run by blast
  from lcreate_answered [OF this] s' show ?thesis
    by (simp add: plain_upload_def sample_upload_def one_file_uploads)
qed

section \<open>Tools around the transcripts\<close>

definition line_a :: string where
  "line_a = ''d ./a 0755 0 0'' @ [NL]"

definition line_a2 :: string where
  "line_a2 = ''d ./a 0700 0 0'' @ [NL]"

definition line_b :: string where
  "line_b = ''d ./b 0755 0 0'' @ [NL]"

lemma sample_words:
  "words_of_line line_a = [''d'', ''./a'', ''0755'', ''0'', ''0'']" "words_of_line line_a2 = [''d'', ''./a'', ''0700'', ''0'', ''0'']"
  "words_of_line line_b = [''d'', ''./b'', ''0755'', ''0'', ''0'']"
  by code_simp+

lemma sample_paths: "line_path line_a = Some ''./a''" "line_path line_a2 = Some ''./a''" "line_path line_b = Some ''./b''"
  by (simp_all add: line_path_def sample_words has_sign_def char_at_def Let_def)

lemma sortable_words:
  assumes "line = l @ [NL]" "NL \<notin> set l" "c_string l" "length l < 4095" "\<not> has_sign (words_of_line line)"
    "2 \<le> length (words_of_line line)" "well_escaped (words_of_line line ! 1)" "length (words_of_line line ! 1) < MAXPATHLEN"
  shows "sortable line"
  using assms by (simp add: sortable_def)

lemma sample_sortable: "sortable line_a" "sortable line_a2" "sortable line_b"
proof -
  have n: "NL \<notin> set ''d ./a 0755 0 0''" "NL \<notin> set ''d ./a 0700 0 0''" "NL \<notin> set ''d ./b 0755 0 0''"
    "c_string ''d ./a 0755 0 0''" "c_string ''d ./a 0700 0 0''" "c_string ''d ./b 0755 0 0''" by code_simp+
  have w: "well_escaped ''./a''" "well_escaped ''./b''" by code_simp+
  show "sortable line_a"
    by (rule sortable_words [OF line_a_def n(1,4)]) (simp_all add: sample_words has_sign_def char_at_def w MAXPATHLEN_def)
  show "sortable line_a2"
    by (rule sortable_words [OF line_a2_def n(2,5)]) (simp_all add: sample_words has_sign_def char_at_def w MAXPATHLEN_def)
  show "sortable line_b"
    by (rule sortable_words [OF line_b_def n(3,6)]) (simp_all add: sample_words has_sign_def char_at_def w MAXPATHLEN_def)
qed



text \<open>C29. \<open>lsort\<close> sorts: of files whose lines have a decodable path it prints exactly the lines that are not blank
  and no comment, each as often as it came in, in the order of their decoded paths. Of \<open>qsort\<close> it
  needs only that it permutes the array into an order of the comparison.\<close>

theorem lsort_sorts_lines:
  assumes "qsort_ok cs qs" "\<forall>ls \<in> set lss. \<forall>l \<in> set ls. sortable l"
    "\<forall>l \<in> set (concat lss). \<forall>p. line_path l = Some p \<longrightarrow> path_ok cs p"
  shows "\<exists>out. lsort_main qs (map (\<lambda>ls. Some (concat ls)) lss) = Ret (concat out) \<and>
    mset out = mset (filter (\<lambda>l. line_path l \<noteq> None) (concat lss)) \<and> lines_in_order cs out"
  by (rule lsort_sorts [OF assms])

definition sample_qsort :: "save_line list \<Rightarrow> save_line list" where
  "sample_qsort = sort_key (\<lambda>l. path_key True (fst l))"

lemma sample_qsort_ok: "qsort_ok True sample_qsort"
proof -
  have "sorted_wrt (\<lambda>a b. lsort_cmp True a b \<le> 0) (sample_qsort ls)" if c: "\<forall>l \<in> set ls. path_ok True (fst l)" for ls
  proof (rule sorted_wrt_mono_rel)
    show "sorted_wrt (\<lambda>a b. path_key True (fst a) \<le> path_key True (fst b)) (sample_qsort ls)"
      using sorted_sort_key [of "\<lambda>l. path_key True (fst l)" ls] by (simp add: sample_qsort_def sorted_map)
  next
    fix a b assume "a \<in> set (sample_qsort ls)" "b \<in> set (sample_qsort ls)" "path_key True (fst a) \<le> path_key True (fst b)"
    with c pathcasecmp_key [of True "fst a" "fst b"] show "lsort_cmp True a b \<le> 0"
      by (auto simp: sample_qsort_def lsort_cmp_def)
  qed
  then show ?thesis by (simp add: qsort_ok_def sample_qsort_def)
qed

theorem lsort_sorts_lines_witness:
  "\<exists>out. lsort_main sample_qsort [Some (line_b @ line_a)] = Ret (concat out) \<and> mset out = {#line_a, line_b#} \<and>
     lines_in_order True out"
proof -
  have "\<forall>p \<in> {''./a'', ''./b''}. path_ok True p" by code_simp
  with lsort_sorts_lines [OF sample_qsort_ok, of "[[line_b, line_a]]"] show ?thesis
    by (auto simp: sample_sortable sample_paths add_mset_commute)
qed









text \<open>C31. When \<open>lcksum -n\<close> reports a transcript as verified, every line of a file within the prefix has its eight words,
  and its file, read during this run, has the size and the checksum of the line.\<close>

theorem lcksum_verifies:
  assumes "do_lcksum opt os rp radpath cwd tpath s = Ret (0, s')" "\<not> l_update opt" "length (lk_buf s) = MAXPATHLEN"
    "\<forall>h. os_text os h tpath = concat ls" "\<forall>l \<in> set ls. checkable l"
  shows "\<exists>fr tr name. get_root rp radpath (if char_at tpath 0 = SLASH then tpath else cwd @ [SLASH] @ tpath) = Ret (Some (fr, tr, name)) \<and>
    (\<forall>l \<in> set ls. \<forall>av. file_words (l_prefix opt) l = Some av \<longrightarrow>
      length av = 8 \<and> (\<exists>h. file_right (l_md opt) (os_bytes os h (object_path (fr @ [SLASH] @ name) av)) av))"
  by (rule lcksum_passes [OF assms])

definition line_f :: string where
  "line_f = ''f ./c 0644 0 0 1000 2 aGk='' @ [NL]"

definition line_g :: string where
  "line_g = ''f ./c 0644 0 0 1000 3 AAAA'' @ [NL]"

lemma file_line_words:
  "words_of_line line_f = [''f'', ''./c'', ''0644'', ''0'', ''0'', ''1000'', ''2'', ''aGk='']"
  "words_of_line line_g = [''f'', ''./c'', ''0644'', ''0'', ''0'', ''1000'', ''3'', ''AAAA'']"
  by code_simp+

lemma file_line_sortable: "sortable line_f" "sortable line_g"
proof -
  have n: "NL \<notin> set ''f ./c 0644 0 0 1000 2 aGk=''" "c_string ''f ./c 0644 0 0 1000 2 aGk=''"
    "NL \<notin> set ''f ./c 0644 0 0 1000 3 AAAA''" "c_string ''f ./c 0644 0 0 1000 3 AAAA''" by code_simp+
  have w: "well_escaped ''./c''" by code_simp
  show "sortable line_f"
    by (rule sortable_words [OF line_f_def n(1,2)]) (simp_all add: file_line_words has_sign_def char_at_def w MAXPATHLEN_def)
  show "sortable line_g"
    by (rule sortable_words [OF line_g_def n(3,4)]) (simp_all add: file_line_words has_sign_def char_at_def w MAXPATHLEN_def)
qed

lemma file_line_checkable: "checkable line_f" "checkable line_g"
  by (simp_all add: checkable_def file_line_sortable file_line_words char_at_def)

text \<open>The file of these lines.\<close>

lemma hi_sum: "do_fcksum byte_digest [Bytes [104, 105]] = (2, Some ''aGk='')"
  by code_simp

definition check_options :: "bool \<Rightarrow> byte list lk_options" where
  "check_options u = \<lparr>l_case = True, l_update = u, l_all = False, l_apple = False, l_prefix = None, l_pid = 7, l_md = byte_digest\<rparr>"

definition check_os :: "string \<Rightarrow> os" where
  "check_os text = (sample_os [])\<lparr>os_text := \<lambda>h p. text\<rparr>"

definition lk0 :: lk where
  "lk0 = \<lparr>lk_hist = [], lk_buf = decode_buf0, lk_prepath = [], lk_count = 0, lk_wrong = False\<rparr>"

lemma check_roots: "get_root Some ''/r'' ''/r/transcript/c.T'' = Ret (Some (''/r/file'', ''/r/transcript'', ''c.T''))"
  by code_simp

lemma check_os_simps [simp]:
  "os_err (check_os line) h c = None" "os_bytes (check_os line) h p = [Bytes [104, 105]]" "os_stat (check_os line) h p = file_stat"
  "os_text (check_os line) h p = line"
  by (simp_all add: check_os_def sample_os_def)

lemma check_options_simps [simp]:
  "l_case (check_options u)" "l_update (check_options u) = u" "\<not> l_all (check_options u)" "\<not> l_apple (check_options u)"
  "l_prefix (check_options u) = None" "l_pid (check_options u) = 7" "l_md (check_options u) = byte_digest"
  by (simp_all add: check_options_def)

lemma check_call: "lk_call (check_os line) c s = Ret (s\<lparr>lk_hist := lk_hist s @ [Did c None]\<rparr>)"
  by (simp add: lk_call_Ret)

lemma check_fields: "strtol 10 ''2'' = 2" "strtol 10 ''3'' = 3" "strcmp ''aGk='' ''aGk='' = 0" "strcmp ''aGk='' ''AAAA'' \<noteq> 0"
  by code_simp+

lemma check_file_line:
  assumes "length w = 8" "char_at (w ! 0) 0 = CHR ''f''"
  shows "\<exists>s'. lk_file (check_options u) (check_os line) up ''/r/file/c.T'' line w ''./c'' s = Ret s' \<and>
    (lk_wrong s' \<longleftrightarrow> lk_wrong s \<or> \<not> u \<and> (strtol 10 (w ! 6) \<noteq> 2 \<or> strcmp ''aGk='' (w ! 7) \<noteq> 0))"
proof -
  have sn: "snprintf MAXPATHLEN (''/r/file/c.T'' @ [SLASH] @ ''./c'') = Some (''/r/file/c.T'' @ [SLASH] @ ''./c'')"
    by (simp add: snprintf_def MAXPATHLEN_def)
  show ?thesis
    unfolding lk_file_def sn option.case
    using assms by (simp add: answer_split hi_sum check_call Let_def lk_note_def)
qed

lemma check_line:
  assumes "line \<in> {line_f, line_g}" "length (lk_buf s) = MAXPATHLEN" "lk_prepath s = []"
  shows "\<exists>s'. lk_lines (check_options u) (check_os line) up ''/r/file/c.T'' line s = Ret s' \<and>
    (lk_wrong s' \<longleftrightarrow> lk_wrong s \<or> \<not> u \<and> line = line_g)"
proof -
  let ?w = "words_of_line line"
  have w: "well_escaped ''./c''" "c_string ''./c''" "unescaped ''./c'' = ''./c''" by code_simp+
  obtain buf where d: "decode ''./c'' (lk_buf s) = Ret (Some ''./c'', buf)"
    using plain_decode [OF w] assms(2) by (auto simp: MAXPATHLEN_def)
  have l: "length ?w = 8" "?w ! 0 = ''f''" "?w ! 1 = ''./c''" using assms(1) by (auto simp: file_line_words)
  have ne: "line_f \<noteq> line_g" by (simp add: line_f_def line_g_def)
  have wr: "strtol 10 (?w ! 6) \<noteq> 2 \<or> strcmp ''aGk='' (?w ! 7) \<noteq> 0 \<longleftrightarrow> line = line_g"
    using assms(1) ne check_fields by (auto simp: file_line_words)
  have c: "checkable line" using assms(1) file_line_checkable by auto
  have e: "lk_words (check_options u) (check_os line) up ''/r/file/c.T'' line ?w s =
      lk_file (check_options u) (check_os line) up ''/r/file/c.T'' line ?w ''./c'' (s\<lparr>lk_buf := buf, lk_prepath := ''./c''\<rparr>)"
    using l d assms(3) by (auto simp: lk_words_def char_at_def MAXPATHLEN_def)
  have "lk_lines (check_options u) (check_os line) up ''/r/file/c.T'' line s =
      obind (lk_words (check_options u) (check_os line) up ''/r/file/c.T'' line ?w s)
        (lk_lines (check_options u) (check_os line) up ''/r/file/c.T'' [])"
    using lk_lines_Cons [OF c, of "check_options u" "check_os line" up "''/r/file/c.T''" "[]" s] by simp
  moreover obtain s' where "lk_file (check_options u) (check_os line) up ''/r/file/c.T'' line ?w ''./c''
      (s\<lparr>lk_buf := buf, lk_prepath := ''./c''\<rparr>) = Ret s'" "lk_wrong s' \<longleftrightarrow> lk_wrong s \<or> \<not> u \<and> line = line_g"
    using check_file_line [of ?w u line up "s\<lparr>lk_buf := buf, lk_prepath := ''./c''\<rparr>"] l wr by (auto simp: char_at_def)
  ultimately show ?thesis by (simp add: e lk_lines.simps [of _ _ _ _ "[]"] fgets_def)
qed

lemma check_run:
  assumes "line \<in> {line_f, line_g}"
  shows "\<exists>n s'. do_lcksum (check_options u) (check_os line) Some ''/r'' ''/tmp'' ''/r/transcript/c.T'' lk0 = Ret (n, s') \<and>
    (\<not> u \<and> line = line_f \<longrightarrow> n = 0)"
proof -
  let ?t = "''/r/transcript/c.T''"
  have ne: "line_f \<noteq> line_g" by (simp add: line_f_def line_g_def)
  have m: "S_ISREG (st_mode file_stat)" by code_simp
  have sn: "snprintf MAXPATHLEN ?t = Some ?t" by (simp add: snprintf_def MAXPATHLEN_def)
  obtain s1 where s1: "lk_create (check_options u) (check_os line) ?t
      (lk0\<lparr>lk_hist := [Did (Stat ?t) None, Did (Access ?t) None, Did (Fopen ?t) None]\<rparr>) = Ret s1" "lk_buf s1 = decode_buf0"
    by (cases u) (auto simp: lk_create_def check_call lk0_def)
  from check_line [OF assms, of "s1\<lparr>lk_prepath := [], lk_count := 0, lk_wrong := False\<rparr>" u "lk_upath (check_options u) ?t"] s1(2)
  obtain s2 where s2: "lk_lines (check_options u) (check_os line) (lk_upath (check_options u) ?t) ''/r/file/c.T'' line
      (s1\<lparr>lk_prepath := [], lk_count := 0, lk_wrong := False\<rparr>) = Ret s2" "lk_wrong s2 \<longleftrightarrow> \<not> u \<and> line = line_g" by auto
  have "do_lcksum (check_options u) (check_os line) Some ''/r'' ''/tmp'' ?t lk0 = lk_finish (check_options u) (check_os line) ?t s2"
    using s1(1) s2(1) by (simp add: do_lcksum_def char_at_def sn check_roots check_call m lk0_def)
  moreover have "\<exists>n s'. lk_finish (check_options u) (check_os line) ?t s2 = Ret (n, s') \<and> (\<not> u \<and> line = line_f \<longrightarrow> n = 0)"
    using s2(2) ne by (auto simp: lk_finish_def check_call)
  ultimately show ?thesis by simp
qed

theorem lcksum_verifies_witness:
  "\<exists>s'. do_lcksum (check_options False) (check_os line_f) Some ''/r'' ''/tmp'' ''/r/transcript/c.T'' lk0 = Ret (0, s') \<and>
     file_right byte_digest [Bytes [104, 105]] (words_of_line line_f)"
proof -
  obtain s' where s: "do_lcksum (check_options False) (check_os line_f) Some ''/r'' ''/tmp'' ''/r/transcript/c.T'' lk0 = Ret (0, s')"
    using check_run [of line_f False] by auto
  have p: "line_path line_f = Some ''./c''"
    by (simp add: line_path_def file_line_words has_sign_def char_at_def Let_def)
  have f: "file_words None line_f = Some (words_of_line line_f)"
    by (simp add: file_words_def p Let_def) (simp add: file_line_words has_sign_def char_at_def)
  have a: "\<not> l_update (check_options False)" "length (lk_buf lk0) = MAXPATHLEN" "\<forall>h. os_text (check_os line_f) h ''/r/transcript/c.T'' = concat [line_f]"
    "\<forall>l \<in> set [line_f]. checkable l"
    by (simp_all add: lk0_def file_line_checkable)
  from lcksum_verifies [OF s a] obtain fr tr name where r: "\<forall>l \<in> set [line_f]. \<forall>av. file_words (l_prefix (check_options False)) l = Some av \<longrightarrow>
      length av = 8 \<and> (\<exists>h. file_right (l_md (check_options False)) (os_bytes (check_os line_f) h (object_path (fr @ [SLASH] @ name) av)) av)"
    by blast
  have "file_right byte_digest [Bytes [104, 105]] (words_of_line line_f)" using r f by simp
  with s show ?thesis by blast
qed

text \<open>C32. Without \<open>-n\<close>, and with writes that work, \<open>lcksum\<close> writes every line as it was or, when its file has another size or
  checksum, the corrected line; the last call of the run gives the new transcript the name of the old
  one if a line was corrected, and removes it otherwise, and the result says which.\<close>

theorem lcksum_corrects_lines:
  assumes "do_lcksum opt os rp radpath cwd tpath s = Ret (n, s')" "l_update opt" "length (lk_buf s) = MAXPATHLEN"
    "\<forall>h. os_text os h tpath = concat ls" "\<forall>l \<in> set ls. checkable l" "put_works os"
    "\<forall>h p. os_bytes os h p = B p" "\<forall>h p. os_stat os h p = S p"
  shows "\<exists>fr tr name k. get_root rp radpath (if char_at tpath 0 = SLASH then tpath else cwd @ [SLASH] @ tpath) = Ret (Some (fr, tr, name)) \<and>
    (n = 1 \<longleftrightarrow> (\<exists>l \<in> set ls. line_wrong opt B (fr @ [SLASH] @ name) l)) \<and>
    lk_hist s' = lk_hist s @ k @ [Did (if n = 1 then Rename (lk_upath opt tpath) tpath else Unlink (lk_upath opt tpath)) None] \<and>
    written (lk_upath opt tpath) k = concat (map (corrected_line opt B S (fr @ [SLASH] @ name)) ls)"
  by (rule lcksum_corrects [OF assms])

theorem lcksum_corrects_lines_witness:
  "\<exists>s' k. do_lcksum (check_options True) (check_os line_g) Some ''/r'' ''/tmp'' ''/r/transcript/c.T'' lk0 = Ret (1, s') \<and>
     lk_hist s' = k @ [Did (Rename ''/r/transcript/c.T.7'' ''/r/transcript/c.T'') None] \<and>
     written ''/r/transcript/c.T.7'' k =
       lk_format (words_of_line line_g) file_stat ''aGk=''"
proof -
  obtain n s' where s: "do_lcksum (check_options True) (check_os line_g) Some ''/r'' ''/tmp'' ''/r/transcript/c.T'' lk0 = Ret (n, s')"
    using check_run [of line_g True] by auto
  have p: "line_path line_g = Some ''./c''"
    by (simp add: line_path_def file_line_words has_sign_def char_at_def Let_def)
  have f: "file_words None line_g = Some (words_of_line line_g)"
    by (simp add: file_words_def p Let_def) (simp add: file_line_words has_sign_def char_at_def)
  note k = hi_sum
  have "strtol 10 ''3'' = 3" by code_simp
  then have w: "\<not> file_right byte_digest [Bytes [104, 105]] (words_of_line line_g)"
    by (simp add: file_right_def k file_line_words)
  have u: "lk_upath (check_options True) ''/r/transcript/c.T'' = ''/r/transcript/c.T.7''" by code_simp
  have a: "l_update (check_options True)" "length (lk_buf lk0) = MAXPATHLEN" "\<forall>h. os_text (check_os line_g) h ''/r/transcript/c.T'' = concat [line_g]"
    "\<forall>l \<in> set [line_g]. checkable l" "put_works (check_os line_g)" "\<forall>h p. os_bytes (check_os line_g) h p = (\<lambda>p. [Bytes [104, 105]]) p"
    "\<forall>h p. os_stat (check_os line_g) h p = (\<lambda>p. file_stat) p"
    by (simp_all add: lk0_def file_line_checkable put_works_def)
  from lcksum_corrects_lines [OF s a] obtain fr tr name k where r: "n = 1 \<longleftrightarrow> (\<exists>l \<in> set [line_g]. line_wrong (check_options True) (\<lambda>p. [Bytes [104, 105]]) (fr @ [SLASH] @ name) l)"
    "lk_hist s' = lk_hist lk0 @ k @ [Did (if n = 1 then Rename ''/r/transcript/c.T.7'' ''/r/transcript/c.T''
      else Unlink ''/r/transcript/c.T.7'') None]" "written ''/r/transcript/c.T.7'' k =
      concat (map (corrected_line (check_options True) (\<lambda>p. [Bytes [104, 105]]) (\<lambda>p. file_stat) (fr @ [SLASH] @ name)) [line_g])"
    unfolding u by blast
  have "n = 1" using r(1) w f by (simp add: line_wrong_def check_options_def)
  moreover have "written ''/r/transcript/c.T.7'' k = lk_format (words_of_line line_g) file_stat ''aGk=''"
    using r(3) w f k by (simp add: corrected_line_def corrected_def check_options_def)
  ultimately show ?thesis using s r(2) by (auto simp: lk0_def)
qed

text \<open>A line that \<open>lcksum\<close> has corrected is read back: whatever the widths of its fields, it is split into the words of
  the old line, with the size and the checksum of the file and the time of the file, or the old time
  where the line had no checksum.\<close>

theorem corrected_line_reads_back:
  assumes "plain_words av" "do_fcksum md fd = (sz, Some ck)" "ck \<noteq> []"
  shows "argcargv (lk_format av st ck) =
    Ret [av ! 0, av ! 1, av ! 2, av ! 3, av ! 4, new_time av st, print_int (st_size st), ck]"
  by (rule corrected_line_words [OF assms])

theorem corrected_line_reads_back_witness:
  "argcargv (lk_format (words_of_line line_g) file_stat ''aGk='') =
     Ret [''f'', ''./c'', ''0644'', ''0'', ''0'', ''1000'', ''5'', ''aGk='']"
proof -
  note k = hi_sum
  have "\<forall>w \<in> {''f'', ''./c'', ''0644'', ''0'', ''1000''}. arg_ok w \<and> w \<noteq> []" by code_simp
  then have p: "plain_words (words_of_line line_g)"
    unfolding plain_words_def file_line_words by (auto simp: less_Suc_eq numeral_eq_Suc)
  have "''aGk='' \<noteq> []" "new_time (words_of_line line_g) file_stat = ''1000''" "print_int (st_size file_stat) = ''5''"
    unfolding file_line_words by code_simp+
  with corrected_line_reads_back [OF p k, of file_stat] show ?thesis by (simp add: file_line_words)
qed


section \<open>Finding files\<close>


text \<open>A transcript with one directory is behind an empty one.\<close>

definition which_cfg :: config where
  "which_cfg = sample_cfg\<lparr>edit_path := APPLICABLE\<rparr>"

definition empty_tran :: tran where
  "empty_tran = (new_tran T_NEGATIVE ''n.T'' ''n.T'' ''k'' (Some []))\<lparr>t_eof := True\<rparr>"

definition dir_tran :: tran where
  "dir_tran = (new_tran T_POSITIVE ''p.T'' ''p.T'' ''k'' (Some []))\<lparr>t_num := 1,
     t_pinfo := pathinfo0\<lparr>pi_type := CHR ''d'', pi_name := ''./d'', pi_stat := dir_stat\<rparr>\<rparr>"

definition last_tran :: tran where
  "last_tran = new_tran T_NULL ''NULL'' ''NULL'' ''NULL'' None"

definition which_state :: tstate where
  "which_state = \<lparr>tran_list = [empty_tran, dir_tran, last_tran], prev_tran = None, fs_minus = False, hlinks = [],
     dbuf = decode_buf0, kdir = [], kfile_list = [], special_list = [], exclude_list = [], outtran = [], stdout = []\<rparr>"

lemma which_trans [simp]:
  "t_eof empty_tran" "\<not> t_eof dir_tran" "t_eof last_tran" "pi_name (t_pinfo dir_tran) = ''./d''" "t_in dir_tran = Some []"
  "case_sensitive which_cfg" "dbuf which_state = decode_buf0" "exclude_list which_state = []"
  "tran_list which_state = [empty_tran, dir_tran, last_tran]"
  by (simp_all add: empty_tran_def dir_tran_def last_tran_def new_tran_def which_cfg_def sample_cfg_def which_state_def)





text \<open>C34. The array of arguments for \<open>diff\<close> is complete and within its bounds only if no option of \<open>diff\<close> is given; any
  option has \<open>lfdiff\<close> write behind its end, as the last resize does not count what is already there.\<close>

theorem diff_array_overflows:
  "obind (diff_options ds [prog]) (diff_end file) =
     (if list_all (\<lambda>d. d = DMore []) ds then Ret [prog, ''--'', ''-'', file] else UB)"
  unfolding list_all_iff by (rule diff_arguments)

section \<open>The objects of a transcript\<close>

text \<open>C35. Whatever a transcript holds, every object \<open>transcript_parse\<close> yields is well formed: its type is one of the ten
  letters, its name, its link and its checksum are C strings that fit the arrays of \<open>struct pathinfo\<close>,
  and the Finder information has its 32 bytes.\<close>

theorem parsed_well_typed:
  assumes "parse_all cfg (new_tran ty file short kf (Some inp)) buf = Ret ps" "length buf = MAXPATHLEN"
  shows "\<forall>p \<in> set ps. pi_type p \<in> set ''dpDsbclhaf'' \<and> text_fits (pi_name p) \<and> text_fits (pi_link p) \<and>
    text_fits (pi_cksum_b64 p) \<and> length (pi_ai_data p) = FINFOLEN"
  by (rule parsed_typed [OF assms])

theorem parsed_well_typed_witness:
  "\<exists>inp qs. parse_all sample_cfg (new_tran T_POSITIVE ''base.T'' ''base.T'' ''k'' (Some inp)) decode_buf0 = Ret qs \<and>
     length qs = 2 \<and> text_fits (pi_name (qs ! 0)) \<and> pi_type (qs ! 1) \<in> set ''dpDsbclhaf''"
proof -
  let ?ps = "map (\<lambda>(ob, c). seen_as sample_env ob c) sample_objects"
  define inp where "inp = concat (map (line_text (transcript_shell_escapes sample_cfg)) ?ps)"
  have "\<exists>qs. parse_all sample_cfg (new_tran T_POSITIVE ''base.T'' ''base.T'' ''k'' (Some inp)) decode_buf0 = Ret qs \<and>
      list_all2 line_eq ?ps qs"
    by (rule parse_all_lines)
      (use samples_ascending in \<open>simp_all add: new_tran_def pathinfo0_def inp_def sample_objects_def samples_obj_ok\<close>)
  then obtain qs where q: "parse_all sample_cfg (new_tran T_POSITIVE ''base.T'' ''base.T'' ''k'' (Some inp)) decode_buf0 = Ret qs"
    "list_all2 line_eq ?ps qs" by blast
  from list_all2_lengthD [OF q(2)] have "length qs = 2" by (simp add: sample_objects_def)
  with parsed_well_typed [OF q(1)] q(1) show ?thesis by fastforce
qed


text \<open>The answers of \<open>hardlink\<close> for objects in the order in which they are met.\<close>

fun link_names :: "devlist \<Rightarrow> pathinfo list \<Rightarrow> string option list" where
  "link_names ds [] = []"
| "link_names ds (p # ps) = (let (r, ds') = hardlink ds p in r # link_names ds' ps)"

lemma find_append: "List.find P (xs @ ys) = (case List.find P xs of None \<Rightarrow> List.find P ys | Some x \<Rightarrow> Some x)"
  by (induction xs) auto

lemma link_names_find:
  assumes "dev_ok ds" "\<And>k. links ds k = map_option (\<lambda>q. (pi_name q, False)) (List.find (\<lambda>q. ino_of q = k) before)"
    "i < length ps"
  shows "link_names ds ps ! i = map_option pi_name (List.find (\<lambda>q. ino_of q = ino_of (ps ! i)) (before @ take i ps))"
  using assms
proof (induction ps arbitrary: ds before i)
  case (Cons p ps)
  obtain r ds' where h: "hardlink ds p = (r, ds')" by force
  note l = hardlink_links [OF Cons.prems(1) h]
  show ?case
  proof (cases i)
    case 0
    with h l(2) Cons.prems(2) show ?thesis by (simp add: option.map_comp comp_def)
  next
    case (Suc j)
    have "links ds' k = map_option (\<lambda>q. (pi_name q, False)) (List.find (\<lambda>q. ino_of q = k) (before @ [p]))" for k
      using l(2,3) Cons.prems(2) by (auto simp: find_append split: option.splits)
    from Cons.IH [OF l(1) this, of j] Cons.prems(3) Suc h show ?thesis by simp
  qed
qed simp

text \<open>Objects entered one after the other with \<open>hardlink\<close>: the answer for an object is the name
  of the first object before it with the same device and inode number, and null if there is none.\<close>

theorem hardlink_first_name:
  assumes "i < length ps"
  shows "link_names [] ps ! i = map_option pi_name (List.find (\<lambda>q. ino_of q = ino_of (ps ! i)) (take i ps))"
  using link_names_find [of "[]" "[]" i ps] assms by simp

theorem hardlink_first_name_witness:
  "link_names [] [pathinfo0\<lparr>pi_name := ''./a''\<rparr>, pathinfo0\<lparr>pi_name := ''./b''\<rparr>] ! 1 = Some ''./a''"
  using hardlink_first_name [of 1 "[pathinfo0\<lparr>pi_name := ''./a''\<rparr>, pathinfo0\<lparr>pi_name := ''./b''\<rparr>]"]
  by (simp add: ino_of_def pathinfo0_def)

lemma ascending_sorted_wrt:
  "so.ascending ns \<longleftrightarrow> sorted_wrt (\<lambda>a b. strcmp a b \<le> 0) ns"
  "co.ascending ns \<longleftrightarrow> sorted_wrt (\<lambda>a b. strcasecmp a b \<le> 0) ns"
  by (induction ns) auto

text \<open>Whatever order \<open>readdir\<close> has, the list \<open>fs_walk\<close> builds of a directory holds every name except
  \<open>.\<close> and \<open>..\<close> exactly as often, and is ascending in the comparison in use; the remembered
  place of the last insertion changes nothing.\<close>

theorem directory_in_order:
  assumes "e_readdir env path = Some ds" "read_dir cfg env path = Ret es" "\<forall>d \<in> set ds. c_string d"
  shows "mset (map fst es) = mset (dotless ds) \<and>
    sorted_wrt (\<lambda>a b. (if case_sensitive cfg then strcmp else strcasecmp) a b \<le> 0) (map fst es)"
proof (cases "case_sensitive cfg")
  case True
  with assms have "read_entries env strcmp path ds [] None = Ret es" by (simp add: read_dir_def)
  from so.read_entries_names [OF this] assms(3) True show ?thesis
    by (simp add: ascending_sorted_wrt)
next
  case False
  with assms have "read_entries env strcasecmp path ds [] None = Ret es" by (simp add: read_dir_def)
  from co.read_entries_names [OF this] assms(3) False show ?thesis
    by (simp add: ascending_sorted_wrt)
qed

theorem directory_in_order_witness:
  "\<exists>es. read_dir sample_cfg (sample_env\<lparr>e_readdir := \<lambda>p. Some [''b'', ''.'', ''a'']\<rparr>) ''./d'' = Ret es \<and>
     mset (map fst es) = {#''b'', ''a''#} \<and> sorted_wrt (\<lambda>a b. strcmp a b \<le> 0) (map fst es)"
proof -
  let ?env = "sample_env\<lparr>e_readdir := \<lambda>p. Some [''b'', ''.'', ''a'']\<rparr>"
  have r: "read_dir sample_cfg ?env ''./d'' = Ret [(''a'', stat0, CHR ''X''), (''b'', stat0, CHR ''X'')]"
    by code_simp
  have "case_sensitive sample_cfg" by (simp add: sample_cfg_def)
  with directory_in_order [of ?env "''./d''" "[''b'', ''.'', ''a'']", OF _ r] r show ?thesis
    by (simp add: dotless_def)
qed

text \<open>For a digest whose updates can be joined, \<open>do_cksum\<close> returns the length of the file and the
  base64 text of the digest of its contents, however \<open>read\<close> cuts it into pieces.\<close>

theorem checksum_of_contents:
  assumes "\<And>c a b. d_update md (d_update md c a) b = d_update md c (a @ b)" "\<And>c. d_update md c [] = c"
    and "list_all (\<lambda>bs. bs \<noteq> []) chunks" "open_file path = Some (map Bytes chunks, True)"
  shows "do_cksum md open_file path =
    (int (length (concat chunks)), Some (base64_ref (d_final md (d_update md (d_init md) (concat chunks)))))"
  using fcksum_loop_chunks [OF assms(1-3), of "d_init md" 0] assms(4)
  by (simp add: do_cksum_def do_fcksum_def base64_e_ref)

theorem checksum_of_contents_witness:
  "do_cksum byte_digest (\<lambda>p. Some (map Bytes [[77], [97, 110]], True)) ''f'' = (3, Some (base64_ref [77, 97, 110]))"
  using checksum_of_contents [of byte_digest "[[77], [97, 110]]" "\<lambda>p. Some (map Bytes [[77], [97, 110]], True)" "''f''"]
  by (simp add: byte_digest_def)

text \<open>\<open>canonicalized_path\<close> moves a name without its terminator: after \<open>./abcdefgh\<close> the
  name \<open>xy\<close> becomes \<open>./xycdefgh\<close>.\<close>

theorem canonical_path_leak:
  "obind (canonicalized_path (replicate 16 NUL @ rest) (Some ''./abcdefgh'')) (\<lambda>(_, _, buf).
     obind (canonicalized_path buf (Some ''xy'')) (\<lambda>(r, _, _). Ret r)) = Ret (Some ''./xycdefgh'')"
  by (simp add: canonicalized_path_def poke_def cstr_def MAXPATHLEN_def Let_def eval_nat_numeral)

section \<open>Names, patterns, checksums, lists\<close>

text \<open>C36. Every name that fits a path buffer survives \<open>encode\<close> (or \<open>encode_space\<close>) followed by
  \<open>decode\<close>, whatever the static buffer of \<open>decode\<close> holds from earlier calls.\<close>

theorem decode_encode:
  assumes "c_string s" "length s < MAXPATHLEN" "length buf = MAXPATHLEN"
  shows "\<exists>e buf'. (if shell then encode_space s else encode s) = Ret (Some e) \<and>
    decode e buf = Ret (Some s, buf')"
proof (cases shell)
  case True
  with shell_codec.enc_total [OF assms(1,2)] shell_codec.dec_enc [OF assms] show ?thesis by force
next
  case False
  with plain_codec.enc_total [OF assms(1,2)] plain_codec.dec_enc [OF assms] show ?thesis by force
qed

theorem decode_encode_witness:
  "\<exists>e buf'. encode_space ''a b'' = Ret (Some e) \<and> decode e decode_buf0 = Ret (Some ''a b'', buf')"
  using decode_encode [of "''a b''" decode_buf0 True] by (simp add: MAXPATHLEN_def)

text \<open>A name without escapes of exactly \<open>MAXPATHLEN\<close> characters makes \<open>decode\<close> write the
  terminator behind its buffer; with one character more it is refused.\<close>

theorem decode_too_long:
  assumes "BSL \<notin> set s" "length buf = MAXPATHLEN"
  shows "(length s = MAXPATHLEN \<longrightarrow> decode s buf = UB) \<and>
    (MAXPATHLEN < length s \<longrightarrow> length s \<le> 2 * MAXPATHLEN \<longrightarrow> (\<exists>b. decode s buf = Ret (None, b)))"
proof -
  have eq: "decode_loop s b = UB" if "BSL \<notin> set s" "length s = length b" for s b
    using that by (induction s arbitrary: b) (auto simp: Suc_length_conv)
  have gt: "\<exists>b'. decode_loop s b = Ret (b', False)" if "BSL \<notin> set s" "length b < length s" for s b
    using that
  proof (induction s arbitrary: b)
    case (Cons c s)
    show ?case
    proof (cases b)
      case (Cons d b')
      with Cons.IH [of b'] Cons.prems show ?thesis by auto
    qed simp
  qed simp
  show ?thesis using eq [of s buf] gt [of s buf] assms by (auto simp: decode_def)
qed

theorem decode_too_long_witness:
  "decode (replicate MAXPATHLEN (CHR ''a'')) decode_buf0 = UB"
  using decode_too_long [of "replicate MAXPATHLEN (CHR ''a'')" decode_buf0] by simp

text \<open>A line of words in which every blank is escaped, separated by blanks, is split by
  \<open>acav_parse\<close> into exactly these words, however long the line, and the vector has room for
  the closing null pointer.\<close>

theorem acav_parse_words:
  assumes "layout_ok False ws trail" "0 < argc"
  shows "\<exists>k b. acav_parse argc (layout ws trail) = Ret (k, b, map snd ws) \<and> length ws < k"
proof -
  obtain k b where *: "acav_parse argc (layout ws trail) = Ret (k, b, map snd ws)"
    using acav_parse_layout [OF assms] by blast
  moreover have "length (map snd ws) < k"
    using acav_parse_defined [OF assms(2), of "layout ws trail"] * by auto
  ultimately show ?thesis by simp
qed

theorem acav_parse_words_witness:
  "\<exists>k b. acav_parse 10 ''f ./a 0644'' = Ret (k, b, [''f'', ''./a'', ''0644'']) \<and> 3 < k"
  using acav_parse_words [of "[('''', ''f''), ('' '', ''./a''), ('' '', ''0644'')]" "''''" 10]
  by (simp add: layout_ok_def layout_def blank_def eval_nat_numeral)

text \<open>On C strings \<open>pathcmp\<close> is a total order: zero only for equal strings, opposite signs
  when the arguments are swapped, and transitive.\<close>

theorem path_order_total:
  assumes "c_string a" "c_string b" "c_string c"
  shows "(pathcmp a b = 0 \<longleftrightarrow> a = b) \<and> (pathcmp a b < 0 \<longleftrightarrow> 0 < pathcmp b a) \<and>
    (pathcmp a b < 0 \<longrightarrow> pathcmp b c < 0 \<longrightarrow> pathcmp a c < 0)"
  using pathcmp_0_iff [OF assms(1,2)] pcmp.cmp_flip [OF assms(1,2)] pcmp.cmp_less_trans [OF assms] by blast

theorem path_order_total_witness: "pathcmp ''./a/b'' ''./a.b'' < 0 \<and> pathcmp ''./a'' ''./a/b'' < 0 \<and> pathcmp ''./a'' ''./a.b'' < 0"
  using path_order_total [of "''./a''" "''./a/b''" "''./a.b''"] by code_simp

text \<open>C37. In the path order a directory comes directly before its contents: it is less than
  everything below it, and every path between two paths of the directory belongs to it.\<close>

theorem directory_is_contiguous:
  assumes "c_string d" "c_string a" "c_string b" "c_string c"
  shows "((\<exists>r. a = d @ SLASH # r) \<longrightarrow> pathcmp d a < 0) \<and>
    (pathcmp a b \<le> 0 \<longrightarrow> pathcmp b c \<le> 0 \<longrightarrow> ischild a (Some d) \<longrightarrow> ischild c (Some d) \<longrightarrow> ischild b (Some d))"
  using children_contiguous [OF assms] parent_before_child [OF assms(1)] assms(2) by auto

theorem directory_is_contiguous_witness:
  "ischild ''./d/x/y'' (Some ''./d'')"
proof -
  have "pathcmp ''./d/x'' ''./d/x/y'' \<le> 0" "pathcmp ''./d/x/y'' ''./d/z'' \<le> 0"
    "ischild ''./d/x'' (Some ''./d'')" "ischild ''./d/z'' (Some ''./d'')" by code_simp+
  moreover have "c_string ''./d''" "c_string ''./d/x''" "c_string ''./d/x/y''" "c_string ''./d/z''" by code_simp+
  ultimately show ?thesis using directory_is_contiguous by blast
qed



text \<open>The loop over a bracket stops at the first character that differs: \<open>[abc]\<close> accepts every
  character, and \<open>[a]\<close> every character but \<open>a\<close>.\<close>

theorem wildcard_bracket_any:
  assumes "CHR '']'' \<notin> set cs"
  shows "wildcard (CHR ''['' # cs @ CHR '']'' # w) (Some (d # s)) True =
    (if set cs \<subseteq> {d} then Ret False else wildcard w (Some s) True)"
  using wildcard_bracket [OF assms] .

theorem wildcard_bracket_any_witness:
  "wildcard ''[ab]'' (Some ''x'') True = Ret True \<and> wildcard ''[x]'' (Some ''x'') True = Ret False"
  using wildcard_bracket_any [of "''ab''" "''''" "CHR ''x''" "''''"]
    wildcard_bracket_any [of "''x''" "''''" "CHR ''x''" "''''"]
  by (simp add: wildcard_eqs rd_def)

text \<open>C39. \<open>base64_e\<close> with its tables is the standard encoding into 24-bit groups, of known length,
  and \<open>base64_d\<close> gives the bytes back, followed by zeros up to a multiple of three.\<close>

theorem base64_standard:
  "base64_e d = base64_ref d \<and> length (base64_e d) = (length d + 2) div 3 * 4 \<and> base64_d (base64_e d) = Ret (pad3 d)"
  by (simp add: base64_e_ref [symmetric] length_base64_e base64_d_base64_e)

text \<open>C40. The linked list implements a sorted collection of paths: \<open>list_insert\<close> keeps the links
  whole and the order ascending, adds exactly the new path, and \<open>list_check\<close> answers membership.\<close>

theorem list_insert_refines:
  assumes "repr l as ps" "pcmp.ascending ps" "\<forall>q \<in> set ps. c_string q" "c_string p" "length p < MAXPATHLEN"
  shows "\<exists>l' as' ps'. list_insert l p = Ret (0, l') \<and> repr l' as' ps' \<and> pcmp.ascending ps' \<and>
    mset ps' = add_mset p (mset ps) \<and> (\<forall>q. c_string q \<longrightarrow> list_check l' q = Ret (q = p \<or> q \<in> set ps))"
proof -
  obtain l' as' where l': "list_insert l p = Ret (0, l')" "repr l' as' (pcmp.insert_after p ps)"
    using ptr_set.insert_rep [OF _ assms(5)] assms(1) by blast
  have "mset (pcmp.insert_after p ps) = add_mset p (mset ps)" by (induction ps) auto
  moreover have "list_check l' q = Ret (q = p \<or> q \<in> set ps)" if "c_string q" for q
  proof -
    have "(\<exists>r \<in> insert p (set ps). pathcmp r q = 0) \<longleftrightarrow> q = p \<or> q \<in> set ps"
      using pathcmp_0_iff [OF _ that] assms(3,4) by (metis insert_iff)
    then show ?thesis using list_check_repr [OF l'(2), of q] by simp
  qed
  ultimately show ?thesis
    using l' pcmp.ascending_insert_after [OF assms(4,3,2)] by blast
qed

theorem list_insert_refines_witness:
  "\<exists>l' as' ps'. list_insert list_new ''./a'' = Ret (0, l') \<and> repr l' as' ps' \<and> mset ps' = {#''./a''#}"
  using list_insert_refines [of list_new "[]" "[]" "''./a''"] repr_new by (auto simp: MAXPATHLEN_def)

text \<open>\<open>list_remove\<close> goes on with a node it has freed: it is undefined for every path that is in the
  list, and leaves the list alone for every other.\<close>

theorem list_remove_frees_first:
  assumes "repr l as ps"
  shows "list_remove l p = (if \<exists>q \<in> set ps. pathcmp q p = 0 then UB else Ret (0, l))"
  using list_remove_repr [OF assms] .

theorem list_remove_frees_first_witness: "list_remove list_new ''./a'' = Ret (0, list_new)"
  using list_remove_frees_first [OF repr_new] by simp

text \<open>\<open>mkdirs\<close> only calls \<open>mkdir\<close>, with mode 0777, and only for directories above the path.\<close>

theorem mkdirs_above:
  assumes "mkdirs os path h = (r, h')"
  shows "\<exists>es. h' = h @ es \<and> (\<forall>c e. Did c e \<in> set es \<longrightarrow> (\<exists>p q. c = Mkdir p 0x1FF \<and> path = p @ SLASH # q))"
  using mkdirs_grows [OF assms, of "\<lambda>c. \<exists>p q. c = Mkdir p 0x1FF \<and> path = p @ SLASH # q"]
  by (auto simp: grows_def)

theorem mkdirs_above_witness:
  "\<exists>es. snd (mkdirs (sample_os '''') ''tmp/file/x'' []) = [] @ es \<and>
     (\<forall>c e. Did c e \<in> set es \<longrightarrow> (\<exists>p q. c = Mkdir p 0x1FF \<and> ''tmp/file/x'' = p @ SLASH # q))"
  by (rule mkdirs_above [OF surjective_pairing])


end
